(* ===== verification/Go_Prelude.thy ===== *)
theory Go_Prelude
  imports Main "HOL-Library.AList" "HOL-Library.Sublist"
begin

text \<open>
  Shared vocabulary of the development: Go maps as association lists with their
  contract, nanosecond time and 64-bit wrap-around, outcomes of fallible system calls,
  and the list lemmas the components use.
\<close>

named_theorems crystal_defs "definitions unfolded in component proofs"

section \<open>Scalar types\<close>

text \<open>
  Go's \<^verbatim>\<open>byte\<close> is a \<^typ>\<open>char\<close>, so a Go string and a byte slice are both char lists.
  \<^verbatim>\<open>time.Time\<close> and \<^verbatim>\<open>time.Duration\<close> are counts of nanoseconds.  Log indices, terms and
  node identifiers (Go \<^verbatim>\<open>int\<close>) are unbounded integers.
\<close>

type_synonym bytes = "char list"
type_synonym nanos = int

definition wrap64 :: "int \<Rightarrow> int" where
  "wrap64 x = (x + 2 ^ 63) mod 2 ^ 64 - 2 ^ 63"

lemma wrap64_id: "- (2 ^ 63) \<le> x \<Longrightarrow> x < 2 ^ 63 \<Longrightarrow> wrap64 x = x"
  by (simp add: wrap64_def)

lemma wrap64_range: "- (2 ^ 63) \<le> wrap64 x \<and> wrap64 x < 2 ^ 63"
proof -
  have "0 \<le> (x + 2 ^ 63) mod 2 ^ 64" "(x + 2 ^ 63) mod 2 ^ 64 < (2 ^ 64 :: int)"
    by simp_all
  then show ?thesis by (simp add: wrap64_def)
qed

section \<open>Go maps\<close>

text \<open>
  A Go map is a finite map whose iteration order is unspecified.  It is an association
  list with distinct keys; every order is allowed, and the lemmas that matter are about
  its lookup function and its key set only.  A nil map behaves as the empty one for
  every operation the program uses.
\<close>

type_synonym ('k, 'v) gomap = "('k \<times> 'v) list"

definition mwf :: "('k, 'v) gomap \<Rightarrow> bool" where
  "mwf m \<longleftrightarrow> distinct (map fst m)"

definition mget :: "('k, 'v) gomap \<Rightarrow> 'k \<Rightarrow> 'v option" where
  "mget m k = map_of m k"

definition mget0 :: "'v \<Rightarrow> ('k, 'v) gomap \<Rightarrow> 'k \<Rightarrow> 'v" where
  "mget0 z m k = (case map_of m k of None \<Rightarrow> z | Some v \<Rightarrow> v)"

definition mput :: "'k \<Rightarrow> 'v \<Rightarrow> ('k, 'v) gomap \<Rightarrow> ('k, 'v) gomap" where
  "mput k v m = AList.update k v m"

definition mdel :: "'k \<Rightarrow> ('k, 'v) gomap \<Rightarrow> ('k, 'v) gomap" where
  "mdel k m = AList.delete k m"

definition mkeys :: "('k, 'v) gomap \<Rightarrow> 'k list" where
  "mkeys m = map fst m"

text \<open>What the program relies on of a map, and what follows from it for every client.\<close>

locale go_map =
  fixes lookup :: "'m \<Rightarrow> 'k \<Rightarrow> 'v option"
    and put :: "'k \<Rightarrow> 'v \<Rightarrow> 'm \<Rightarrow> 'm"
    and del :: "'k \<Rightarrow> 'm \<Rightarrow> 'm"
    and keys :: "'m \<Rightarrow> 'k list"
    and wf :: "'m \<Rightarrow> bool"
  assumes lookup_put: "lookup (put k v m) = (lookup m)(k \<mapsto> v)"
    and lookup_del: "wf m \<Longrightarrow> lookup (del k m) = (lookup m)(k := None)"
    and keys_dom: "set (keys m) = dom (lookup m)"
    and distinct_keys: "wf m \<Longrightarrow> distinct (keys m)"
    and wf_put: "wf m \<Longrightarrow> wf (put k v m)"
    and wf_del: "wf m \<Longrightarrow> wf (del k m)"
begin

lemma wf_put_all: "wf m \<Longrightarrow> wf (fold (\<lambda>(k, v). put k v) kvs m)"
  by (induction kvs arbitrary: m) (auto simp: wf_put)

lemma lookup_put_all:
  "lookup (fold (\<lambda>(k, v). put k v) kvs m) = lookup m ++ map_of (rev kvs)"
  by (induction kvs arbitrary: m) (auto simp: lookup_put map_add_def fun_eq_iff split: option.splits)

lemma wf_del_all: "wf m \<Longrightarrow> wf (fold del ks m)"
  by (induction ks arbitrary: m) (auto simp: wf_del)

lemma lookup_del_all:
  "wf m \<Longrightarrow> lookup (fold del ks m) = (lookup m) |` (- set ks)"
  by (induction ks arbitrary: m)
     (auto simp: wf_del lookup_del fun_eq_iff restrict_map_def)

lemma length_keys: "wf m \<Longrightarrow> length (keys m) = card (dom (lookup m))"
  by (metis distinct_card distinct_keys keys_dom)

lemma count_keys: "wf m \<Longrightarrow> length (filter P (keys m)) = card {k \<in> dom (lookup m). P k}"
proof -
  assume "wf m"
  then have "distinct (filter P (keys m))" by (simp add: distinct_keys)
  then have "length (filter P (keys m)) = card (set (filter P (keys m)))"
    by (rule distinct_card [symmetric])
  also have "set (filter P (keys m)) = {k \<in> dom (lookup m). P k}"
    by (simp add: keys_dom)
  finally show ?thesis .
qed

end

interpretation gm: go_map mget mput mdel mkeys mwf
proof unfold_locales
  fix k :: 'k and v :: 'v and m :: "('k, 'v) gomap"
  show "mget (mput k v m) = (mget m)(k \<mapsto> v)"
    by (simp add: mget_def mput_def fun_eq_iff update_conv')
  show "set (mkeys m) = dom (mget m)"
    using dom_map_of_conv_image_fst [of m] by (simp add: mkeys_def mget_def dom_def)
  assume "mwf m"
  then show "mget (mdel k m) = (mget m)(k := None)"
    and "distinct (mkeys m)" and "mwf (mput k v m)" and "mwf (mdel k m)"
    by (simp_all add: mwf_def mget_def mdel_def mkeys_def mput_def fun_eq_iff delete_conv'
        distinct_update distinct_delete)
qed

lemma mget0_mget: "mget0 z m k = (case mget m k of None \<Rightarrow> z | Some v \<Rightarrow> v)"
  by (simp add: mget0_def mget_def)

lemma mget0_mput [simp]: "mget0 z (mput k v m) k' = (if k' = k then v else mget0 z m k')"
  by (simp add: mget0_mget gm.lookup_put)

lemma mget0_Nil [simp]: "mget0 z [] k = z"
  by (simp add: mget0_def)

lemma mget_Nil [simp]: "mget [] k = None"
  by (simp add: mget_def)

lemma mget_empty: "mget [] = Map.empty"
  by (simp add: fun_eq_iff)

lemma mwf_Nil [simp]: "mwf []"
  by (simp add: mwf_def)

lemma mkeys_Nil [simp]: "mkeys [] = []"
  by (simp add: mkeys_def)

lemma length_mkeys [simp]: "length (mkeys m) = length m"
  by (simp add: mkeys_def)

lemma mput_new: "k \<notin> set (mkeys m) \<Longrightarrow> mput k v m = m @ [(k, v)]"
  by (induction m) (auto simp: mput_def mkeys_def)

lemma fold_mput_append:
  "distinct (map fst (acc @ m)) \<Longrightarrow> fold (\<lambda>(k, v). mput k v) m acc = acc @ m"
proof (induction m arbitrary: acc)
  case (Cons kv m)
  obtain k v where kv: "kv = (k, v)" by (cases kv)
  have "k \<notin> set (mkeys acc)" using Cons.prems kv by (auto simp: mkeys_def)
  with Cons kv show ?case by (simp add: mput_new)
qed simp

lemma mget_None_iff: "mget m k = None \<longleftrightarrow> k \<notin> set (mkeys m)"
  using gm.keys_dom [of m] by (metis domIff)

lemma mget0_map_Pair: "mget0 z (map (\<lambda>k. (k, f k)) ks) k = (if k \<in> set ks then f k else z)"
  by (induction ks) (auto simp: mget0_def)

lemma mwf_members: "mwf m \<Longrightarrow> (k, v) \<in> set m \<longleftrightarrow> mget m k = Some v"
  by (simp add: mwf_def mget_def)

lemma length_dom: "mwf m \<Longrightarrow> length m = card (dom (mget m))"
  using gm.length_keys [of m] by (simp add: mkeys_def)

lemma fold_mput_const:
  "mwf m \<Longrightarrow> mwf (fold (\<lambda>p. mput p k) ps m)"
  "mget (fold (\<lambda>p. mput p k) ps m) p = (if p \<in> set ps then Some k else mget m p)"
  by (induction ps arbitrary: m) (auto simp: gm.wf_put gm.lookup_put)

section \<open>Outcomes of system calls\<close>

text \<open>
  A system call succeeds, or fails; a failing write may first transfer some bytes.  The
  outcomes a run meets are a script the state carries: a call takes the head, and an
  empty script means success.  Theorems quantify over every script, hence over every
  placement of faults.
\<close>

datatype outcome = IoOk | IoFail nat

fun next_outcome :: "outcome list \<Rightarrow> outcome" where
  "next_outcome [] = IoOk"
| "next_outcome (x # xs) = x"

section \<open>Decimal rendering\<close>

text \<open>\<^verbatim>\<open>fmt.Sprintf("%d", n)\<close>.\<close>

fun nat_dec :: "nat \<Rightarrow> string" where
  "nat_dec n = (if n < 10 then [char_of (48 + n)] else nat_dec (n div 10) @ [char_of (48 + n mod 10)])"

declare nat_dec.simps [simp del]

definition int_dec :: "int \<Rightarrow> string" where
  "int_dec i = (if i < 0 then CHR 0x2D # nat_dec (nat (- i)) else nat_dec (nat i))"

section \<open>Runs of an operation\<close>

text \<open>An operation applied along a list of inputs, with the results; and the results that are values.\<close>

fun runOps :: "('c \<Rightarrow> 's \<Rightarrow> 'r \<times> 's) \<Rightarrow> 'c list \<Rightarrow> 's \<Rightarrow> 'r list \<times> 's" where
  "runOps f [] s = ([], s)"
| "runOps f (c # cs) s = (case f c s of (r, s) \<Rightarrow> (case runOps f cs s of (rs, s) \<Rightarrow> (r # rs, s)))"

fun somes :: "'a option list \<Rightarrow> 'a list" where
  "somes [] = []"
| "somes (None # xs) = somes xs"
| "somes (Some x # xs) = x # somes xs"

lemma runOps_ConsE:
  assumes "runOps f (c # cs) s = (rs, s')"
  obtains r s1 rs1 where "f c s = (r, s1)" "runOps f cs s1 = (rs1, s')" "rs = r # rs1"
  using assms by (auto split: prod.splits)

section \<open>Lists\<close>

lemma nth_le_iff_count:
  fixes ys :: "'a::linorder list"
  assumes "sorted_wrt (\<ge>) ys" and "k < length ys"
  shows "N \<le> ys ! k \<longleftrightarrow> k < length (filter (\<lambda>y. N \<le> y) ys)"
  using assms
proof (induction ys arbitrary: k)
  case (Cons y ys)
  show ?case
  proof (cases "N \<le> y")
    case True
    with Cons show ?thesis by (cases k) auto
  next
    case False
    with Cons.prems have "filter (\<lambda>y. N \<le> y) ys = []"
      by (auto simp: filter_empty_conv)
    with False Cons.prems show ?thesis by (cases k) (auto dest!: nth_mem)
  qed
qed simp

lemma map_filter_upt_ge:
  "k \<le> n \<Longrightarrow> filter (\<lambda>i. k \<le> i) [0..<n] = [k..<n]"
proof (induction n)
  case (Suc n)
  then show ?case by (cases "k = Suc n") auto
qed simp

lemma prefix_append_cases:
  "prefix c (a @ b) \<Longrightarrow> length a \<le> length c \<Longrightarrow> \<exists>d. c = a @ d \<and> prefix d b"
  by (metis prefix_append prefix_length_prefix prefixE same_prefix_prefix prefixI)

lemma prefix_full: "prefix c b \<Longrightarrow> length b \<le> length c \<Longrightarrow> c = b"
  by (auto simp: prefix_def)

end
