(* ===== verification/Raft_Types.thy ===== *)
theory Raft_Types
  imports Go_Prelude "HOL-Library.Word"
begin

text \<open>
  The data of \<^verbatim>\<open>internal/raft/types.go\<close>: roles, log entries, commands, the persistent
  state and the request and response of each RPC.  Fields keep the source's names; where
  several structs share one, the fields of an RPC carry a prefix for the RPC.
\<close>

datatype NodeRole = Leader | Follower | Candidate

record LogEntry =
  Index :: int
  Term :: int
  Command :: bytes

text \<open>\<^verbatim>\<open>CommandOp\<close> is a string type, so an entry may carry an operation no constant names.\<close>

type_synonym CommandOp = string

definition OpSet :: CommandOp where "OpSet = ''set''"
definition OpDelete :: CommandOp where "OpDelete = ''delete''"
definition OpNoop :: CommandOp where "OpNoop = ''noop''"

record Command =
  Op :: CommandOp
  Key :: string
  Value :: string
  ClientID :: string
  Seq :: "64 word"
  Timestamp :: int

record PersistentState =
  CurrentTerm :: int
  VotedFor :: int

record RequestVoteRequest =
  rv_Term :: int
  rv_CandidateID :: int
  rv_LastLogIndex :: int
  rv_LastLogTerm :: int

record RequestVoteResponse =
  rvr_Term :: int
  rvr_VoteGranted :: bool

record PreVoteRequest =
  pv_Term :: int
  pv_CandidateID :: int
  pv_LastLogIndex :: int
  pv_LastLogTerm :: int

record PreVoteResponse =
  pvr_Term :: int
  pvr_VoteGranted :: bool

record InstallSnapshotRequest =
  is_Term :: int
  is_LeaderID :: int
  is_LastIncludedIndex :: int
  is_LastIncludedTerm :: int
  is_Data :: bytes

record InstallSnapshotResponse =
  isr_Term :: int
  isr_Success :: bool

record ReadIndexRequest =
  ri_FromNodeID :: int

record ReadIndexResponse =
  rir_Term :: int
  rir_ReadIndex :: int
  rir_Success :: bool

record AppendEntriesRequest =
  ae_Term :: int
  ae_LeaderID :: int
  ae_PrevLogIndex :: int
  ae_PrevLogTerm :: int
  ae_Entries :: "LogEntry list"
  ae_LeaderCommit :: int

record AppendEntriesResponse =
  aer_Term :: int
  aer_Success :: bool
  aer_MatchIndex :: int
  aer_ConflictTerm :: int
  aer_ConflictIndex :: int

text \<open>The zero value Go returns beside a false \<^verbatim>\<open>ok\<close> or an error.\<close>

definition zero_entry :: LogEntry where
  "zero_entry = \<lparr>Index = 0, Term = 0, Command = []\<rparr>"

lemma zero_entry_sel [simp]: "Index zero_entry = 0" "Term zero_entry = 0" "Command zero_entry = []"
  by (simp_all add: zero_entry_def)

end
