(* ===== verification/Raft_Config.thy ===== *)
theory Raft_Config
  imports Raft_Types
begin

text \<open>
  Cluster membership, \<^verbatim>\<open>internal/raft/configuration.go\<close>: simple and joint
  configurations, the majority test every vote goes through, the commit frontier
  \<^verbatim>\<open>QuorumIndex\<close>, and the transitions in and out of a joint configuration.  The lemmas
  show that any two quorums meet, also across a transition, and that the frontier is
  the greatest index a majority of every active membership holds.
\<close>

section \<open>Definitions\<close>

record Configuration =
  Voters :: "(int, string) gomap"
  OldVoters :: "(int, string) gomap"
  Learners :: "(int, string) gomap"

definition copyMembers :: "(int, string) gomap \<Rightarrow> (int, string) gomap" where
  "copyMembers m = fold (\<lambda>(k, v). mput k v) m []"

definition NewConfiguration :: "(int, string) gomap \<Rightarrow> Configuration" where
  "NewConfiguration voters = \<lparr>Voters = copyMembers voters, OldVoters = [], Learners = []\<rparr>"

definition IsJoint :: "Configuration \<Rightarrow> bool" where
  "IsJoint c \<longleftrightarrow> length (OldVoters c) > 0"

definition IsVoter :: "Configuration \<Rightarrow> int \<Rightarrow> bool" where
  "IsVoter c i \<longleftrightarrow> (if mget (Voters c) i \<noteq> None then True else mget (OldVoters c) i \<noteq> None)"

definition IsMember :: "Configuration \<Rightarrow> int \<Rightarrow> bool" where
  "IsMember c i \<longleftrightarrow> (if IsVoter c i then True else mget (Learners c) i \<noteq> None)"

definition Members :: "Configuration \<Rightarrow> (int, string) gomap" where
  "Members c = fold (\<lambda>s out. fold (\<lambda>(i, addr). mput i addr) s out)
     [OldVoters c, Voters c, Learners c] []"

definition Peers :: "Configuration \<Rightarrow> int \<Rightarrow> (int, string) gomap" where
  "Peers c self = mdel self (Members c)"

definition hasMajority :: "(int, string) gomap \<Rightarrow> (int, bool) gomap \<Rightarrow> bool" where
  "hasMajority members have =
     (if length members = 0 then True
      else length (filter (\<lambda>i. mget0 False have i) (mkeys members)) > length members div 2)"

definition HasQuorum :: "Configuration \<Rightarrow> (int, bool) gomap \<Rightarrow> bool" where
  "HasQuorum c have =
     (if \<not> hasMajority (Voters c) have then False
      else if IsJoint c \<and> \<not> hasMajority (OldVoters c) have then False
      else True)"

definition majorityIndex :: "(int, string) gomap \<Rightarrow> (int, int) gomap \<Rightarrow> int" where
  "majorityIndex members matchIndex =
     (if length members = 0 then 0
      else let indices = rev (sort (map (\<lambda>i. mget0 0 matchIndex i) (mkeys members)))
           in indices ! (length indices div 2))"

definition QuorumIndex :: "Configuration \<Rightarrow> (int, int) gomap \<Rightarrow> int" where
  "QuorumIndex c matchIndex =
     (let idx = majorityIndex (Voters c) matchIndex in
      if \<not> IsJoint c then idx
      else let old = majorityIndex (OldVoters c) matchIndex in
           if old < idx then old else idx)"

definition EnterJoint ::
  "Configuration \<Rightarrow> (int, string) gomap \<Rightarrow> (int, string) gomap \<Rightarrow> Configuration" where
  "EnterJoint c target learners =
     (let nxt = \<lparr>Voters = copyMembers target, OldVoters = copyMembers (Voters c),
                 Learners = copyMembers learners\<rparr>
      in nxt\<lparr>Learners := fold mdel (mkeys (Voters nxt)) (Learners nxt)\<rparr>)"

definition LeaveJoint :: "Configuration \<Rightarrow> Configuration" where
  "LeaveJoint c = \<lparr>Voters = copyMembers (Voters c), OldVoters = [],
                   Learners = copyMembers (Learners c)\<rparr>"

definition Clone :: "Configuration \<Rightarrow> Configuration" where
  "Clone c = \<lparr>Voters = copyMembers (Voters c), OldVoters = copyMembers (OldVoters c),
              Learners = copyMembers (Learners c)\<rparr>"

datatype config_error =
    NoVoters
  | VoterIdNotPositive int
  | VoterNoAddress int
  | VoterAndLearner int

fun validateVoters :: "(int \<times> string) list \<Rightarrow> config_error option" where
  "validateVoters [] = None"
| "validateVoters ((i, addr) # rest) =
     (if i \<le> 0 then Some (VoterIdNotPositive i)
      else if addr = [] then Some (VoterNoAddress i)
      else validateVoters rest)"

fun validateLearners :: "(int, string) gomap \<Rightarrow> int list \<Rightarrow> config_error option" where
  "validateLearners voters [] = None"
| "validateLearners voters (i # rest) =
     (if mget voters i \<noteq> None then Some (VoterAndLearner i) else validateLearners voters rest)"

text \<open>The result \<^const>\<open>None\<close> is Go's nil error.\<close>

definition Validate :: "Configuration \<Rightarrow> config_error option" where
  "Validate c =
     (if length (Voters c) = 0 then Some NoVoters
      else case validateVoters (Voters c) of
             Some e \<Rightarrow> Some e
           | None \<Rightarrow> validateLearners (Voters c) (mkeys (Learners c)))"

fun joinStrings :: "string \<Rightarrow> string list \<Rightarrow> string" where
  "joinStrings sep [] = []"
| "joinStrings sep [x] = x"
| "joinStrings sep (x # xs) = x @ sep @ joinStrings sep xs"

definition renderMembers :: "(int, string) gomap \<Rightarrow> string" where
  "renderMembers m = ''['' @ joinStrings '' '' (map int_dec (sort (mkeys m))) @ '']''"

definition String :: "Configuration \<Rightarrow> string" where
  "String c = ''voters='' @ renderMembers (Voters c)
     @ (if IsJoint c then '' old='' @ renderMembers (OldVoters c) else [])
     @ (if length (Learners c) > 0 then '' learners='' @ renderMembers (Learners c) else [])"

section \<open>Well-formedness and copies\<close>

text \<open>Every membership map is a map, and there is at least one voter.\<close>

definition cfg_wf :: "Configuration \<Rightarrow> bool" where
  "cfg_wf c \<longleftrightarrow> mwf (Voters c) \<and> mwf (OldVoters c) \<and> mwf (Learners c)"

definition cfg_ok :: "Configuration \<Rightarrow> bool" where
  "cfg_ok c \<longleftrightarrow> cfg_wf c \<and> Voters c \<noteq> []"

lemma copyMembers_id [simp]: "mwf m \<Longrightarrow> copyMembers m = m"
  unfolding copyMembers_def mwf_def using fold_mput_append [of "[]" m] by simp


lemma cfg_wf_ops [simp]:
  "mwf voters \<Longrightarrow> cfg_wf (NewConfiguration voters)"
  "cfg_wf c \<Longrightarrow> mwf target \<Longrightarrow> mwf learners \<Longrightarrow> cfg_wf (EnterJoint c target learners)"
  "cfg_wf c \<Longrightarrow> cfg_wf (LeaveJoint c)"
  by (simp_all add: cfg_wf_def NewConfiguration_def EnterJoint_def LeaveJoint_def Let_def gm.wf_del_all)

lemma Clone_id [simp]: "cfg_wf c \<Longrightarrow> Clone c = c"
  by (simp add: Clone_def cfg_wf_def)

section \<open>Members\<close>

lemma mwf_Members [simp]: "mwf (Members c)"
  by (simp add: Members_def gm.wf_put_all)

lemma mget_Members:
  "mget (Members c) = map_of (rev (OldVoters c)) ++ map_of (rev (Voters c)) ++ map_of (rev (Learners c))"
  by (simp add: Members_def gm.lookup_put_all mget_empty)

lemma dom_Members: "i \<in> dom (mget (Members c)) \<longleftrightarrow> IsMember c i"
  by (auto simp: mget_Members IsMember_def IsVoter_def mget_def dom_map_of_conv_image_fst
      map_of_eq_None_iff simp del: map_add_assoc)

lemma dom_Peers: "i \<in> dom (mget (Peers c self)) \<longleftrightarrow> IsMember c i \<and> i \<noteq> self"
  using dom_Members [of i c] by (auto simp: Peers_def gm.lookup_del dom_def split: if_splits)

lemma mwf_Peers [simp]: "mwf (Peers c self)"
  by (simp add: Peers_def gm.wf_del)

section \<open>Quorums\<close>

text \<open>
  What an agreement needs of a family of quorums: any two of one configuration meet, a
  superset of a quorum is one, and quorums of two configurations one transition apart
  meet.  The first client lemma is the core of election safety: voters that vote once
  cannot elect two candidates.
\<close>

locale quorum_family =
  fixes valid :: "'c \<Rightarrow> bool"
    and quorum :: "'c \<Rightarrow> 'p set \<Rightarrow> bool"
  assumes quorum_meet: "valid c \<Longrightarrow> quorum c A \<Longrightarrow> quorum c B \<Longrightarrow> A \<inter> B \<noteq> {}"
    and quorum_mono: "quorum c A \<Longrightarrow> A \<subseteq> B \<Longrightarrow> quorum c B"
begin

lemma quorum_nonempty: "valid c \<Longrightarrow> quorum c A \<Longrightarrow> A \<noteq> {}"
  using quorum_meet by blast

lemma single_vote_agree:
  assumes "valid c" and "quorum c {v. P v x}" and "quorum c {v. P v y}"
    and "\<And>v x y. P v x \<Longrightarrow> P v y \<Longrightarrow> x = y"
  shows "x = y"
  using quorum_meet [OF assms(1-3)] assms(4) by blast

end

locale quorum_transition = quorum_family +
  fixes trans_step :: "'c \<Rightarrow> 'c \<Rightarrow> bool"
  assumes step_meet: "valid c \<Longrightarrow> valid d \<Longrightarrow> trans_step c d \<Longrightarrow>
    quorum c A \<Longrightarrow> quorum d B \<Longrightarrow> A \<inter> B \<noteq> {}"
begin

lemma transition_vote_agree:
  assumes "valid c" and "valid d" and "trans_step c d"
    and "quorum c {v. P v x}" and "quorum d {v. P v y}"
    and "\<And>v x y. P v x \<Longrightarrow> P v y \<Longrightarrow> x = y"
  shows "x = y"
  using step_meet [OF assms(1-5)] assms(6) by blast

end

definition have_set :: "(int, bool) gomap \<Rightarrow> int set" where
  "have_set have = {i. mget0 False have i}"

definition majority_of :: "(int, string) gomap \<Rightarrow> int set \<Rightarrow> bool" where
  "majority_of m A \<longleftrightarrow> m = [] \<or> length m div 2 < card (dom (mget m) \<inter> A)"

definition quorum_of :: "Configuration \<Rightarrow> int set \<Rightarrow> bool" where
  "quorum_of c A \<longleftrightarrow> majority_of (Voters c) A \<and> (IsJoint c \<longrightarrow> majority_of (OldVoters c) A)"

definition next_config :: "Configuration \<Rightarrow> Configuration \<Rightarrow> bool" where
  "next_config c d \<longleftrightarrow> (\<exists>target learners. d = EnterJoint c target learners) \<or> d = LeaveJoint c"

lemma hasMajority_iff: "mwf m \<Longrightarrow> hasMajority m have \<longleftrightarrow> majority_of m (have_set have)"
  by (simp add: hasMajority_def majority_of_def have_set_def gm.count_keys Int_def)

lemma HasQuorum_iff: "cfg_wf c \<Longrightarrow> HasQuorum c have \<longleftrightarrow> quorum_of c (have_set have)"
  by (auto simp: HasQuorum_def quorum_of_def cfg_wf_def hasMajority_iff)

lemma finite_dom_mget [simp]: "finite (dom (mget m))"
  by (metis List.finite_set gm.keys_dom)

lemma majority_meet:
  assumes "mwf m" and "m \<noteq> []" and "majority_of m A" and "majority_of m B"
  shows "A \<inter> B \<noteq> {}"
proof
  assume "A \<inter> B = {}"
  let ?D = "dom (mget m)"
  have "card (?D \<inter> A) + card (?D \<inter> B) = card ((?D \<inter> A) \<union> (?D \<inter> B))"
    using \<open>A \<inter> B = {}\<close> by (subst card_Un_disjoint) auto
  also have "\<dots> \<le> card ?D" by (rule card_mono) auto
  also have "card ?D = length m" using gm.length_keys [OF assms(1)] by simp
  finally show False using assms(2-4) by (auto simp: majority_of_def)
qed

lemma majority_mono: "majority_of m A \<Longrightarrow> A \<subseteq> B \<Longrightarrow> majority_of m B"
  unfolding majority_of_def
  by (meson Int_mono card_mono dual_order.refl finite_Int finite_dom_mget less_le_trans)

interpretation cq: quorum_transition cfg_ok quorum_of next_config
proof unfold_locales
  fix c d A B
  assume c: "cfg_ok c" and A: "quorum_of c A"
  then have v: "mwf (Voters c)" "Voters c \<noteq> []" "majority_of (Voters c) A"
    by (auto simp: cfg_ok_def cfg_wf_def quorum_of_def)
  show "quorum_of c B \<Longrightarrow> A \<inter> B \<noteq> {}"
    using v majority_meet [of "Voters c" A B] by (simp add: quorum_of_def)
  show "cfg_ok d \<Longrightarrow> next_config c d \<Longrightarrow> quorum_of d B \<Longrightarrow> A \<inter> B \<noteq> {}"
    using v majority_meet [of "Voters c" A B]
    by (auto simp: next_config_def quorum_of_def EnterJoint_def LeaveJoint_def IsJoint_def Let_def)
next
  fix c A B
  show "quorum_of c A \<Longrightarrow> A \<subseteq> B \<Longrightarrow> quorum_of c B"
    by (auto simp: quorum_of_def intro: majority_mono)
qed

section \<open>The commit frontier\<close>

lemma majorityIndex_ge_iff:
  assumes "m \<noteq> []"
  shows "N \<le> majorityIndex m mi \<longleftrightarrow>
    length m div 2 < length (filter (\<lambda>i. N \<le> mget0 0 mi i) (mkeys m))"
proof -
  let ?xs = "map (mget0 0 mi) (mkeys m)"
  let ?ys = "rev (sort ?xs)"
  have "sorted_wrt (\<ge>) ?ys" by (simp add: sorted_wrt_rev)
  moreover have "length ?ys div 2 < length ?ys" using assms by simp
  ultimately have "N \<le> ?ys ! (length ?ys div 2) \<longleftrightarrow>
      length ?ys div 2 < length (filter (\<lambda>y. N \<le> y) ?ys)"
    by (rule nth_le_iff_count)
  also have "length (filter (\<lambda>y. N \<le> y) ?ys) = length (filter (\<lambda>y. N \<le> y) ?xs)"
    by (simp add: rev_filter [symmetric] filter_sort)
  finally show ?thesis using assms
    by (simp add: majorityIndex_def Let_def filter_map comp_def)
qed

text \<open>The members that hold the log through index \<open>N\<close>.\<close>

definition holders :: "(int, int) gomap \<Rightarrow> int \<Rightarrow> int set" where
  "holders mi N = {i. N \<le> mget0 0 mi i}"

lemma majorityIndex_majority:
  "mwf m \<Longrightarrow> m \<noteq> [] \<Longrightarrow> N \<le> majorityIndex m mi \<longleftrightarrow> majority_of m (holders mi N)"
  by (simp add: majorityIndex_ge_iff majority_of_def holders_def gm.count_keys Int_def)

lemma QuorumIndex_ge_iff:
  "cfg_ok c \<Longrightarrow> N \<le> QuorumIndex c mi \<longleftrightarrow> quorum_of c (holders mi N)"
  by (auto simp: QuorumIndex_def Let_def quorum_of_def cfg_ok_def cfg_wf_def IsJoint_def
      majorityIndex_majority [symmetric])

lemma majority_of_members: "majority_of m (A \<inter> dom (mget m)) = majority_of m A"
  by (simp add: majority_of_def Int_left_commute Int_commute)

lemma majority_of_cong: "dom (mget m) \<inter> A = dom (mget m) \<inter> B \<Longrightarrow> majority_of m A = majority_of m B"
  by (simp add: majority_of_def)

lemma quorum_of_voters:
  "quorum_of c A \<Longrightarrow> majority_of (Voters c) (A \<inter> dom (mget (Voters c)))"
  by (simp add: quorum_of_def majority_of_members)

lemma EnterJoint_sel:
  "cfg_wf c \<Longrightarrow> mwf target \<Longrightarrow> Voters (EnterJoint c target learners) = target"
  "cfg_wf c \<Longrightarrow> OldVoters (EnterJoint c target learners) = Voters c"
  by (simp_all add: EnterJoint_def Let_def cfg_wf_def)

text \<open>The answers of the members when asked whether they hold the log through \<open>N\<close>.\<close>

definition haveThrough :: "Configuration \<Rightarrow> (int, int) gomap \<Rightarrow> int \<Rightarrow> (int, bool) gomap" where
  "haveThrough c mi N = map (\<lambda>i. (i, N \<le> mget0 0 mi i)) (mkeys (Members c))"

lemma have_set_through: "have_set (haveThrough c mi N) = {i. IsMember c i \<and> i \<in> holders mi N}"
proof -
  have "i \<in> set (mkeys (Members c)) \<longleftrightarrow> IsMember c i" for i using dom_Members gm.keys_dom by metis
  then show ?thesis
    by (auto simp: have_set_def haveThrough_def holders_def mget0_map_Pair)
qed

section \<open>Properties\<close>

text \<open>Two configurations and answers for the witnesses.\<close>

definition demoVoters :: "(int, string) gomap" where
  "demoVoters = [(1, ''a''), (2, ''b''), (3, ''c'')]"

definition demoConfig :: Configuration where
  "demoConfig = NewConfiguration demoVoters"

lemma demoConfig_eq: "demoConfig = \<lparr>Voters = demoVoters, OldVoters = [], Learners = []\<rparr>"
  by (simp add: demoConfig_def demoVoters_def NewConfiguration_def mwf_def)

lemma demoConfig_ok: "cfg_ok demoConfig"
  by (simp add: demoConfig_eq demoVoters_def cfg_ok_def cfg_wf_def mwf_def)

lemmas demo_config_simps = demoConfig_eq demoVoters_def HasQuorum_def IsJoint_def hasMajority_def mkeys_def
  mget0_def QuorumIndex_def majorityIndex_def

text \<open>Two sets of servers that each reach a quorum of one configuration, simple or joint,
  share a voter of it.\<close>

theorem quorums_intersect:
  assumes "cfg_ok c" and "HasQuorum c h1" and "HasQuorum c h2"
  shows "\<exists>v. IsVoter c v \<and> mget0 False h1 v \<and> mget0 False h2 v"
proof -
  let ?V = "dom (mget (Voters c))"
  have wf: "mwf (Voters c)" "Voters c \<noteq> []" "cfg_wf c" using assms(1) by (auto simp: cfg_ok_def cfg_wf_def)
  have "majority_of (Voters c) (have_set h \<inter> ?V)" if "HasQuorum c h" for h
    using quorum_of_voters HasQuorum_iff [OF wf(3)] that by blast
  from majority_meet [OF wf(1,2) this [OF assms(2)] this [OF assms(3)]] show ?thesis
    by (fastforce simp: have_set_def IsVoter_def)
qed

theorem quorums_intersect_witness:
  "\<exists>v. IsVoter demoConfig v \<and> mget0 False [(1, True), (2, True)] v \<and> mget0 False [(2, True), (3, True)] v"
  by (rule quorums_intersect [OF demoConfig_ok])
     (simp_all add: demo_config_simps)

text \<open>C20. Membership changes never split the cluster: a quorum of a configuration and a quorum
  of the one entered or left from it share a server, so two decisions one transition apart
  cannot both be taken by disjoint majorities.\<close>

theorem transition_quorums_intersect:
  assumes "cfg_ok c" and "cfg_ok d" and "d = EnterJoint c target learners \<or> d = LeaveJoint c"
    and "HasQuorum c h1" and "HasQuorum d h2"
  shows "\<exists>v. mget0 False h1 v \<and> mget0 False h2 v"
proof -
  have "quorum_of c (have_set h1)" "quorum_of d (have_set h2)"
    using assms HasQuorum_iff by (auto simp: cfg_ok_def)
  moreover have "next_config c d" using assms(3) by (auto simp: next_config_def)
  ultimately have "have_set h1 \<inter> have_set h2 \<noteq> {}" using cq.step_meet [OF assms(1,2)] by blast
  then show ?thesis by (auto simp: have_set_def)
qed

theorem transition_quorums_intersect_witness:
  "\<exists>v :: int. mget0 False [(2, True), (3, True)] v \<and> mget0 False [(1, True), (2, True), (4, True), (5, True)] v"
proof (rule transition_quorums_intersect [OF demoConfig_ok, of _ "[(4, ''d''), (5, ''e'')]" "[]"])
  let ?d = "EnterJoint demoConfig [(4, ''d''), (5, ''e'')] []"
  have w: "cfg_wf demoConfig" "mwf [(4::int, ''d''), (5, ''e'')]"
    using demoConfig_ok by (simp_all add: cfg_ok_def mwf_def)
  show "cfg_ok ?d" using w by (simp add: cfg_ok_def EnterJoint_sel)
  show "?d = ?d \<or> ?d = LeaveJoint demoConfig" by simp
  show "HasQuorum demoConfig [(2, True), (3, True)]"
    by (simp add: demo_config_simps)
  show "HasQuorum ?d [(1, True), (2, True), (4, True), (5, True)]"
    by (simp add: demo_config_simps EnterJoint_def mwf_def)
qed

text \<open>C14. The commit frontier read off the sorted match indices is the greatest index a quorum
  holds: the members holding the log through \<open>N\<close> pass the quorum test exactly when \<open>N\<close> is at
  or below it.\<close>

theorem quorum_index_frontier:
  assumes "cfg_ok c"
  shows "HasQuorum c (haveThrough c mi N) \<longleftrightarrow> N \<le> QuorumIndex c mi"
proof -
  let ?H = "have_set (haveThrough c mi N)"
  have wf: "cfg_wf c" using assms by (simp add: cfg_ok_def)
  have "dom (mget (Voters c)) \<inter> ?H = dom (mget (Voters c)) \<inter> holders mi N"
    and "dom (mget (OldVoters c)) \<inter> ?H = dom (mget (OldVoters c)) \<inter> holders mi N"
    by (auto simp: have_set_through IsMember_def IsVoter_def)
  note this [THEN majority_of_cong]
  then have "quorum_of c ?H = quorum_of c (holders mi N)" by (simp only: quorum_of_def)
  then show ?thesis using HasQuorum_iff [OF wf] QuorumIndex_ge_iff [OF assms] by simp
qed

theorem quorum_index_frontier_witness:
  "HasQuorum demoConfig (haveThrough demoConfig [(1, 7), (2, 4), (3, 5)] 5) \<and>
   \<not> HasQuorum demoConfig (haveThrough demoConfig [(1, 7), (2, 4), (3, 5)] 6)"
proof -
  have "QuorumIndex demoConfig [(1, 7), (2, 4), (3, 5)] = 5"
    by (simp add: demo_config_simps)
  then show ?thesis using quorum_index_frontier [OF demoConfig_ok] by simp
qed

lemma validateVoters_None: "validateVoters xs = None \<longleftrightarrow> (\<forall>(i, a) \<in> set xs. 0 < i \<and> a \<noteq> [])"
  by (induction xs rule: validateVoters.induct) auto

lemma validateLearners_None: "validateLearners vs is = None \<longleftrightarrow> (\<forall>i \<in> set is. mget vs i = None)"
  by (induction vs "is" rule: validateLearners.induct) auto

lemma Validate_None:
  "Validate c = None \<longleftrightarrow> Voters c \<noteq> [] \<and> (\<forall>(i, a) \<in> set (Voters c). 0 < i \<and> a \<noteq> []) \<and>
     (\<forall>i \<in> set (mkeys (Learners c)). mget (Voters c) i = None)"
  using validateVoters_None [of "Voters c"]
  by (cases "validateVoters (Voters c)") (auto simp: Validate_def validateLearners_None)

text \<open>The joint configuration entered from a well-formed one passes validation exactly
  when the new voters are some, with positive identifiers and addresses: the learners
  promoted to voters are never left behind as learners.\<close>

theorem enter_joint_valid:
  assumes "cfg_wf c" and "mwf target" and "mwf learners"
  shows "Validate (EnterJoint c target learners) = None \<longleftrightarrow>
    target \<noteq> [] \<and> (\<forall>(i, a) \<in> set target. 0 < i \<and> a \<noteq> [])"
proof -
  let ?d = "EnterJoint c target learners"
  have "mget (Learners ?d) i = None" if "i \<in> set (mkeys target)" for i
    using that assms by (simp add: EnterJoint_def Let_def gm.lookup_del_all)
  then have "\<forall>i \<in> set (mkeys (Learners ?d)). mget (Voters ?d) i = None"
    by (metis EnterJoint_sel(1) assms(1,2) mget_None_iff)
  then show ?thesis using assms by (auto simp: Validate_None EnterJoint_sel)
qed

theorem enter_joint_valid_witness:
  "Validate (EnterJoint demoConfig [(4, ''d''), (2, ''b'')] [(4, ''d''), (9, ''z'')]) = None"
  using demoConfig_ok enter_joint_valid [of demoConfig "[(4, ''d''), (2, ''b'')]" "[(4, ''d''), (9, ''z'')]"]
  by (simp add: cfg_ok_def mwf_def)

end
