(* ===== verification/Wal_File.thy ===== *)
theory Wal_File
  imports Raft_Types
begin

text \<open>
  The write-ahead log as a file: the framed format of \<^verbatim>\<open>internal/raft/log.go\<close>
  (\<^verbatim>\<open>writeEntryTo\<close> and the loop of \<^verbatim>\<open>recover\<close>), over a file with a synced prefix, faults
  and crash images.  The main lemmas: a frame is read back, and recovery of any crash
  image of a log returns an initial segment of it that has every synced entry.

  The entry codec (\<^verbatim>\<open>json.Marshal\<close> and \<^verbatim>\<open>json.Unmarshal\<close> on \<^verbatim>\<open>LogEntry\<close>) is a parameter.
\<close>

type_synonym marshal = "LogEntry \<Rightarrow> bytes"
type_synonym unmarshal = "bytes \<Rightarrow> LogEntry option"

section \<open>The file\<close>

text \<open>
  \<open>content\<close> is what a reader of the path sees, \<open>synced\<close> the length of the prefix on stable
  storage.  \<open>shadow\<close> is the previous file (with its synced length) between a rename and
  the directory fsync, when a crash can bring it back.  \<open>isOpen\<close> says whether the append
  handle the process holds is usable.
\<close>

record WalFile =
  content :: bytes
  synced :: nat
  shadow :: "(bytes \<times> nat) option"
  isOpen :: bool
  script :: "outcome list"

definition step_script :: "WalFile \<Rightarrow> WalFile" where
  "step_script f = f\<lparr>script := tl (script f)\<rparr>"

definition fileWrite :: "bytes \<Rightarrow> WalFile \<Rightarrow> bool \<times> WalFile" where
  "fileWrite b f =
     (if \<not> isOpen f then (False, f)
      else case next_outcome (script f) of
             IoOk \<Rightarrow> (True, (step_script f)\<lparr>content := content f @ b\<rparr>)
           | IoFail n \<Rightarrow> (False, (step_script f)\<lparr>content := content f @ take n b\<rparr>))"

definition fileSync :: "WalFile \<Rightarrow> bool \<times> WalFile" where
  "fileSync f =
     (if \<not> isOpen f then (False, f)
      else case next_outcome (script f) of
             IoOk \<Rightarrow> (True, (step_script f)\<lparr>synced := length (content f)\<rparr>)
           | IoFail n \<Rightarrow> (False, step_script f))"

definition fileClose :: "WalFile \<Rightarrow> bool \<times> WalFile" where
  "fileClose f =
     (if \<not> isOpen f then (False, f)
      else case next_outcome (script f) of
             IoOk \<Rightarrow> (True, (step_script f)\<lparr>isOpen := False\<rparr>)
           | IoFail n \<Rightarrow> (False, (step_script f)\<lparr>isOpen := False\<rparr>))"

text \<open>A call with no effect on the model but its outcome (open, directory fsync).\<close>

definition sysCall :: "WalFile \<Rightarrow> bool \<times> WalFile" where
  "sysCall f = (next_outcome (script f) = IoOk, step_script f)"

text \<open>The images of the file a reader may find after a crash.\<close>

definition prefix_image :: "bytes \<Rightarrow> nat \<Rightarrow> bytes \<Rightarrow> bool" where
  "prefix_image b n c \<longleftrightarrow> n \<le> length c \<and> prefix c b"

definition crash_image :: "WalFile \<Rightarrow> bytes \<Rightarrow> bool" where
  "crash_image f c \<longleftrightarrow> prefix_image (content f) (synced f) c \<or>
     (\<exists>old n. shadow f = Some (old, n) \<and> prefix_image old n c)"

section \<open>Frames\<close>

text \<open>\<^verbatim>\<open>binary.Write(w, binary.BigEndian, uint32(len(data)))\<close> and its inverse.\<close>

definition be32 :: "nat \<Rightarrow> bytes" where
  "be32 n = [char_of (n div 2 ^ 24), char_of (n div 2 ^ 16), char_of (n div 2 ^ 8), char_of n]"

fun un_be32 :: "bytes \<Rightarrow> nat" where
  "un_be32 (a # b # c # d # _) = of_char a * 2 ^ 24 + of_char b * 2 ^ 16 + of_char c * 2 ^ 8 + of_char d"
| "un_be32 _ = 0"

definition frame :: "marshal \<Rightarrow> LogEntry \<Rightarrow> bytes" where
  "frame m e = be32 (length (m e)) @ m e"

definition frames :: "marshal \<Rightarrow> LogEntry list \<Rightarrow> bytes" where
  "frames m es = concat (map (frame m) es)"

definition writeEntryTo :: "marshal \<Rightarrow> LogEntry \<Rightarrow> WalFile \<Rightarrow> bool \<times> WalFile" where
  "writeEntryTo m e w =
     (let data = m e in
      case fileWrite (be32 (length data)) w of
        (False, w) \<Rightarrow> (False, w)
      | (True, w) \<Rightarrow> fileWrite data w)"

fun writeAll :: "marshal \<Rightarrow> LogEntry list \<Rightarrow> WalFile \<Rightarrow> bool \<times> WalFile" where
  "writeAll m [] w = (True, w)"
| "writeAll m (e # es) w =
     (case writeEntryTo m e w of (False, w) \<Rightarrow> (False, w) | (True, w) \<Rightarrow> writeAll m es w)"

section \<open>Reading frames back\<close>

text \<open>
  The loop of \<^verbatim>\<open>recover\<close> on the file contents \<open>b\<close> from offset \<open>pos\<close>.  It ends at end of
  file; at a read error or a short frame, where the file is cut back to the last good
  offset; or at a payload that does not parse.  The accumulator holds the entries read.
\<close>

datatype scan = ScanEOF "LogEntry list" | ScanCut "LogEntry list" nat | ScanCorrupt nat

function scanFrames ::
  "unmarshal \<Rightarrow> bytes \<Rightarrow> nat \<Rightarrow> nat \<Rightarrow> LogEntry list \<Rightarrow> outcome list \<Rightarrow> scan \<times> outcome list" where
  "scanFrames um b pos lastGoodPos acc os =
     (if length b \<le> pos then
        (case next_outcome os of
           IoOk \<Rightarrow> (ScanEOF acc, tl os)
         | IoFail n \<Rightarrow> (ScanCut acc lastGoodPos, tl os))
      else if next_outcome os \<noteq> IoOk \<or> length b < pos + 4 then (ScanCut acc lastGoodPos, tl os)
      else
        (let len = un_be32 (drop pos b); os1 = tl os in
         if next_outcome os1 \<noteq> IoOk \<or> length b < pos + 4 + len then (ScanCut acc lastGoodPos, tl os1)
         else case um (take len (drop (pos + 4) b)) of
                None \<Rightarrow> (ScanCorrupt pos, tl os1)
              | Some e \<Rightarrow> scanFrames um b (pos + 4 + len) (pos + 4 + len) (acc @ [e]) (tl os1)))"
  by pat_completeness auto
termination
  by (relation "measure (\<lambda>(um, b, pos, g, acc, os). length b - pos)") auto

declare scanFrames.simps [simp del]

section \<open>Lemmas on files and frames\<close>

lemma length_be32 [simp]: "length (be32 n) = 4"
  by (simp add: be32_def)

lemma un_be32_be32:
  assumes "n < 2 ^ 32"
  shows "un_be32 (be32 n @ r) = n"
proof -
  define p q s where "p = n div 256" and "q = p div 256" and "s = q div 256"
  have d: "n div 65536 = q" "n div 16777216 = s"
    unfolding p_def q_def s_def by (simp_all add: div_mult2_eq [symmetric])
  have "n = p * 256 + n mod 256" "p = q * 256 + p mod 256" "q = s * 256 + q mod 256"
    by (simp_all add: p_def q_def s_def)
  moreover have "s < 256" using assms unfolding p_def q_def s_def by simp
  ultimately have "n = s mod 256 * 16777216 + q mod 256 * 65536 + p mod 256 * 256 + n mod 256"
    by (simp add: algebra_simps)
  then show ?thesis by (simp add: be32_def d flip: p_def)
qed

lemma length_frame [simp]: "length (frame m e) = 4 + length (m e)"
  by (simp add: frame_def)

lemma frames_simps [simp]:
  "frames m [] = []" "frames m (e # es) = frame m e @ frames m es"
  "frames m (xs @ ys) = frames m xs @ frames m ys"
  by (simp_all add: frames_def)

lemma fileWrite_ok:
  "fileWrite b f = (True, g) \<Longrightarrow>
    g = f\<lparr>content := content f @ b, script := tl (script f)\<rparr> \<and> isOpen f"
  by (auto simp: fileWrite_def step_script_def split: if_splits outcome.splits)

lemma writeEntryTo_ok:
  assumes "writeEntryTo m e f = (True, g)"
  shows "g = f\<lparr>content := content f @ frame m e, script := tl (tl (script f))\<rparr> \<and> isOpen f"
proof -
  obtain h where h: "fileWrite (be32 (length (m e))) f = (True, h)" "fileWrite (m e) h = (True, g)"
    using assms by (auto simp: writeEntryTo_def Let_def split: prod.splits bool.splits)
  from fileWrite_ok [OF h(1)] fileWrite_ok [OF h(2)] show ?thesis
    by (simp add: frame_def)
qed

lemma writeAll_ok:
  "writeAll m es f = (True, g) \<Longrightarrow>
    \<exists>os. g = f\<lparr>content := content f @ frames m es, script := os\<rparr>"
proof (induction es arbitrary: f)
  case Nil
  then show ?case by (auto intro: exI [of _ "script f"])
next
  case (Cons e es)
  then obtain h where h: "writeEntryTo m e f = (True, h)" "writeAll m es h = (True, g)"
    by (auto split: prod.splits bool.splits)
  from Cons.IH [OF h(2)] writeEntryTo_ok [OF h(1)] show ?case by auto
qed

lemma fileSync_ok:
  "fileSync f = (True, g) \<Longrightarrow> g = f\<lparr>synced := length (content f), script := tl (script f)\<rparr> \<and> isOpen f"
  by (auto simp: fileSync_def step_script_def split: if_splits outcome.splits)

text \<open>With no faults left, every call on an open file succeeds.\<close>

lemma file_no_faults:
  "isOpen f \<Longrightarrow> script f = [] \<Longrightarrow> fileWrite b f = (True, f\<lparr>content := content f @ b\<rparr>)"
  "isOpen f \<Longrightarrow> script f = [] \<Longrightarrow> fileSync f = (True, f\<lparr>synced := length (content f)\<rparr>)"
  "isOpen f \<Longrightarrow> script f = [] \<Longrightarrow> fileClose f = (True, f\<lparr>isOpen := False\<rparr>)"
  "script f = [] \<Longrightarrow> sysCall f = (True, f)"
  by (simp_all add: fileWrite_def fileSync_def fileClose_def sysCall_def step_script_def)

lemma writeEntryTo_no_faults:
  "isOpen f \<Longrightarrow> script f = [] \<Longrightarrow> writeEntryTo m e f = (True, f\<lparr>content := content f @ frame m e\<rparr>)"
  by (simp add: writeEntryTo_def Let_def file_no_faults frame_def)

lemma writeAll_no_faults:
  "isOpen f \<Longrightarrow> script f = [] \<Longrightarrow> writeAll m es f = (True, f\<lparr>content := content f @ frames m es\<rparr>)"
  by (induction es arbitrary: f) (simp_all add: writeEntryTo_no_faults)

section \<open>Recovery of a crash image\<close>

text \<open>What is assumed of the codec: the entries of the log decode to themselves, and their
  encodings fit the 32-bit length field.\<close>

definition codec_ok :: "marshal \<Rightarrow> unmarshal \<Rightarrow> LogEntry list \<Rightarrow> bool" where
  "codec_ok m um es \<longleftrightarrow> (\<forall>e \<in> set es. um (m e) = Some e \<and> length (m e) < 2 ^ 32)"

text \<open>The entries whose whole frame lies within the first \<open>n\<close> bytes.\<close>

fun wholeFrames :: "marshal \<Rightarrow> nat \<Rightarrow> LogEntry list \<Rightarrow> LogEntry list" where
  "wholeFrames m n [] = []"
| "wholeFrames m n (e # es) =
     (if length (frame m e) \<le> n then e # wholeFrames m (n - length (frame m e)) es else [])"

lemma prefix_wholeFrames: "prefix (wholeFrames m n es) es"
  by (induction m n es rule: wholeFrames.induct) auto

lemma wholeFrames_all: "n = length (frames m es) \<Longrightarrow> wholeFrames m n es = es"
  by (induction m n es rule: wholeFrames.induct) auto

lemma wholeFrames_durable:
  "length (frames m xs) \<le> n \<Longrightarrow> prefix xs es \<Longrightarrow> prefix xs (wholeFrames m n es)"
proof (induction m n es arbitrary: xs rule: wholeFrames.induct)
  case (2 m n e es)
  then show ?case by (cases xs) auto
qed simp

lemma length_frames_wholeFrames: "length (frames m (wholeFrames m n es)) \<le> n"
  by (induction m n es rule: wholeFrames.induct) auto

lemma un_be32_prefix:
  assumes "prefix c (be32 n @ r)" and "4 \<le> length c" and "n < 2 ^ 32"
  shows "un_be32 c = n"
  using prefix_append_cases [OF assms(1)] assms(2) un_be32_be32 [OF assms(3)] by auto

lemma scan_prefix:
  assumes "codec_ok m um es" and "prefix c (frames m es)"
  shows "scanFrames um (frames m xs0 @ c) (length (frames m xs0)) (length (frames m xs0)) xs0 [] =
    (let ds = xs0 @ wholeFrames m (length c) es in
     (if frames m ds = frames m xs0 @ c then ScanEOF ds else ScanCut ds (length (frames m ds)), []))"
  using assms
proof (induction es arbitrary: xs0 c)
  case Nil
  then show ?case by (simp add: scanFrames.simps)
next
  case (Cons e es)
  let ?b = "frames m xs0 @ c" and ?p = "length (frames m xs0)" and ?n = "length (m e)"
  from Cons.prems(1) have e: "um (m e) = Some e" "?n < 2 ^ 32" and es: "codec_ok m um es"
    by (auto simp: codec_ok_def)
  show ?case
  proof (cases "length (frame m e) \<le> length c")
    case True
    then obtain d where d: "c = frame m e @ d" "prefix d (frames m es)"
      using Cons.prems(2) prefix_append_cases [of c "frame m e"] by auto
    have "un_be32 (drop ?p ?b) = ?n"
      using e(2) un_be32_be32 [of ?n "m e @ d"] by (simp add: d frame_def)
    then have "scanFrames um ?b ?p ?p xs0 [] =
        scanFrames um (frames m (xs0 @ [e]) @ d) (length (frames m (xs0 @ [e])))
          (length (frames m (xs0 @ [e]))) (xs0 @ [e]) []"
      by (subst scanFrames.simps) (simp add: d(1) e(1) frame_def Let_def add.assoc)
    then show ?thesis using Cons.IH [OF es d(2), of "xs0 @ [e]"] True
      by (simp add: d(1) Let_def)
  next
    case False
    then have short: "length c < 4 + ?n" by simp
    have "un_be32 c = ?n" if "4 \<le> length c"
    proof -
      have "prefix c (be32 ?n @ m e @ frames m es)"
        using Cons.prems(2) by (simp add: frame_def)
      then show ?thesis using un_be32_prefix that e(2) by blast
    qed
    with short show ?thesis
      by (subst scanFrames.simps) (auto simp: Let_def not_le)
  qed
qed

text \<open>Recovery of a crash image: the longest initial segment with whole frames.\<close>

corollary scan_image:
  assumes "codec_ok m um es" and "prefix c (frames m es)"
  shows "scanFrames um c 0 0 [] [] =
    (let ds = wholeFrames m (length c) es in
     (if frames m ds = c then ScanEOF ds else ScanCut ds (length (frames m ds)), []))"
  using scan_prefix [OF assms, of "[]"] by simp

end
