(* ===== verification/Raft_Log.thy ===== *)
theory Raft_Log
  imports Wal_File
begin

text \<open>
  \<^verbatim>\<open>RaftLog\<close> of \<^verbatim>\<open>internal/raft/log.go\<close>: the in-memory cache with its snapshot offset over
  the write-ahead log.  One definition per method; methods that can fail return a flag
  beside the new log.  The lock \<^verbatim>\<open>rl.mu\<close> makes each method one atomic step, so the model
  has none.
\<close>

section \<open>Definitions\<close>

record RaftLog =
  wal :: WalFile
  cache :: "LogEntry list"
  nextIndex :: int
  firstIndex :: int
  lastIncludedIndex :: int
  lastIncludedTerm :: int
  compactionThreshold :: int

definition defaultCompactionThreshold :: int where
  "defaultCompactionThreshold = 1000"

definition getEntryLocked :: "RaftLog \<Rightarrow> int \<Rightarrow> LogEntry option" where
  "getEntryLocked rl index =
     (let cacheIdx = index - firstIndex rl in
      if cacheIdx < 0 \<or> int (length (cache rl)) \<le> cacheIdx then None
      else Some (cache rl ! nat cacheIdx))"

definition GetEntry :: "RaftLog \<Rightarrow> int \<Rightarrow> LogEntry option" where
  "GetEntry rl index = getEntryLocked rl index"

text \<open>The Go pair \<^verbatim>\<open>(LogEntry{}, false)\<close> with the flag dropped: the zero entry.\<close>

definition entryOrZero :: "RaftLog \<Rightarrow> int \<Rightarrow> LogEntry" where
  "entryOrZero rl index = (case getEntryLocked rl index of None \<Rightarrow> zero_entry | Some e \<Rightarrow> e)"

definition lastIndexLocked :: "RaftLog \<Rightarrow> int" where
  "lastIndexLocked rl = (if cache rl = [] then lastIncludedIndex rl else Index (last (cache rl)))"

definition LatestIndex :: "RaftLog \<Rightarrow> int" where
  "LatestIndex rl = lastIndexLocked rl"

definition LatestTerm :: "RaftLog \<Rightarrow> int" where
  "LatestTerm rl = (if cache rl = [] then lastIncludedTerm rl else Term (last (cache rl)))"

definition LastLogState :: "RaftLog \<Rightarrow> int \<times> int" where
  "LastLogState rl =
     (if cache rl = [] then (lastIncludedIndex rl, lastIncludedTerm rl)
      else let l = last (cache rl) in (Index l, Term l))"

definition FirstIndex :: "RaftLog \<Rightarrow> int" where
  "FirstIndex rl = firstIndex rl"

definition GetEntriesFrom :: "RaftLog \<Rightarrow> int \<Rightarrow> LogEntry list" where
  "GetEntriesFrom rl startIndex =
     (let cacheIdx = startIndex - firstIndex rl in
      if cacheIdx < 0 then []
      else if int (length (cache rl)) \<le> cacheIdx then []
      else drop (nat cacheIdx) (cache rl))"

definition TermAt :: "RaftLog \<Rightarrow> int \<Rightarrow> int" where
  "TermAt rl index =
     (if index = lastIncludedIndex rl then lastIncludedTerm rl
      else case getEntryLocked rl index of None \<Rightarrow> 0 | Some e \<Rightarrow> Term e)"

definition SetCompactionThreshold :: "int \<Rightarrow> RaftLog \<Rightarrow> RaftLog" where
  "SetCompactionThreshold n rl = (if n \<le> 0 then rl else rl\<lparr>compactionThreshold := n\<rparr>)"

definition NeedsCompaction :: "RaftLog \<Rightarrow> int \<Rightarrow> bool" where
  "NeedsCompaction rl appliedIndex \<longleftrightarrow>
     compactionThreshold rl \<le> int (length (cache rl)) \<and> 0 < appliedIndex"

subsection \<open>Writing\<close>

definition writeEntryToDisk :: "marshal \<Rightarrow> LogEntry \<Rightarrow> RaftLog \<Rightarrow> bool \<times> RaftLog" where
  "writeEntryToDisk m e rl =
     (case writeEntryTo m e (wal rl) of
        (False, w) \<Rightarrow> (False, rl\<lparr>wal := w\<rparr>)
      | (True, w) \<Rightarrow> (case fileSync w of (ok, w) \<Rightarrow> (ok, rl\<lparr>wal := w\<rparr>)))"

text \<open>
  The temporary file of the rewrite is empty at its open and is dropped on any failure
  before the rename; it shares the script of outcomes with the log file.
\<close>

definition writeTemp :: "marshal \<Rightarrow> LogEntry list \<Rightarrow> outcome list \<Rightarrow> bool \<times> WalFile" where
  "writeTemp m es os =
     (let tmp = \<lparr>content = [], synced = 0, shadow = None, isOpen = True, script = os\<rparr> in
      case sysCall tmp of
        (False, tmp) \<Rightarrow> (False, tmp)
      | (True, tmp) \<Rightarrow>
          (case writeAll m es tmp of
             (False, tmp) \<Rightarrow> (False, tmp)
           | (True, tmp) \<Rightarrow>
               (case fileSync tmp of
                  (False, tmp) \<Rightarrow> (False, tmp)
                | (True, tmp) \<Rightarrow> fileClose tmp)))"

text \<open>Rename the temporary file over the log, fsync the directory, reopen for append.\<close>

definition swapIn :: "bytes \<Rightarrow> WalFile \<Rightarrow> bool \<times> WalFile" where
  "swapIn b w =
     (case sysCall w of
        (False, w) \<Rightarrow> (False, w)
      | (True, w) \<Rightarrow>
          (let w = w\<lparr>content := b, synced := length b, shadow := Some (content w, synced w)\<rparr> in
           case sysCall w of
             (False, w) \<Rightarrow> (False, w)
           | (True, w) \<Rightarrow>
               (let w = w\<lparr>shadow := None\<rparr> in
                case sysCall w of
                  (False, w) \<Rightarrow> (False, w)
                | (True, w) \<Rightarrow> (True, w\<lparr>isOpen := True\<rparr>))))"

definition rewriteWALLocked :: "marshal \<Rightarrow> RaftLog \<Rightarrow> bool \<times> RaftLog" where
  "rewriteWALLocked m rl =
     (case writeTemp m (cache rl) (script (wal rl)) of
        (False, tmp) \<Rightarrow> (False, rl\<lparr>wal := (wal rl)\<lparr>script := script tmp\<rparr>\<rparr>)
      | (True, tmp) \<Rightarrow>
          (case fileClose ((wal rl)\<lparr>script := script tmp\<rparr>) of
             (False, w) \<Rightarrow> (False, rl\<lparr>wal := w\<rparr>)
           | (True, w) \<Rightarrow> (case swapIn (content tmp) w of (ok, w) \<Rightarrow> (ok, rl\<lparr>wal := w\<rparr>))))"

definition AppendLeader :: "marshal \<Rightarrow> bytes \<Rightarrow> int \<Rightarrow> RaftLog \<Rightarrow> LogEntry option \<times> RaftLog" where
  "AppendLeader m cmd term rl =
     (let entry = \<lparr>Index = nextIndex rl, Term = term, Command = cmd\<rparr> in
      case writeEntryToDisk m entry rl of
        (False, rl) \<Rightarrow> (None, rl)
      | (True, rl) \<Rightarrow>
          (Some entry, rl\<lparr>cache := cache rl @ [entry], nextIndex := nextIndex rl + 1\<rparr>))"

subsection \<open>The follower's append\<close>

text \<open>The walk back over the conflicting term, never below \<^verbatim>\<open>firstIndex\<close>.\<close>

function conflictStart :: "RaftLog \<Rightarrow> int \<Rightarrow> int \<Rightarrow> int" where
  "conflictStart rl ct ci =
     (if firstIndex rl < ci \<and> Term (entryOrZero rl (ci - 1)) = ct
      then conflictStart rl ct (ci - 1) else ci)"
  by pat_completeness auto
termination
  by (relation "measure (\<lambda>(rl, ct, ci). nat (ci - firstIndex rl))") auto

declare conflictStart.simps [simp del]

text \<open>The \<^verbatim>\<open>default\<close> branch of the splice: a contiguous entry is written and cached.\<close>

definition appendNew :: "marshal \<Rightarrow> LogEntry \<Rightarrow> RaftLog \<Rightarrow> bool \<times> RaftLog" where
  "appendNew m e rl =
     (if Index e \<noteq> firstIndex rl + int (length (cache rl)) then (False, rl)
      else case writeEntryTo m e (wal rl) of
             (False, w) \<Rightarrow> (False, rl\<lparr>wal := w\<rparr>)
           | (True, w) \<Rightarrow>
               (True, rl\<lparr>wal := w, cache := cache rl @ [e], nextIndex := Index e + 1\<rparr>))"

text \<open>Steps 3 and 4; the count is the entries written, the flag whether no step failed.\<close>

fun spliceEntries :: "marshal \<Rightarrow> LogEntry list \<Rightarrow> nat \<Rightarrow> RaftLog \<Rightarrow> bool \<times> nat \<times> RaftLog" where
  "spliceEntries m [] appended rl = (True, appended, rl)"
| "spliceEntries m (e # es) appended rl =
     (case getEntryLocked rl (Index e) of
        Some existing \<Rightarrow>
          (if Term existing = Term e then spliceEntries m es appended rl
           else case rewriteWALLocked m (rl\<lparr>cache := take (nat (Index e - firstIndex rl)) (cache rl)\<rparr>) of
                  (False, rl) \<Rightarrow> (False, appended, rl)
                | (True, rl) \<Rightarrow>
                    (case appendNew m e rl of
                       (False, rl) \<Rightarrow> (False, appended, rl)
                     | (True, rl) \<Rightarrow> spliceEntries m es (Suc appended) rl))
      | None \<Rightarrow>
          (case appendNew m e rl of
             (False, rl) \<Rightarrow> (False, appended, rl)
           | (True, rl) \<Rightarrow> spliceEntries m es (Suc appended) rl))"

record AppendResult =
  ar_matchIndex :: int
  ar_conflictTerm :: int
  ar_conflictIndex :: int
  ar_ok :: bool

abbreviation appendFailed :: AppendResult where
  "appendFailed \<equiv> \<lparr>ar_matchIndex = 0, ar_conflictTerm = 0, ar_conflictIndex = 0, ar_ok = False\<rparr>"

text \<open>Step 2, the consistency check at \<^verbatim>\<open>prevLogIndex\<close>: a rejection with its hints, or none.\<close>

definition consistencyCheck :: "RaftLog \<Rightarrow> int \<Rightarrow> int \<Rightarrow> AppendResult option" where
  "consistencyCheck rl prevLogIndex prevLogTerm =
     (if 0 < prevLogIndex then
        (if lastIndexLocked rl < prevLogIndex then
           Some \<lparr>ar_matchIndex = 0, ar_conflictTerm = 0, ar_conflictIndex = lastIndexLocked rl + 1, ar_ok = False\<rparr>
         else
           (let prevTerm = (if prevLogIndex = lastIncludedIndex rl then lastIncludedTerm rl
                            else Term (entryOrZero rl prevLogIndex)) in
            if prevTerm \<noteq> prevLogTerm then
              Some \<lparr>ar_matchIndex = 0, ar_conflictTerm = prevTerm,
                    ar_conflictIndex = conflictStart rl prevTerm prevLogIndex, ar_ok = False\<rparr>
            else None))
      else None)"

definition AppendEntriesToLog ::
  "marshal \<Rightarrow> int \<Rightarrow> int \<Rightarrow> LogEntry list \<Rightarrow> RaftLog \<Rightarrow> AppendResult \<times> RaftLog" where
  "AppendEntriesToLog m prevLogIndex prevLogTerm entries rl =
     (case consistencyCheck rl prevLogIndex prevLogTerm of
        Some rejected \<Rightarrow> (rejected, rl)
      | None \<Rightarrow>
          (case spliceEntries m entries 0 rl of
             (False, _, rl) \<Rightarrow> (appendFailed, rl)
           | (True, appended, rl) \<Rightarrow>
               (case (if 0 < appended then fileSync (wal rl) else (True, wal rl)) of
                  (False, w) \<Rightarrow> (appendFailed, rl\<lparr>wal := w\<rparr>)
                | (True, w) \<Rightarrow>
                    (\<lparr>ar_matchIndex = (if entries = [] then prevLogIndex else Index (last entries)),
                      ar_conflictTerm = 0, ar_conflictIndex = 0, ar_ok = True\<rparr>, rl\<lparr>wal := w\<rparr>))))"

subsection \<open>Compaction and snapshots\<close>

definition TruncateBeforeIndex :: "marshal \<Rightarrow> int \<Rightarrow> int \<Rightarrow> RaftLog \<Rightarrow> bool \<times> RaftLog" where
  "TruncateBeforeIndex m snapshotIndex snapshotTerm rl =
     (if snapshotIndex < firstIndex rl then (True, rl)
      else rewriteWALLocked m
             (rl\<lparr>cache := filter (\<lambda>e. snapshotIndex < Index e) (cache rl),
                 lastIncludedIndex := snapshotIndex, lastIncludedTerm := snapshotTerm,
                 firstIndex := snapshotIndex + 1\<rparr>))"

definition ResetToSnapshot :: "marshal \<Rightarrow> int \<Rightarrow> int \<Rightarrow> RaftLog \<Rightarrow> bool \<times> RaftLog" where
  "ResetToSnapshot m index term rl =
     (if index \<le> lastIncludedIndex rl then (True, rl)
      else
        (let keep = (case getEntryLocked rl index of Some existing \<Rightarrow> Term existing = term | None \<Rightarrow> False);
             rl = rl\<lparr>cache := (if keep then filter (\<lambda>e. index < Index e) (cache rl) else []),
                     lastIncludedIndex := index, lastIncludedTerm := term, firstIndex := index + 1\<rparr>;
             rl = (if nextIndex rl < firstIndex rl then rl\<lparr>nextIndex := firstIndex rl\<rparr> else rl);
             rl = (if cache rl \<noteq> [] then rl\<lparr>nextIndex := Index (last (cache rl)) + 1\<rparr> else rl)
         in rewriteWALLocked m rl))"

text \<open>The entries that continue the log from \<open>expected\<close> on.\<close>

fun contiguousRun :: "int \<Rightarrow> LogEntry list \<Rightarrow> LogEntry list" where
  "contiguousRun expected [] = []"
| "contiguousRun expected (e # es) =
     (if Index e \<noteq> expected then contiguousRun expected es
      else e # contiguousRun (expected + 1) es)"

definition RestoreOffset :: "marshal \<Rightarrow> int \<Rightarrow> int \<Rightarrow> RaftLog \<Rightarrow> bool \<times> RaftLog" where
  "RestoreOffset m index term rl =
     (let rl = rl\<lparr>lastIncludedIndex := index, lastIncludedTerm := term, firstIndex := index + 1\<rparr> in
      if cache rl = [] then (True, rl\<lparr>nextIndex := index + 1\<rparr>)
      else
        (let kept = contiguousRun (index + 1) (cache rl);
             dropped = length (cache rl) - length kept;
             rl = rl\<lparr>cache := kept, nextIndex := index + 1 + int (length kept)\<rparr>
         in if dropped = 0 then (True, rl) else rewriteWALLocked m rl))"

subsection \<open>Opening\<close>

datatype open_error = OpenFailed | TruncateFailed | SyncFailed | CorruptEntry nat

text \<open>The effect of the recovery loop on the log, entry by entry.\<close>

definition recoverEntry :: "LogEntry \<Rightarrow> RaftLog \<Rightarrow> RaftLog" where
  "recoverEntry e rl =
     (let rl = (if cache rl = [] then rl\<lparr>firstIndex := Index e\<rparr> else rl)
      in rl\<lparr>cache := cache rl @ [e], nextIndex := Index e + 1\<rparr>)"

definition freshLog :: "WalFile \<Rightarrow> RaftLog" where
  "freshLog w = \<lparr>wal = w, cache = [], nextIndex = 1, firstIndex = 1, lastIncludedIndex = 0,
                 lastIncludedTerm = 0, compactionThreshold = defaultCompactionThreshold\<rparr>"

definition recover :: "unmarshal \<Rightarrow> RaftLog \<Rightarrow> open_error + RaftLog" where
  "recover um rl =
     (case sysCall (wal rl) of
        (False, w) \<Rightarrow> Inl OpenFailed
      | (True, w) \<Rightarrow>
          (let w = w\<lparr>isOpen := True\<rparr> in
           case scanFrames um (content w) 0 0 [] (script w) of
             (ScanCorrupt pos, os) \<Rightarrow> Inl (CorruptEntry pos)
           | (ScanEOF es, os) \<Rightarrow>
               (case fileSync (w\<lparr>script := os\<rparr>) of
                  (False, w) \<Rightarrow> Inl SyncFailed
                | (True, w) \<Rightarrow> Inr (fold recoverEntry es (rl\<lparr>wal := w\<rparr>)))
           | (ScanCut es good, os) \<Rightarrow>
               (case sysCall (w\<lparr>script := os\<rparr>) of
                  (False, w) \<Rightarrow> Inl TruncateFailed
                | (True, w) \<Rightarrow>
                    (case fileSync (w\<lparr>content := take good (content w)\<rparr>) of
                       (False, w) \<Rightarrow> Inl SyncFailed
                     | (True, w) \<Rightarrow> Inr (fold recoverEntry es (rl\<lparr>wal := w\<rparr>))))))"

text \<open>A process starts on the bytes it finds at the path (none for a missing file).\<close>

definition NewRaftLog :: "unmarshal \<Rightarrow> bytes \<Rightarrow> outcome list \<Rightarrow> open_error + RaftLog" where
  "NewRaftLog um b os =
     (case recover um (freshLog \<lparr>content = b, synced = length b, shadow = None,
                                 isOpen = False, script = os\<rparr>) of
        Inl e \<Rightarrow> Inl e
      | Inr rl \<Rightarrow>
          (case sysCall (wal rl) of
             (False, w) \<Rightarrow> Inl OpenFailed
           | (True, w) \<Rightarrow> Inr (rl\<lparr>wal := w\<lparr>isOpen := True\<rparr>\<rparr>)))"

definition Close :: "RaftLog \<Rightarrow> bool \<times> RaftLog" where
  "Close rl = (case fileClose (wal rl) of (ok, w) \<Rightarrow> (ok, rl\<lparr>wal := w\<rparr>))"


section \<open>Contiguous entries\<close>

fun contig :: "int \<Rightarrow> LogEntry list \<Rightarrow> bool" where
  "contig k [] = True"
| "contig k (e # es) = (Index e = k \<and> contig (k + 1) es)"

lemma contig_append [simp]: "contig k (xs @ ys) \<longleftrightarrow> contig k xs \<and> contig (k + int (length xs)) ys"
  by (induction xs arbitrary: k) (auto simp: algebra_simps)

lemma contig_nth: "contig k es \<Longrightarrow> i < length es \<Longrightarrow> Index (es ! i) = k + int i"
proof (induction es arbitrary: k i)
  case (Cons e es)
  then show ?case by (cases i) auto
qed simp

lemma contig_take: "contig k es \<Longrightarrow> contig k (take n es)"
  by (metis append_take_drop_id contig_append)

lemma contig_drop: "contig k es \<Longrightarrow> n \<le> length es \<Longrightarrow> contig (k + int n) (drop n es)"
  by (metis append_take_drop_id contig_append length_take min.absorb2)

lemma contig_last: "contig k es \<Longrightarrow> es \<noteq> [] \<Longrightarrow> Index (last es) = k + int (length es) - 1"
  using contig_nth [of k es "length es - 1"] by (simp add: last_conv_nth of_nat_diff Suc_leI)

lemma contig_filter:
  "contig k es \<Longrightarrow> filter (\<lambda>e. s < Index e) es = drop (nat (s + 1 - k)) es"
proof (induction es arbitrary: k)
  case (Cons e es)
  have "filter (\<lambda>e. s < Index e) es = drop (nat (s - k)) es"
    using Cons.IH [of "k + 1"] Cons.prems by simp
  moreover have "nat (s + 1 - k) = Suc (nat (s - k))" if "k \<le> s" using that by simp
  ultimately show ?case using Cons.prems by (cases "k \<le> s") auto
qed simp

lemma contig_run_low:
  "contig k es \<Longrightarrow> s < k \<Longrightarrow> contiguousRun s es = []"
  by (induction es arbitrary: k) auto

lemma contig_run_eq: "contig k es \<Longrightarrow> contiguousRun k es = es"
  by (induction es arbitrary: k) auto

lemma contig_run_drop:
  "contig k es \<Longrightarrow> k \<le> s \<Longrightarrow> contiguousRun s es = drop (nat (s - k)) es"
proof (induction es arbitrary: k)
  case (Cons e es)
  show ?case
  proof (cases "k = s")
    case True
    with Cons.prems contig_run_eq [of k "e # es"] show ?thesis by simp
  next
    case False
    with Cons.prems have "nat (s - k) = Suc (nat (s - (k + 1)))" by simp
    with False Cons.IH [of "k + 1"] Cons.prems show ?thesis by simp
  qed
qed simp

lemma contig_contiguousRun: "contig s (contiguousRun s es)"
  by (induction s es rule: contiguousRun.induct) auto

section \<open>Invariants\<close>

text \<open>
  The cache is positional: its \<open>i\<close>th entry has index \<^verbatim>\<open>firstIndex + i\<close>.  A well-formed log
  also starts right after the snapshot boundary and hands out the index after its last
  entry.  A log is in step with its file when the file holds exactly the frames of the
  cache, all of it synced.
\<close>

definition positional :: "RaftLog \<Rightarrow> bool" where
  "positional rl \<longleftrightarrow> contig (firstIndex rl) (cache rl)"

definition log_wf :: "RaftLog \<Rightarrow> bool" where
  "log_wf rl \<longleftrightarrow> positional rl \<and> firstIndex rl = lastIncludedIndex rl + 1 \<and>
     0 \<le> lastIncludedIndex rl \<and> nextIndex rl = firstIndex rl + int (length (cache rl))"

definition wal_matches :: "marshal \<Rightarrow> RaftLog \<Rightarrow> bool" where
  "wal_matches m rl \<longleftrightarrow> isOpen (wal rl) \<and> shadow (wal rl) = None \<and>
     content (wal rl) = frames m (cache rl)"

definition wal_ok :: "marshal \<Rightarrow> RaftLog \<Rightarrow> bool" where
  "wal_ok m rl \<longleftrightarrow> wal_matches m rl \<and> synced (wal rl) = length (content (wal rl))"

lemma log_wf_wal [simp]: "log_wf (rl\<lparr>wal := w\<rparr>) = log_wf rl"
  by (simp add: log_wf_def positional_def)

lemma log_wfD:
  assumes "log_wf rl"
  shows "contig (firstIndex rl) (cache rl)" and "firstIndex rl = lastIncludedIndex rl + 1"
    and "0 \<le> lastIncludedIndex rl" and "nextIndex rl = firstIndex rl + int (length (cache rl))"
  using assms unfolding log_wf_def positional_def by auto

lemma log_wf_last: "log_wf rl \<Longrightarrow> lastIndexLocked rl = nextIndex rl - 1"
  using contig_last [of "firstIndex rl" "cache rl"]
  by (auto simp: log_wf_def positional_def lastIndexLocked_def)

lemma getEntryLocked_iff:
  "getEntryLocked rl i = Some e \<longleftrightarrow>
    firstIndex rl \<le> i \<and> i < firstIndex rl + int (length (cache rl)) \<and> e = cache rl ! nat (i - firstIndex rl)"
  by (auto simp: getEntryLocked_def Let_def)

lemma getEntryLocked_None_iff:
  "getEntryLocked rl i = None \<longleftrightarrow> i < firstIndex rl \<or> firstIndex rl + int (length (cache rl)) \<le> i"
  by (auto simp: getEntryLocked_def Let_def)

lemma positional_Index: "positional rl \<Longrightarrow> getEntryLocked rl i = Some e \<Longrightarrow> Index e = i"
  using contig_nth [of "firstIndex rl" "cache rl" "nat (i - firstIndex rl)"]
  by (auto simp: positional_def getEntryLocked_iff)

end
