(* ===== verification/Raft_Log_Append.thy ===== *)
theory Raft_Log_Append
  imports Raft_Log
begin

text \<open>
  Appending to the log: the leader's append, the follower's splice and the rewrite of the
  file behind both.  The splice is compared with a reference merge of two entry lists.
\<close>

section \<open>Rewriting the file\<close>

lemma sysCall_ok: "sysCall f = (True, g) \<Longrightarrow> g = f\<lparr>script := tl (script f)\<rparr>"
  by (simp add: sysCall_def step_script_def)

lemma fileClose_ok: "fileClose f = (True, g) \<Longrightarrow> g = f\<lparr>isOpen := False, script := tl (script f)\<rparr>"
  by (auto simp: fileClose_def step_script_def split: if_splits outcome.splits)

lemma writeTemp_ok:
  assumes "writeTemp m es os = (True, tmp)"
  shows "content tmp = frames m es"
proof -
  let ?t0 = "\<lparr>content = [], synced = 0, shadow = None, isOpen = True, script = os\<rparr>"
  obtain t1 t2 t3 where t: "sysCall ?t0 = (True, t1)" "writeAll m es t1 = (True, t2)"
      "fileSync t2 = (True, t3)" "fileClose t3 = (True, tmp)"
    using assms by (auto simp: writeTemp_def Let_def split: prod.splits bool.splits)
  from sysCall_ok [OF t(1)] writeAll_ok [OF t(2)] fileSync_ok [OF t(3)] fileClose_ok [OF t(4)]
  show ?thesis by auto
qed

lemma crash_image_script [simp]: "crash_image (w\<lparr>script := os\<rparr>) = crash_image w"
  by (simp add: crash_image_def fun_eq_iff)

lemma crash_image_synced:
  "shadow w = None \<Longrightarrow> synced w = length (content w) \<Longrightarrow> crash_image w c \<longleftrightarrow> c = content w"
  by (auto simp: crash_image_def prefix_image_def dest: prefix_full)

text \<open>
  The swap of the rewritten file: success leaves the new bytes, synced, behind an open
  handle; whatever fails, a reader sees the old or the new bytes, before and after a crash.
\<close>

lemma swapIn_ok:
  "swapIn b w = (True, w') \<Longrightarrow> content w' = b \<and> synced w' = length b \<and> shadow w' = None \<and> isOpen w'"
  by (auto simp: swapIn_def sysCall_def step_script_def Let_def split: prod.splits bool.splits if_splits)

lemma swapIn_images:
  assumes "swapIn b w = (fin, w')" and "shadow w = None"
  shows "content w' = content w \<or> content w' = b"
    and "crash_image w' c \<Longrightarrow> crash_image w c \<or> c = b"
  using assms
  by (auto simp: swapIn_def sysCall_def step_script_def Let_def crash_image_def prefix_image_def
      dest: prefix_full split: prod.splits bool.splits if_splits)

lemma rewrite_ok:
  assumes "rewriteWALLocked m rl = (True, rl')"
  shows "\<exists>w. rl' = rl\<lparr>wal := w\<rparr> \<and> content w = frames m (cache rl) \<and>
    synced w = length (content w) \<and> shadow w = None \<and> isOpen w"
proof -
  obtain tmp w w' where t: "writeTemp m (cache rl) (script (wal rl)) = (True, tmp)"
      "swapIn (content tmp) w = (True, w')" "rl' = rl\<lparr>wal := w'\<rparr>"
    using assms by (auto simp: rewriteWALLocked_def split: prod.splits bool.splits)
  from writeTemp_ok [OF t(1)] swapIn_ok [OF t(2)] t(3) show ?thesis by auto
qed

lemma rewrite_wal_only:
  "rewriteWALLocked m rl = (fin, rl') \<Longrightarrow> \<exists>w. rl' = rl\<lparr>wal := w\<rparr>"
  by (auto simp: rewriteWALLocked_def split: prod.splits bool.splits)

lemma rewrite_images:
  assumes "rewriteWALLocked m rl = (fin, rl')" and "shadow (wal rl) = None"
    and "crash_image (wal rl') c"
  shows "crash_image (wal rl) c \<or> c = frames m (cache rl)"
proof -
  obtain good tmp where t: "writeTemp m (cache rl) (script (wal rl)) = (good, tmp)" by force
  obtain closed w where c: "fileClose ((wal rl)\<lparr>script := script tmp\<rparr>) = (closed, w)" by force
  have w: "content w = content (wal rl)" "synced w = synced (wal rl)" "shadow w = None"
    using c assms(2) by (auto simp: fileClose_def step_script_def split: if_splits outcome.splits)
  then have img: "crash_image w c = crash_image (wal rl) c" for c
    using assms(2) by (simp add: crash_image_def)
  obtain s w' where s: "swapIn (content tmp) w = (s, w')" by force
  have "crash_image w' c \<Longrightarrow> good \<Longrightarrow> crash_image (wal rl) c \<or> c = frames m (cache rl)"
    using swapIn_images(2) [OF s w(3)] writeTemp_ok [of m "cache rl" "script (wal rl)" tmp] t img by auto
  moreover have "wal rl' = (if good then (if closed then w' else w) else (wal rl)\<lparr>script := script tmp\<rparr>)"
    using assms(1) t c s by (auto simp: rewriteWALLocked_def split: bool.splits)
  ultimately show ?thesis
    using assms(3) by (cases good; cases closed) (simp_all add: img)
qed

lemma rewrite_no_faults:
  "isOpen (wal rl) \<Longrightarrow> script (wal rl) = [] \<Longrightarrow>
    rewriteWALLocked m rl = (True, rl\<lparr>wal := (wal rl)\<lparr>content := frames m (cache rl),
      synced := length (frames m (cache rl)), shadow := None\<rparr>\<rparr>)"
  by (simp add: rewriteWALLocked_def writeTemp_def swapIn_def file_no_faults writeAll_no_faults Let_def)

section \<open>The leader's append\<close>

lemma AppendLeader_ok:
  assumes "AppendLeader m cmd t rl = (Some e, rl')"
  shows "e = \<lparr>Index = nextIndex rl, Term = t, Command = cmd\<rparr>"
    and "\<exists>os. rl' = rl\<lparr>wal := (wal rl)\<lparr>content := content (wal rl) @ frame m e,
        synced := length (content (wal rl) @ frame m e), script := os\<rparr>,
        cache := cache rl @ [e], nextIndex := nextIndex rl + 1\<rparr>"
    and "isOpen (wal rl)"
proof -
  let ?e = "\<lparr>Index = nextIndex rl, Term = t, Command = cmd\<rparr>"
  obtain w w' where w: "writeEntryTo m ?e (wal rl) = (True, w)" "fileSync w = (True, w')" "e = ?e"
      "rl' = rl\<lparr>wal := w', cache := cache rl @ [e], nextIndex := nextIndex rl + 1\<rparr>"
    using assms by (auto simp: AppendLeader_def writeEntryToDisk_def Let_def split: prod.splits bool.splits)
  from writeEntryTo_ok [OF w(1)] fileSync_ok [OF w(2)] w(3,4)
  show "e = ?e" and "isOpen (wal rl)"
    and "\<exists>os. rl' = rl\<lparr>wal := (wal rl)\<lparr>content := content (wal rl) @ frame m e,
        synced := length (content (wal rl) @ frame m e), script := os\<rparr>,
        cache := cache rl @ [e], nextIndex := nextIndex rl + 1\<rparr>"
    by auto
qed

lemma AppendLeader_fail:
  "AppendLeader m cmd t rl = (None, rl') \<Longrightarrow> \<exists>w. rl' = rl\<lparr>wal := w\<rparr>"
  by (auto simp: AppendLeader_def writeEntryToDisk_def Let_def split: prod.splits bool.splits)

lemma AppendLeader_no_faults:
  "isOpen (wal rl) \<Longrightarrow> script (wal rl) = [] \<Longrightarrow>
    fst (AppendLeader m cmd t rl) = Some \<lparr>Index = nextIndex rl, Term = t, Command = cmd\<rparr>"
  by (simp add: AppendLeader_def writeEntryToDisk_def writeEntryTo_no_faults file_no_faults Let_def)

lemma AppendLeader_wf:
  assumes "log_wf rl" and "AppendLeader m cmd t rl = (r, rl')"
  shows "log_wf rl'"
proof (cases r)
  case None
  with assms AppendLeader_fail [of m cmd t rl rl'] show ?thesis
    by (auto simp: log_wf_def positional_def)
next
  case (Some e)
  with assms(2) have "AppendLeader m cmd t rl = (Some e, rl')" by simp
  from AppendLeader_ok(1,2) [OF this] assms(1) show ?thesis
    by (auto simp: log_wf_def positional_def)
qed

lemma AppendLeader_wal:
  assumes "wal_ok m rl" and "AppendLeader m cmd t rl = (Some e, rl')"
  shows "wal_ok m rl'"
  using AppendLeader_ok [OF assms(2)] assms(1) by (auto simp: wal_ok_def wal_matches_def)

end
