(* ===== verification/Raft_Log_Splice.thy ===== *)
theory Raft_Log_Splice
  imports Raft_Log_Append
begin

text \<open>
  The follower's splice (\<^verbatim>\<open>AppendEntriesToLog\<close>, steps 2 to 4): equivalence with a reference
  merge, the positional invariant under every fault and every input, and the conflict
  hints of a rejection.
\<close>

section \<open>The reference merge\<close>

text \<open>
  Old entries and new entries from the same index on: keep old entries while the terms
  agree, then continue with the new ones.
\<close>

fun mergeLog :: "LogEntry list \<Rightarrow> LogEntry list \<Rightarrow> LogEntry list" where
  "mergeLog old [] = old"
| "mergeLog [] new = new"
| "mergeLog (a # old) (b # new) = (if Term a = Term b then a # mergeLog old new else b # new)"

lemma mergeLog_Nil [simp]: "mergeLog [] new = new"
  by (cases new) auto

lemma length_mergeLog: "length new \<le> length (mergeLog old new)"
  by (induction old new rule: mergeLog.induct) auto

lemma contig_mergeLog: "contig k old \<Longrightarrow> contig k new \<Longrightarrow> contig k (mergeLog old new)"
  by (induction old new arbitrary: k rule: mergeLog.induct) auto

lemma mergeLog_Term:
  "i < length new \<Longrightarrow> Term (mergeLog old new ! i) = Term (new ! i)"
proof (induction old new arbitrary: i rule: mergeLog.induct)
  case (3 a old b new)
  then show ?case by (cases i) auto
qed auto

text \<open>Nothing is lost unless a term conflicts.\<close>

lemma mergeLog_agree:
  "\<forall>i. i < length old \<longrightarrow> i < length new \<longrightarrow> Term (old ! i) = Term (new ! i) \<Longrightarrow>
    mergeLog old new = old @ drop (length old) new"
proof (induction old new rule: mergeLog.induct)
  case (3 a old b new)
  then have "Term a = Term b" by (metis length_greater_0_conv list.distinct(1) nth_Cons_0)
  moreover have "\<forall>i. i < length old \<longrightarrow> i < length new \<longrightarrow> Term (old ! i) = Term (new ! i)"
    using "3.prems" by (metis Suc_less_eq length_Cons nth_Cons_Suc)
  ultimately show ?case using "3.IH" by simp
qed auto

lemma mergeLog_idem: "mergeLog (mergeLog old new) new = mergeLog old new"
proof -
  have "mergeLog (mergeLog old new) new = mergeLog old new @ drop (length (mergeLog old new)) new"
    by (rule mergeLog_agree) (simp add: mergeLog_Term)
  then show ?thesis using length_mergeLog [of new old] by simp
qed

section \<open>The splice computes the merge\<close>

lemma appendNew_ok:
  assumes "appendNew m e rl = (True, rl')"
  shows "Index e = firstIndex rl + int (length (cache rl))"
    and "\<exists>os. rl' = rl\<lparr>wal := (wal rl)\<lparr>content := content (wal rl) @ frame m e, script := os\<rparr>,
      cache := cache rl @ [e], nextIndex := Index e + 1\<rparr>"
proof -
  obtain w where "writeEntryTo m e (wal rl) = (True, w)"
      "rl' = rl\<lparr>wal := w, cache := cache rl @ [e], nextIndex := Index e + 1\<rparr>"
    and "Index e = firstIndex rl + int (length (cache rl))"
    using assms by (auto simp: appendNew_def split: if_splits prod.splits bool.splits)
  with writeEntryTo_ok [of m e "wal rl" w]
  show "Index e = firstIndex rl + int (length (cache rl))"
    and "\<exists>os. rl' = rl\<lparr>wal := (wal rl)\<lparr>content := content (wal rl) @ frame m e, script := os\<rparr>,
      cache := cache rl @ [e], nextIndex := Index e + 1\<rparr>"
    by auto
qed

lemma appendNew_wf:
  assumes "log_wf rl" and "wal_matches m rl" and "appendNew m e rl = (True, rl')"
  shows "log_wf rl'" and "wal_matches m rl'"
  using appendNew_ok [OF assms(3)] assms(1,2)
  by (auto simp: log_wf_def positional_def wal_matches_def)

text \<open>Truncation at an index within the log, followed by the rewrite of the file.\<close>

lemma truncate_wf:
  assumes "log_wf rl" and "firstIndex rl \<le> k" and "k \<le> nextIndex rl"
    and "rewriteWALLocked m (rl\<lparr>cache := take (nat (k - firstIndex rl)) (cache rl)\<rparr>) = (True, rl1)"
    and "appendNew m e rl1 = (True, rl2)"
  shows "log_wf rl2" and "wal_matches m rl2"
    and "cache rl2 = take (nat (k - firstIndex rl)) (cache rl) @ [e]"
    and "firstIndex rl2 = firstIndex rl" and "lastIncludedTerm rl2 = lastIncludedTerm rl"
    and "compactionThreshold rl2 = compactionThreshold rl"
proof -
  from rewrite_ok [OF assms(4)] obtain w where
    w: "rl1 = rl\<lparr>cache := take (nat (k - firstIndex rl)) (cache rl), wal := w\<rparr>"
      "content w = frames m (cache rl1)" "shadow w = None" "isOpen w"
    by auto
  from appendNew_ok [OF assms(5)] w assms(1-3) contig_take [of "firstIndex rl" "cache rl"]
  show "log_wf rl2" and "wal_matches m rl2"
    and "cache rl2 = take (nat (k - firstIndex rl)) (cache rl) @ [e]"
    and "firstIndex rl2 = firstIndex rl" and "lastIncludedTerm rl2 = lastIncludedTerm rl"
    and "compactionThreshold rl2 = compactionThreshold rl"
    by (auto simp: log_wf_def positional_def wal_matches_def)
qed

lemma splice_ok:
  assumes "spliceEntries m es n rl = (True, n', rl')"
    and "log_wf rl" and "wal_matches m rl" and "contig k es"
    and "firstIndex rl \<le> k" and "k \<le> nextIndex rl"
  shows "log_wf rl' \<and> wal_matches m rl' \<and>
    cache rl' = take (nat (k - firstIndex rl)) (cache rl)
      @ mergeLog (drop (nat (k - firstIndex rl)) (cache rl)) es \<and>
    firstIndex rl' = firstIndex rl \<and> lastIncludedTerm rl' = lastIncludedTerm rl \<and>
    compactionThreshold rl' = compactionThreshold rl \<and>
    n \<le> n' \<and> (n' = n \<longrightarrow> rl' = rl)"
  using assms
proof (induction es arbitrary: n rl k)
  case Nil
  then show ?case by simp
next
  case (Cons e es)
  let ?j = "nat (k - firstIndex rl)"
  have k: "Index e = k" "contig (k + 1) es" using Cons.prems(4) by simp_all
  have nat_Suc: "nat (k + 1 - firstIndex rl) = Suc ?j" using Cons.prems(5) by simp
  have jlen: "?j \<le> length (cache rl)" using Cons.prems(2,5,6) by (auto simp: log_wf_def)
  show ?case
  proof (cases "getEntryLocked rl k")
    case None
    then have full: "?j = length (cache rl)"
      using jlen Cons.prems(5) by (auto simp: getEntryLocked_None_iff)
    obtain rl1 where r: "appendNew m e rl = (True, rl1)" "spliceEntries m es (Suc n) rl1 = (True, n', rl')"
      using Cons.prems(1) None k(1) by (auto split: prod.splits bool.splits)
    note wf = appendNew_wf [OF Cons.prems(2,3) r(1)]
    from appendNew_ok [OF r(1)] have rl1: "cache rl1 = cache rl @ [e]" "nextIndex rl1 = k + 1"
        "firstIndex rl1 = firstIndex rl" "lastIncludedTerm rl1 = lastIncludedTerm rl"
        "compactionThreshold rl1 = compactionThreshold rl"
      using k(1) by auto
    from Cons.IH [OF r(2) wf k(2)] Cons.prems(5) show ?thesis
      by (auto simp: rl1 nat_Suc full)
  next
    case (Some x)
    then have jl: "?j < length (cache rl)" and x: "x = cache rl ! ?j"
      using Cons.prems(5) by (auto simp: getEntryLocked_iff)
    have dr: "drop ?j (cache rl) = x # drop (Suc ?j) (cache rl)"
      and tk: "take (Suc ?j) (cache rl) = take ?j (cache rl) @ [x]"
      using jl x by (simp_all add: Cons_nth_drop_Suc take_Suc_conv_app_nth)
    show ?thesis
    proof (cases "Term x = Term e")
      case True
      then have "spliceEntries m es n rl = (True, n', rl')"
        using Cons.prems(1) Some k(1) by simp
      moreover have "k + 1 \<le> nextIndex rl"
        using jl Cons.prems(2,5) by (auto simp: log_wf_def)
      ultimately show ?thesis
        using Cons.IH [of n rl "k + 1"] Cons.prems(2,3,5) k(2) True by (simp add: nat_Suc dr tk)
    next
      case False
      let ?rl0 = "rl\<lparr>cache := take ?j (cache rl)\<rparr>"
      obtain rl1 rl2 where r: "rewriteWALLocked m ?rl0 = (True, rl1)" "appendNew m e rl1 = (True, rl2)"
          "spliceEntries m es (Suc n) rl2 = (True, n', rl')"
        using Cons.prems(1) Some k(1) False by (auto split: prod.splits bool.splits)
      note t = truncate_wf [OF Cons.prems(2,5,6) r(1,2)]
      have "nextIndex rl2 = k + 1"
        using t(1,3,4) jl Cons.prems(5) by (auto simp: log_wf_def)
      then show ?thesis
        using Cons.IH [OF r(3) t(1,2) k(2)] t(3-6) Cons.prems(5) jl False by (auto simp: nat_Suc dr)
    qed
  qed
qed

section \<open>Positions survive every input and every fault\<close>

lemma appendNew_positional: "positional rl \<Longrightarrow> appendNew m e rl = (b, rl') \<Longrightarrow> positional rl'"
  by (auto simp: appendNew_def positional_def split: if_splits prod.splits bool.splits)

lemma rewrite_positional:
  "positional rl \<Longrightarrow> rewriteWALLocked m rl = (b, rl') \<Longrightarrow> positional rl'"
  using rewrite_wal_only [of m rl b rl'] by (auto simp: positional_def)

lemma splice_positional:
  "positional rl \<Longrightarrow> spliceEntries m es n rl = (b, n', rl') \<Longrightarrow> positional rl'"
proof (induction es arbitrary: n rl)
  case (Cons e es)
  have cut: "positional (rl\<lparr>cache := take j (cache rl)\<rparr>)" for j
    using Cons.prems(1) by (simp add: positional_def contig_take)
  show ?case
    using Cons.prems Cons.IH appendNew_positional rewrite_positional [OF cut]
    by (auto split: option.splits if_splits prod.splits bool.splits) blast+
qed simp

section \<open>AppendEntriesToLog\<close>

lemma append_entries_cases:
  assumes "AppendEntriesToLog m prev pt es rl = (r, rl')" and "ar_ok r"
  shows "consistencyCheck rl prev pt = None"
    and "\<exists>n rl1 w. spliceEntries m es 0 rl = (True, n, rl1) \<and> rl' = rl1\<lparr>wal := w\<rparr> \<and>
      (if 0 < n then fileSync (wal rl1) else (True, wal rl1)) = (True, w)"
    and "ar_matchIndex r = (if es = [] then prev else Index (last es))"
proof -
  have none: "consistencyCheck rl prev pt = None"
    using assms by (auto simp: AppendEntriesToLog_def consistencyCheck_def Let_def split: if_splits)
  then show "consistencyCheck rl prev pt = None" .
  obtain b n rl1 where s: "spliceEntries m es 0 rl = (b, n, rl1)" by (metis prod_cases3)
  obtain c w where w: "(if 0 < n then fileSync (wal rl1) else (True, wal rl1)) = (c, w)" by force
  have bc: "b \<and> c \<and> rl' = rl1\<lparr>wal := w\<rparr> \<and> ar_matchIndex r = (if es = [] then prev else Index (last es))"
    using assms none s w by (auto simp: AppendEntriesToLog_def split: bool.splits)
  with s w show "\<exists>n rl1 w. spliceEntries m es 0 rl = (True, n, rl1) \<and> rl' = rl1\<lparr>wal := w\<rparr> \<and>
      (if 0 < n then fileSync (wal rl1) else (True, wal rl1)) = (True, w)"
    by auto
  from bc show "ar_matchIndex r = (if es = [] then prev else Index (last es))" by simp
qed

lemma check_passed:
  assumes "log_wf rl" and "lastIncludedIndex rl \<le> prev" and "consistencyCheck rl prev pt = None"
  shows "firstIndex rl \<le> prev + 1" and "prev + 1 \<le> nextIndex rl"
proof -
  show "firstIndex rl \<le> prev + 1" using assms(1,2) by (simp add: log_wf_def)
  show "prev + 1 \<le> nextIndex rl"
  proof (cases "0 < prev")
    case True
    with assms(3) log_wf_last [OF assms(1)] show ?thesis
      by (auto simp: consistencyCheck_def split: if_splits)
  next
    case False
    with assms(1,2) show ?thesis by (auto simp: log_wf_def)
  qed
qed

lemma append_entries_merge:
  assumes wf: "log_wf rl" "wal_ok m rl" and es: "contig (prev + 1) es" "lastIncludedIndex rl \<le> prev"
    and run: "AppendEntriesToLog m prev pt es rl = (r, rl')" "ar_ok r"
  shows "log_wf rl' \<and> wal_ok m rl' \<and> ar_matchIndex r = prev + int (length es) \<and>
    cache rl' = take (nat (prev - lastIncludedIndex rl)) (cache rl)
      @ mergeLog (drop (nat (prev - lastIncludedIndex rl)) (cache rl)) es \<and>
    firstIndex rl' = firstIndex rl \<and> lastIncludedTerm rl' = lastIncludedTerm rl"
proof -
  note c = append_entries_cases [OF run]
  note b = check_passed [OF wf(1) es(2) c(1)]
  obtain n rl1 w where s: "spliceEntries m es 0 rl = (True, n, rl1)" "rl' = rl1\<lparr>wal := w\<rparr>"
      "(if 0 < n then fileSync (wal rl1) else (True, wal rl1)) = (True, w)"
    using c(2) by auto
  have wm: "wal_matches m rl" using wf(2) by (simp add: wal_ok_def)
  have j: "prev + 1 - firstIndex rl = prev - lastIncludedIndex rl" using wf(1) by (simp add: log_wf_def)
  note o = splice_ok [OF s(1) wf(1) wm es(1) b, unfolded j]
  have "content w = content (wal rl1)" "shadow w = shadow (wal rl1)" "isOpen w = isOpen (wal rl1)"
      "synced w = length (content w)"
    using s(3) o wf(2) fileSync_ok [of "wal rl1" w] by (auto simp: wal_ok_def split: if_splits)
  then have "wal_ok m rl'"
    using o s(2) unfolding wal_ok_def wal_matches_def by simp
  moreover have "log_wf rl'" using o s(2) by simp
  moreover have "ar_matchIndex r = prev + int (length es)"
    using c(3) contig_last [OF es(1)] by auto
  ultimately show ?thesis using o s(2) by simp
qed

lemma conflictStart_bounds:
  "firstIndex rl \<le> ci \<Longrightarrow> firstIndex rl \<le> conflictStart rl ct ci \<and> conflictStart rl ct ci \<le> ci"
proof (induction rl ct ci rule: conflictStart.induct)
  case (1 rl ct ci)
  then show ?case by (subst (1 2) conflictStart.simps) auto
qed

lemma conflictStart_run:
  "conflictStart rl ct ci \<le> i \<Longrightarrow> i < ci \<Longrightarrow> Term (entryOrZero rl i) = ct"
proof (induction rl ct ci rule: conflictStart.induct)
  case (1 rl ct ci)
  show ?case
  proof (cases "firstIndex rl < ci \<and> Term (entryOrZero rl (ci - 1)) = ct")
    case True
    with 1 show ?thesis by (cases "i = ci - 1") (auto simp: conflictStart.simps [of rl ct ci])
  next
    case False
    with "1.prems" show ?thesis by (simp add: conflictStart.simps [of rl ct ci])
  qed
qed

lemma conflictStart_stop:
  "firstIndex rl < conflictStart rl ct ci \<Longrightarrow> Term (entryOrZero rl (conflictStart rl ct ci - 1)) \<noteq> ct"
proof (induction rl ct ci rule: conflictStart.induct)
  case (1 rl ct ci)
  then show ?case
    by (cases "firstIndex rl < ci \<and> Term (entryOrZero rl (ci - 1)) = ct")
      (auto simp: conflictStart.simps [of rl ct ci])
qed

section \<open>After a merge\<close>

text \<open>
  What the merge of an acknowledged append leaves: the entries at or below
  \<^verbatim>\<open>prevLogIndex\<close> as they were, and above it the terms the leader sent.
\<close>

abbreviation merged :: "RaftLog \<Rightarrow> int \<Rightarrow> LogEntry list \<Rightarrow> RaftLog \<Rightarrow> bool" where
  "merged rl prev es rl' \<equiv>
     cache rl' = take (nat (prev - lastIncludedIndex rl)) (cache rl)
       @ mergeLog (drop (nat (prev - lastIncludedIndex rl)) (cache rl)) es \<and>
     firstIndex rl' = firstIndex rl \<and> lastIncludedTerm rl' = lastIncludedTerm rl"

lemma merged_prefix:
  assumes "log_wf rl" and "log_wf rl'" and "lastIncludedIndex rl \<le> prev" and "prev < nextIndex rl"
    and "merged rl prev es rl'" and "i \<le> prev"
  shows "getEntryLocked rl' i = getEntryLocked rl i"
proof -
  let ?j = "nat (prev - lastIncludedIndex rl)"
  have j: "?j \<le> length (cache rl)" using assms(1,3,4) by (auto simp: log_wf_def)
  have "cache rl' ! n = cache rl ! n" if "n < ?j" for n
    using that j assms(5) by (simp add: nth_append)
  moreover have "?j \<le> length (cache rl')" using j assms(5) by simp
  ultimately show ?thesis
    using j assms(1,3,5,6) by (auto simp: getEntryLocked_def Let_def log_wf_def)
qed

lemma merged_entries:
  assumes "log_wf rl" and "lastIncludedIndex rl \<le> prev" and "prev < nextIndex rl"
    and "merged rl prev es rl'" and "contig (prev + 1) es" and "e \<in> set es"
  shows "\<exists>x. getEntryLocked rl' (Index e) = Some x \<and> Term x = Term e"
proof -
  define j where "j = nat (prev - lastIncludedIndex rl)"
  have j: "j \<le> length (cache rl)" using assms(1-3) by (auto simp: log_wf_def j_def)
  obtain i where i: "i < length es" "e = es ! i" using assms(6) by (auto simp: in_set_conv_nth)
  let ?ys = "mergeLog (drop j (cache rl)) es"
  have "cache rl' ! (j + i) = ?ys ! i" "j + i < length (cache rl')"
    using j i length_mergeLog [of es "drop j (cache rl)"] assms(4) by (auto simp: nth_append j_def [symmetric])
  moreover have "Index e - firstIndex rl' = int (j + i)"
    using contig_nth [OF assms(5) i(1)] i(2) assms(1,2,4) by (auto simp: log_wf_def j_def)
  ultimately show ?thesis
    using mergeLog_Term [OF i(1), of "drop j (cache rl)"] i(2)
    by (simp add: getEntryLocked_def Let_def del: of_nat_add)
qed

lemma merged_check:
  assumes "log_wf rl" and "log_wf rl'" and "lastIncludedIndex rl \<le> prev" and "prev < nextIndex rl"
    and "merged rl prev es rl'" and "consistencyCheck rl prev pt = None"
  shows "consistencyCheck rl' prev pt = None"
proof -
  let ?j = "nat (prev - lastIncludedIndex rl)"
  have "?j \<le> length (cache rl)" using assms(1,3,4) by (auto simp: log_wf_def)
  then have "prev \<le> lastIndexLocked rl'"
    using log_wf_last [OF assms(2)] assms(1-3,5) by (auto simp: log_wf_def)
  moreover have "lastIncludedIndex rl' = lastIncludedIndex rl" using assms(1,2,5) by (simp add: log_wf_def)
  ultimately show ?thesis
    using assms(6) merged_prefix [OF assms(1-5), of prev] log_wf_last [OF assms(1)] assms(4,5)
    by (auto simp: consistencyCheck_def entryOrZero_def Let_def split: if_splits)
qed

section \<open>Without faults the append succeeds\<close>

lemma appendNew_no_faults:
  "isOpen (wal rl) \<Longrightarrow> script (wal rl) = [] \<Longrightarrow> Index e = firstIndex rl + int (length (cache rl)) \<Longrightarrow>
    appendNew m e rl = (True, rl\<lparr>wal := (wal rl)\<lparr>content := content (wal rl) @ frame m e\<rparr>,
      cache := cache rl @ [e], nextIndex := Index e + 1\<rparr>)"
  by (simp add: appendNew_def writeEntryTo_no_faults)

lemma splice_no_faults:
  assumes "log_wf rl" and "isOpen (wal rl)" and "script (wal rl) = []"
    and "contig k es" and "firstIndex rl \<le> k" and "k \<le> nextIndex rl"
  shows "\<exists>n' rl'. spliceEntries m es n rl = (True, n', rl') \<and> isOpen (wal rl') \<and> script (wal rl') = []"
  using assms
proof (induction es arbitrary: n rl k)
  case (Cons e es)
  have k: "Index e = k" "contig (k + 1) es" using Cons.prems by auto
  note n = log_wfD(4) [OF Cons.prems(1)] and c = log_wfD(1) [OF Cons.prems(1)]
  show ?case
  proof (cases "getEntryLocked rl k")
    case None
    with n Cons.prems have l: "Index e = firstIndex rl + int (length (cache rl))"
      using k by (auto simp: getEntryLocked_None_iff)
    note a = appendNew_no_faults [OF Cons.prems(2,3) l, of m]
    show ?thesis using Cons.IH [OF _ _ _ k(2)] Cons.prems a None k l
      by (auto simp: log_wf_def positional_def)
  next
    case (Some ex)
    show ?thesis
    proof (cases "Term ex = Term e")
      case True
      have "k + 1 \<le> nextIndex rl" using Some n by (auto simp: getEntryLocked_iff)
      with True show ?thesis using Cons.IH [OF Cons.prems(1-3) k(2)] Cons.prems(5) Some k(1) by simp
    next
      case False
      let ?j = "nat (k - firstIndex rl)"
      have j: "?j \<le> length (cache rl)" "firstIndex rl + int ?j = k"
        using Some Cons.prems by (auto simp: getEntryLocked_iff)
      then show ?thesis
        using Cons.IH [OF _ _ _ k(2)] Cons.prems Some k False contig_take [OF c, of ?j]
        by (simp add: rewrite_no_faults appendNew_no_faults log_wf_def positional_def)
    qed
  qed
qed simp

lemma append_entries_no_faults:
  assumes "log_wf rl" and "isOpen (wal rl)" and "script (wal rl) = []" and "contig (prev + 1) es"
    and "lastIncludedIndex rl \<le> prev" and "consistencyCheck rl prev pt = None"
  shows "ar_ok (fst (AppendEntriesToLog m prev pt es rl))"
proof -
  note b = check_passed [OF assms(1,5,6)]
  obtain n rl' where "spliceEntries m es 0 rl = (True, n, rl')" "isOpen (wal rl')" "script (wal rl') = []"
    using splice_no_faults [OF assms(1-4) b] by blast
  with assms(6) show ?thesis by (simp add: AppendEntriesToLog_def file_no_faults)
qed

lemma splice_retransmit:
  assumes "\<forall>e \<in> set es. \<exists>x. getEntryLocked rl (Index e) = Some x \<and> Term x = Term e"
  shows "spliceEntries m es n rl = (True, n, rl)"
  using assms by (induction es) auto

end
