(* ===== verification/Raft_Log_Snapshot.thy ===== *)
theory Raft_Log_Snapshot
  imports Raft_Log_Splice
begin

text \<open>
  The snapshot boundary of the log: compaction, the reset by an installed snapshot, the
  reconciliation at startup, and reopening the file after a crash.
\<close>

section \<open>Compaction and reset\<close>

lemma rewrite_wf: "rewriteWALLocked m rl = (b, rl') \<Longrightarrow> log_wf rl' = log_wf rl"
  using rewrite_wal_only [of m rl b rl'] by auto

lemma rewrite_wal_ok: "rewriteWALLocked m rl = (True, rl') \<Longrightarrow> wal_ok m rl'"
  using rewrite_ok [of m rl rl'] by (auto simp: wal_ok_def wal_matches_def)

lemma truncate_cache_wf:
  assumes "log_wf rl" and "firstIndex rl \<le> s" and "s < nextIndex rl"
  shows "log_wf (rl\<lparr>cache := filter (\<lambda>e. s < Index e) (cache rl),
    lastIncludedIndex := s, lastIncludedTerm := t, firstIndex := s + 1\<rparr>)"
proof -
  note c = log_wfD(1) [OF assms(1)] and n = log_wfD(4) [OF assms(1)]
  let ?d = "nat (s + 1 - firstIndex rl)"
  have d: "?d \<le> length (cache rl)" "firstIndex rl + int ?d = s + 1" using assms(2,3) n by auto
  from contig_drop [OF c d(1)] d(2) have "contig (s + 1) (drop ?d (cache rl))" by simp
  with d n assms show ?thesis
    by (simp add: log_wf_def positional_def contig_filter [OF c] of_nat_diff)
qed

lemma truncate_ok:
  assumes "log_wf rl" and "firstIndex rl \<le> s" and "s < nextIndex rl"
    and "TruncateBeforeIndex m s t rl = (b, rl')"
  shows "log_wf rl'" and "b \<Longrightarrow> wal_ok m rl'"
    and "cache rl' = drop (nat (s + 1 - firstIndex rl)) (cache rl)"
    and "lastIncludedIndex rl' = s" and "lastIncludedTerm rl' = t" and "nextIndex rl' = nextIndex rl"
proof -
  let ?rl = "rl\<lparr>cache := filter (\<lambda>e. s < Index e) (cache rl),
    lastIncludedIndex := s, lastIncludedTerm := t, firstIndex := s + 1\<rparr>"
  have r: "rewriteWALLocked m ?rl = (b, rl')" using assms(2,4) by (simp add: TruncateBeforeIndex_def)
  show "log_wf rl'" using rewrite_wf [OF r] truncate_cache_wf [OF assms(1-3)] by simp
  show "b \<Longrightarrow> wal_ok m rl'" using r rewrite_wal_ok by auto
  note c = log_wfD(1) [OF assms(1)]
  from rewrite_wal_only [OF r] contig_filter [OF c, of s]
  show "cache rl' = drop (nat (s + 1 - firstIndex rl)) (cache rl)"
    and "lastIncludedIndex rl' = s" and "lastIncludedTerm rl' = t" and "nextIndex rl' = nextIndex rl"
    by auto
qed

text \<open>The log holds the snapshot's last entry, so the suffix behind it stays.\<close>

definition holdsBoundary :: "RaftLog \<Rightarrow> int \<Rightarrow> int \<Rightarrow> bool" where
  "holdsBoundary rl s t \<longleftrightarrow> (\<exists>e. getEntryLocked rl s = Some e \<and> Term e = t)"

lemma setNext_id:
  "(cache rl \<noteq> [] \<Longrightarrow> n = nextIndex rl) \<Longrightarrow> (if cache rl \<noteq> [] then rl\<lparr>nextIndex := n\<rparr> else rl) = rl"
  by simp

lemma reset_keep:
  assumes "log_wf rl" and "holdsBoundary rl s t" and "ResetToSnapshot m s t rl = (b, rl')"
  shows "log_wf rl'" and "b \<Longrightarrow> wal_ok m rl'"
    and "cache rl' = drop (nat (s + 1 - firstIndex rl)) (cache rl)"
    and "lastIncludedIndex rl' = s" and "lastIncludedTerm rl' = t" and "nextIndex rl' = nextIndex rl"
proof -
  from assms(2) obtain e where e: "getEntryLocked rl s = Some e" "Term e = t"
    by (auto simp: holdsBoundary_def)
  have b: "firstIndex rl \<le> s" "s < nextIndex rl" "lastIncludedIndex rl < s"
    using e(1) assms(1) by (auto simp: getEntryLocked_iff log_wf_def)
  let ?rl = "rl\<lparr>cache := filter (\<lambda>e. s < Index e) (cache rl),
    lastIncludedIndex := s, lastIncludedTerm := t, firstIndex := s + 1\<rparr>"
  note wf = truncate_cache_wf [OF assms(1) b(1,2), of t]
  have last: "Index (last (cache ?rl)) + 1 = nextIndex ?rl" if "cache ?rl \<noteq> []"
    using wf that contig_last [of "s + 1" "cache ?rl"] by (auto simp: log_wf_def positional_def)
  have n: "(if cache ?rl \<noteq> [] then ?rl\<lparr>nextIndex := Index (last (cache ?rl)) + 1\<rparr> else ?rl) = ?rl"
    by (rule setNext_id) (rule last)
  have "ResetToSnapshot m s t rl = rewriteWALLocked m
      (if cache ?rl \<noteq> [] then ?rl\<lparr>nextIndex := Index (last (cache ?rl)) + 1\<rparr> else ?rl)"
    using e b by (simp add: ResetToSnapshot_def Let_def)
  with assms(3) have r: "rewriteWALLocked m ?rl = (b, rl')" unfolding n by simp
  show "log_wf rl'" using rewrite_wf [OF r] wf by simp
  show "b \<Longrightarrow> wal_ok m rl'" using r rewrite_wal_ok by auto
  note c = log_wfD(1) [OF assms(1)]
  from rewrite_wal_only [OF r] contig_filter [OF c, of s]
  show "cache rl' = drop (nat (s + 1 - firstIndex rl)) (cache rl)"
    and "lastIncludedIndex rl' = s" and "lastIncludedTerm rl' = t" and "nextIndex rl' = nextIndex rl"
    by auto
qed

lemma reset_discard:
  assumes "log_wf rl" and "\<not> holdsBoundary rl s t" and "lastIncludedIndex rl < s"
    and "ResetToSnapshot m s t rl = (b, rl')"
  shows "cache rl' = []" and "lastIncludedIndex rl' = s" and "lastIncludedTerm rl' = t"
    and "firstIndex rl' = s + 1" and "nextIndex rl' = max (nextIndex rl) (s + 1)"
    and "b \<Longrightarrow> wal_ok m rl'"
proof -
  let ?rl = "rl\<lparr>cache := [], lastIncludedIndex := s, lastIncludedTerm := t, firstIndex := s + 1,
    nextIndex := max (nextIndex rl) (s + 1)\<rparr>"
  have k: "(case getEntryLocked rl s of Some e \<Rightarrow> Term e = t | None \<Rightarrow> False) = False"
    using assms(2) by (auto simp: holdsBoundary_def split: option.splits)
  have "ResetToSnapshot m s t rl = rewriteWALLocked m (let r = rl\<lparr>cache := [], lastIncludedIndex := s,
      lastIncludedTerm := t, firstIndex := s + 1\<rparr> in if nextIndex r < s + 1 then r\<lparr>nextIndex := s + 1\<rparr> else r)"
    using assms(3) unfolding ResetToSnapshot_def k by (simp add: Let_def)
  moreover have "(let r = rl\<lparr>cache := [], lastIncludedIndex := s, lastIncludedTerm := t,
      firstIndex := s + 1\<rparr> in if nextIndex r < s + 1 then r\<lparr>nextIndex := s + 1\<rparr> else r) = ?rl"
    by (cases rl) (auto simp: Let_def)
  ultimately have r: "rewriteWALLocked m ?rl = (b, rl')" using assms(4) by metis
  from rewrite_wal_only [OF r] show "cache rl' = []" and "lastIncludedIndex rl' = s"
    and "lastIncludedTerm rl' = t" and "firstIndex rl' = s + 1"
    and "nextIndex rl' = max (nextIndex rl) (s + 1)"
    by auto
  show "b \<Longrightarrow> wal_ok m rl'" using r rewrite_wal_ok by auto
qed

section \<open>Startup\<close>

lemma restore_offset:
  assumes "RestoreOffset m s t rl = (b, rl')" and "0 \<le> s"
  shows "log_wf rl'" and "cache rl' = contiguousRun (s + 1) (cache rl)"
    and "lastIncludedIndex rl' = s" and "lastIncludedTerm rl' = t"
proof -
  let ?kept = "contiguousRun (s + 1) (cache rl)"
  let ?rl = "rl\<lparr>lastIncludedIndex := s, lastIncludedTerm := t, firstIndex := s + 1, cache := ?kept,
    nextIndex := s + 1 + int (length ?kept)\<rparr>"
  have "rl' = ?rl \<or> rewriteWALLocked m ?rl = (b, rl')"
  proof (cases "cache rl = []")
    case True
    then have "?rl = rl\<lparr>lastIncludedIndex := s, lastIncludedTerm := t, firstIndex := s + 1,
        nextIndex := s + 1\<rparr>" by simp
    with True assms(1) show ?thesis by (simp add: RestoreOffset_def Let_def)
  next
    case False
    with assms(1) show ?thesis
      by (auto simp: RestoreOffset_def Let_def split: if_splits)
  qed
  then have "\<exists>w. rl' = ?rl\<lparr>wal := w\<rparr>"
    using rewrite_wal_only [of m ?rl b rl'] by (auto intro: exI [of _ "wal rl"])
  moreover have "log_wf ?rl"
    using assms(2) by (simp add: log_wf_def positional_def contig_contiguousRun)
  ultimately show "log_wf rl'" and "cache rl' = ?kept"
    and "lastIncludedIndex rl' = s" and "lastIncludedTerm rl' = t"
    by auto
qed

lemma recover_entries:
  "cache rl = [] \<Longrightarrow> fold recoverEntry es rl =
    (if es = [] then rl
     else rl\<lparr>firstIndex := Index (hd es), cache := es, nextIndex := Index (last es) + 1\<rparr>)"
proof -
  have step: "cache rl \<noteq> [] \<Longrightarrow> fold recoverEntry es rl =
      (if es = [] then rl else rl\<lparr>cache := cache rl @ es, nextIndex := Index (last es) + 1\<rparr>)" for es rl
    by (induction es arbitrary: rl) (auto simp: recoverEntry_def Let_def)
  show "cache rl = [] \<Longrightarrow> ?thesis"
    by (cases es) (auto simp: step recoverEntry_def Let_def)
qed

text \<open>Opening the file a crash left, with no further faults.\<close>

definition opened :: "marshal \<Rightarrow> LogEntry list \<Rightarrow> RaftLog" where
  "opened m ds = fold recoverEntry ds (freshLog \<lparr>content = frames m ds,
     synced = length (frames m ds), shadow = None, isOpen = True, script = []\<rparr>)"

lemma wal_fold_recover [simp]: "wal (fold recoverEntry es rl) = wal rl"
  by (induction es arbitrary: rl) (auto simp: recoverEntry_def Let_def)

lemma wal_update_recover:
  "(fold recoverEntry es rl)\<lparr>wal := w\<rparr> = fold recoverEntry es (rl\<lparr>wal := w\<rparr>)"
proof (induction es arbitrary: rl)
  case (Cons e es)
  have "(recoverEntry e rl)\<lparr>wal := w\<rparr> = recoverEntry e (rl\<lparr>wal := w\<rparr>)"
    by (simp add: recoverEntry_def Let_def)
  with Cons show ?case by simp
qed simp

lemma open_image:
  assumes "codec_ok m um es" and "prefix c (frames m es)"
  shows "NewRaftLog um c [] = Inr (opened m (wholeFrames m (length c) es))"
proof -
  let ?ds = "wholeFrames m (length c) es"
  have "frames m ?ds = take (length (frames m ?ds)) c"
  proof -
    obtain zs where zs: "es = ?ds @ zs" using prefix_wholeFrames [of m "length c" es] by (auto simp: prefix_def)
    have "prefix (frames m ?ds) (frames m es)" by (subst (2) zs) simp
    then have "prefix (frames m ?ds) c"
      using assms(2) length_frames_wholeFrames [of m "length c" es] prefix_length_prefix by blast
    then obtain ys where "c = frames m ?ds @ ys" by (rule prefixE)
    then show ?thesis by (metis append_eq_conv_conj)
  qed
  then have t: "take (length (frames m ?ds)) c = frames m ?ds" by (rule sym)
  note sc = scan_image [OF assms]
  define ds where "ds = ?ds"
  note s = sc [folded ds_def] and t = t [folded ds_def]
  from arg_cong [OF t, of length] have "min (length c) (length (frames m ds)) = length (frames m ds)" by simp
  then show ?thesis unfolding ds_def [symmetric]
    using s t
    by (auto simp: NewRaftLog_def recover_def freshLog_def file_no_faults sysCall_def step_script_def
        opened_def Let_def wal_update_recover)
qed

end
