(* ===== verification/Raft_Log_Spec.thy ===== *)
theory Raft_Log_Spec
  imports Raft_Log_Snapshot
begin

text \<open>
  What the log promises its callers.  The interface of an append-only store is a locale,
  interpreted on the log's own operations; the properties follow.
\<close>

section \<open>The append-only interface\<close>

text \<open>
  A store of entries with a last index: an append that succeeds puts one entry right after
  the last one and touches nothing else, an append that fails changes no entry.
\<close>

locale append_store =
  fixes inv :: "'s \<Rightarrow> bool" and entryAt :: "'s \<Rightarrow> int \<Rightarrow> 'e option" and lastIdx :: "'s \<Rightarrow> int"
    and app :: "'c \<Rightarrow> 's \<Rightarrow> 'e option \<times> 's"
  assumes inv_app: "inv s \<Longrightarrow> app c s = (r, s') \<Longrightarrow> inv s'"
    and app_Some: "inv s \<Longrightarrow> app c s = (Some e, s') \<Longrightarrow>
      lastIdx s' = lastIdx s + 1 \<and> entryAt s' = (entryAt s)(lastIdx s + 1 \<mapsto> e)"
    and app_None: "inv s \<Longrightarrow> app c s = (None, s') \<Longrightarrow> lastIdx s' = lastIdx s \<and> entryAt s' = entryAt s"
    and above: "inv s \<Longrightarrow> lastIdx s < i \<Longrightarrow> entryAt s i = None"
begin

lemma run_inv: "inv s \<Longrightarrow> runOps app cs s = (rs, s') \<Longrightarrow> inv s'"
  by (induction cs arbitrary: s rs) (auto split: prod.splits dest: inv_app)

lemma run_keeps:
  "inv s \<Longrightarrow> runOps app cs s = (rs, s') \<Longrightarrow> lastIdx s \<le> lastIdx s' \<and>
    (\<forall>i. i \<le> lastIdx s \<longrightarrow> entryAt s' i = entryAt s i)"
proof (induction cs arbitrary: s rs)
  case (Cons c cs)
  obtain r s1 rs1 where r: "app c s = (r, s1)" "runOps app cs s1 = (rs1, s')" "rs = r # rs1"
    by (rule runOps_ConsE [OF Cons.prems(2)])
  note ih = Cons.IH [OF inv_app [OF Cons.prems(1) r(1)] r(2)]
  show ?case
  proof (cases r)
    case None
    then show ?thesis using app_None [of s c s1] Cons.prems(1) r(1) ih by auto
  next
    case (Some e)
    then show ?thesis using app_Some [of s c e s1] Cons.prems(1) r(1) ih by auto
  qed
qed simp

text \<open>The acknowledged entries are the suffix the appends added, in order.\<close>

lemma run_appends:
  "inv s \<Longrightarrow> runOps app cs s = (rs, s') \<Longrightarrow>
    lastIdx s' = lastIdx s + int (length (somes rs)) \<and>
    (\<forall>j < length (somes rs).
       entryAt s' (lastIdx s + 1 + int j) = Some (somes rs ! j))"
proof (induction cs arbitrary: s rs)
  case (Cons c cs)
  obtain r s1 rs1 where r: "app c s = (r, s1)" "runOps app cs s1 = (rs1, s')" "rs = r # rs1"
    by (rule runOps_ConsE [OF Cons.prems(2)])
  note inv1 = inv_app [OF Cons.prems(1) r(1)]
  note ih = Cons.IH [OF inv1 r(2)] and keep = run_keeps [OF inv1 r(2)]
  show ?case
  proof (cases r)
    case None
    then show ?thesis using app_None [of s c s1] Cons.prems(1) r ih by auto
  next
    case (Some e)
    then have a: "lastIdx s1 = lastIdx s + 1" "entryAt s1 (lastIdx s + 1) = Some e"
      using app_Some [of s c e s1] Cons.prems(1) r(1) by auto
    have "entryAt s' (lastIdx s + 1 + int j) = Some ((e # somes rs1) ! j)"
      if "j < Suc (length (somes rs1))" for j
      using that a ih keep by (cases j) (auto simp: algebra_simps)
    then show ?thesis using a ih r(3) Some by simp
  qed
qed simp

end

lemma AppendLeader_store:
  assumes "log_wf rl" and "AppendLeader m cmd t rl = (Some e, rl')"
  shows "LatestIndex rl' = LatestIndex rl + 1"
    and "GetEntry rl' = (GetEntry rl)(LatestIndex rl + 1 \<mapsto> e)"
proof -
  note wf' = AppendLeader_wf [OF assms]
  from AppendLeader_ok [OF assms(2)] obtain w where
    rl': "rl' = rl\<lparr>wal := w, cache := cache rl @ [e], nextIndex := nextIndex rl + 1\<rparr>" by auto
  show "LatestIndex rl' = LatestIndex rl + 1"
    using log_wf_last [OF assms(1)] log_wf_last [OF wf'] by (simp add: LatestIndex_def rl')
  have last: "LatestIndex rl + 1 = firstIndex rl + int (length (cache rl))"
    using log_wf_last [OF assms(1)] log_wfD(4) [OF assms(1)] by (simp add: LatestIndex_def)
  show "GetEntry rl' = (GetEntry rl)(LatestIndex rl + 1 \<mapsto> e)"
    by (auto simp: fun_eq_iff last GetEntry_def getEntryLocked_def Let_def rl' nth_append)
qed

lemma GetEntry_wal [simp]: "GetEntry (rl\<lparr>wal := w\<rparr>) = GetEntry rl" "LatestIndex (rl\<lparr>wal := w\<rparr>) = LatestIndex rl"
  by (auto simp: fun_eq_iff GetEntry_def getEntryLocked_def Let_def LatestIndex_def lastIndexLocked_def)

interpretation al: append_store log_wf GetEntry LatestIndex "\<lambda>(cmd, t). AppendLeader m cmd t" for m
proof unfold_locales
  fix s s' :: RaftLog and c :: "bytes \<times> int" and r :: "LogEntry option" and e :: LogEntry and i :: int
  obtain cmd t where c: "c = (cmd, t)" by (cases c)
  assume wf: "log_wf s"
  show "(case c of (cmd, t) \<Rightarrow> AppendLeader m cmd t) s = (r, s') \<Longrightarrow> log_wf s'"
    using AppendLeader_wf [OF wf] by (simp add: c)
  show "(case c of (cmd, t) \<Rightarrow> AppendLeader m cmd t) s = (Some e, s') \<Longrightarrow>
      LatestIndex s' = LatestIndex s + 1 \<and> GetEntry s' = (GetEntry s)(LatestIndex s + 1 \<mapsto> e)"
    using AppendLeader_store [OF wf] by (simp add: c)
  show "(case c of (cmd, t) \<Rightarrow> AppendLeader m cmd t) s = (None, s') \<Longrightarrow>
      LatestIndex s' = LatestIndex s \<and> GetEntry s' = GetEntry s"
    using AppendLeader_fail [of m cmd t s s'] by (auto simp: c)
  show "LatestIndex s < i \<Longrightarrow> GetEntry s i = None"
    using log_wf_last [OF wf] log_wfD(4) [OF wf]
    by (auto simp: GetEntry_def getEntryLocked_None_iff LatestIndex_def)
qed


section \<open>A concrete codec and log\<close>

text \<open>Inputs for the witnesses: a two-byte header before the command, and a log of four entries.\<close>

definition demoMarshal :: marshal where
  "demoMarshal e = char_of (nat (Index e)) # char_of (nat (Term e)) # Command e"

fun demoUnmarshal :: unmarshal where
  "demoUnmarshal (a # b # c) =
     Some \<lparr>Index = int (of_char a), Term = int (of_char b), Command = c\<rparr>"
| "demoUnmarshal _ = None"

definition demoEntry :: "int \<Rightarrow> int \<Rightarrow> LogEntry" where
  "demoEntry i t = \<lparr>Index = i, Term = t, Command = ''cmd''\<rparr>"

definition demoLog :: "outcome list \<Rightarrow> RaftLog" where
  "demoLog os =
     (let es = [demoEntry 3 1, demoEntry 4 2, demoEntry 5 2, demoEntry 6 2]; b = frames demoMarshal es in
      \<lparr>wal = \<lparr>content = b, synced = length b, shadow = None, isOpen = True, script = os\<rparr>, cache = es,
       nextIndex = 7, firstIndex = 3, lastIncludedIndex = 2, lastIncludedTerm = 1,
       compactionThreshold = 1000\<rparr>)"

lemma demoLog_ok: "log_wf (demoLog os)" "wal_ok demoMarshal (demoLog os)"
  by (simp_all add: demoLog_def Let_def log_wf_def positional_def wal_ok_def wal_matches_def demoEntry_def)

lemma demoLog_open: "isOpen (wal (demoLog os))" "script (wal (demoLog os)) = os"
  by (simp_all add: demoLog_def Let_def)

lemmas demo_simps = demoLog_def Let_def demoEntry_def getEntryLocked_def lastIndexLocked_def

section \<open>Properties\<close>

subsection \<open>Followers\<close>

text \<open>C17. An append the follower acknowledges leaves its log equal to the reference merge of
  the old log with the entries received (entries before the first conflict kept, the rest
  replaced), reports the index of the last entry received, and leaves a well-formed log
  whose file holds exactly its entries, synced.\<close>

theorem append_entries_correct:
  assumes "log_wf rl" and "wal_ok m rl" and "contig (prev + 1) es" and "lastIncludedIndex rl \<le> prev"
    and "AppendEntriesToLog m prev pt es rl = (r, rl')" and "ar_ok r"
  shows "log_wf rl' \<and> wal_ok m rl' \<and> ar_matchIndex r = prev + int (length es) \<and>
    cache rl' = take (nat (prev - lastIncludedIndex rl)) (cache rl)
      @ mergeLog (drop (nat (prev - lastIncludedIndex rl)) (cache rl)) es \<and>
    lastIncludedIndex rl' = lastIncludedIndex rl \<and> lastIncludedTerm rl' = lastIncludedTerm rl"
  using append_entries_merge [OF assms] assms(1) by (auto simp: log_wf_def)

theorem append_entries_correct_witness:
  "let rl' = snd (AppendEntriesToLog demoMarshal 4 2 [demoEntry 5 2, demoEntry 6 3] (demoLog [])) in
   log_wf rl' \<and> cache rl' = [demoEntry 3 1, demoEntry 4 2, demoEntry 5 2, demoEntry 6 3]"
proof -
  let ?es = "[demoEntry 5 2, demoEntry 6 3]"
  have c: "contig (4 + 1) ?es" "lastIncludedIndex (demoLog []) \<le> 4" "consistencyCheck (demoLog []) 4 2 = None"
    by (simp_all add: demo_simps consistencyCheck_def entryOrZero_def)
  note ok = append_entries_no_faults [OF demoLog_ok(1) demoLog_open c]
  show ?thesis
    using append_entries_correct [OF demoLog_ok c(1,2) prod.collapse [symmetric] ok]
    by (simp add: demo_simps)
qed

text \<open>An append received again after it was acknowledged is acknowledged again with the
  same match index and changes neither the log nor its file, whatever faults are due.\<close>

theorem append_entries_retransmit:
  assumes "log_wf rl" and "wal_ok m rl" and "contig (prev + 1) es" and "lastIncludedIndex rl \<le> prev"
    and "AppendEntriesToLog m prev pt es rl = (r, rl')" and "ar_ok r"
  shows "AppendEntriesToLog m prev pt es rl' = (r, rl')"
proof -
  have mg: "log_wf rl'" "wal_ok m rl'" "merged rl prev es rl'" using append_entries_merge [OF assms] by auto
  note c = append_entries_cases [OF assms(5,6)]
  have b: "prev < nextIndex rl" using check_passed [OF assms(1,4) c(1)] by simp
  have r: "r = \<lparr>ar_matchIndex = (if es = [] then prev else Index (last es)), ar_conflictTerm = 0,
      ar_conflictIndex = 0, ar_ok = True\<rparr>"
    using assms(5,6) by (auto simp: AppendEntriesToLog_def consistencyCheck_def Let_def
        split: option.splits prod.splits bool.splits if_splits)
  have "spliceEntries m es 0 rl' = (True, 0, rl')"
    by (rule splice_retransmit) (rule ballI, rule merged_entries [OF assms(1,4) b mg(3) assms(3)])
  moreover have "consistencyCheck rl' prev pt = None" by (rule merged_check [OF assms(1) mg(1) assms(4) b mg(3) c(1)])
  ultimately show ?thesis by (simp add: AppendEntriesToLog_def r)
qed

theorem append_entries_retransmit_witness:
  "let p = AppendEntriesToLog demoMarshal 4 2 [demoEntry 5 2, demoEntry 6 3] (demoLog []) in
   AppendEntriesToLog demoMarshal 4 2 [demoEntry 5 2, demoEntry 6 3] (snd p) = p"
proof -
  let ?es = "[demoEntry 5 2, demoEntry 6 3]"
  have c: "contig (4 + 1) ?es" "lastIncludedIndex (demoLog []) \<le> 4" "consistencyCheck (demoLog []) 4 2 = None"
    by (simp_all add: demo_simps consistencyCheck_def entryOrZero_def)
  note ok = append_entries_no_faults [OF demoLog_ok(1) demoLog_open c]
  show ?thesis
    using append_entries_retransmit [OF demoLog_ok c(1,2) prod.collapse [symmetric] ok] by simp
qed

text \<open>An append that the consistency check refuses leaves the log and the file alone and
  answers with the hints: past the end, the index after the last entry; on a term mismatch,
  the term held there and the first index of the run of that term, never below the first
  index held.\<close>

theorem append_entries_rejects:
  assumes "log_wf rl" and "lastIncludedIndex rl < prev" and "TermAt rl prev \<noteq> pt \<or> LatestIndex rl < prev"
  shows "\<exists>r. AppendEntriesToLog m prev pt es rl = (r, rl) \<and> \<not> ar_ok r \<and>
    (if LatestIndex rl < prev then ar_conflictTerm r = 0 \<and> ar_conflictIndex r = LatestIndex rl + 1
     else ar_conflictTerm r = TermAt rl prev \<and>
       FirstIndex rl \<le> ar_conflictIndex r \<and> ar_conflictIndex r \<le> prev \<and>
       (\<forall>i. ar_conflictIndex r \<le> i \<longrightarrow> i < prev \<longrightarrow> TermAt rl i = TermAt rl prev) \<and>
       (FirstIndex rl < ar_conflictIndex r \<longrightarrow> TermAt rl (ar_conflictIndex r - 1) \<noteq> TermAt rl prev))"
proof -
  have first: "firstIndex rl = lastIncludedIndex rl + 1" "0 \<le> lastIncludedIndex rl"
    using assms(1) by (auto simp: log_wf_def)
  have T: "Term (entryOrZero rl i) = TermAt rl i" if "firstIndex rl \<le> i" for i
    using that first by (auto simp: entryOrZero_def TermAt_def split: option.splits)
  let ?c = "conflictStart rl (TermAt rl prev) prev"
  have b: "firstIndex rl \<le> ?c" "?c \<le> prev" using conflictStart_bounds [of rl prev] assms(2) first by auto
  have run: "TermAt rl i = TermAt rl prev" if "?c \<le> i" "i < prev" for i
    using conflictStart_run [OF that] T [of i] b that by simp
  have stop: "TermAt rl (?c - 1) \<noteq> TermAt rl prev" if "firstIndex rl < ?c"
    using conflictStart_stop [OF that] T [of "?c - 1"] that by simp
  show ?thesis
    using assms(2,3) first T [of prev] b run stop
    by (auto simp: AppendEntriesToLog_def consistencyCheck_def LatestIndex_def FirstIndex_def Let_def)
qed

theorem append_entries_rejects_witness:
  "\<exists>r. AppendEntriesToLog demoMarshal 6 9 [] (demoLog []) = (r, demoLog []) \<and> \<not> ar_ok r \<and>
    ar_conflictTerm r = 2 \<and> 3 \<le> ar_conflictIndex r \<and> ar_conflictIndex r \<le> 6"
proof -
  have c: "lastIncludedIndex (demoLog []) < 6" "TermAt (demoLog []) 6 = 2" "LatestIndex (demoLog []) = 6"
      "FirstIndex (demoLog []) = 3"
    by (simp_all add: demo_simps TermAt_def LatestIndex_def FirstIndex_def)
  have "TermAt (demoLog []) 6 \<noteq> 9 \<or> LatestIndex (demoLog []) < 6" by (simp add: c)
  from append_entries_rejects [OF demoLog_ok(1) c(1) this, of demoMarshal "[]"] show ?thesis
    by (auto simp: c)
qed

text \<open>Whatever the entries received are, in whatever order, and whatever write, sync or
  rename fails on the way, every entry of the log stays at the position its index names.\<close>

theorem append_entries_positional:
  assumes "positional rl"
  shows "positional (snd (AppendEntriesToLog m prev pt es rl))"
proof -
  obtain b n rl1 where s: "spliceEntries m es 0 rl = (b, n, rl1)" by (metis prod_cases3)
  from splice_positional [OF assms s] have "positional (rl1\<lparr>wal := w\<rparr>)" for w by (simp add: positional_def)
  with assms splice_positional [OF assms s] show ?thesis
    by (auto simp: AppendEntriesToLog_def s split: option.splits prod.splits bool.splits)
qed

theorem append_entries_positional_witness:
  "positional (snd (AppendEntriesToLog demoMarshal 4 2 [demoEntry 9 9, demoEntry 5 1] (demoLog [IoOk, IoFail 2])))"
  by (rule append_entries_positional) (use demoLog_ok(1) in \<open>simp add: log_wf_def\<close>)

subsection \<open>Leaders\<close>

text \<open>A leader's log is append-only: a series of appends, any of which may fail, keeps
  every entry it had, and the entries acknowledged stand after them in the order of the
  acknowledgements, on consecutive indices.\<close>

theorem leader_append_only:
  assumes "log_wf rl" and "runOps (\<lambda>(cmd, t). AppendLeader m cmd t) cs rl = (rs, rl')"
  shows "log_wf rl' \<and> LatestIndex rl' = LatestIndex rl + int (length (somes rs)) \<and>
    (\<forall>i. i \<le> LatestIndex rl \<longrightarrow> GetEntry rl' i = GetEntry rl i) \<and>
    (\<forall>j < length (somes rs). GetEntry rl' (LatestIndex rl + 1 + int j) = Some (somes rs ! j))"
  using al.run_inv [OF assms] al.run_keeps [OF assms] al.run_appends [OF assms] by blast

theorem leader_append_only_witness:
  "let cs = [(''a'', 2), (''b'', 2)]; rl = demoLog [IoOk, IoOk, IoFail 0];
       p = runOps (\<lambda>(cmd, t). AppendLeader demoMarshal cmd t) cs rl in
   fst p = [None, Some \<lparr>Index = 7, Term = 2, Command = ''b''\<rparr>] \<and>
   GetEntry (snd p) 7 = Some \<lparr>Index = 7, Term = 2, Command = ''b''\<rparr> \<and> GetEntry (snd p) 6 = Some (demoEntry 6 2)"
proof -
  let ?rl = "demoLog [IoOk, IoOk, IoFail 0]"
  let ?p = "runOps (\<lambda>(cmd, t). AppendLeader demoMarshal cmd t) [(''a'', 2), (''b'', 2)] ?rl"
  have p: "fst ?p = [None, Some \<lparr>Index = 7, Term = 2, Command = ''b''\<rparr>]"
    by (simp add: AppendLeader_def writeEntryToDisk_def writeEntryTo_def fileWrite_def fileSync_def
        step_script_def demo_simps)
  have l: "LatestIndex ?rl = 6" "GetEntry ?rl 6 = Some (demoEntry 6 2)"
    by (simp_all add: demo_simps LatestIndex_def GetEntry_def)
  show ?thesis
    using leader_append_only [OF demoLog_ok(1) prod.collapse [symmetric], of demoMarshal "[(''a'', 2), (''b'', 2)]"
        "[IoOk, IoOk, IoFail 0]"] p l by (simp add: Let_def)
qed

end
