(* ===== verification/Raft_Log_Recovery.thy ===== *)
theory Raft_Log_Recovery
  imports Raft_Log_Spec
begin

text \<open>
  Durability: what a crash leaves of the log file, what reopening and reconciling it with
  the snapshot give back, the effect of compaction and of an installed snapshot on the
  entries, and two histories in which the file and the log part.
\<close>

section \<open>Reopening\<close>

lemma opened_fields:
  "cache (opened m ds) = ds" "wal_ok m (opened m ds)" "script (wal (opened m ds)) = []"
  "isOpen (wal (opened m ds))"
  by (auto simp: opened_def recover_entries freshLog_def wal_ok_def wal_matches_def)

lemma opened_first: "ds \<noteq> [] \<Longrightarrow> firstIndex (opened m ds) = Index (hd ds)"
  by (simp add: opened_def recover_entries freshLog_def)

text \<open>C18. No acknowledged entry is lost by a crash: whichever bytes beyond the synced ones
  survive, reopening the file succeeds and gives a prefix of the entries written that
  contains every entry synced, with the torn frame cut from the file.\<close>

theorem crash_recovery:
  assumes "content w = frames m es" and "codec_ok m um es" and "shadow w = None"
    and "prefix acked es" and "length (frames m acked) \<le> synced w" and "crash_image w c"
  shows "\<exists>rl. NewRaftLog um c [] = Inr rl \<and> prefix acked (cache rl) \<and> prefix (cache rl) es \<and> wal_ok m rl"
proof -
  have c: "prefix c (frames m es)" "synced w \<le> length c"
    using assms(1,3,6) by (auto simp: crash_image_def prefix_image_def)
  have "prefix acked (wholeFrames m (length c) es)"
    using assms(4,5) c(2) by (intro wholeFrames_durable) auto
  then show ?thesis
    using open_image [OF assms(2) c(1)] opened_fields [of m] prefix_wholeFrames by auto
qed

theorem crash_recovery_witness:
  "\<exists>rl. NewRaftLog demoUnmarshal (take 12 (frames demoMarshal [demoEntry 3 1, demoEntry 4 2])) [] = Inr rl \<and>
    prefix [demoEntry 3 1] (cache rl)"
proof -
  let ?es = "[demoEntry 3 1, demoEntry 4 2]"
  let ?w = "\<lparr>content = frames demoMarshal ?es, synced = 9, shadow = None, isOpen = True, script = []\<rparr>"
  have "codec_ok demoMarshal demoUnmarshal ?es" by (simp add: codec_ok_def demoMarshal_def demoEntry_def)
  moreover have "length (frames demoMarshal [demoEntry 3 1]) \<le> synced ?w"
    by (simp add: demoMarshal_def demoEntry_def)
  moreover have "crash_image ?w (take 12 (frames demoMarshal ?es))"
    by (simp add: crash_image_def prefix_image_def take_is_prefix demoMarshal_def demoEntry_def)
  ultimately show ?thesis
    using crash_recovery [of ?w demoMarshal ?es demoUnmarshal "[demoEntry 3 1]"
        "take 12 (frames demoMarshal ?es)"] by auto
qed

section \<open>Reconciling with the snapshot\<close>

lemma restore_no_faults:
  assumes "contig k es" and "k \<le> s + 1" and "0 \<le> s"
  shows "\<exists>rl'. RestoreOffset m s t (opened m es) = (True, rl') \<and> log_wf rl' \<and> wal_ok m rl' \<and>
    cache rl' = drop (nat (s + 1 - k)) es \<and> lastIncludedIndex rl' = s \<and> lastIncludedTerm rl' = t"
proof -
  let ?rl = "opened m es"
  obtain b rl' where r: "RestoreOffset m s t ?rl = (b, rl')" by force
  note f = opened_fields [of m es] and ro = restore_offset [OF r assms(3)]
  have run: "contiguousRun (s + 1) es = drop (nat (s + 1 - k)) es"
    using contig_run_drop [OF assms(1), of "s + 1"] assms(2) by simp
  have "b \<and> wal_ok m rl'"
  proof (cases "length es = length (contiguousRun (s + 1) es)")
    case True
    moreover have "length es = length es - n \<Longrightarrow> n = 0 \<or> length es = 0" for n by arith
    ultimately have "nat (s + 1 - k) = 0 \<or> es = []" using run by (metis length_0_conv length_drop)
    then have "contiguousRun (s + 1) es = es" using run by auto
    then show ?thesis using r f by (auto simp: RestoreOffset_def Let_def wal_ok_def wal_matches_def split: if_splits)
  next
    case False
    then have "0 < length es - length (contiguousRun (s + 1) es)" "es \<noteq> []" using run by auto
    then show ?thesis using r f
      by (auto simp: RestoreOffset_def Let_def rewrite_no_faults wal_ok_def wal_matches_def)
  qed
  then show ?thesis using r ro f(1) run by auto
qed

text \<open>What a start gives back of the log \<open>rl\<close> with a snapshot at \<open>s\<close>: the entries above it.\<close>

definition restored :: "marshal \<Rightarrow> RaftLog \<Rightarrow> int \<Rightarrow> int \<Rightarrow> RaftLog \<Rightarrow> bool" where
  "restored m rl s t rl' \<longleftrightarrow> log_wf rl' \<and> wal_ok m rl' \<and> LatestIndex rl' = max s (LatestIndex rl) \<and>
     TermAt rl' s = t \<and> (\<forall>i. GetEntry rl' i = (if i \<le> s then None else GetEntry rl i))"

lemma restored_drop:
  assumes "log_wf rl" and "lastIncludedIndex rl \<le> s" and "log_wf rl'" and "wal_ok m rl'"
    and "cache rl' = drop (nat (s + 1 - firstIndex rl)) (cache rl)" and "lastIncludedIndex rl' = s"
    and "lastIncludedTerm rl' = t"
  shows "restored m rl s t rl'"
proof -
  note wf = log_wfD [OF assms(1)]
  have "nextIndex rl' = max (s + 1) (nextIndex rl)"
    using log_wfD(2,4) [OF assms(3)] assms(2,5,6) wf by auto
  then have "LatestIndex rl' = max s (LatestIndex rl)"
    using log_wf_last [OF assms(1)] log_wf_last [OF assms(3)] by (auto simp: LatestIndex_def)
  moreover have "GetEntry rl' i = (if i \<le> s then None else GetEntry rl i)" for i
    using log_wfD(2) [OF assms(3)] assms(2,5,6) wf
    by (auto simp: GetEntry_def getEntryLocked_def Let_def nat_diff_distrib' nat_add_distrib
        intro!: arg_cong [of _ _ "\<lambda>n. cache rl ! n"])
  ultimately show ?thesis using assms by (auto simp: TermAt_def restored_def)
qed

text \<open>A start on the whole frames of a contiguous run that reaches down to the snapshot.\<close>

lemma restart_from:
  assumes "codec_ok m um es" and "contig k es" and "k \<le> s + 1" and "0 \<le> s"
  shows "\<exists>rl0 rl'. NewRaftLog um (frames m es) [] = Inr rl0 \<and> RestoreOffset m s t rl0 = (True, rl') \<and>
    log_wf rl' \<and> wal_ok m rl' \<and> cache rl' = drop (nat (s + 1 - k)) es \<and>
    lastIncludedIndex rl' = s \<and> lastIncludedTerm rl' = t"
  using open_image [OF assms(1), of "frames m es"] restore_no_faults [OF assms(2-4), of m t]
  by (auto simp: wholeFrames_all)

text \<open>Restart: a node whose log was well formed and in step with its file, crashed and
  started again with its latest snapshot at an index at or above the log's boundary, has the
  entries above the snapshot back, each under its index, and continues after the last one.\<close>

theorem restart_restores:
  assumes "log_wf rl" and "wal_ok m rl" and "codec_ok m um (cache rl)"
    and "lastIncludedIndex rl \<le> s" and "crash_image (wal rl) c"
  shows "\<exists>rl0 rl'. NewRaftLog um c [] = Inr rl0 \<and> RestoreOffset m s t rl0 = (True, rl') \<and>
    restored m rl s t rl'"
proof -
  have c: "c = frames m (cache rl)"
    using assms(2,5) crash_image_synced by (auto simp: wal_ok_def wal_matches_def)
  note wf = log_wfD [OF assms(1)]
  have "firstIndex rl \<le> s + 1" "0 \<le> s" using wf assms(4) by auto
  from restart_from [OF assms(3) wf(1) this, of t] restored_drop [OF assms(1,4)]
  show ?thesis unfolding c by blast
qed

theorem restart_restores_witness:
  "\<exists>rl0 rl'. NewRaftLog demoUnmarshal (content (wal (demoLog []))) [] = Inr rl0 \<and>
    RestoreOffset demoMarshal 4 2 rl0 = (True, rl') \<and> LatestIndex rl' = 6 \<and>
    GetEntry rl' 5 = Some (demoEntry 5 2) \<and> GetEntry rl' 4 = None"
proof -
  have "codec_ok demoMarshal demoUnmarshal (cache (demoLog []))"
    by (simp add: codec_ok_def demoMarshal_def demo_simps)
  moreover have "crash_image (wal (demoLog [])) (content (wal (demoLog [])))"
    by (simp add: crash_image_def prefix_image_def demo_simps)
  moreover have l: "lastIncludedIndex (demoLog []) \<le> 4" "LatestIndex (demoLog []) = 6"
      "GetEntry (demoLog []) 5 = Some (demoEntry 5 2)"
    by (simp_all add: demo_simps LatestIndex_def GetEntry_def)
  ultimately show ?thesis
    using restart_restores [OF demoLog_ok, of demoUnmarshal "[]" 4 "content (wal (demoLog []))" 2]
    by (fastforce simp: restored_def)
qed

section \<open>Compaction\<close>

text \<open>What a crash may leave of the file of a log that was being cut at \<open>s\<close>: all of it, or what is above.\<close>

lemma truncate_images:
  assumes "log_wf rl" and "wal_ok m rl" and "firstIndex rl \<le> s"
    and "TruncateBeforeIndex m s t rl = (fin, rl1)" and "crash_image (wal rl1) c"
  shows "c = frames m (cache rl) \<or> c = frames m (drop (nat (s + 1 - firstIndex rl)) (cache rl))"
proof -
  let ?rl = "rl\<lparr>cache := filter (\<lambda>e. s < Index e) (cache rl),
    lastIncludedIndex := s, lastIncludedTerm := t, firstIndex := s + 1\<rparr>"
  have r: "rewriteWALLocked m ?rl = (fin, rl1)" using assms(3,4) by (simp add: TruncateBeforeIndex_def)
  have w: "shadow (wal ?rl) = None" "crash_image (wal ?rl) c \<Longrightarrow> c = frames m (cache rl)"
    using assms(2) crash_image_synced by (auto simp: wal_ok_def wal_matches_def)
  show ?thesis
    using rewrite_images [OF r w(1) assms(5)] w(2) contig_filter [OF log_wfD(1) [OF assms(1)], of s] by auto
qed

text \<open>C8. Compaction is crash safe: the snapshot at \<open>s\<close> is on disk before the log is cut, so
  whichever step of the cut fails, and whatever a crash then leaves of the file, a restart
  with that snapshot has every entry above it back.\<close>

theorem compaction_crash_safe:
  assumes "log_wf rl" and "wal_ok m rl" and "codec_ok m um (cache rl)"
    and "firstIndex rl \<le> s" and "s < nextIndex rl"
    and "TruncateBeforeIndex m s t rl = (fin, rl1)" and "crash_image (wal rl1) c"
  shows "\<exists>rl0 rl'. NewRaftLog um c [] = Inr rl0 \<and> RestoreOffset m s t rl0 = (True, rl') \<and>
    restored m rl s t rl'"
proof -
  note wf = log_wfD [OF assms(1)]
  let ?es = "drop (nat (s + 1 - firstIndex rl)) (cache rl)"
  have b: "firstIndex rl \<le> s + 1" "0 \<le> s" "lastIncludedIndex rl \<le> s" using wf assms(4) by auto
  have e: "codec_ok m um ?es" using assms(3) by (auto simp: codec_ok_def dest: in_set_dropD)
  have "contig (s + 1) ?es"
    using truncate_cache_wf [OF assms(1,4,5)] contig_filter [OF wf(1), of s] by (simp add: log_wf_def positional_def)
  note new = restart_from [OF e this _ b(2), of t] and old = restart_from [OF assms(3) wf(1) b(1,2), of t]
  obtain rl0 rl' where "NewRaftLog um c [] = Inr rl0" "RestoreOffset m s t rl0 = (True, rl')"
      "log_wf rl'" "wal_ok m rl'" "cache rl' = ?es" "lastIncludedIndex rl' = s" "lastIncludedTerm rl' = t"
    using new old truncate_images [OF assms(1,2,4,6,7)] by auto
  with restored_drop [OF assms(1) b(3)] show ?thesis by blast
qed

theorem compaction_crash_safe_witness:
  "\<exists>rl0 rl'. NewRaftLog demoUnmarshal (content (wal (demoLog []))) [] = Inr rl0 \<and>
    RestoreOffset demoMarshal 4 2 rl0 = (True, rl') \<and> restored demoMarshal (demoLog [IoFail 0]) 4 2 rl'"
proof -
  let ?p = "TruncateBeforeIndex demoMarshal 4 2 (demoLog [IoFail 0])"
  have "codec_ok demoMarshal demoUnmarshal (cache (demoLog [IoFail 0]))"
    by (simp add: codec_ok_def demoMarshal_def demo_simps)
  moreover have "firstIndex (demoLog [IoFail 0]) \<le> 4" "4 < nextIndex (demoLog [IoFail 0])"
    by (simp_all add: demo_simps)
  moreover have "crash_image (wal (snd ?p)) (content (wal (demoLog [])))"
    by (simp add: TruncateBeforeIndex_def rewriteWALLocked_def writeTemp_def sysCall_def step_script_def
        crash_image_def prefix_image_def demo_simps)
  ultimately show ?thesis
    using compaction_crash_safe [OF demoLog_ok, of demoUnmarshal "[IoFail 0]" 4 2 "fst ?p" "snd ?p"
        "content (wal (demoLog []))"] by auto
qed

section \<open>Installing a snapshot\<close>

lemma reset_to_snapshot_boundary:
  assumes "log_wf rl" and "ResetToSnapshot m s t rl = (fin, rl')" and "lastIncludedIndex rl < s"
  shows "firstIndex rl' = s + 1"
  using reset_keep(1,4) [OF assms(1) _ assms(2)] reset_discard(4) [OF assms(1) _ assms(3,2)]
  by (cases "holdsBoundary rl s t") (auto simp: log_wf_def)

text \<open>C9. An installed snapshot newer than the boundary moves the boundary to its last entry.
  A log that holds that entry keeps exactly the entries behind it and stays well formed;
  any other log is dropped whole.  A snapshot at or below the boundary changes nothing.\<close>

theorem reset_to_snapshot:
  assumes "log_wf rl" and "ResetToSnapshot m s t rl = (fin, rl')"
  shows "if s \<le> lastIncludedIndex rl then fin \<and> rl' = rl
    else lastIncludedIndex rl' = s \<and> TermAt rl' s = t \<and> FirstIndex rl' = s + 1 \<and> (fin \<longrightarrow> wal_ok m rl') \<and>
      (if holdsBoundary rl s t
       then log_wf rl' \<and> LatestIndex rl' = LatestIndex rl \<and>
         (\<forall>i. GetEntry rl' i = (if i \<le> s then None else GetEntry rl i))
       else LatestIndex rl' = s \<and> (\<forall>i. GetEntry rl' i = None))"
proof (cases "s \<le> lastIncludedIndex rl")
  case True
  with assms(2) show ?thesis by (simp add: ResetToSnapshot_def)
next
  case new: False
  show ?thesis
  proof (cases "holdsBoundary rl s t")
    case True
    note k = reset_keep [OF assms(1) True assms(2)] and wf = log_wfD [OF assms(1)]
    have "LatestIndex rl' = LatestIndex rl"
      using log_wf_last [OF assms(1)] log_wf_last [OF k(1)] k(6) by (simp add: LatestIndex_def)
    moreover have "GetEntry rl' i = (if i \<le> s then None else GetEntry rl i)" for i
      using log_wfD(2) [OF k(1)] k(3,4) wf new
      by (auto simp: GetEntry_def getEntryLocked_def Let_def nat_diff_distrib' nat_add_distrib
          intro!: arg_cong [of _ _ "\<lambda>n. cache rl ! n"])
    ultimately show ?thesis using k(1,2,4,5) log_wfD(2) [OF k(1)] True new
      by (auto simp: TermAt_def FirstIndex_def)
  next
    case False
    from new have "lastIncludedIndex rl < s" by simp
    note d = reset_discard [OF assms(1) False this assms(2)]
    show ?thesis using d False new
      by (auto simp: TermAt_def FirstIndex_def LatestIndex_def lastIndexLocked_def GetEntry_def
          getEntryLocked_None_iff)
  qed
qed

theorem reset_to_snapshot_witness:
  "let rl' = snd (ResetToSnapshot demoMarshal 5 2 (demoLog [])) in
   log_wf rl' \<and> LatestIndex rl' = 6 \<and> GetEntry rl' 6 = Some (demoEntry 6 2) \<and> GetEntry rl' 5 = None"
proof -
  have "holdsBoundary (demoLog []) 5 2" "lastIncludedIndex (demoLog []) = 2" "LatestIndex (demoLog []) = 6"
      "GetEntry (demoLog []) 6 = Some (demoEntry 6 2)"
    by (simp_all add: holdsBoundary_def demo_simps LatestIndex_def GetEntry_def)
  then show ?thesis
    using reset_to_snapshot [OF demoLog_ok(1) prod.collapse [symmetric], of 5 "[]" demoMarshal 2] by simp
qed

section \<open>Two histories in which the log and its file part\<close>

text \<open>When a snapshot that the log does not hold replaces a log reaching past it, the next
  index to hand out stays where the old log ended, so the next entry the leader appends is
  stored, and found, at an index other than its own.\<close>

theorem reset_discard_misplaces:
  assumes "log_wf rl" and "lastIncludedIndex rl < s" and "s + 1 < nextIndex rl" and "\<not> holdsBoundary rl s t"
    and "ResetToSnapshot m s t rl = (True, rl1)" and "AppendLeader m cmd t' rl1 = (Some e, rl2)"
  shows "Index e = nextIndex rl \<and> GetEntry rl2 (s + 1) = Some e \<and> \<not> positional rl2"
proof -
  note d = reset_discard [OF assms(1,4,2,5)] and a = AppendLeader_ok [OF assms(6)]
  have i: "Index e = nextIndex rl" using a(1) d(5) assms(3) by simp
  have c: "cache rl2 = [e]" "firstIndex rl2 = s + 1" using a(2) d(1,4) by auto
  show ?thesis using i c assms(3) by (simp add: GetEntry_def getEntryLocked_def positional_def)
qed

theorem reset_discard_misplaces_witness:
  "let rl1 = snd (ResetToSnapshot demoMarshal 4 9 (demoLog []));
       rl2 = snd (AppendLeader demoMarshal ''x'' 9 rl1) in
   GetEntry rl2 5 = Some \<lparr>Index = 7, Term = 9, Command = ''x''\<rparr>"
proof -
  let ?rl1 = "snd (ResetToSnapshot demoMarshal 4 9 (demoLog []))"
  have h: "lastIncludedIndex (demoLog []) < 4" "4 + 1 < nextIndex (demoLog [])" "\<not> holdsBoundary (demoLog []) 4 9"
    by (simp_all add: holdsBoundary_def demo_simps)
  have r: "ResetToSnapshot demoMarshal 4 9 (demoLog []) = (True, ?rl1)"
    by (simp add: ResetToSnapshot_def demo_simps rewrite_no_faults)
  have "AppendLeader demoMarshal ''x'' 9 ?rl1 =
      (Some \<lparr>Index = 7, Term = 9, Command = ''x''\<rparr>, snd (AppendLeader demoMarshal ''x'' 9 ?rl1))"
    by (simp add: ResetToSnapshot_def demo_simps rewrite_no_faults AppendLeader_def writeEntryToDisk_def
        writeEntryTo_no_faults file_no_faults)
  from reset_discard_misplaces [OF demoLog_ok(1) h r this] show ?thesis by (simp add: Let_def)
qed

text \<open>A leader append whose write succeeds and whose sync fails is refused, but its frame
  stays in the file.  The next append reuses its index, is acknowledged, and a restart finds
  the refused entry at that index and not the acknowledged one.\<close>

theorem failed_sync_resurfaces:
  assumes "log_wf rl" and "wal_ok m rl" and "script (wal rl) = [IoOk, IoOk, IoFail 0]"
    and "AppendLeader m c1 t1 rl = (r1, rl1)" and "AppendLeader m c2 t2 rl1 = (r2, rl2)"
    and "codec_ok m um (cache rl @ [\<lparr>Index = nextIndex rl, Term = t1, Command = c1\<rparr>,
      \<lparr>Index = nextIndex rl, Term = t2, Command = c2\<rparr>])"
    and "cache rl \<noteq> []" and "crash_image (wal rl2) c"
  shows "r1 = None \<and> r2 = Some \<lparr>Index = nextIndex rl, Term = t2, Command = c2\<rparr> \<and>
    (\<exists>rl3. NewRaftLog um c [] = Inr rl3 \<and>
       GetEntry rl3 (nextIndex rl) = Some \<lparr>Index = nextIndex rl, Term = t1, Command = c1\<rparr>)"
proof -
  let ?e1 = "\<lparr>Index = nextIndex rl, Term = t1, Command = c1\<rparr>"
  let ?e2 = "\<lparr>Index = nextIndex rl, Term = t2, Command = c2\<rparr>"
  let ?es = "cache rl @ [?e1, ?e2]"
  have w: "isOpen (wal rl)" "shadow (wal rl) = None" "content (wal rl) = frames m (cache rl)"
      "synced (wal rl) = length (frames m (cache rl))"
    using assms(2) by (auto simp: wal_ok_def wal_matches_def)
  have r1: "r1 = None" "rl1 = rl\<lparr>wal := (wal rl)\<lparr>content := frames m (cache rl @ [?e1]), script := []\<rparr>\<rparr>"
    using assms(3,4) w by (auto simp: AppendLeader_def writeEntryToDisk_def writeEntryTo_def fileWrite_def
        fileSync_def step_script_def Let_def frame_def)
  have r2: "r2 = Some ?e2" "content (wal rl2) = frames m ?es" "synced (wal rl2) = length (frames m ?es)"
      "shadow (wal rl2) = None"
    using assms(5) w r1(2) by (auto simp: AppendLeader_def writeEntryToDisk_def writeEntryTo_no_faults
        file_no_faults Let_def)
  then have c: "c = frames m ?es" using assms(8) crash_image_synced by auto
  have "NewRaftLog um c [] = Inr (opened m ?es)"
    using open_image [OF assms(6), of c] c by (simp add: wholeFrames_all)
  moreover have "firstIndex (opened m ?es) = firstIndex rl"
    using log_wfD(1) [OF assms(1)] assms(7) by (cases "cache rl") (auto simp: opened_first)
  ultimately show ?thesis
    using r1 r2 opened_fields(1) [of m ?es] log_wfD(4) [OF assms(1)]
    by (simp add: GetEntry_def getEntryLocked_def nth_append)
qed

theorem failed_sync_resurfaces_witness:
  "let rl = demoLog [IoOk, IoOk, IoFail 0]; rl1 = snd (AppendLeader demoMarshal ''a'' 2 rl);
       p2 = AppendLeader demoMarshal ''b'' 2 rl1 in
   fst p2 = Some \<lparr>Index = 7, Term = 2, Command = ''b''\<rparr> \<and>
   (\<exists>rl3. NewRaftLog demoUnmarshal (content (wal (snd p2))) [] = Inr rl3 \<and>
     GetEntry rl3 7 = Some \<lparr>Index = 7, Term = 2, Command = ''a''\<rparr>)"
proof -
  let ?rl = "demoLog [IoOk, IoOk, IoFail 0]"
  let ?rl1 = "snd (AppendLeader demoMarshal ''a'' 2 ?rl)"
  let ?p2 = "AppendLeader demoMarshal ''b'' 2 ?rl1"
  have n: "nextIndex ?rl = 7" "cache ?rl \<noteq> []" by (simp_all add: demo_simps)
  have c: "codec_ok demoMarshal demoUnmarshal (cache ?rl @ [\<lparr>Index = nextIndex ?rl, Term = 2, Command = ''a''\<rparr>,
      \<lparr>Index = nextIndex ?rl, Term = 2, Command = ''b''\<rparr>])"
    by (simp add: codec_ok_def demoMarshal_def demo_simps)
  have "crash_image (wal (snd ?p2)) (content (wal (snd ?p2)))"
    by (simp add: crash_image_def prefix_image_def AppendLeader_def writeEntryToDisk_def writeEntryTo_def
        fileWrite_def fileSync_def step_script_def demo_simps)
  from failed_sync_resurfaces [OF demoLog_ok demoLog_open(2) prod.collapse [symmetric] prod.collapse [symmetric]
      c n(2) this] n(1)
  show ?thesis by (simp add: Let_def)
qed

end
