(* ===== verification/Fs_Util.thy ===== *)
theory Fs_Util
  imports Raft_Types
begin

text \<open>
  \<^verbatim>\<open>internal/fsutil\<close>: replacing a small file atomically.  A file is the bytes a reader of its
  path sees (none when it does not exist) and the bytes a reader may see after a crash.
  Each system call takes its outcome from the script.  The temporary file is not part of
  the state: only the path of the target is ever read.
\<close>

section \<open>Definitions\<close>

record AtomicFile =
  visible :: "bytes option"
  survivors :: "bytes option list"
  calls :: "outcome list"

definition nextCall :: "AtomicFile \<Rightarrow> bool \<times> AtomicFile" where
  "nextCall f = (next_outcome (calls f) = IoOk, f\<lparr>calls := tl (calls f)\<rparr>)"

text \<open>
  \<^verbatim>\<open>SyncDir\<close> opens the directory and syncs it; once it returns, the names in the directory
  are durable, so a crash can only reveal the file now visible.
\<close>

definition SyncDir :: "AtomicFile \<Rightarrow> bool \<times> AtomicFile" where
  "SyncDir f =
     (case nextCall f of
        (False, f) \<Rightarrow> (False, f)
      | (True, f) \<Rightarrow>
          (case nextCall f of
             (False, f) \<Rightarrow> (False, f)
           | (True, f) \<Rightarrow> (True, f\<lparr>survivors := [visible f]\<rparr>)))"

definition WriteFileAtomic :: "bytes \<Rightarrow> AtomicFile \<Rightarrow> bool \<times> AtomicFile" where
  "WriteFileAtomic data f =
     (case nextCall f of (False, f) \<Rightarrow> (False, f)                   \<comment> \<open>open the temporary file\<close>
      | (True, f) \<Rightarrow> (case nextCall f of (False, f) \<Rightarrow> (False, f)    \<comment> \<open>write it\<close>
      | (True, f) \<Rightarrow> (case nextCall f of (False, f) \<Rightarrow> (False, f)    \<comment> \<open>sync it\<close>
      | (True, f) \<Rightarrow> (case nextCall f of (False, f) \<Rightarrow> (False, f)    \<comment> \<open>close it\<close>
      | (True, f) \<Rightarrow> (case nextCall f of (False, f) \<Rightarrow> (False, f)    \<comment> \<open>rename it into place\<close>
      | (True, f) \<Rightarrow> SyncDir (f\<lparr>visible := Some data, survivors := survivors f @ [Some data]\<rparr>))))))"

section \<open>Outcomes of a replacement\<close>

text \<open>The three things that can have happened: all of it, nothing, or all but the last sync.\<close>

lemma nextCall_keeps: "nextCall f = (b, g) \<Longrightarrow> visible g = visible f \<and> survivors g = survivors f"
  by (auto simp: nextCall_def)

lemma SyncDir_cases:
  assumes "SyncDir f = (fin, f')"
  shows "visible f' = visible f \<and> survivors f' = (if fin then [visible f] else survivors f)"
  using assms by (auto simp: SyncDir_def split: prod.splits bool.splits dest!: nextCall_keeps)

lemma WriteFileAtomic_cases:
  assumes "WriteFileAtomic data f = (fin, f')"
  obtains (Durable) "fin" "visible f' = Some data" "survivors f' = [Some data]"
  | (Untouched) "\<not> fin" "visible f' = visible f" "survivors f' = survivors f"
  | (Exposed) "\<not> fin" "visible f' = Some data" "survivors f' = survivors f @ [Some data]"
  using assms
  by (cases fin)
     (auto simp: WriteFileAtomic_def split: prod.splits bool.splits dest!: nextCall_keeps SyncDir_cases)

end
