(* ===== verification/State_Store.thy ===== *)
theory State_Store
  imports Fs_Util
begin

text \<open>
  The durability seam of \<^verbatim>\<open>internal/raft/node.go\<close>: the \<^verbatim>\<open>stateStore\<close> interface the node is
  written against, as a store of values with the outcomes a save may have, and its only
  implementation, \<^verbatim>\<open>fileStateStore\<close>, as bytes in a file.  The contract is a locale; both are
  interpretations of it, and the file is shown to refine the store of values.
\<close>

section \<open>The interface as a store of values\<close>

text \<open>
  A save is durable, or fails and leaves the record alone, or fails after the new record
  became visible; in the last case a crash may reveal either.
\<close>

datatype load_error = ReadMetadata | ParseMetadata

datatype save_outcome = SaveOk | SaveFailOld | SaveFailNew

record StateStore =
  holds :: "PersistentState option"
  mayHold :: "PersistentState option list"
  saves :: "save_outcome list"
  loadErr :: "load_error option"

definition Save :: "PersistentState \<Rightarrow> StateStore \<Rightarrow> bool \<times> StateStore" where
  "Save p s =
     (let s' = s\<lparr>saves := tl (saves s)\<rparr> in
      case saves s of
        [] \<Rightarrow> (True, s'\<lparr>holds := Some p, mayHold := [Some p]\<rparr>)
      | SaveOk # _ \<Rightarrow> (True, s'\<lparr>holds := Some p, mayHold := [Some p]\<rparr>)
      | SaveFailOld # _ \<Rightarrow> (False, s')
      | SaveFailNew # _ \<Rightarrow> (False, s'\<lparr>holds := Some p, mayHold := mayHold s @ [Some p]\<rparr>))"

definition Load :: "StateStore \<Rightarrow> load_error + PersistentState option" where
  "Load s = (case loadErr s of Some e \<Rightarrow> Inl e | None \<Rightarrow> Inr (holds s))"

section \<open>The file\<close>

type_synonym state_enc = "PersistentState \<Rightarrow> bytes"
type_synonym state_dec = "bytes \<Rightarrow> PersistentState option"

definition fileSave :: "state_enc \<Rightarrow> PersistentState \<Rightarrow> AtomicFile \<Rightarrow> bool \<times> AtomicFile" where
  "fileSave enc p f = WriteFileAtomic (enc p) f"

definition fileLoad :: "state_dec \<Rightarrow> AtomicFile \<Rightarrow> (load_error + PersistentState option) \<times> AtomicFile" where
  "fileLoad dec f =
     (case visible f of
        None \<Rightarrow> (Inr None, f)
      | Some data \<Rightarrow>
          (case nextCall f of
             (False, f) \<Rightarrow> (Inl ReadMetadata, f)
           | (True, f) \<Rightarrow> (case dec data of None \<Rightarrow> Inl ParseMetadata | Some p \<Rightarrow> Inr (Some p), f)))"

section \<open>The contract\<close>

text \<open>
  After a save that reports success only the saved record can be found; one that reports
  failure adds at most its own record to what can be found.
\<close>

locale state_store =
  fixes save :: "'p \<Rightarrow> 's \<Rightarrow> bool \<times> 's" and images :: "'s \<Rightarrow> 'p option set"
  assumes save_True: "save p s = (True, s') \<Longrightarrow> images s' = {Some p}"
    and save_False: "save p s = (False, s') \<Longrightarrow> images s' \<subseteq> insert (Some p) (images s)"
begin

lemma save_images: "save p s = (b, s') \<Longrightarrow> images s' \<subseteq> insert (Some p) (images s)"
  by (cases b) (use save_True [of p s s'] save_False [of p s s'] in auto)

lemma saves_images: "runOps save ps s = (rs, s') \<Longrightarrow> images s' \<subseteq> images s \<union> Some ` set ps"
proof (induction ps arbitrary: s rs)
  case (Cons p ps)
  obtain r s1 rs1 where r: "save p s = (r, s1)" "runOps save ps s1 = (rs1, s')" "rs = r # rs1"
    by (rule runOps_ConsE [OF Cons.prems])
  from Cons.IH [OF r(2)] save_images [OF r(1)] show ?case by auto
qed simp

text \<open>Nothing older than the last save reported durable can be found.\<close>

lemma saves_durable:
  assumes "runOps save ps s = (rs, s')" and "i < length ps" and "rs ! i"
  shows "images s' \<subseteq> Some ` set (drop i ps)"
  using assms
proof (induction ps arbitrary: s rs i)
  case (Cons p ps)
  obtain r s1 rs1 where r: "save p s = (r, s1)" "runOps save ps s1 = (rs1, s')" "rs = r # rs1"
    by (rule runOps_ConsE [OF Cons.prems(1)])
  show ?case
  proof (cases i)
    case 0
    with r Cons.prems(3) have "images s1 = {Some p}" using save_True by simp
    with saves_images [OF r(2)] 0 show ?thesis by auto
  next
    case (Suc j)
    with Cons.IH [OF r(2), of j] Cons.prems r(3) show ?thesis by simp
  qed
qed simp

end

text \<open>The store of values keeps it,\<close>

interpretation vs: state_store Save "\<lambda>s. set (mayHold s)"
  by unfold_locales (auto simp: Save_def Let_def split: list.splits save_outcome.splits)

text \<open>and so does a file replaced atomically, as a store of bytes.\<close>

interpretation af: state_store WriteFileAtomic "\<lambda>f. set (survivors f)"
  by unfold_locales (auto elim: WriteFileAtomic_cases)

text \<open>What is relied on of the JSON encoding of the record.\<close>

definition codecFaithful :: "state_enc \<Rightarrow> state_dec \<Rightarrow> bool" where
  "codecFaithful enc dec \<longleftrightarrow> (\<forall>p. dec (enc p) = Some p)"

definition fileImages :: "state_dec \<Rightarrow> AtomicFile \<Rightarrow> PersistentState option list" where
  "fileImages dec f = map (\<lambda>b. Option.bind b dec) (survivors f)"

text \<open>The stores of values that stand for a file.\<close>

definition storeOf :: "state_dec \<Rightarrow> save_outcome list \<Rightarrow> AtomicFile \<Rightarrow> StateStore" where
  "storeOf dec os f = \<lparr>holds = Option.bind (visible f) dec, mayHold = fileImages dec f, saves = os, loadErr = None\<rparr>"

lemma fileSave_refines:
  assumes "codecFaithful enc dec" and "fileSave enc p f = (b, f')"
  shows "\<exists>x. Save p (storeOf dec (x # os) f) = (b, storeOf dec os f')"
proof -
  have dec: "dec (enc p) = Some p" using assms(1) by (simp add: codecFaithful_def)
  from assms(2) have "WriteFileAtomic (enc p) f = (b, f')" by (simp add: fileSave_def)
  then show ?thesis
  proof (cases rule: WriteFileAtomic_cases)
    case Durable
    then show ?thesis by (intro exI [of _ SaveOk]) (simp add: Save_def storeOf_def fileImages_def dec)
  next
    case Untouched
    then show ?thesis by (intro exI [of _ SaveFailOld]) (simp add: Save_def storeOf_def fileImages_def)
  next
    case Exposed
    then show ?thesis by (intro exI [of _ SaveFailNew]) (simp add: Save_def storeOf_def fileImages_def dec)
  qed
qed

lemma runOps_fileSave: "runOps (fileSave enc) ps f = runOps WriteFileAtomic (map enc ps) f"
  by (induction ps arbitrary: f) (auto simp: fileSave_def)

lemma fileSave_run_refines:
  assumes "codecFaithful enc dec" and "runOps (fileSave enc) ps f = (rs, f')"
  shows "\<exists>os. length os = length ps \<and> runOps Save ps (storeOf dec os f) = (rs, storeOf dec [] f')"
  using assms(2)
proof (induction ps arbitrary: f rs)
  case (Cons p ps)
  obtain r f1 rs1 where r: "fileSave enc p f = (r, f1)" "runOps (fileSave enc) ps f1 = (rs1, f')" "rs = r # rs1"
    by (rule runOps_ConsE [OF Cons.prems])
  from Cons.IH [OF r(2)] obtain os where os: "length os = length ps"
      "runOps Save ps (storeOf dec os f1) = (rs1, storeOf dec [] f')" by blast
  obtain x where "Save p (storeOf dec (x # os) f) = (r, storeOf dec os f1)"
    using fileSave_refines [OF assms(1) r(1)] by blast
  with os r(3) show ?case by (intro exI [of _ "x # os"]) simp
qed simp

lemma fileSave_durable:
  assumes "runOps (fileSave enc) ps f = (rs, f')" and "i < length ps" and "rs ! i" and "b \<in> set (survivors f')"
  shows "\<exists>p \<in> set (drop i ps). b = Some (enc p)"
proof -
  have "runOps WriteFileAtomic (map enc ps) f = (rs, f')" using assms(1) by (simp add: runOps_fileSave)
  from af.saves_durable [OF this, of i] assms(2-4) show ?thesis by (auto simp: drop_map)
qed

end
