(* ===== verification/Json_Codec.thy ===== *)
theory Json_Codec
  imports Wal_File State_Store
begin

text \<open>
  What \<^verbatim>\<open>encoding/json\<close> does with the two structs that are written to disk: the text
  \<^verbatim>\<open>json.Marshal\<close> gives for a \<^verbatim>\<open>LogEntry\<close> (its command in base64, as for every byte slice) and
  for a \<^verbatim>\<open>PersistentState\<close>, and a reader of that text.  The reader accepts the text the
  encoder writes and nothing else, which is all the files ever hold.
\<close>

section \<open>Reading\<close>

fun expect :: "string \<Rightarrow> bytes \<Rightarrow> bytes option" where
  "expect [] b = Some b"
| "expect (c # cs) [] = None"
| "expect (c # cs) (x # xs) = (if x = c then expect cs xs else None)"

definition isDigit :: "char \<Rightarrow> bool" where
  "isDigit c \<longleftrightarrow> 48 \<le> (of_char c :: nat) \<and> (of_char c :: nat) \<le> 57"

definition digitsValue :: "string \<Rightarrow> nat" where
  "digitsValue ds = foldl (\<lambda>n d. 10 * n + (of_char d - 48)) 0 ds"

definition readNat :: "bytes \<Rightarrow> (nat \<times> bytes) option" where
  "readNat b = (if takeWhile isDigit b = [] then None
     else Some (digitsValue (takeWhile isDigit b), dropWhile isDigit b))"

definition readInt :: "bytes \<Rightarrow> (int \<times> bytes) option" where
  "readInt b =
     (case expect ''-'' b of
        Some r \<Rightarrow> map_option (\<lambda>(n, r). (- int n, r)) (readNat r)
      | None \<Rightarrow> map_option (\<lambda>(n, r). (int n, r)) (readNat b))"

section \<open>Base64\<close>

definition b64 :: "nat \<Rightarrow> char" where
  "b64 n = ''ABCDEFGHIJKLMNOPQRSTUVWXYZabcdefghijklmnopqrstuvwxyz0123456789+/'' ! (n mod 64)"

definition unb64 :: "char \<Rightarrow> nat" where
  "unb64 c = length (takeWhile (\<lambda>x. x \<noteq> c)
     ''ABCDEFGHIJKLMNOPQRSTUVWXYZabcdefghijklmnopqrstuvwxyz0123456789+/'')"

fun encode64 :: "bytes \<Rightarrow> string" where
  "encode64 [] = []"
| "encode64 [a] = (let n = of_char a * 65536 in [b64 (n div 262144), b64 (n div 4096), CHR ''='', CHR ''=''])"
| "encode64 [a, b] =
     (let n = of_char a * 65536 + of_char b * 256 in
      [b64 (n div 262144), b64 (n div 4096), b64 (n div 64), CHR ''=''])"
| "encode64 (a # b # c # r) =
     (let n = of_char a * 65536 + of_char b * 256 + of_char c in
      [b64 (n div 262144), b64 (n div 4096), b64 (n div 64), b64 n] @ encode64 r)"

fun decode64 :: "string \<Rightarrow> bytes" where
  "decode64 (p # q # r # s # t) =
     (let n = unb64 p * 262144 + unb64 q * 4096 in
      if r = CHR ''='' then [char_of (n div 65536)]
      else if s = CHR ''='' then
        (let n = n + unb64 r * 64 in [char_of (n div 65536), char_of (n div 256)])
      else (let n = n + unb64 r * 64 + unb64 s in
            [char_of (n div 65536), char_of (n div 256), char_of n] @ decode64 t))"
| "decode64 _ = []"

section \<open>The two documents\<close>

definition encodeState :: state_enc where
  "encodeState p = ''{\"current_term\":'' @ int_dec (CurrentTerm p) @ '',\"voted_for\":'' @ int_dec (VotedFor p) @ ''}''"

definition decodeState :: state_dec where
  "decodeState b =
     Option.bind (expect ''{\"current_term\":'' b) (\<lambda>b. Option.bind (readInt b) (\<lambda>(t, b).
     Option.bind (expect '',\"voted_for\":'' b) (\<lambda>b. Option.bind (readInt b) (\<lambda>(v, b).
     if b = ''}'' then Some \<lparr>CurrentTerm = t, VotedFor = v\<rparr> else None))))"

definition encodeEntry :: marshal where
  "encodeEntry e = ''{\"index\":'' @ int_dec (Index e) @ '',\"term\":'' @ int_dec (Term e)
     @ '',\"command\":\"'' @ encode64 (Command e) @ ''\"}''"

definition decodeEntry :: unmarshal where
  "decodeEntry b =
     Option.bind (expect ''{\"index\":'' b) (\<lambda>b. Option.bind (readInt b) (\<lambda>(i, b).
     Option.bind (expect '',\"term\":'' b) (\<lambda>b. Option.bind (readInt b) (\<lambda>(t, b).
     Option.bind (expect '',\"command\":\"'' b) (\<lambda>b.
     let s = takeWhile (\<lambda>c. c \<noteq> CHR 0x22) b in
     if dropWhile (\<lambda>c. c \<noteq> CHR 0x22) b = ''\"}'' then Some \<lparr>Index = i, Term = t, Command = decode64 s\<rparr> else None)))))"

section \<open>Round trips\<close>

lemma expect_append [simp]: "expect s (s @ r) = Some r"
  by (induction s) auto

lemma digit_char: "d < 10 \<Longrightarrow> (of_char (char_of (48 + d) :: char) :: nat) = 48 + d"
  by simp

lemma digitsValue_snoc [simp]: "digitsValue (ds @ [c]) = 10 * digitsValue ds + (of_char c - 48)"
  by (simp add: digitsValue_def)

lemma nat_dec_digits: "\<forall>c \<in> set (nat_dec n). isDigit c"
proof (induction n rule: nat_dec.induct)
  case (1 n)
  show ?case
  proof (cases "n < 10")
    case True
    then show ?thesis by (subst nat_dec.simps) (simp add: isDigit_def)
  next
    case False
    then have "isDigit (char_of (48 + n mod 10))" by (simp add: isDigit_def)
    with 1 False show ?thesis by (subst nat_dec.simps) simp
  qed
qed

lemma nat_dec_value: "digitsValue (nat_dec n) = n"
proof (induction n rule: nat_dec.induct)
  case (1 n)
  show ?case
  proof (cases "n < 10")
    case True
    then show ?thesis by (subst nat_dec.simps) (simp add: digitsValue_def)
  next
    case False
    have "digitsValue (nat_dec n) = 10 * (n div 10) + n mod 10"
      using 1 False by (subst nat_dec.simps) simp
    then show ?thesis by simp
  qed
qed

lemma nat_dec_Cons: "nat_dec n \<noteq> []"
  by (subst nat_dec.simps) simp

definition stops :: "bytes \<Rightarrow> bool" where
  "stops r \<longleftrightarrow> r = [] \<or> \<not> isDigit (hd r)"

lemma readNat_dec: "stops r \<Longrightarrow> readNat (nat_dec n @ r) = Some (n, r)"
proof -
  assume "stops r"
  then have "takeWhile isDigit r = []" "dropWhile isDigit r = r"
    by (cases r; simp add: stops_def)+
  then show ?thesis
    using nat_dec_digits [of n] nat_dec_Cons [of n] nat_dec_value [of n]
    by (simp add: readNat_def takeWhile_append2 dropWhile_append2)
qed

lemma nat_dec_no_minus: "expect ''-'' (nat_dec n @ r) = None"
proof -
  obtain c cs where c: "nat_dec n = c # cs" using nat_dec_Cons [of n] by (cases "nat_dec n") auto
  then have "isDigit c" using nat_dec_digits [of n] by simp
  then have "c \<noteq> CHR ''-''" by (auto simp: isDigit_def)
  then show ?thesis by (simp add: c)
qed

lemma readInt_dec: "stops r \<Longrightarrow> readInt (int_dec i @ r) = Some (i, r)"
  using readNat_dec [of r] nat_dec_no_minus by (auto simp: readInt_def int_dec_def)

lemma b64_table: "list_all (\<lambda>k. unb64 (b64 k) = k \<and> b64 k \<noteq> CHR ''='' \<and> b64 k \<noteq> CHR 0x22) [0..<64]"
  by code_simp

lemma b64_mod: "b64 n = b64 (n mod 64)"
  by (simp add: b64_def)

lemma unb64_b64 [simp]: "unb64 (b64 n) = n mod 64" "b64 n \<noteq> CHR ''=''" "b64 n \<noteq> CHR 0x22"
proof -
  have "n mod 64 \<in> set [0..<64]" by simp
  then have "unb64 (b64 (n mod 64)) = n mod 64 \<and> b64 (n mod 64) \<noteq> CHR ''='' \<and> b64 (n mod 64) \<noteq> CHR 0x22"
    using b64_table by (simp only: list_all_iff simp_thms)
  then show "unb64 (b64 n) = n mod 64" "b64 n \<noteq> CHR ''=''" "b64 n \<noteq> CHR 0x22"
    using b64_mod [of n] by simp_all
qed

lemma split6: "(n :: nat) < 16777216 \<Longrightarrow> n div 262144 mod 64 * 262144 + n div 4096 mod 64 * 4096
    + n div 64 mod 64 * 64 + n mod 64 = n"
proof -
  assume n: "n < 16777216"
  define p q r where "p = n div 64" and "q = p div 64" and "r = q div 64"
  have d: "n div 4096 = q" "n div 262144 = r"
    unfolding p_def q_def r_def by (simp_all add: div_mult2_eq [symmetric])
  have "r < 64" using n unfolding r_def q_def p_def by (simp add: div_mult2_eq [symmetric] less_mult_imp_div_less)
  moreover have "n = p * 64 + n mod 64" "p = q * 64 + p mod 64" "q = r * 64 + q mod 64"
    unfolding p_def q_def r_def by simp_all
  ultimately show ?thesis unfolding d by (simp add: p_def [symmetric])
qed

lemma byte_bounds: "(of_char (c :: char) :: nat) < 256"
  by simp

lemma join3:
  assumes "a < 256" "b < 256" "c < (256 :: nat)"
  shows "(a * 65536 + b * 256 + c) div 65536 = a" "(a * 65536 + b * 256 + c) div 256 mod 256 = b"
    "(a * 65536 + b * 256 + c) mod 256 = c"
proof -
  show "(a * 65536 + b * 256 + c) div 65536 = a" using assms by simp
  have e: "a * 65536 + b * 256 + c = (a * 256 + b) * 256 + c" by simp
  then have "(a * 65536 + b * 256 + c) div 256 = a * 256 + b" using assms(3) by simp
  then show "(a * 65536 + b * 256 + c) div 256 mod 256 = b" using assms(2) by simp
  show "(a * 65536 + b * 256 + c) mod 256 = c" by (metis e assms(3) mod_less mod_mult_self3)
qed

lemma zero_digits:
  fixes x y :: nat
  shows "x * 65536 div 64 mod 64 = 0" "x * 65536 mod 64 = 0" "(x * 65536 + y * 256) mod 64 = 0"
proof -
  have "x * 65536 div 64 = x * 1024" using div_mult_swap [of 64 "65536 :: nat" x] by simp
  then show "x * 65536 div 64 mod 64 = 0" by (simp add: mod_eq_0_iff_dvd dvd_mult)
  show "x * 65536 mod 64 = 0" "(x * 65536 + y * 256) mod 64 = 0"
    by (simp_all only: mod_eq_0_iff_dvd) (auto intro!: dvd_add dvd_mult)
qed

lemma char_of_mod256: "n mod 256 = of_char c \<Longrightarrow> char_of (n :: nat) = (c :: char)"
  by (metis char_of_mod_256 char_of_char)

lemma decode_encode64: "decode64 (encode64 bs) = bs"
proof (induction bs rule: encode64.induct)
  case (2 a)
  let ?n = "of_char a * 65536 :: nat"
  have n: "?n < 16777216" using byte_bounds [of a] by simp
  from split6 [OF n] have s: "?n div 262144 mod 64 * 262144 + ?n div 4096 mod 64 * 4096 = ?n"
    by (simp only: zero_digits mult_zero_left add_0_right)
  show ?case unfolding encode64.simps Let_def decode64.simps unb64_b64 s by simp
next
  case (3 a b)
  let ?n = "of_char a * 65536 + of_char b * 256 :: nat"
  have n: "?n < 16777216" using byte_bounds [of a] byte_bounds [of b] by linarith
  from split6 [OF n] have s: "?n div 262144 mod 64 * 262144 + ?n div 4096 mod 64 * 4096 + ?n div 64 mod 64 * 64 = ?n"
    by (simp only: zero_digits add_0_right)
  from join3 [OF byte_bounds [of a] byte_bounds [of b], of 0]
  have j: "?n div 65536 = of_char a" "?n div 256 mod 256 = of_char b" by simp_all
  show ?case unfolding encode64.simps Let_def decode64.simps unb64_b64 s using j by (simp add: char_of_mod256)
next
  case (4 a b c r)
  let ?n = "of_char a * 65536 + of_char b * 256 + of_char c :: nat"
  have n: "?n < 16777216" using byte_bounds [of a] byte_bounds [of b] byte_bounds [of c] by linarith
  note s = split6 [OF n] and j = join3 [OF byte_bounds [of a] byte_bounds [of b] byte_bounds [of c]]
  show ?case unfolding encode64.simps Let_def append_Cons append_Nil decode64.simps unb64_b64 s
    using 4 j by (simp add: char_of_mod256)
qed simp

lemma encode64_no_quote: "CHR 0x22 \<notin> set (encode64 bs)"
  by (induction bs rule: encode64.induct) (auto simp: Let_def dest: unb64_b64(3) [THEN notE, OF sym])

lemma stops_simps [simp]: "stops (CHR '','' # r)" "stops (CHR ''}'' # r)"
  by (simp_all add: stops_def isDigit_def)

lemma decodeState_encode: "decodeState (encodeState p) = Some p"
proof -
  have "decodeState (encodeState p) = Some \<lparr>CurrentTerm = CurrentTerm p, VotedFor = VotedFor p\<rparr>"
    unfolding decodeState_def encodeState_def expect_append
    by (simp add: readInt_dec)
  then show ?thesis by simp
qed

lemma decodeEntry_encode: "decodeEntry (encodeEntry e) = Some e"
proof -
  have q: "takeWhile (\<lambda>c. c \<noteq> CHR 0x22) (encode64 (Command e) @ ''\"}'') = encode64 (Command e)"
      "dropWhile (\<lambda>c. c \<noteq> CHR 0x22) (encode64 (Command e) @ ''\"}'') = ''\"}''"
    using encode64_no_quote [of "Command e"] by (auto simp: takeWhile_append dropWhile_append)
  have "decodeEntry (encodeEntry e) = Some \<lparr>Index = Index e, Term = Term e, Command = decode64 (encode64 (Command e))\<rparr>"
    unfolding decodeEntry_def encodeEntry_def expect_append
    by (simp add: readInt_dec Let_def q [simplified])
  then show ?thesis by (simp add: decode_encode64)
qed

section \<open>Properties\<close>

lemma codec_faithful: "codecFaithful encodeState decodeState"
  by (simp add: codecFaithful_def decodeState_encode)

lemma codec_ok_json: "codec_ok encodeEntry decodeEntry es = (\<forall>e \<in> set es. length (encodeEntry e) < 2 ^ 32)"
  by (simp add: codec_ok_def decodeEntry_encode)

text \<open>Reading back what was written gives the record written: the JSON text of the term and
  vote decodes to them, and the JSON text of a log entry to the entry, whatever bytes its
  command holds.\<close>

theorem codecs_round_trip:
  "decodeState (encodeState p) = Some p \<and> decodeEntry (encodeEntry e) = Some e"
  by (simp add: decodeState_encode decodeEntry_encode)

text \<open>C36. Once a save of the term and vote has returned without an error, no crash brings an
  older record back, whatever later saves fail and however: whatever file is found then
  decodes to that record or a later one.\<close>

theorem metadata_durable:
  assumes "runOps (fileSave encodeState) ps f = (rs, f')" and "i < length ps" and "rs ! i"
    and "b \<in> set (survivors f')"
  shows "\<exists>data p. b = Some data \<and> decodeState data = Some p \<and> p \<in> set (drop i ps)"
  using fileSave_durable [OF assms] by (auto simp: decodeState_encode)

definition demoFile :: AtomicFile where
  "demoFile = \<lparr>visible = None, survivors = [None], calls = replicate 7 IoOk @ replicate 5 IoOk @ [IoFail 0]\<rparr>"

theorem metadata_durable_witness:
  "list_all (\<lambda>b. \<exists>data p. b = Some data \<and> decodeState data = Some p \<and> 1 \<le> CurrentTerm p)
    (survivors (snd (runOps (fileSave encodeState)
      [\<lparr>CurrentTerm = 1, VotedFor = 1\<rparr>, \<lparr>CurrentTerm = 2, VotedFor = -1\<rparr>] demoFile)))"
proof -
  let ?ps = "[\<lparr>CurrentTerm = 1, VotedFor = 1\<rparr>, \<lparr>CurrentTerm = 2, VotedFor = -1\<rparr>]"
  have "fst (runOps (fileSave encodeState) ?ps demoFile) ! 0"
    by (simp add: fileSave_def WriteFileAtomic_def SyncDir_def nextCall_def demoFile_def eval_nat_numeral
        split: prod.splits bool.splits)
  with metadata_durable [of ?ps demoFile _ _ 0, OF prod.collapse [symmetric]] show ?thesis by (fastforce simp: list_all_iff)
qed

text \<open>C17. The metadata file refines the store the node is written against: any run of saves on
  the file is a run of the store of values on the decoded record, with the same results and
  the same records left for a restart to find.\<close>

theorem file_store_refines:
  "\<exists>os. length os = length ps \<and>
    runOps Save ps (storeOf decodeState os f) =
      (fst (runOps (fileSave encodeState) ps f), storeOf decodeState [] (snd (runOps (fileSave encodeState) ps f)))"
  by (rule fileSave_run_refines [OF codec_faithful prod.collapse [symmetric]])

end
