(* ===== verification/Raft_Node.thy ===== *)
theory Raft_Node
  imports Raft_Config Raft_Log_Recovery State_Store
begin

text \<open>
  \<^verbatim>\<open>RaftNode\<close> of \<^verbatim>\<open>internal/raft/node.go\<close>: terms, votes, roles, commitment and the four RPC
  receivers.  Each method is one definition; the node's lock makes it one atomic step.
  Time is the argument \<open>now\<close>, the log is passed where the code passes it, and a method
  that may fail to persist returns whether it succeeded.  \<^verbatim>\<open>termDecisionHook\<close> is nil outside
  tests and is left out, as is logging.
\<close>

section \<open>Definitions\<close>

record RaftNode =
  nodeID :: int
  config :: Configuration
  Role :: NodeRole
  LeaderID :: int
  CommitIndex :: int
  LastApplied :: int
  lastContact :: nanos
  votesFrom :: "(int, bool) gomap option"
  minElectionTimeout :: nanos
  NextIndex :: "(int, int) gomap"
  MatchIndex :: "(int, int) gomap"
  persistent :: PersistentState
  store :: StateStore

definition DefaultMinElectionTimeout :: nanos where
  "DefaultMinElectionTimeout = 300 * 1000000"

datatype node_error = BadConfiguration config_error | LoadFailed load_error | SaveFailed

subsection \<open>Persistent state\<close>

definition loadPersistentState :: "RaftNode \<Rightarrow> (node_error option) \<times> RaftNode" where
  "loadPersistentState rn =
     (case Load (store rn) of
        Inl e \<Rightarrow> (Some (LoadFailed e), rn)
      | Inr None \<Rightarrow>
          (case Save (persistent rn) (store rn) of
             (saved, s) \<Rightarrow> (if saved then None else Some SaveFailed, rn\<lparr>store := s\<rparr>))
      | Inr (Some ps) \<Rightarrow> (None, rn\<lparr>persistent := ps\<rparr>))"

definition commitPersistentLocked :: "PersistentState \<Rightarrow> RaftNode \<Rightarrow> bool \<times> RaftNode" where
  "commitPersistentLocked nxt rn =
     (if nxt = persistent rn then (True, rn)
      else case Save nxt (store rn) of
             (False, s) \<Rightarrow> (False, rn\<lparr>store := s\<rparr>)
           | (True, s) \<Rightarrow> (True, rn\<lparr>store := s, persistent := nxt\<rparr>))"

definition NewRaftNode ::
  "nanos \<Rightarrow> int \<Rightarrow> Configuration \<Rightarrow> StateStore \<Rightarrow> NodeRole \<Rightarrow> node_error + RaftNode" where
  "NewRaftNode now i cfg st initialRole =
     (case Validate cfg of
        Some e \<Rightarrow> Inl (BadConfiguration e)
      | None \<Rightarrow>
          (let peers = mkeys (Peers cfg i);
               rn = \<lparr>nodeID = i, config = Clone cfg, Role = initialRole, LeaderID = 0, CommitIndex = 0,
                     LastApplied = 0, lastContact = now, votesFrom = None,
                     minElectionTimeout = DefaultMinElectionTimeout,
                     NextIndex = fold (\<lambda>pid. mput pid 1) peers [],
                     MatchIndex = fold (\<lambda>pid. mput pid 0) peers [],
                     persistent = \<lparr>CurrentTerm = 0, VotedFor = -1\<rparr>, store = st\<rparr>
           in case loadPersistentState rn of
                (Some e, _) \<Rightarrow> Inl e
              | (None, rn) \<Rightarrow> Inr rn))"

subsection \<open>Accessors\<close>

definition IsLeader :: "RaftNode \<Rightarrow> bool" where
  "IsLeader rn \<longleftrightarrow> Role rn = Leader"

definition node_CurrentTerm :: "RaftNode \<Rightarrow> int" where
  "node_CurrentTerm rn = CurrentTerm (persistent rn)"

definition node_State :: "RaftNode \<Rightarrow> NodeRole \<times> int" where
  "node_State rn = (Role rn, CurrentTerm (persistent rn))"

definition NodeID :: "RaftNode \<Rightarrow> int" where
  "NodeID rn = nodeID rn"

definition SetMinElectionTimeout :: "nanos \<Rightarrow> RaftNode \<Rightarrow> RaftNode" where
  "SetMinElectionTimeout d rn = (if d \<le> 0 then rn else rn\<lparr>minElectionTimeout := d\<rparr>)"

definition CurrentLeader :: "RaftNode \<Rightarrow> int" where
  "CurrentLeader rn = LeaderID rn"

definition noteContact :: "nanos \<Rightarrow> RaftNode \<Rightarrow> RaftNode" where
  "noteContact now rn = rn\<lparr>lastContact := now\<rparr>"

definition TimeSinceContact :: "nanos \<Rightarrow> RaftNode \<Rightarrow> nanos" where
  "TimeSinceContact now rn = now - lastContact rn"

definition node_Config :: "RaftNode \<Rightarrow> Configuration" where
  "node_Config rn = Clone (config rn)"

definition ClusterSize :: "RaftNode \<Rightarrow> int" where
  "ClusterSize rn = int (length (Voters (config rn)))"

definition node_HasQuorum :: "RaftNode \<Rightarrow> (int, bool) gomap \<Rightarrow> bool" where
  "node_HasQuorum rn have = HasQuorum (config rn) have"

definition node_Peers :: "RaftNode \<Rightarrow> (int, string) gomap" where
  "node_Peers rn = Peers (config rn) (nodeID rn)"

definition CommitAndApplyBoundary :: "RaftNode \<Rightarrow> int \<times> int" where
  "CommitAndApplyBoundary rn = (CommitIndex rn, LastApplied rn)"

definition snapshotFloor :: "RaftLog \<Rightarrow> int" where
  "snapshotFloor rl = FirstIndex rl - 1"

subsection \<open>Replication progress\<close>

definition UpdatePeerProgress :: "int \<Rightarrow> int \<Rightarrow> RaftNode \<Rightarrow> RaftNode" where
  "UpdatePeerProgress peerID matchIdx rn =
     (if mget (MatchIndex rn) peerID = None then rn
      else
        (let rn = (if mget0 0 (MatchIndex rn) peerID < matchIdx
                   then rn\<lparr>MatchIndex := mput peerID matchIdx (MatchIndex rn)\<rparr> else rn)
         in if mget0 0 (NextIndex rn) peerID < matchIdx + 1
            then rn\<lparr>NextIndex := mput peerID (matchIdx + 1) (NextIndex rn)\<rparr> else rn))"

definition NextIndexFor :: "RaftNode \<Rightarrow> int \<Rightarrow> int" where
  "NextIndexFor rn peerID = (let ni = mget0 0 (NextIndex rn) peerID in if ni < 1 then 1 else ni)"

definition BacktrackNextIndex :: "int \<Rightarrow> int \<Rightarrow> RaftNode \<Rightarrow> RaftNode" where
  "BacktrackNextIndex peerID conflictIndex rn =
     (let current = mget0 0 (NextIndex rn) peerID;
          nxt = (if 0 < conflictIndex \<and> conflictIndex < current then conflictIndex else current - 1);
          nxt = (if nxt < 1 then 1 else nxt)
      in rn\<lparr>NextIndex := mput peerID nxt (NextIndex rn)\<rparr>)"

subsection \<open>Commitment\<close>

definition AdvanceCommitIndex ::
  "int \<Rightarrow> (int \<Rightarrow> int) \<Rightarrow> int \<Rightarrow> RaftNode \<Rightarrow> (int \<times> bool) \<times> RaftNode" where
  "AdvanceCommitIndex localLatestIndex termAt currentTerm rn =
     (if Role rn \<noteq> Leader then ((CommitIndex rn, False), rn)
      else
        (let match = mput (nodeID rn) localLatestIndex (fold (\<lambda>(i, idx). mput i idx) (MatchIndex rn) []);
             quorumIndex = QuorumIndex (config rn) match
         in if CommitIndex rn < quorumIndex \<and> termAt quorumIndex = currentTerm
            then ((quorumIndex, True), rn\<lparr>CommitIndex := quorumIndex\<rparr>)
            else ((CommitIndex rn, False), rn)))"

definition setFollowerCommitIndexLocked :: "int \<Rightarrow> int \<Rightarrow> RaftNode \<Rightarrow> RaftNode" where
  "setFollowerCommitIndexLocked leaderCommit latestLogIndex rn =
     (let newCommit = (if latestLogIndex < leaderCommit then latestLogIndex else leaderCommit)
      in if CommitIndex rn < newCommit then rn\<lparr>CommitIndex := newCommit\<rparr> else rn)"

definition SetFollowerCommitIndex :: "int \<Rightarrow> int \<Rightarrow> RaftNode \<Rightarrow> RaftNode" where
  "SetFollowerCommitIndex leaderCommit latestLogIndex rn =
     setFollowerCommitIndexLocked leaderCommit latestLogIndex rn"

definition AdvanceLastApplied :: "RaftNode \<Rightarrow> int \<times> RaftNode" where
  "AdvanceLastApplied rn = (LastApplied rn + 1, rn\<lparr>LastApplied := LastApplied rn + 1\<rparr>)"

definition seedFromSnapshotLocked :: "int \<Rightarrow> RaftNode \<Rightarrow> RaftNode" where
  "seedFromSnapshotLocked idx rn =
     (let rn = (if CommitIndex rn < idx then rn\<lparr>CommitIndex := idx\<rparr> else rn)
      in if LastApplied rn < idx then rn\<lparr>LastApplied := idx\<rparr> else rn)"

definition SeedFromSnapshot :: "int \<Rightarrow> RaftNode \<Rightarrow> RaftNode" where
  "SeedFromSnapshot idx rn = seedFromSnapshotLocked idx rn"

subsection \<open>Role changes\<close>

definition becomeFollowerLocked :: "int \<Rightarrow> int \<Rightarrow> RaftNode \<Rightarrow> bool \<times> RaftNode" where
  "becomeFollowerLocked term leader rn =
     (let nxt = (if CurrentTerm (persistent rn) < term
                 then (persistent rn)\<lparr>CurrentTerm := term, VotedFor := -1\<rparr> else persistent rn)
      in case commitPersistentLocked nxt rn of
           (False, rn) \<Rightarrow> (False, rn)
         | (True, rn) \<Rightarrow> (True, rn\<lparr>Role := Follower, LeaderID := leader\<rparr>))"

definition BecomeFollower :: "int \<Rightarrow> int \<Rightarrow> RaftNode \<Rightarrow> bool \<times> RaftNode" where
  "BecomeFollower term leader rn = becomeFollowerLocked term leader rn"

definition BecomeCandidate :: "nanos \<Rightarrow> RaftNode \<Rightarrow> int option \<times> RaftNode" where
  "BecomeCandidate now rn =
     (let nxt = \<lparr>CurrentTerm = CurrentTerm (persistent rn) + 1, VotedFor = nodeID rn\<rparr>
      in case commitPersistentLocked nxt rn of
           (False, rn) \<Rightarrow> (None, rn)
         | (True, rn) \<Rightarrow>
             (Some (CurrentTerm (persistent rn)),
              rn\<lparr>Role := Candidate, LeaderID := 0, votesFrom := Some (mput (nodeID rn) True []),
                 lastContact := now\<rparr>))"

definition RecordVoteAndCheckMajority :: "int \<Rightarrow> int \<Rightarrow> RaftNode \<Rightarrow> bool \<times> RaftNode" where
  "RecordVoteAndCheckMajority voterID voteTerm rn =
     (if Role rn \<noteq> Candidate \<or> voteTerm \<noteq> CurrentTerm (persistent rn) then (False, rn)
      else
        (let votes = (case votesFrom rn of None \<Rightarrow> mput (nodeID rn) True [] | Some v \<Rightarrow> v);
             votes = mput voterID True votes
         in (HasQuorum (config rn) votes, rn\<lparr>votesFrom := Some votes\<rparr>)))"

definition BecomeLeader :: "int \<Rightarrow> int \<Rightarrow> RaftNode \<Rightarrow> bool \<times> RaftNode" where
  "BecomeLeader electionTerm lastLogIndex rn =
     (if Role rn \<noteq> Candidate \<or> CurrentTerm (persistent rn) \<noteq> electionTerm then (False, rn)
      else
        (let peers = mkeys (Peers (config rn) (nodeID rn))
         in (True, rn\<lparr>Role := Leader, LeaderID := nodeID rn,
                      NextIndex := fold (\<lambda>pid. mput pid (lastLogIndex + 1)) peers [],
                      MatchIndex := fold (\<lambda>pid. mput pid 0) peers []\<rparr>)))"

subsection \<open>Votes\<close>

definition candidateUpToDate :: "int \<Rightarrow> int \<Rightarrow> int \<Rightarrow> int \<Rightarrow> bool" where
  "candidateUpToDate candTerm candIndex voterTerm voterIndex \<longleftrightarrow>
     (if candTerm \<noteq> voterTerm then voterTerm < candTerm else voterIndex \<le> candIndex)"

text \<open>\<open>lastLog\<close> is what the callback \<^verbatim>\<open>lastLogState\<close> returns inside the critical section.\<close>

definition HandleRequestVote ::
  "nanos \<Rightarrow> RequestVoteRequest \<Rightarrow> int \<times> int \<Rightarrow> RaftNode \<Rightarrow> RequestVoteResponse \<times> RaftNode" where
  "HandleRequestVote now req lastLog rn =
     (let (myLastIndex, myLastTerm) = lastLog;
          deny = (\<lambda>rn. \<lparr>rvr_Term = CurrentTerm (persistent rn), rvr_VoteGranted = False\<rparr>)
      in if rv_Term req < CurrentTerm (persistent rn) then (deny rn, rn)
         else if LeaderID rn \<noteq> 0 \<and> now - lastContact rn < minElectionTimeout rn then (deny rn, rn)
         else
           (let nxt = persistent rn;
                steppedUp = CurrentTerm nxt < rv_Term req;
                nxt = (if steppedUp then nxt\<lparr>CurrentTerm := rv_Term req, VotedFor := -1\<rparr> else nxt);
                alreadyVoted = (VotedFor nxt \<noteq> -1 \<and> VotedFor nxt \<noteq> rv_CandidateID req);
                upToDate = candidateUpToDate (rv_LastLogTerm req) (rv_LastLogIndex req) myLastTerm myLastIndex;
                grant = (\<not> alreadyVoted \<and> upToDate);
                nxt = (if grant then nxt\<lparr>VotedFor := rv_CandidateID req\<rparr> else nxt)
            in case commitPersistentLocked nxt rn of
                 (False, rn) \<Rightarrow> (deny rn, rn)
               | (True, rn) \<Rightarrow>
                   (let rn = (if steppedUp then rn\<lparr>Role := Follower, LeaderID := 0\<rparr> else rn)
                    in if \<not> grant then (deny rn, rn)
                       else (\<lparr>rvr_Term = CurrentTerm (persistent rn), rvr_VoteGranted = True\<rparr>,
                             rn\<lparr>lastContact := now\<rparr>))))"

definition HandlePreVote ::
  "nanos \<Rightarrow> PreVoteRequest \<Rightarrow> int \<times> int \<Rightarrow> RaftNode \<Rightarrow> PreVoteResponse" where
  "HandlePreVote now req lastLog rn =
     (let resp = \<lparr>pvr_Term = CurrentTerm (persistent rn), pvr_VoteGranted = False\<rparr> in
      if LeaderID rn \<noteq> 0 \<and> now - lastContact rn < minElectionTimeout rn then resp
      else if pv_Term req \<le> CurrentTerm (persistent rn) then resp
      else
        (let (myLastIndex, myLastTerm) = lastLog
         in resp\<lparr>pvr_VoteGranted :=
              candidateUpToDate (pv_LastLogTerm req) (pv_LastLogIndex req) myLastTerm myLastIndex\<rparr>))"

subsection \<open>AppendEntries and InstallSnapshot\<close>

text \<open>
  Steps 1 and 2 of both receivers: a stale leader is refused, a current one is followed.
  The result is the node after it, or \<^const>\<open>None\<close> where the receiver answers at once.
\<close>

definition acceptLeader :: "int \<Rightarrow> int \<Rightarrow> RaftNode \<Rightarrow> bool \<times> RaftNode" where
  "acceptLeader term leader rn =
     (if CurrentTerm (persistent rn) < term \<or> Role rn \<noteq> Follower
      then becomeFollowerLocked term leader rn
      else (True, rn\<lparr>LeaderID := leader\<rparr>))"

definition HandleAppendEntries ::
  "marshal \<Rightarrow> nanos \<Rightarrow> AppendEntriesRequest \<Rightarrow> RaftLog \<Rightarrow> RaftNode
     \<Rightarrow> AppendEntriesResponse \<times> RaftLog \<times> RaftNode" where
  "HandleAppendEntries m now req rl rn =
     (let currentTerm = CurrentTerm (persistent rn);
          refuse = \<lparr>aer_Term = currentTerm, aer_Success = False, aer_MatchIndex = 0,
                    aer_ConflictTerm = 0, aer_ConflictIndex = 0\<rparr>
      in if ae_Term req < currentTerm then (refuse, rl, rn)
         else case acceptLeader (ae_Term req) (ae_LeaderID req) rn of
                (False, rn) \<Rightarrow> (refuse, rl, rn)
              | (True, rn) \<Rightarrow>
                  (let currentTerm = CurrentTerm (persistent rn);
                       rn = rn\<lparr>lastContact := now\<rparr>
                   in case AppendEntriesToLog m (ae_PrevLogIndex req) (ae_PrevLogTerm req) (ae_Entries req) rl of
                        (r, rl) \<Rightarrow>
                          (if \<not> ar_ok r
                           then (\<lparr>aer_Term = currentTerm, aer_Success = False, aer_MatchIndex = 0,
                                  aer_ConflictTerm = ar_conflictTerm r,
                                  aer_ConflictIndex = ar_conflictIndex r\<rparr>, rl, rn)
                           else (\<lparr>aer_Term = currentTerm, aer_Success = True, aer_MatchIndex = ar_matchIndex r,
                                  aer_ConflictTerm = 0, aer_ConflictIndex = 0\<rparr>, rl,
                                 setFollowerCommitIndexLocked (ae_LeaderCommit req) (ar_matchIndex r) rn))))"

text \<open>
  The callbacks act on the caller's state \<open>w\<close>: \<open>restore\<close> resets its state machine from the
  bytes, \<open>persist\<close> writes its snapshot; each returns whether it succeeded.
\<close>

definition HandleInstallSnapshot ::
  "marshal \<Rightarrow> (bytes \<Rightarrow> 'w \<Rightarrow> bool \<times> 'w) \<Rightarrow> ('w \<Rightarrow> bool \<times> 'w) \<Rightarrow> nanos \<Rightarrow> InstallSnapshotRequest
     \<Rightarrow> RaftLog \<Rightarrow> 'w \<Rightarrow> RaftNode \<Rightarrow> InstallSnapshotResponse \<times> RaftLog \<times> 'w \<times> RaftNode" where
  "HandleInstallSnapshot m restore persist now req rl w rn =
     (let currentTerm = CurrentTerm (persistent rn);
          no = (\<lambda>t. \<lparr>isr_Term = t, isr_Success = False\<rparr>)
      in if is_Term req < currentTerm then (no currentTerm, rl, w, rn)
         else case acceptLeader (is_Term req) (is_LeaderID req) rn of
                (False, rn) \<Rightarrow> (no currentTerm, rl, w, rn)
              | (True, rn) \<Rightarrow>
                  (let currentTerm = CurrentTerm (persistent rn);
                       rn = rn\<lparr>lastContact := now\<rparr>
                   in if is_LastIncludedIndex req \<le> FirstIndex rl - 1
                      then (\<lparr>isr_Term = currentTerm, isr_Success = True\<rparr>, rl, w, rn)
                      else case restore (is_Data req) w of
                        (False, w) \<Rightarrow> (no currentTerm, rl, w, rn)
                      | (True, w) \<Rightarrow>
                          (case persist w of
                             (False, w) \<Rightarrow> (no currentTerm, rl, w, rn)
                           | (True, w) \<Rightarrow>
                               (let rn = seedFromSnapshotLocked (is_LastIncludedIndex req) rn
                                in case ResetToSnapshot m (is_LastIncludedIndex req) (is_LastIncludedTerm req) rl of
                                     (False, rl) \<Rightarrow> (no currentTerm, rl, w, rn)
                                   | (True, rl) \<Rightarrow>
                                       (\<lparr>isr_Term = currentTerm, isr_Success = True\<rparr>, rl, w, rn)))))"

end
