(* ===== verification/Raft_Node_Spec.thy ===== *)
theory Raft_Node_Spec
  imports Raft_Node
begin

text \<open>
  What a node promises: its term never falls, a vote once given in a term stands, also
  across a crash, because the record on disk is never behind the one in memory; and what
  each transition does on each branch.
\<close>

section \<open>Durable promises\<close>

text \<open>\<open>q\<close> keeps the promises of \<open>p\<close>: a later term, or the same term with the vote, if any, kept.\<close>

definition ps_le :: "PersistentState \<Rightarrow> PersistentState \<Rightarrow> bool" where
  "ps_le p q \<longleftrightarrow> CurrentTerm p < CurrentTerm q \<or>
     CurrentTerm p = CurrentTerm q \<and> (VotedFor p = -1 \<or> VotedFor p = VotedFor q)"

lemma ps_le_refl [simp]: "ps_le p p"
  by (simp add: ps_le_def)

lemma ps_le_trans: "ps_le p q \<Longrightarrow> ps_le q r \<Longrightarrow> ps_le p r"
  by (auto simp: ps_le_def)

text \<open>Whatever a restart finds keeps the promises the node has made.\<close>

definition durable :: "RaftNode \<Rightarrow> bool" where
  "durable rn \<longleftrightarrow> (\<forall>x \<in> set (mayHold (store rn)). \<exists>q. x = Some q \<and> ps_le (persistent rn) q)"

lemma durable_cong:
  "persistent rn' = persistent rn \<Longrightarrow> store rn' = store rn \<Longrightarrow> durable rn' = durable rn"
  by (simp add: durable_def)

text \<open>The fields a persistence step leaves alone.\<close>

definition same_volatile :: "RaftNode \<Rightarrow> RaftNode \<Rightarrow> bool" where
  "same_volatile rn rn' \<longleftrightarrow> rn' = rn\<lparr>store := store rn', persistent := persistent rn'\<rparr>"

lemma commit_ok:
  assumes "commitPersistentLocked nxt rn = (saved, rn')" and "ps_le (persistent rn) nxt" and "durable rn"
  shows "durable rn'" and "persistent rn' = (if saved then nxt else persistent rn)"
    and "same_volatile rn rn'"
proof -
  show "persistent rn' = (if saved then nxt else persistent rn)" "same_volatile rn rn'"
    using assms(1) by (auto simp: commitPersistentLocked_def same_volatile_def split: if_splits prod.splits bool.splits)
  show "durable rn'"
  proof (cases "nxt = persistent rn")
    case True
    with assms show ?thesis by (simp add: commitPersistentLocked_def)
  next
    case False
    then obtain s where s: "Save nxt (store rn) = (saved, s)" and store: "store rn' = s"
      using assms(1) by (auto simp: commitPersistentLocked_def split: if_splits prod.splits bool.splits)
    have p: "persistent rn' = (if saved then nxt else persistent rn)" by fact
    show ?thesis
    proof (cases saved)
      case True
      then show ?thesis using vs.save_True [of nxt "store rn" s] s store p by (simp add: durable_def)
    next
      case False
      then have "set (mayHold s) \<subseteq> insert (Some nxt) (set (mayHold (store rn)))"
        using vs.save_False [of nxt "store rn" s] s by simp
      with False p store assms(2,3) show ?thesis unfolding durable_def by (simp add: subset_iff) blast
    qed
  qed
qed

lemma commit_noop: "commitPersistentLocked (persistent rn) rn = (True, rn)"
  by (simp add: commitPersistentLocked_def)

text \<open>What every transition keeps.\<close>

definition keeps :: "RaftNode \<Rightarrow> RaftNode \<Rightarrow> bool" where
  "keeps rn rn' \<longleftrightarrow> nodeID rn' = nodeID rn \<and> config rn' = config rn \<and>
     ps_le (persistent rn) (persistent rn') \<and> (durable rn \<longrightarrow> durable rn')"

text \<open>A transition that takes no new role except that of a follower and otherwise stays in its term.\<close>

definition quiet :: "RaftNode \<Rightarrow> RaftNode \<Rightarrow> bool" where
  "quiet rn rn' \<longleftrightarrow> keeps rn rn' \<and>
     (Role rn' = Follower \<or> Role rn' = Role rn \<and> votesFrom rn' = votesFrom rn \<and>
       CurrentTerm (persistent rn') = CurrentTerm (persistent rn))"

lemma keeps_refl [simp]: "keeps rn rn"
  by (simp add: keeps_def)

lemma keeps_trans: "keeps a b \<Longrightarrow> keeps b c \<Longrightarrow> keeps a c"
  by (auto simp: keeps_def intro: ps_le_trans)

lemma quiet_refl [simp]: "quiet rn rn"
  by (simp add: quiet_def)

lemma quiet_trans: "quiet a b \<Longrightarrow> quiet b c \<Longrightarrow> quiet a c"
  by (auto simp: quiet_def intro: keeps_trans)

lemma commit_keeps:
  assumes "commitPersistentLocked nxt rn = (saved, rn')" and "ps_le (persistent rn) nxt"
  shows "keeps rn rn'"
proof -
  have "persistent rn' = (if saved then nxt else persistent rn)" "same_volatile rn rn'"
    using assms(1) by (auto simp: commitPersistentLocked_def same_volatile_def split: if_splits prod.splits bool.splits)
  moreover from this(2) have "nodeID rn' = nodeID rn" "config rn' = config rn"
    unfolding same_volatile_def by (metis RaftNode.select_convs RaftNode.surjective RaftNode.update_convs(12,13))+
  ultimately show ?thesis using commit_ok(1) [OF assms] assms(2) by (auto simp: keeps_def)
qed

section \<open>The transitions\<close>

lemma quiet_update:
  "persistent rn' = persistent rn \<Longrightarrow> store rn' = store rn \<Longrightarrow> nodeID rn' = nodeID rn \<Longrightarrow> config rn' = config rn \<Longrightarrow>
    Role rn' = Role rn \<Longrightarrow> votesFrom rn' = votesFrom rn \<Longrightarrow> quiet rn rn'"
  by (simp add: quiet_def keeps_def durable_def)

lemma quiet_steps [simp]:
  "quiet rn (SetMinElectionTimeout d rn)" "quiet rn (noteContact now rn)"
  "quiet rn (UpdatePeerProgress p i rn)" "quiet rn (BacktrackNextIndex p i rn)"
  "quiet rn (setFollowerCommitIndexLocked lc li rn)" "quiet rn (SetFollowerCommitIndex lc li rn)"
  "quiet rn (snd (AdvanceLastApplied rn))" "quiet rn (seedFromSnapshotLocked idx rn)"
  "quiet rn (SeedFromSnapshot idx rn)" "quiet rn (snd (AdvanceCommitIndex li ta ct rn))"
  "quiet rn (rn\<lparr>lastContact := now\<rparr>)" "quiet rn (rn\<lparr>LeaderID := l\<rparr>)"
  by (rule quiet_update; simp add: SetMinElectionTimeout_def noteContact_def UpdatePeerProgress_def
      BacktrackNextIndex_def setFollowerCommitIndexLocked_def SetFollowerCommitIndex_def AdvanceLastApplied_def
      seedFromSnapshotLocked_def SeedFromSnapshot_def AdvanceCommitIndex_def Let_def)+

lemma commit_fields:
  assumes "commitPersistentLocked nxt rn = (saved, rn')"
  shows "\<exists>s. rn' = rn\<lparr>store := s, persistent := (if saved then nxt else persistent rn)\<rparr>"
proof (cases "nxt = persistent rn")
  case True
  with assms show ?thesis by (intro exI [of _ "store rn"]) (simp add: commitPersistentLocked_def)
next
  case False
  with assms show ?thesis by (cases saved) (auto simp: commitPersistentLocked_def split: prod.splits bool.splits)
qed

lemma commit_fields_sel:
  assumes "commitPersistentLocked nxt rn = (saved, rn')"
  shows "persistent rn' = (if saved then nxt else persistent rn)" "Role rn' = Role rn" "LeaderID rn' = LeaderID rn"
    "votesFrom rn' = votesFrom rn" "CommitIndex rn' = CommitIndex rn" "LastApplied rn' = LastApplied rn"
    "nodeID rn' = nodeID rn" "config rn' = config rn" "lastContact rn' = lastContact rn"
    "MatchIndex rn' = MatchIndex rn" "NextIndex rn' = NextIndex rn" "minElectionTimeout rn' = minElectionTimeout rn"
  using commit_fields [OF assms] by auto

lemma keeps_role: "keeps rn rn' \<Longrightarrow> keeps rn (rn'\<lparr>Role := r, LeaderID := l\<rparr>)"
  by (simp add: keeps_def durable_def)

lemma becomeFollower_steps:
  assumes "becomeFollowerLocked t l rn = (fin, rn')"
  shows "keeps rn rn'"
    and "persistent rn' = (if fin \<and> CurrentTerm (persistent rn) < t
      then \<lparr>CurrentTerm = t, VotedFor = -1\<rparr> else persistent rn)"
    and "Role rn' = (if fin then Follower else Role rn)"
    and "LeaderID rn' = (if fin then l else LeaderID rn)"
    and "t \<le> CurrentTerm (persistent rn) \<Longrightarrow> fin"
    and "votesFrom rn' = votesFrom rn" and "CommitIndex rn' = CommitIndex rn" and "LastApplied rn' = LastApplied rn"
proof -
  define nxt where "nxt = (if CurrentTerm (persistent rn) < t
    then (persistent rn)\<lparr>CurrentTerm := t, VotedFor := -1\<rparr> else persistent rn)"
  obtain saved r where c: "commitPersistentLocked nxt rn = (saved, r)" by force
  have le: "ps_le (persistent rn) nxt" by (simp add: nxt_def ps_le_def)
  have r: "fin = saved" "rn' = (if saved then r\<lparr>Role := Follower, LeaderID := l\<rparr> else r)"
    using assms c by (cases saved; simp add: becomeFollowerLocked_def nxt_def)+
  note f = commit_fields_sel [OF c]
  show "keeps rn rn'" using commit_keeps [OF c le] r(2) keeps_role by auto
  show "persistent rn' = (if fin \<and> CurrentTerm (persistent rn) < t
      then \<lparr>CurrentTerm = t, VotedFor = -1\<rparr> else persistent rn)"
    using f(1) r by (auto simp: nxt_def)
  show "Role rn' = (if fin then Follower else Role rn)" "LeaderID rn' = (if fin then l else LeaderID rn)"
    "votesFrom rn' = votesFrom rn" "CommitIndex rn' = CommitIndex rn" "LastApplied rn' = LastApplied rn"
    using f r by auto
  show "t \<le> CurrentTerm (persistent rn) \<Longrightarrow> fin" using c r(1) by (simp add: nxt_def commitPersistentLocked_def)
qed

lemma becomeFollower_quiet: "becomeFollowerLocked t l rn = (fin, rn') \<Longrightarrow> quiet rn rn'"
  using becomeFollower_steps [of t l rn fin rn'] by (auto simp: quiet_def split: if_splits)

lemma acceptLeader_steps:
  assumes "acceptLeader t l rn = (fin, rn')" and "CurrentTerm (persistent rn) \<le> t"
  shows "quiet rn rn'" and "fin \<Longrightarrow> Role rn' = Follower \<and> LeaderID rn' = l \<and> CurrentTerm (persistent rn') = t"
    and "CommitIndex rn' = CommitIndex rn" and "LastApplied rn' = LastApplied rn"
proof -
  show "quiet rn rn'" using assms(1) becomeFollower_quiet by (auto simp: acceptLeader_def split: if_splits)
  show "fin \<Longrightarrow> Role rn' = Follower \<and> LeaderID rn' = l \<and> CurrentTerm (persistent rn') = t"
    using assms becomeFollower_steps(2-4) [of t l rn fin rn'] by (auto simp: acceptLeader_def split: if_splits)
  show "CommitIndex rn' = CommitIndex rn" "LastApplied rn' = LastApplied rn"
    using assms(1) becomeFollower_steps(7,8) [of t l rn fin rn'] by (auto simp: acceptLeader_def split: if_splits)
qed

text \<open>The receiver of AppendEntries on each of its branches.\<close>

lemma append_entries_branches:
  assumes "HandleAppendEntries m now req rl rn = (resp, rl', rn')"
  obtains (Stale) "ae_Term req < CurrentTerm (persistent rn)" "rl' = rl" "rn' = rn"
      "\<not> aer_Success resp" "aer_Term resp = CurrentTerm (persistent rn)"
  | (Unsaved) "CurrentTerm (persistent rn) \<le> ae_Term req"
      "acceptLeader (ae_Term req) (ae_LeaderID req) rn = (False, rn')" "rl' = rl"
      "\<not> aer_Success resp" "aer_Term resp = CurrentTerm (persistent rn)"
  | (Refused) r rn1 where "CurrentTerm (persistent rn) \<le> ae_Term req"
      "acceptLeader (ae_Term req) (ae_LeaderID req) rn = (True, rn1)"
      "AppendEntriesToLog m (ae_PrevLogIndex req) (ae_PrevLogTerm req) (ae_Entries req) rl = (r, rl')"
      "\<not> ar_ok r" "rn' = rn1\<lparr>lastContact := now\<rparr>"
      "\<not> aer_Success resp" "aer_Term resp = ae_Term req"
      "aer_ConflictTerm resp = ar_conflictTerm r" "aer_ConflictIndex resp = ar_conflictIndex r"
  | (Spliced) r rn1 where "CurrentTerm (persistent rn) \<le> ae_Term req"
      "acceptLeader (ae_Term req) (ae_LeaderID req) rn = (True, rn1)"
      "AppendEntriesToLog m (ae_PrevLogIndex req) (ae_PrevLogTerm req) (ae_Entries req) rl = (r, rl')"
      "ar_ok r" "rn' = setFollowerCommitIndexLocked (ae_LeaderCommit req) (ar_matchIndex r) (rn1\<lparr>lastContact := now\<rparr>)"
      "aer_Success resp" "aer_Term resp = ae_Term req" "aer_MatchIndex resp = ar_matchIndex r"
proof (cases "ae_Term req < CurrentTerm (persistent rn)")
  case True
  have "resp = \<lparr>aer_Term = CurrentTerm (persistent rn), aer_Success = False, aer_MatchIndex = 0,
      aer_ConflictTerm = 0, aer_ConflictIndex = 0\<rparr>" "rl' = rl" "rn' = rn"
    using assms True unfolding HandleAppendEntries_def Let_def by auto
  with True show ?thesis by (intro that(1)) simp_all
next
  case fresh: False
  obtain fin rn1 where a: "acceptLeader (ae_Term req) (ae_LeaderID req) rn = (fin, rn1)" by force
  obtain r rl1 where l: "AppendEntriesToLog m (ae_PrevLogIndex req) (ae_PrevLogTerm req) (ae_Entries req) rl = (r, rl1)"
    by force
  have t: "fin \<Longrightarrow> CurrentTerm (persistent rn1) = ae_Term req" using acceptLeader_steps(2) [OF a] fresh by simp
  show ?thesis
  proof (cases fin)
    case False
    have "resp = \<lparr>aer_Term = CurrentTerm (persistent rn), aer_Success = False, aer_MatchIndex = 0,
        aer_ConflictTerm = 0, aer_ConflictIndex = 0\<rparr>" "rl' = rl" "rn' = rn1"
      using assms fresh a False by (simp_all add: HandleAppendEntries_def Let_def)
    with fresh a False show ?thesis by (intro that(2)) simp_all
  next
    case True
    note t = t [OF True]
    have a: "acceptLeader (ae_Term req) (ae_LeaderID req) rn = (True, rn1)" using a True by simp
    show ?thesis
    proof (cases "ar_ok r")
      case True
      have "resp = \<lparr>aer_Term = ae_Term req, aer_Success = True, aer_MatchIndex = ar_matchIndex r,
          aer_ConflictTerm = 0, aer_ConflictIndex = 0\<rparr>" "rl' = rl1"
          "rn' = setFollowerCommitIndexLocked (ae_LeaderCommit req) (ar_matchIndex r) (rn1\<lparr>lastContact := now\<rparr>)"
        using assms fresh a l t True by (simp_all add: HandleAppendEntries_def Let_def)
      with fresh a l True show ?thesis by (intro that(4) [of rn1 r]) simp_all
    next
      case False
      have "resp = \<lparr>aer_Term = ae_Term req, aer_Success = False, aer_MatchIndex = 0,
          aer_ConflictTerm = ar_conflictTerm r, aer_ConflictIndex = ar_conflictIndex r\<rparr>" "rl' = rl1"
          "rn' = rn1\<lparr>lastContact := now\<rparr>"
        using assms fresh a l t False by (simp_all add: HandleAppendEntries_def Let_def)
      with fresh a l False show ?thesis by (intro that(3) [of rn1 r]) simp_all
    qed
  qed
qed

lemma append_entries_quiet:
  assumes "HandleAppendEntries m now req rl rn = (resp, rl', rn')"
  shows "quiet rn rn'"
  using assms
proof (cases rule: append_entries_branches)
  case (Refused r rn1)
  then show ?thesis using acceptLeader_steps(1) quiet_trans quiet_steps(11) by blast
next
  case (Spliced r rn1)
  then show ?thesis using acceptLeader_steps(1) quiet_trans quiet_steps(5,11) by metis
qed (auto dest: acceptLeader_steps(1))

lemma install_snapshot_quiet:
  assumes "HandleInstallSnapshot m restore persist now req rl w rn = (resp, rl', w', rn')"
  shows "quiet rn rn'"
proof (cases "is_Term req < CurrentTerm (persistent rn)")
  case True
  with assms show ?thesis by (simp add: HandleInstallSnapshot_def Let_def)
next
  case False
  obtain fin rn1 where a: "acceptLeader (is_Term req) (is_LeaderID req) rn = (fin, rn1)" by force
  from acceptLeader_steps(1) [OF this] False have q: "quiet rn rn1" by simp
  have "rn' \<in> {rn1, rn1\<lparr>lastContact := now\<rparr>, seedFromSnapshotLocked (is_LastIncludedIndex req) (rn1\<lparr>lastContact := now\<rparr>)}"
    using assms False a by (auto simp: HandleInstallSnapshot_def Let_def split: prod.splits bool.splits if_splits)
  then show ?thesis using q quiet_trans quiet_steps(8,11) by (metis insertE singletonD)
qed


section \<open>Votes\<close>

text \<open>The record a vote request asks the voter to store.\<close>

definition voteState :: "RequestVoteRequest \<Rightarrow> bool \<Rightarrow> PersistentState \<Rightarrow> PersistentState" where
  "voteState req upToDate p =
     (let p = (if CurrentTerm p < rv_Term req then p\<lparr>CurrentTerm := rv_Term req, VotedFor := -1\<rparr> else p)
      in if (VotedFor p = -1 \<or> VotedFor p = rv_CandidateID req) \<and> upToDate
         then p\<lparr>VotedFor := rv_CandidateID req\<rparr> else p)"

lemma voteState_le: "ps_le p (voteState req u p)"
  by (auto simp: voteState_def ps_le_def Let_def)

abbreviation candidateBehind :: "RequestVoteRequest \<Rightarrow> int \<times> int \<Rightarrow> bool" where
  "candidateBehind req lastLog \<equiv>
     \<not> candidateUpToDate (rv_LastLogTerm req) (rv_LastLogIndex req) (snd lastLog) (fst lastLog)"

lemma request_vote_branches:
  assumes "HandleRequestVote now req lastLog rn = (resp, rn')"
  obtains (Unchanged) "rn' = rn" "\<not> rvr_VoteGranted resp" "rvr_Term resp = CurrentTerm (persistent rn)"
      "rv_Term req < CurrentTerm (persistent rn) \<or> LeaderID rn \<noteq> 0 \<and> now - lastContact rn < minElectionTimeout rn"
  | (Unsaved) "commitPersistentLocked (voteState req (\<not> candidateBehind req lastLog) (persistent rn)) rn = (False, rn')"
      "\<not> rvr_VoteGranted resp" "rvr_Term resp = CurrentTerm (persistent rn)"
      "CurrentTerm (persistent rn) \<le> rv_Term req"
  | (Saved) rn1 granted where "commitPersistentLocked (voteState req (\<not> candidateBehind req lastLog) (persistent rn)) rn = (True, rn1)"
      "rn' = rn1\<lparr>Role := (if CurrentTerm (persistent rn) < rv_Term req then Follower else Role rn1),
        LeaderID := (if CurrentTerm (persistent rn) < rv_Term req then 0 else LeaderID rn1),
        lastContact := (if granted then now else lastContact rn1)\<rparr>"
      "rvr_VoteGranted resp = granted" "rvr_Term resp = rv_Term req" "CurrentTerm (persistent rn) \<le> rv_Term req"
      "granted \<longleftrightarrow> (CurrentTerm (persistent rn) < rv_Term req \<or> VotedFor (persistent rn) = -1 \<or>
        VotedFor (persistent rn) = rv_CandidateID req) \<and> \<not> candidateBehind req lastLog"
proof (cases "rv_Term req < CurrentTerm (persistent rn) \<or> LeaderID rn \<noteq> 0 \<and> now - lastContact rn < minElectionTimeout rn")
  case True
  then have "resp = \<lparr>rvr_Term = CurrentTerm (persistent rn), rvr_VoteGranted = False\<rparr>" "rn' = rn"
    using assms unfolding HandleRequestVote_def Let_def by (auto split: prod.splits if_splits)
  with True show ?thesis by (intro that(1)) simp_all
next
  case False
  let ?u = "\<not> candidateBehind req lastLog" and ?up = "CurrentTerm (persistent rn) < rv_Term req"
  define nxt where "nxt = voteState req ?u (persistent rn)"
  define granted where "granted \<longleftrightarrow> (?up \<or> VotedFor (persistent rn) = -1 \<or>
    VotedFor (persistent rn) = rv_CandidateID req) \<and> ?u"
  obtain saved rn1 where c: "commitPersistentLocked nxt rn = (saved, rn1)" by force
  have run: "(resp, rn') = (case (saved, rn1) of
      (False, rn) \<Rightarrow> (\<lparr>rvr_Term = CurrentTerm (persistent rn), rvr_VoteGranted = False\<rparr>, rn)
    | (True, rn) \<Rightarrow>
        (let rn = (if ?up then rn\<lparr>Role := Follower, LeaderID := 0\<rparr> else rn)
         in if \<not> granted then (\<lparr>rvr_Term = CurrentTerm (persistent rn), rvr_VoteGranted = False\<rparr>, rn)
            else (\<lparr>rvr_Term = CurrentTerm (persistent rn), rvr_VoteGranted = True\<rparr>, rn\<lparr>lastContact := now\<rparr>)))"
  proof -
    let ?p = "if ?up then (persistent rn)\<lparr>CurrentTerm := rv_Term req, VotedFor := -1\<rparr> else persistent rn"
    have g: "\<not> (VotedFor ?p \<noteq> -1 \<and> VotedFor ?p \<noteq> rv_CandidateID req) \<and>
        candidateUpToDate (rv_LastLogTerm req) (rv_LastLogIndex req) (snd lastLog) (fst lastLog) \<longleftrightarrow> granted"
      by (simp add: granted_def)
    have n: "(if granted then ?p\<lparr>VotedFor := rv_CandidateID req\<rparr> else ?p) = nxt"
      by (simp add: nxt_def voteState_def granted_def Let_def)
    have d: "\<not> rv_Term req < CurrentTerm (persistent rn)"
        "\<not> (LeaderID rn \<noteq> 0 \<and> now - lastContact rn < minElectionTimeout rn)" using False by blast+
    show ?thesis
      using assms unfolding HandleRequestVote_def Let_def split_beta if_not_P [OF d(1)] if_not_P [OF d(2)] g n c
      by (simp add: Let_def)
  qed
  show ?thesis
  proof (cases saved)
    case False
    with run c commit_fields_sel(1) [OF c] \<open>\<not> (rv_Term req < _ \<or> _)\<close> show ?thesis
      by (intro that(2)) (simp_all add: nxt_def)
  next
    case True
    have "CurrentTerm (persistent rn1) = rv_Term req"
      using commit_fields_sel(1) [OF c] True \<open>\<not> (rv_Term req < _ \<or> _)\<close>
      by (auto simp: nxt_def voteState_def Let_def)
    then have e: "resp = \<lparr>rvr_Term = rv_Term req, rvr_VoteGranted = granted\<rparr>"
        "rn' = rn1\<lparr>Role := (if ?up then Follower else Role rn1), LeaderID := (if ?up then 0 else LeaderID rn1),
          lastContact := (if granted then now else lastContact rn1)\<rparr>"
      using run True by (cases granted; cases ?up; simp)+
    show ?thesis
    proof (rule that(3))
      show "commitPersistentLocked (voteState req ?u (persistent rn)) rn = (True, rn1)"
        using c True by (simp add: nxt_def)
      show "CurrentTerm (persistent rn) \<le> rv_Term req" using \<open>\<not> (rv_Term req < _ \<or> _)\<close> by simp
      show "rvr_VoteGranted resp = granted" "rvr_Term resp = rv_Term req" by (simp_all add: e(1))
    qed (fact e(2), fact granted_def)
  qed
qed

lemma request_vote_quiet:
  assumes "HandleRequestVote now req lastLog rn = (resp, rn')"
  shows "quiet rn rn'"
  using assms
proof (cases rule: request_vote_branches)
  case Unsaved
  then show ?thesis using commit_keeps voteState_le commit_fields_sel [OF Unsaved(1)] by (simp add: quiet_def)
next
  case (Saved rn1 granted)
  note k = commit_keeps [OF Saved(1) voteState_le] and f = commit_fields_sel [OF Saved(1)]
  have "keeps rn rn'" using k Saved(2) by (simp add: keeps_def durable_def)
  moreover have "CurrentTerm (persistent rn') = CurrentTerm (persistent rn)" if "\<not> CurrentTerm (persistent rn) < rv_Term req"
    using f(1) Saved(2) that by (simp add: voteState_def Let_def)
  ultimately show ?thesis using Saved(2) f by (auto simp: quiet_def)
qed simp

text \<open>A vote granted is on disk, in the term asked for, and breaks no earlier vote.\<close>

lemma request_vote_granted:
  assumes "HandleRequestVote now req lastLog rn = (resp, rn')" and "rvr_VoteGranted resp"
  shows "persistent rn' = \<lparr>CurrentTerm = rv_Term req, VotedFor = rv_CandidateID req\<rparr>"
    and "rvr_Term resp = rv_Term req" and "\<not> candidateBehind req lastLog"
    and "CurrentTerm (persistent rn) < rv_Term req \<or> CurrentTerm (persistent rn) = rv_Term req \<and>
      (VotedFor (persistent rn) = -1 \<or> VotedFor (persistent rn) = rv_CandidateID req)"
  using assms
  by (cases rule: request_vote_branches;
      auto dest!: commit_fields_sel(1) simp: voteState_def Let_def)+


section \<open>Elections and restarts\<close>

lemma candidate_steps:
  assumes "BecomeCandidate now rn = (r, rn')"
  shows "keeps rn rn'" and "r = None \<Longrightarrow> quiet rn rn'"
    and "r = Some t \<Longrightarrow> t = CurrentTerm (persistent rn) + 1 \<and> Role rn' = Candidate \<and>
      persistent rn' = \<lparr>CurrentTerm = t, VotedFor = nodeID rn\<rparr> \<and> votesFrom rn' = Some (mput (nodeID rn) True [])"
proof -
  define nxt where "nxt = \<lparr>CurrentTerm = CurrentTerm (persistent rn) + 1, VotedFor = nodeID rn\<rparr>"
  obtain saved rn1 where c: "commitPersistentLocked nxt rn = (saved, rn1)" by force
  have le: "ps_le (persistent rn) nxt" by (simp add: nxt_def ps_le_def)
  note k = commit_keeps [OF c le] and f = commit_fields_sel [OF c]
  have r: "r = (if saved then Some (CurrentTerm (persistent rn1)) else None)"
      "rn' = (if saved then rn1\<lparr>Role := Candidate, LeaderID := 0, votesFrom := Some (mput (nodeID rn1) True []),
        lastContact := now\<rparr> else rn1)"
    using assms c by (cases saved; simp add: BecomeCandidate_def nxt_def Let_def)+
  show "keeps rn rn'" using k r(2) by (simp add: keeps_def durable_def)
  show "r = None \<Longrightarrow> quiet rn rn'" using k r f by (auto simp: quiet_def split: if_splits)
  show "r = Some t \<Longrightarrow> t = CurrentTerm (persistent rn) + 1 \<and> Role rn' = Candidate \<and>
      persistent rn' = \<lparr>CurrentTerm = t, VotedFor = nodeID rn\<rparr> \<and> votesFrom rn' = Some (mput (nodeID rn) True [])"
    using r f by (auto simp: nxt_def split: if_splits)
qed

lemma record_vote_steps:
  assumes "RecordVoteAndCheckMajority v t rn = (won, rn')"
  shows "keeps rn rn'" and "Role rn' = Role rn" and "persistent rn' = persistent rn"
    and "won \<Longrightarrow> Role rn = Candidate \<and> t = CurrentTerm (persistent rn) \<and>
      (\<exists>vs. votesFrom rn' = Some vs \<and> HasQuorum (config rn) vs)"
    and "Role rn = Candidate \<Longrightarrow> t = CurrentTerm (persistent rn) \<Longrightarrow> votesFrom rn = Some vs \<Longrightarrow>
      votesFrom rn' = Some (mput v True vs)"
    and "\<not> (Role rn = Candidate \<and> t = CurrentTerm (persistent rn)) \<Longrightarrow> rn' = rn"
  using assms by (auto simp: RecordVoteAndCheckMajority_def Let_def keeps_def durable_def split: if_splits)

lemma leader_steps:
  assumes "BecomeLeader t i rn = (promoted, rn')"
  shows "keeps rn rn'" and "persistent rn' = persistent rn" and "votesFrom rn' = votesFrom rn"
    and "promoted \<Longrightarrow> Role rn = Candidate \<and> CurrentTerm (persistent rn) = t \<and> Role rn' = Leader"
    and "\<not> promoted \<Longrightarrow> rn' = rn"
  using assms by (auto simp: BecomeLeader_def Let_def keeps_def durable_def split: if_splits)

text \<open>
  A restart: the process is gone and a new one is made on the record a crash left, as a
  follower.
\<close>

definition restartNode :: "nanos \<Rightarrow> PersistentState option \<Rightarrow> save_outcome list \<Rightarrow> RaftNode \<Rightarrow> node_error + RaftNode" where
  "restartNode now p os rn =
     NewRaftNode now (nodeID rn) (config rn) \<lparr>holds = p, mayHold = [p], saves = os, loadErr = None\<rparr> Follower"

lemma restart_steps:
  assumes "restartNode now p os rn = Inr rn'" and "p \<in> set (mayHold (store rn))" and "durable rn" and "cfg_wf (config rn)"
  shows "nodeID rn' = nodeID rn" and "config rn' = config rn" and "Role rn' = Follower" and "durable rn'"
    and "ps_le (persistent rn) (persistent rn')"
proof -
  obtain q where q: "p = Some q" "ps_le (persistent rn) q" using assms(2,3) by (auto simp: durable_def)
  then show "nodeID rn' = nodeID rn" "config rn' = config rn" "Role rn' = Follower" "durable rn'"
    "ps_le (persistent rn) (persistent rn')"
    using assms(1,4)
    by (auto simp: restartNode_def NewRaftNode_def loadPersistentState_def Load_def Let_def durable_def
        split: option.splits)
qed

end
