(* ===== verification/Cluster_Election.thy ===== *)
theory Cluster_Election
  imports Raft_Node_Spec
begin

text \<open>
  A cluster of nodes with one membership, as a step relation over the nodes' own
  transitions.  Messages may be lost, delayed, duplicated and reordered; every request but
  the granted vote may be made up, so nothing is assumed of the other handlers' senders;
  any node may crash at any time and come back with any record its disk may hold.

  The history keeps every vote granted, every majority counted and every promotion.  The
  tally and the promotion are separate steps, as the code takes the node's lock twice.
\<close>

section \<open>Steps of one node outside elections\<close>

inductive other_step :: "RaftNode \<Rightarrow> RaftNode \<Rightarrow> bool" where
  append_entries: "HandleAppendEntries m now req rl rn = (resp, rl', rn') \<Longrightarrow> other_step rn rn'"
| install_snapshot: "HandleInstallSnapshot m restore persist now sreq rl (w :: bool list) rn = (sresp, rl', w', rn') \<Longrightarrow>
    other_step rn rn'"
| become_follower: "BecomeFollower t l rn = (fin, rn') \<Longrightarrow> other_step rn rn'"
| advance_commit: "AdvanceCommitIndex li ta ct rn = (adv, rn') \<Longrightarrow> other_step rn rn'"
| peer_progress: "other_step rn (UpdatePeerProgress p i rn)"
| backtrack: "other_step rn (BacktrackNextIndex p i rn)"
| advance_applied: "AdvanceLastApplied rn = (i, rn') \<Longrightarrow> other_step rn rn'"
| seed: "other_step rn (SeedFromSnapshot i rn)"
| set_timeout: "other_step rn (SetMinElectionTimeout d rn)"
| contact: "other_step rn (noteContact now rn)"

lemma other_step_quiet: "other_step rn rn' \<Longrightarrow> quiet rn rn'"
proof (induction rule: other_step.induct)
  case (become_follower t l rn fin rn')
  then show ?case using becomeFollower_quiet by (simp add: BecomeFollower_def)
next
  case (advance_commit li ta ct rn adv rn')
  then show ?case using quiet_steps(10) [of rn li ta ct] by simp
next
  case (advance_applied rn i rn')
  then show ?case using quiet_steps(7) [of rn] by simp
qed (auto intro: append_entries_quiet install_snapshot_quiet)

section \<open>The cluster\<close>

record Cluster =
  node :: "int \<Rightarrow> RaftNode"
  ledger :: "(int \<times> int \<times> int) set"  \<comment> \<open>voter, term, candidate\<close>
  majorities :: "(int \<times> int) set"    \<comment> \<open>candidate, term: a majority was counted\<close>
  leaders :: "(int \<times> int) set"       \<comment> \<open>node, term: it was promoted\<close>

inductive cluster_step :: "Cluster \<Rightarrow> Cluster \<Rightarrow> bool" where
  other: "other_step (node s v) rn' \<Longrightarrow> cluster_step s (s\<lparr>node := (node s)(v := rn')\<rparr>)"
| vote: "HandleRequestVote now req lastLog (node s v) = (resp, rn') \<Longrightarrow> rv_CandidateID req \<noteq> -1 \<Longrightarrow>
    cluster_step s (s\<lparr>node := (node s)(v := rn'),
      ledger := (if rvr_VoteGranted resp then insert (v, rvr_Term resp, rv_CandidateID req) (ledger s) else ledger s)\<rparr>)"
| campaign: "BecomeCandidate now (node s c) = (r, rn') \<Longrightarrow> c \<noteq> -1 \<Longrightarrow>
    cluster_step s (s\<lparr>node := (node s)(c := rn'),
      ledger := (case r of None \<Rightarrow> ledger s | Some t \<Rightarrow> insert (c, t, c) (ledger s)),
      majorities := (case r of None \<Rightarrow> majorities s
        | Some t \<Rightarrow> if node_Peers rn' = [] then insert (c, t) (majorities s) else majorities s)\<rparr>)"
| tally: "(v, t, c) \<in> ledger s \<Longrightarrow> RecordVoteAndCheckMajority v t (node s c) = (won, rn') \<Longrightarrow>
    cluster_step s (s\<lparr>node := (node s)(c := rn'),
      majorities := (if won then insert (c, t) (majorities s) else majorities s)\<rparr>)"
| promote: "(c, t) \<in> majorities s \<Longrightarrow> BecomeLeader t i (node s c) = (promoted, rn') \<Longrightarrow>
    cluster_step s (s\<lparr>node := (node s)(c := rn'),
      leaders := (if promoted then insert (c, t) (leaders s) else leaders s)\<rparr>)"
| restart: "p \<in> set (mayHold (store (node s v))) \<Longrightarrow> restartNode now p os (node s v) = Inr rn' \<Longrightarrow>
    cluster_step s (s\<lparr>node := (node s)(v := rn')\<rparr>)"

text \<open>At first every server is a follower whose disk holds what it loaded.\<close>

definition initial :: "Configuration \<Rightarrow> Cluster \<Rightarrow> bool" where
  "initial cfg s \<longleftrightarrow> ledger s = {} \<and> majorities s = {} \<and> leaders s = {} \<and>
     (\<forall>v. nodeID (node s v) = v \<and> config (node s v) = cfg \<and> Role (node s v) = Follower \<and> durable (node s v))"

inductive reachable :: "Configuration \<Rightarrow> Cluster \<Rightarrow> bool" for cfg where
  start: "initial cfg s \<Longrightarrow> reachable cfg s"
| step: "reachable cfg s \<Longrightarrow> cluster_step s s' \<Longrightarrow> reachable cfg s'"

inductive_cases cluster_stepE: "cluster_step s s'"

section \<open>The invariant\<close>

definition voters_of :: "Cluster \<Rightarrow> int \<Rightarrow> int \<Rightarrow> int set" where
  "voters_of s t c = {v. (v, t, c) \<in> ledger s}"

definition nodes_ok :: "Configuration \<Rightarrow> Cluster \<Rightarrow> bool" where
  "nodes_ok cfg s \<longleftrightarrow> (\<forall>v. nodeID (node s v) = v \<and> config (node s v) = cfg \<and> durable (node s v))"

definition ledger_kept :: "Cluster \<Rightarrow> bool" where
  "ledger_kept s \<longleftrightarrow> (\<forall>v t c. (v, t, c) \<in> ledger s \<longrightarrow>
     c \<noteq> -1 \<and> ps_le \<lparr>CurrentTerm = t, VotedFor = c\<rparr> (persistent (node s v)))"

definition one_vote :: "Cluster \<Rightarrow> bool" where
  "one_vote s \<longleftrightarrow> (\<forall>v t c d. (v, t, c) \<in> ledger s \<longrightarrow> (v, t, d) \<in> ledger s \<longrightarrow> c = d)"

definition tallies_ok :: "Cluster \<Rightarrow> bool" where
  "tallies_ok s \<longleftrightarrow> (\<forall>c. Role (node s c) = Candidate \<longrightarrow>
     (\<exists>vs. votesFrom (node s c) = Some vs \<and>
       have_set vs \<subseteq> voters_of s (CurrentTerm (persistent (node s c))) c))"

definition wins_ok :: "Configuration \<Rightarrow> Cluster \<Rightarrow> bool" where
  "wins_ok cfg s \<longleftrightarrow> (\<forall>c t. (c, t) \<in> majorities s \<union> leaders s \<longrightarrow> quorum_of cfg (voters_of s t c))"

definition leads_ok :: "Cluster \<Rightarrow> bool" where
  "leads_ok s \<longleftrightarrow> (\<forall>c. Role (node s c) = Leader \<longrightarrow> (c, CurrentTerm (persistent (node s c))) \<in> leaders s)"

definition election_inv :: "Configuration \<Rightarrow> Cluster \<Rightarrow> bool" where
  "election_inv cfg s \<longleftrightarrow> nodes_ok cfg s \<and> ledger_kept s \<and> one_vote s \<and> tallies_ok s \<and> wins_ok cfg s \<and> leads_ok s"

lemmas inv_defs = election_inv_def nodes_ok_def ledger_kept_def one_vote_def tallies_ok_def wins_ok_def leads_ok_def

lemma initial_inv: "initial cfg s \<Longrightarrow> election_inv cfg s"
  by (auto simp: initial_def inv_defs)

text \<open>A quiet step of one node, with the history as it is.\<close>

lemma quiet_inv:
  assumes "election_inv cfg s" and "quiet (node s v) rn'"
  shows "election_inv cfg (s\<lparr>node := (node s)(v := rn')\<rparr>)"
proof -
  have k: "keeps (node s v) rn'" using assms(2) by (simp add: quiet_def)
  then have le: "ps_le p (persistent rn')" if "ps_le p (persistent (node s v))" for p
    using that ps_le_trans by (auto simp: keeps_def)
  have "nodes_ok cfg (s\<lparr>node := (node s)(v := rn')\<rparr>)" using assms(1) k by (auto simp: inv_defs keeps_def)
  moreover have "ledger_kept (s\<lparr>node := (node s)(v := rn')\<rparr>)"
    using assms(1) le by (simp add: election_inv_def ledger_kept_def)
  moreover have "one_vote (s\<lparr>node := (node s)(v := rn')\<rparr>)" "wins_ok cfg (s\<lparr>node := (node s)(v := rn')\<rparr>)"
    using assms(1) by (auto simp: inv_defs voters_of_def)
  moreover have "tallies_ok (s\<lparr>node := (node s)(v := rn')\<rparr>)"
    using assms by (auto simp: inv_defs quiet_def voters_of_def)
  moreover have "leads_ok (s\<lparr>node := (node s)(v := rn')\<rparr>)"
    using assms by (auto simp: inv_defs quiet_def)
  ultimately show ?thesis by (simp add: election_inv_def)
qed

text \<open>A vote entered in the ledger by a node whose record now holds it.\<close>

lemma ledger_inv:
  assumes "election_inv cfg s" and "persistent (node s v) = \<lparr>CurrentTerm = t, VotedFor = c\<rparr>" and "c \<noteq> -1"
    and "\<And>d. (v, t, d) \<in> ledger s \<Longrightarrow> d = c"
  shows "election_inv cfg (s\<lparr>ledger := insert (v, t, c) (ledger s)\<rparr>)"
proof -
  let ?s = "s\<lparr>ledger := insert (v, t, c) (ledger s)\<rparr>"
  have sub: "voters_of s t' c' \<subseteq> voters_of ?s t' c'" for t' c' by (auto simp: voters_of_def)
  have "ledger_kept ?s" "one_vote ?s" using assms by (auto simp: inv_defs)
  moreover have "tallies_ok ?s"
    using assms(1) sub unfolding election_inv_def tallies_ok_def by simp (meson subset_trans)
  moreover have "wins_ok cfg ?s"
    using assms(1) cq.quorum_mono [OF _ sub] unfolding election_inv_def wins_ok_def by simp
  ultimately show ?thesis using assms(1) by (auto simp: election_inv_def nodes_ok_def leads_ok_def)
qed

lemma ledger_term: "ledger_kept s \<Longrightarrow> (v, t, d) \<in> ledger s \<Longrightarrow> t \<le> CurrentTerm (persistent (node s v))"
  by (fastforce simp: ledger_kept_def ps_le_def)

lemma voters_of_simps [simp]:
  "voters_of (s\<lparr>node := n\<rparr>) = voters_of s" "voters_of (s\<lparr>majorities := m\<rparr>) = voters_of s"
  "voters_of (s\<lparr>leaders := l\<rparr>) = voters_of s"
  by (simp_all add: voters_of_def fun_eq_iff)

lemma ledger_vote:
  "ledger_kept s \<Longrightarrow> (v, t, d) \<in> ledger s \<Longrightarrow> CurrentTerm (persistent (node s v)) = t \<Longrightarrow>
    VotedFor (persistent (node s v)) = d \<and> d \<noteq> -1"
  by (fastforce simp: ledger_kept_def ps_le_def)

lemma vote_inv:
  assumes inv: "election_inv cfg s" and run: "HandleRequestVote now req lastLog (node s v) = (resp, rn')"
    and c: "rv_CandidateID req \<noteq> -1"
  shows "election_inv cfg (s\<lparr>node := (node s)(v := rn'),
    ledger := (if rvr_VoteGranted resp then insert (v, rvr_Term resp, rv_CandidateID req) (ledger s) else ledger s)\<rparr>)"
proof -
  let ?s = "s\<lparr>node := (node s)(v := rn')\<rparr>"
  have q: "election_inv cfg ?s" by (rule quiet_inv [OF inv request_vote_quiet [OF run]])
  show ?thesis
  proof (cases "rvr_VoteGranted resp")
    case True
    note g = request_vote_granted [OF run True]
    have k: "ledger_kept s" using inv by (simp add: election_inv_def)
    have "d = rv_CandidateID req" if "(v, rv_Term req, d) \<in> ledger s" for d
      using ledger_term [OF k that] ledger_vote [OF k that] g(4) by auto
    then have "election_inv cfg (?s\<lparr>ledger := insert (v, rv_Term req, rv_CandidateID req) (ledger ?s)\<rparr>)"
      using g(1) c by (intro ledger_inv [OF q]) simp_all
    with True g(2) show ?thesis by simp
  next
    case False
    with q show ?thesis by simp
  qed
qed

lemma solo_quorum:
  assumes "cfg_ok cfg" and "Peers cfg c = []" and "c \<in> A"
  shows "quorum_of cfg A"
proof -
  have only: "i = c" if "IsMember cfg i" for i
    using dom_Peers [of i cfg c] that assms(2) by (auto simp: mget_empty)
  have maj: "majority_of m A" if m: "mwf m" "\<And>i. i \<in> dom (mget m) \<Longrightarrow> IsMember cfg i" for m
  proof (cases "m = []")
    case False
    then have "dom (mget m) \<noteq> {}" using gm.keys_dom [of m] by (metis length_0_conv length_mkeys set_empty)
    then have d: "dom (mget m) = {c}" using only m(2) by blast
    then have "length m = 1" using gm.length_keys [OF m(1)] by simp
    then show ?thesis using d assms(3) by (simp add: majority_of_def)
  qed (simp add: majority_of_def)
  have "i \<in> dom (mget (Voters cfg)) \<Longrightarrow> IsMember cfg i" "i \<in> dom (mget (OldVoters cfg)) \<Longrightarrow> IsMember cfg i" for i
    by (auto simp: IsMember_def IsVoter_def)
  moreover have "mwf (Voters cfg)" "mwf (OldVoters cfg)" using assms(1) by (auto simp: cfg_ok_def cfg_wf_def)
  ultimately show ?thesis unfolding quorum_of_def using maj by blast
qed

lemma have_set_Nil [simp]: "have_set [] = {}"
  by (simp add: have_set_def)

lemma have_set_mput [simp]: "have_set (mput v True vs) = insert v (have_set vs)"
  by (auto simp: have_set_def)

lemma campaign_inv:
  assumes inv: "election_inv cfg s" and ok: "cfg_ok cfg" and run: "BecomeCandidate now (node s c) = (Some t, rn')"
    and c: "c \<noteq> -1"
  shows "election_inv cfg (s\<lparr>node := (node s)(c := rn'), ledger := insert (c, t, c) (ledger s),
    majorities := (if node_Peers rn' = [] then insert (c, t) (majorities s) else majorities s)\<rparr>)"
    (is "election_inv cfg ?s")
proof -
  have id: "nodeID (node s c) = c" "config (node s c) = cfg" using inv by (auto simp: inv_defs)
  note k = candidate_steps(1) [OF run]
  from candidate_steps(3) [OF run, of t] id have f: "t = CurrentTerm (persistent (node s c)) + 1" "Role rn' = Candidate"
    "persistent rn' = \<lparr>CurrentTerm = t, VotedFor = c\<rparr>" "votesFrom rn' = Some (mput c True [])" by auto
  have kept: "ledger_kept s" using inv by (simp add: election_inv_def)
  have new: "(c, t, d) \<notin> ledger s" for d using ledger_term [OF kept, of c t d] f(1) by auto
  have sub: "voters_of s t' c' \<subseteq> voters_of ?s t' c'" for t' c' by (auto simp: voters_of_def)
  have le: "ps_le p (persistent rn')" if "ps_le p (persistent (node s c))" for p
    using that k ps_le_trans by (auto simp: keeps_def)
  have "nodes_ok cfg ?s" using inv k id by (auto simp: inv_defs keeps_def)
  moreover have "ledger_kept ?s" using kept le f(3) c by (auto simp: ledger_kept_def)
  moreover have "one_vote ?s" using inv new by (auto simp: inv_defs)
  moreover have "tallies_ok ?s" unfolding tallies_ok_def
  proof (intro allI impI)
    fix d assume r: "Role (node ?s d) = Candidate"
    show "\<exists>vs. votesFrom (node ?s d) = Some vs \<and> have_set vs \<subseteq> voters_of ?s (CurrentTerm (persistent (node ?s d))) d"
    proof (cases "d = c")
      case True
      then show ?thesis using f by (simp add: voters_of_def)
    next
      case False
      then show ?thesis using inv r sub unfolding election_inv_def tallies_ok_def by simp (meson subset_trans)
    qed
  qed
  moreover have "wins_ok cfg ?s"
  proof -
    have "quorum_of cfg (voters_of ?s t c)" if "node_Peers rn' = []"
      using solo_quorum [OF ok, of c] that k id by (simp add: node_Peers_def keeps_def voters_of_def)
    with inv cq.quorum_mono [OF _ sub] show ?thesis unfolding election_inv_def wins_ok_def by simp
  qed
  moreover have "leads_ok ?s" using inv f(2) by (auto simp: inv_defs)
  ultimately show ?thesis by (simp add: election_inv_def)
qed

lemma tally_inv:
  assumes inv: "election_inv cfg s" and ok: "cfg_ok cfg" and v: "(v, t, c) \<in> ledger s"
    and run: "RecordVoteAndCheckMajority v t (node s c) = (won, rn')"
  shows "election_inv cfg (s\<lparr>node := (node s)(c := rn'),
    majorities := (if won then insert (c, t) (majorities s) else majorities s)\<rparr>)" (is "election_inv cfg ?s")
proof (cases "Role (node s c) = Candidate \<and> t = CurrentTerm (persistent (node s c))")
  case False
  with record_vote_steps(4,6) [OF run] have "rn' = node s c" "\<not> won" by auto
  with inv show ?thesis by simp
next
  case True
  then obtain vs where vs: "votesFrom (node s c) = Some vs" "have_set vs \<subseteq> voters_of s t c"
    using inv by (auto simp: inv_defs)
  note r = record_vote_steps [OF run]
  have vs': "votesFrom rn' = Some (mput v True vs)" using r(5) True vs by simp
  have sub: "have_set (mput v True vs) \<subseteq> voters_of s t c" using v vs(2) by (simp add: voters_of_def)
  have "nodes_ok cfg ?s" "ledger_kept ?s" "one_vote ?s" "leads_ok ?s"
    using inv r(1-3) by (auto simp: inv_defs keeps_def)
  moreover have "tallies_ok ?s" using inv vs' sub True r(3) by (auto simp: inv_defs)
  moreover have "wins_ok cfg ?s"
  proof -
    have "quorum_of cfg (voters_of s t c)" if won
    proof -
      have "HasQuorum cfg (mput v True vs)" using r(4) [OF that] vs' inv by (auto simp: inv_defs)
      then show ?thesis using HasQuorum_iff [of cfg] ok cq.quorum_mono [OF _ sub] by (simp add: cfg_ok_def)
    qed
    with inv show ?thesis by (auto simp: inv_defs)
  qed
  ultimately show ?thesis by (simp add: election_inv_def)
qed

lemma promote_inv:
  assumes inv: "election_inv cfg s" and m: "(c, t) \<in> majorities s"
    and run: "BecomeLeader t i (node s c) = (promoted, rn')"
  shows "election_inv cfg (s\<lparr>node := (node s)(c := rn'),
    leaders := (if promoted then insert (c, t) (leaders s) else leaders s)\<rparr>)" (is "election_inv cfg ?s")
proof (cases promoted)
  case False
  with leader_steps(5) [OF run] inv show ?thesis by simp
next
  case True
  note r = leader_steps [OF run] and p = leader_steps(4) [OF run True]
  have "nodes_ok cfg ?s" "ledger_kept ?s" "one_vote ?s" using inv r(1,2) by (auto simp: inv_defs keeps_def)
  moreover have "tallies_ok ?s" using inv p by (auto simp: inv_defs)
  moreover have "wins_ok cfg ?s" using inv m True by (auto simp: inv_defs)
  moreover have "leads_ok ?s" using inv p r(2) True by (auto simp: inv_defs)
  ultimately show ?thesis by (simp add: election_inv_def)
qed

lemma restart_inv:
  assumes inv: "election_inv cfg s" and ok: "cfg_ok cfg" and p: "p \<in> set (mayHold (store (node s v)))"
    and run: "restartNode now p os (node s v) = Inr rn'"
  shows "election_inv cfg (s\<lparr>node := (node s)(v := rn')\<rparr>)"
proof -
  have "durable (node s v)" "cfg_wf (config (node s v))" using inv ok by (auto simp: inv_defs cfg_ok_def)
  note r = restart_steps [OF run p this]
  then have "quiet (node s v) rn'" by (simp add: quiet_def keeps_def)
  then show ?thesis by (rule quiet_inv [OF inv])
qed

lemma step_inv:
  assumes "cfg_ok cfg" and "cluster_step s s'" and "election_inv cfg s"
  shows "election_inv cfg s'"
  using assms(2,3)
proof (induction rule: cluster_step.induct)
  case (other s v rn')
  then show ?case using quiet_inv other_step_quiet by blast
next
  case (campaign now s c r rn')
  then show ?case
    using campaign_inv [OF campaign.prems assms(1)] quiet_inv [OF campaign.prems] candidate_steps(2)
    by (cases r) auto
qed (use assms(1) in \<open>blast intro: vote_inv tally_inv promote_inv restart_inv\<close>)+

lemma reachable_inv: "cfg_ok cfg \<Longrightarrow> reachable cfg s \<Longrightarrow> election_inv cfg s"
  by (rotate_tac, induction rule: reachable.induct) (auto intro: initial_inv step_inv)

lemma one_leader:
  assumes "cfg_ok cfg" and "election_inv cfg s" and "(c, t) \<in> leaders s" and "(d, t) \<in> leaders s"
  shows "c = d"
proof -
  have inv: "wins_ok cfg s" "one_vote s" using assms(2) by (simp_all add: election_inv_def)
  have "quorum_of cfg {v. (v, t, c) \<in> ledger s}" "quorum_of cfg {v. (v, t, d) \<in> ledger s}"
    using inv(1) assms(3,4) by (auto simp: wins_ok_def voters_of_def)
  then show ?thesis
    using cq.single_vote_agree [OF assms(1), of "\<lambda>v x. (v, t, x) \<in> ledger s" c d] inv(2)
    by (simp add: one_vote_def)
qed

section \<open>A run\<close>

text \<open>Three servers; the first campaigns, the second votes for it, the first counts it and leads.\<close>

definition demoNode :: "int \<Rightarrow> RaftNode" where
  "demoNode v = \<lparr>nodeID = v, config = demoConfig, Role = Follower, LeaderID = 0, CommitIndex = 0, LastApplied = 0,
     lastContact = 0, votesFrom = None, minElectionTimeout = DefaultMinElectionTimeout, NextIndex = [],
     MatchIndex = [], persistent = \<lparr>CurrentTerm = 0, VotedFor = -1\<rparr>,
     store = \<lparr>holds = Some \<lparr>CurrentTerm = 0, VotedFor = -1\<rparr>, mayHold = [Some \<lparr>CurrentTerm = 0, VotedFor = -1\<rparr>],
       saves = [], loadErr = None\<rparr>\<rparr>"

definition demoStart :: Cluster where
  "demoStart = \<lparr>node = demoNode, ledger = {}, majorities = {}, leaders = {}\<rparr>"

definition demoSaved :: "int \<Rightarrow> PersistentState \<Rightarrow> RaftNode" where
  "demoSaved v p = (demoNode v)\<lparr>persistent := p,
     store := \<lparr>holds = Some p, mayHold = [Some p], saves = [], loadErr = None\<rparr>\<rparr>"

lemma demoStart_reachable: "reachable demoConfig demoStart"
  by (rule reachable.start) (simp add: initial_def demoStart_def demoNode_def durable_def)

lemma demo_campaign: "BecomeCandidate 5 (demoNode 1) =
    (Some 1, (demoSaved 1 \<lparr>CurrentTerm = 1, VotedFor = 1\<rparr>)\<lparr>Role := Candidate, votesFrom := Some [(1, True)], lastContact := 5\<rparr>)"
  by (simp add: BecomeCandidate_def commitPersistentLocked_def Save_def demoNode_def demoSaved_def mput_def Let_def)

lemma demo_vote: "HandleRequestVote 5 \<lparr>rv_Term = 1, rv_CandidateID = 1, rv_LastLogIndex = 0, rv_LastLogTerm = 0\<rparr> (0, 0)
    (demoNode 2) = (\<lparr>rvr_Term = 1, rvr_VoteGranted = True\<rparr>,
      (demoSaved 2 \<lparr>CurrentTerm = 1, VotedFor = 1\<rparr>)\<lparr>lastContact := 5\<rparr>)"
  by (simp add: HandleRequestVote_def commitPersistentLocked_def Save_def demoNode_def demoSaved_def
      candidateUpToDate_def Let_def)

lemma demo_tally:
  "RecordVoteAndCheckMajority 2 1 ((demoSaved 1 \<lparr>CurrentTerm = 1, VotedFor = 1\<rparr>)
      \<lparr>Role := Candidate, votesFrom := Some [(1, True)], lastContact := 5\<rparr>) =
    (True, (demoSaved 1 \<lparr>CurrentTerm = 1, VotedFor = 1\<rparr>)
      \<lparr>Role := Candidate, votesFrom := Some [(1, True), (2, True)], lastContact := 5\<rparr>)"
  by (simp add: RecordVoteAndCheckMajority_def demoNode_def demoSaved_def mput_def demo_config_simps)

lemma demo_elected: "\<exists>s. reachable demoConfig s \<and> (1, 1) \<in> leaders s \<and> Role (node s 1) = Leader \<and> (2, 1, 1) \<in> ledger s"
proof -
  let ?cand = "\<lambda>vs. (demoSaved 1 \<lparr>CurrentTerm = 1, VotedFor = 1\<rparr>)\<lparr>Role := Candidate, votesFrom := Some vs, lastContact := 5\<rparr>"
  let ?voter = "(demoSaved 2 \<lparr>CurrentTerm = 1, VotedFor = 1\<rparr>)\<lparr>lastContact := 5\<rparr>"
  obtain s1 where s1: "reachable demoConfig s1" "(1, 1, 1) \<in> ledger s1" "node s1 = demoNode(1 := ?cand [(1, True)])"
  proof (rule that)
    show "reachable demoConfig (demoStart\<lparr>node := (node demoStart)(1 := ?cand [(1, True)]),
      ledger := (case Some 1 of None \<Rightarrow> ledger demoStart | Some t \<Rightarrow> insert (1, t, 1) (ledger demoStart)),
      majorities := (case Some 1 of None \<Rightarrow> majorities demoStart
        | Some t \<Rightarrow> if node_Peers (?cand [(1, True)]) = [] then insert (1, t) (majorities demoStart) else majorities demoStart)\<rparr>)"
      by (rule reachable.step [OF demoStart_reachable cluster_step.campaign])
         (use demo_campaign in \<open>simp_all add: demoStart_def\<close>)
  qed (simp_all add: demoStart_def)
  obtain s2 where s2: "reachable demoConfig s2" "(2, 1, 1) \<in> ledger s2" "node s2 = demoNode(1 := ?cand [(1, True)], 2 := ?voter)"
    using reachable.step [OF s1(1) cluster_step.vote [of _ _ _ s1 2]] demo_vote s1(3) by fastforce
  obtain s3 where s3: "reachable demoConfig s3" "(1, 1) \<in> majorities s3" "(2, 1, 1) \<in> ledger s3"
      "node s3 1 = ?cand [(1, True), (2, True)]"
    using reachable.step [OF s2(1) cluster_step.tally [OF s2(2)]] demo_tally s2(2,3) by fastforce
  obtain rn where "BecomeLeader 1 0 (node s3 1) = (True, rn)" "Role rn = Leader"
    unfolding s3(4) by (simp add: BecomeLeader_def demoSaved_def Let_def)
  then show ?thesis using reachable.step [OF s3(1) cluster_step.promote [OF s3(2)]] s3(3) by fastforce
qed

section \<open>Properties\<close>

text \<open>Election safety: at most one node is ever promoted to leader in a term, over the whole
  history of the cluster, under any interleaving, loss and duplication of messages, failed
  writes of the term and vote, crashes and restarts.\<close>

theorem election_safety:
  assumes "cfg_ok cfg" and "reachable cfg s" and "(c, t) \<in> leaders s" and "(d, t) \<in> leaders s"
  shows "c = d"
  by (rule one_leader [OF assms(1) reachable_inv [OF assms(1,2)] assms(3,4)])

theorem election_safety_witness:
  "\<exists>s. reachable demoConfig s \<and> (1, 1) \<in> leaders s \<and> (\<forall>d. (d, 1) \<in> leaders s \<longrightarrow> d = 1)"
  using demo_elected election_safety [OF demoConfig_ok] by metis

text \<open>One vote per term: no node ever grants its vote in one term to two candidates, also
  when it crashed in between and came back with whatever its disk held.\<close>

theorem one_vote_per_term:
  assumes "cfg_ok cfg" and "reachable cfg s" and "(v, t, c) \<in> ledger s" and "(v, t, d) \<in> ledger s"
  shows "c = d"
  using reachable_inv [OF assms(1,2)] assms(3,4) by (simp add: election_inv_def one_vote_def)

theorem one_vote_per_term_witness:
  "\<exists>s. reachable demoConfig s \<and> (2, 1, 1) \<in> ledger s \<and> (\<forall>d. (2, 1, d) \<in> ledger s \<longrightarrow> d = 1)"
  using demo_elected one_vote_per_term [OF demoConfig_ok] by metis

end
