(* ===== verification/Raft_Protocol.thy ===== *)
theory Raft_Protocol
  imports Cluster_Election
begin

text \<open>
  The abstract protocol the cluster follows: servers with a term and a log, and the history
  of the run.  It keeps for every term with a leader the leader's log (\<open>history\<close>) and the log
  the leader was elected with (\<open>inherited\<close>); for every server what it stored of a leader's log
  while in the leader's term (\<open>stored\<close>); and the log every voter had when it voted in a term
  that had no leader yet (\<open>ballots\<close>).  The theorems of this theory are the classical ones: logs
  match, and the log of every later leader contains what was committed.
\<close>

section \<open>The protocol\<close>

record Protocol =
  terms :: "int \<Rightarrow> int"
  entries :: "int \<Rightarrow> LogEntry list"
  elected :: "int set"
  history :: "int \<Rightarrow> LogEntry list"
  inherited :: "int \<Rightarrow> LogEntry list"
  stored :: "(int \<times> int \<times> LogEntry list) set"
  ballots :: "(int \<times> int \<times> LogEntry list) set"

definition lastTermOf :: "LogEntry list \<Rightarrow> int" where
  "lastTermOf L = (if L = [] then 0 else Term (last L))"

definition upToDate :: "LogEntry list \<Rightarrow> LogEntry list \<Rightarrow> bool" where
  "upToDate L L' \<longleftrightarrow> candidateUpToDate (lastTermOf L) (int (length L)) (lastTermOf L') (int (length L'))"

text \<open>The log \<open>L\<close> after it took over \<open>P\<close>: nothing is cut unless \<open>L\<close> differs from \<open>P\<close>.\<close>

definition takeOver :: "LogEntry list \<Rightarrow> LogEntry list \<Rightarrow> LogEntry list" where
  "takeOver P L = (if prefix P L then L else P)"

inductive protocol_step :: "(int set \<Rightarrow> bool) \<Rightarrow> Protocol \<Rightarrow> Protocol \<Rightarrow> bool" for quorum where
  raise_term: "terms a v \<le> t \<Longrightarrow> protocol_step quorum a (a\<lparr>terms := (terms a)(v := t)\<rparr>)"
| cast_ballot: "t \<notin> elected a \<Longrightarrow> terms a v = t \<Longrightarrow>
    protocol_step quorum a (a\<lparr>ballots := insert (v, t, entries a v) (ballots a)\<rparr>)"
| elect: "t \<notin> elected a \<Longrightarrow> terms a c = t \<Longrightarrow> 1 \<le> t \<Longrightarrow> \<forall>e \<in> set (entries a c). Term e < t \<Longrightarrow>
    quorum A \<Longrightarrow> \<forall>v \<in> A. \<exists>L. (v, t, L) \<in> ballots a \<and> upToDate (entries a c) L \<Longrightarrow>
    protocol_step quorum a (a\<lparr>elected := insert t (elected a), history := (history a)(t := entries a c),
      inherited := (inherited a)(t := entries a c), stored := insert (c, t, entries a c) (stored a)\<rparr>)"
| append: "t \<in> elected a \<Longrightarrow> terms a c = t \<Longrightarrow> entries a c = history a t \<Longrightarrow> L = history a t @ [e] \<Longrightarrow>
    Term e = t \<Longrightarrow> Index e = int (length L) \<Longrightarrow>
    protocol_step quorum a (a\<lparr>entries := (entries a)(c := L), history := (history a)(t := L),
      stored := insert (c, t, L) (stored a)\<rparr>)"
| accept: "t \<in> elected a \<Longrightarrow> terms a v = t \<Longrightarrow> prefix P (history a t) \<Longrightarrow>
    protocol_step quorum a (a\<lparr>entries := (entries a)(v := takeOver P (entries a v)),
      stored := insert (v, t, P) (stored a)\<rparr>)"

section \<open>The invariant\<close>

text \<open>Every prefix of a log is a prefix of the history of its last term.\<close>

definition coherent :: "Protocol \<Rightarrow> LogEntry list \<Rightarrow> bool" where
  "coherent a L \<longleftrightarrow> (\<forall>P. prefix P L \<longrightarrow> P \<noteq> [] \<longrightarrow> Term (last P) \<in> elected a \<and> prefix P (history a (Term (last P))))"

definition history_ok :: "Protocol \<Rightarrow> bool" where
  "history_ok a \<longleftrightarrow> (\<forall>t \<in> elected a. 1 \<le> t \<and> (\<forall>e \<in> set (history a t). Term e \<le> t) \<and> sorted (map Term (history a t)) \<and>
     contig 1 (history a t) \<and> prefix (inherited a t) (history a t) \<and> (\<forall>e \<in> set (inherited a t). Term e < t))"

definition logs_ok :: "Protocol \<Rightarrow> bool" where
  "logs_ok a \<longleftrightarrow> (\<forall>v. coherent a (entries a v) \<and> (\<forall>e \<in> set (entries a v). Term e \<le> terms a v)) \<and>
     (\<forall>t \<in> elected a. coherent a (history a t)) \<and> (\<forall>v t L. (v, t, L) \<in> ballots a \<longrightarrow> coherent a L)"

text \<open>The leaders after term \<open>t\<close> up to term \<open>u\<close> were all elected with \<open>P\<close> in their logs.\<close>

definition passed :: "Protocol \<Rightarrow> int \<Rightarrow> LogEntry list \<Rightarrow> int \<Rightarrow> bool" where
  "passed a t P u \<longleftrightarrow> (\<forall>t' \<in> elected a. t < t' \<longrightarrow> t' \<le> u \<longrightarrow> prefix P (inherited a t'))"

definition stored_ok :: "Protocol \<Rightarrow> bool" where
  "stored_ok a \<longleftrightarrow> (\<forall>v t P. (v, t, P) \<in> stored a \<longrightarrow> t \<in> elected a \<and> t \<le> terms a v \<and> prefix P (history a t) \<and>
     (\<forall>P'. prefix P' P \<longrightarrow> passed a t P' (terms a v) \<longrightarrow> prefix P' (entries a v)))"

definition ballots_ok :: "Protocol \<Rightarrow> bool" where
  "ballots_ok a \<longleftrightarrow> (\<forall>v t L. (v, t, L) \<in> ballots a \<longrightarrow> t \<le> terms a v \<and>
     (\<forall>t0 P P'. (v, t0, P) \<in> stored a \<longrightarrow> t0 < t \<longrightarrow> prefix P' P \<longrightarrow> passed a t0 P' (t - 1) \<longrightarrow> prefix P' L))"

definition elections_ok :: "(int set \<Rightarrow> bool) \<Rightarrow> Protocol \<Rightarrow> bool" where
  "elections_ok quorum a \<longleftrightarrow> (\<forall>t \<in> elected a. \<exists>A. quorum A \<and>
     (\<forall>v \<in> A. \<exists>L. (v, t, L) \<in> ballots a \<and> upToDate (inherited a t) L))"

definition protocol_inv :: "(int set \<Rightarrow> bool) \<Rightarrow> Protocol \<Rightarrow> bool" where
  "protocol_inv quorum a \<longleftrightarrow>
     history_ok a \<and> logs_ok a \<and> stored_ok a \<and> ballots_ok a \<and> elections_ok quorum a"

lemma protocol_invD:
  assumes "protocol_inv quorum a"
  shows "history_ok a" and "logs_ok a" and "stored_ok a" and "ballots_ok a" and "elections_ok quorum a"
  using assms by (simp_all add: protocol_inv_def)

section \<open>Coherent logs\<close>

lemma coherent_prefix: "coherent a L \<Longrightarrow> prefix P L \<Longrightarrow> coherent a P"
  unfolding coherent_def using prefix_order.trans by blast

lemma coherent_history: "coherent a L \<Longrightarrow> L \<noteq> [] \<Longrightarrow> Term (last L) \<in> elected a \<and> prefix L (history a (Term (last L)))"
  by (simp add: coherent_def)

text \<open>Log matching: two logs that agree on the term of one entry agree up to it.\<close>

lemma coherent_match:
  assumes "coherent a L" and "coherent a L'" and "prefix P L" and "prefix P' L'"
    and "length P = length P'" and "lastTermOf P = lastTermOf P'"
  shows "P = P'"
proof (cases "P = []")
  case False
  then have n: "P' \<noteq> []" using assms(5) by auto
  then have "Term (last P) = Term (last P')" using assms(6) False by (simp add: lastTermOf_def)
  then have "prefix P (history a (Term (last P)))" "prefix P' (history a (Term (last P)))"
    using coherent_history [OF coherent_prefix [OF assms(1,3)] False]
      coherent_history [OF coherent_prefix [OF assms(2,4)] n] by simp_all
  then show ?thesis using assms(5) by (metis prefix_length_prefix prefix_order.antisym order_refl)
qed (use assms(5) in simp)

lemma prefix_sorted: "prefix P L \<Longrightarrow> sorted (map f L) \<Longrightarrow> sorted (map f P)"
  by (metis map_append prefixE sorted_append)

lemma coherent_sorted:
  assumes "history_ok a" and "coherent a L"
  shows "sorted (map Term L)" and "contig 1 L" and "e \<in> set L \<Longrightarrow> Term e \<le> lastTermOf L"
proof -
  show s: "sorted (map Term L)"
  proof (cases "L = []")
    case False
    with coherent_history [OF assms(2)] assms(1) prefix_sorted show ?thesis by (fastforce simp: history_ok_def)
  qed simp
  show "contig 1 L"
  proof (cases "L = []")
    case False
    with coherent_history [OF assms(2)] assms(1) show ?thesis by (auto simp: history_ok_def elim!: prefixE)
  qed simp
  show "e \<in> set L \<Longrightarrow> Term e \<le> lastTermOf L"
    using s by (cases L rule: rev_cases) (auto simp: lastTermOf_def sorted_append)
qed

lemma takeOver_prefix: "prefix P (takeOver P L)"
  by (simp add: takeOver_def)

text \<open>What a log shares with the history it takes over from stays.\<close>

lemma takeOver_keeps:
  assumes "prefix X H" and "prefix X L" and "prefix P H"
  shows "prefix X (takeOver P L)"
proof (cases "prefix P L")
  case False
  then have "\<not> prefix P X" using assms(2) prefix_order.trans by blast
  then have "prefix X P" using assms(1,3) prefix_same_cases by blast
  then show ?thesis using False by (simp add: takeOver_def)
qed (use assms in \<open>simp add: takeOver_def\<close>)

section \<open>Steps\<close>

text \<open>What never goes away: leaders, what they wrote, what was stored, the terms.\<close>

definition extends :: "Protocol \<Rightarrow> Protocol \<Rightarrow> bool" where
  "extends a a' \<longleftrightarrow> elected a \<subseteq> elected a' \<and> stored a \<subseteq> stored a' \<and> ballots a \<subseteq> ballots a' \<and>
     (\<forall>t \<in> elected a. prefix (history a t) (history a' t) \<and> inherited a' t = inherited a t) \<and>
     (\<forall>v. terms a v \<le> terms a' v)"

lemma extends_refl [simp]: "extends a a"
  by (simp add: extends_def)

lemma extends_trans [trans]: "extends a b \<Longrightarrow> extends b c \<Longrightarrow> extends a c"
  unfolding extends_def by (auto intro: order_trans) (meson prefix_order.trans subsetD)

lemma step_extends: "protocol_step quorum a a' \<Longrightarrow> extends a a'"
  by (induction rule: protocol_step.induct) (auto simp: extends_def)

lemma extends_coherent: "extends a a' \<Longrightarrow> coherent a L \<Longrightarrow> coherent a' L"
  unfolding extends_def coherent_def by (meson prefix_order.trans subset_iff)

lemma extends_passed: "extends a a' \<Longrightarrow> passed a' t P u \<Longrightarrow> u' \<le> u \<Longrightarrow> passed a t P u'"
  unfolding extends_def passed_def by fastforce

lemma extends_ballots:
  assumes "extends a a'" and "ballots_ok a" and "ballots a' = ballots a"
    and "\<And>v t P. (v, t, P) \<in> stored a' \<Longrightarrow> (v, t, P) \<in> stored a \<or> t = terms a v"
  shows "ballots_ok a'"
  unfolding ballots_ok_def
proof (intro allI impI conjI)
  fix v t L
  assume b: "(v, t, L) \<in> ballots a'"
  then have old: "t \<le> terms a v" using assms(2,3) by (auto simp: ballots_ok_def)
  then show "t \<le> terms a' v" using assms(1) by (auto simp: extends_def intro: order_trans)
  fix t0 P P'
  assume s: "(v, t0, P) \<in> stored a'" "t0 < t" "prefix P' P" "passed a' t0 P' (t - 1)"
  then have "(v, t0, P) \<in> stored a" using assms(4) old by fastforce
  then show "prefix P' L" using s extends_passed [OF assms(1) s(4) order_refl] b assms(2,3) by (auto simp: ballots_ok_def)
qed

lemma extends_elections:
  "extends a a' \<Longrightarrow> elections_ok quorum a \<Longrightarrow> elected a' = elected a \<Longrightarrow> elections_ok quorum a'"
  unfolding extends_def elections_ok_def by (metis subset_iff)

lemma inv_raise_term:
  assumes inv: "protocol_inv quorum a" and "terms a v \<le> t"
  shows "protocol_inv quorum (a\<lparr>terms := (terms a)(v := t)\<rparr>)" (is "protocol_inv quorum ?a")
proof -
  note i = protocol_invD [OF inv]
  have x: "extends a ?a" using assms(2) by (simp add: extends_def)
  have "history_ok ?a" using i(1) by (simp add: history_ok_def)
  moreover have "logs_ok ?a" using i(2) extends_coherent [OF x] assms(2) unfolding logs_ok_def by fastforce
  moreover have "stored_ok ?a"
    unfolding stored_ok_def
  proof (intro allI impI conjI)
    fix u s P assume "(u, s, P) \<in> stored ?a"
    then have o: "s \<in> elected a" "s \<le> terms a u" "prefix P (history a s)"
        "\<And>P'. prefix P' P \<Longrightarrow> passed a s P' (terms a u) \<Longrightarrow> prefix P' (entries a u)"
      using i(3) by (auto simp: stored_ok_def)
    then show "s \<in> elected ?a" "s \<le> terms ?a u" "prefix P (history ?a s)" using assms(2) by auto
    fix P' assume "prefix P' P" "passed ?a s P' (terms ?a u)"
    then show "prefix P' (entries ?a u)"
      using o(4) extends_passed [OF x, of s P' "terms ?a u" "terms a u"] assms(2) by (simp split: if_splits)
  qed
  moreover have "ballots_ok ?a" using extends_ballots [OF x i(4)] by simp
  moreover have "elections_ok quorum ?a" using extends_elections [OF x i(5)] by simp
  ultimately show ?thesis by (simp add: protocol_inv_def)
qed

lemma inv_cast_ballot:
  assumes inv: "protocol_inv quorum a" and t: "t \<notin> elected a" "terms a v = t"
  shows "protocol_inv quorum (a\<lparr>ballots := insert (v, t, entries a v) (ballots a)\<rparr>)" (is "protocol_inv quorum ?a")
proof -
  note i = protocol_invD [OF inv]
  have x: "extends a ?a" by (auto simp: extends_def)
  have p: "passed ?a = passed a" by (simp add: passed_def fun_eq_iff)
  have "history_ok ?a" "stored_ok ?a" using i(1,3) p by (simp_all add: history_ok_def stored_ok_def)
  moreover have "logs_ok ?a" using i(2) extends_coherent [OF x] unfolding logs_ok_def by auto
  moreover have "ballots_ok ?a"
  proof -
    have "prefix P' (entries a v)" if "(v, t0, P) \<in> stored a" "prefix P' P" "passed a t0 P' (t - 1)" for t0 P P'
    proof -
      have "passed a t0 P' t" using that(3) t(1) unfolding passed_def by (metis order_le_less zle_diff1_eq)
      then show ?thesis using i(3) that(1,2) t(2) by (auto simp: stored_ok_def)
    qed
    then show ?thesis using i(4) t(2) p by (auto simp: ballots_ok_def)
  qed
  moreover have "elections_ok quorum ?a" using extends_elections [OF x i(5)] by simp
  ultimately show ?thesis by (simp add: protocol_inv_def)
qed

lemma inv_elect:
  assumes inv: "protocol_inv quorum a" and t: "t \<notin> elected a" "terms a c = t" "1 \<le> t"
    and new: "\<forall>e \<in> set (entries a c). Term e < t"
    and votes: "quorum A" "\<forall>v \<in> A. \<exists>L. (v, t, L) \<in> ballots a \<and> upToDate (entries a c) L"
  shows "protocol_inv quorum (a\<lparr>elected := insert t (elected a), history := (history a)(t := entries a c),
      inherited := (inherited a)(t := entries a c), stored := insert (c, t, entries a c) (stored a)\<rparr>)"
    (is "protocol_inv quorum ?a")
proof -
  note i = protocol_invD [OF inv]
  have x: "extends a ?a" using t(1) by (auto simp: extends_def)
  have c: "coherent a (entries a c)" using i(2) by (simp add: logs_ok_def)
  note s = coherent_sorted [OF i(1) c]
  have "history_ok ?a" using i(1) s(1,2) t new by (auto simp: history_ok_def intro: less_imp_le)
  moreover have "logs_ok ?a"
    using i(2) extends_coherent [OF x] c t(1) unfolding logs_ok_def by auto
  moreover have "stored_ok ?a"
    unfolding stored_ok_def
  proof (intro allI impI conjI)
    fix u s P assume st: "(u, s, P) \<in> stored ?a"
    then have o: "(u, s, P) = (c, t, entries a c) \<or> s \<in> elected a \<and> s \<le> terms a u \<and> prefix P (history a s) \<and>
        (\<forall>P'. prefix P' P \<longrightarrow> passed a s P' (terms a u) \<longrightarrow> prefix P' (entries a u))"
      using i(3) by (auto simp: stored_ok_def)
    then show "s \<in> elected ?a" "s \<le> terms ?a u" "prefix P (history ?a s)" using t by auto
    fix P' assume "prefix P' P" "passed ?a s P' (terms ?a u)"
    then show "prefix P' (entries ?a u)"
      using o extends_passed [OF x, of s P' "terms ?a u" "terms a u"] by auto
  qed
  moreover have "ballots_ok ?a" using extends_ballots [OF x i(4)] t(2) by auto
  moreover have "elections_ok quorum ?a"
    using i(5) votes t(1) by (auto simp: elections_ok_def)
  ultimately show ?thesis by (simp add: protocol_inv_def)
qed

lemma inv_append:
  assumes inv: "protocol_inv quorum a" and t: "t \<in> elected a" "terms a c = t" "entries a c = history a t"
    and L: "L = history a t @ [e]" "Term e = t" "Index e = int (length L)"
  shows "protocol_inv quorum (a\<lparr>entries := (entries a)(c := L), history := (history a)(t := L),
      stored := insert (c, t, L) (stored a)\<rparr>)" (is "protocol_inv quorum ?a")
proof -
  note i = protocol_invD [OF inv]
  have x: "extends a ?a" using L(1) by (auto simp: extends_def)
  have h: "\<forall>e \<in> set (history a t). Term e \<le> t" "sorted (map Term (history a t))" "contig 1 (history a t)"
    using i(1) t(1) by (auto simp: history_ok_def)
  have "history_ok ?a" using i(1) h L by (auto simp: history_ok_def sorted_append)
  moreover have "logs_ok ?a"
  proof -
    have "coherent a (history a t)" using i(2) t(1) by (simp add: logs_ok_def)
    then have "coherent ?a L" using L t(1) by (auto simp: coherent_def)
    then show ?thesis using i(2) extends_coherent [OF x] h(1) L t unfolding logs_ok_def by auto
  qed
  moreover have "stored_ok ?a"
    unfolding stored_ok_def
  proof (intro allI impI conjI)
    fix u s P assume st: "(u, s, P) \<in> stored ?a"
    then have o: "(u, s, P) = (c, t, L) \<or> s \<in> elected a \<and> s \<le> terms a u \<and> prefix P (history a s) \<and>
        (\<forall>P'. prefix P' P \<longrightarrow> passed a s P' (terms a u) \<longrightarrow> prefix P' (entries a u))"
      using i(3) by (auto simp: stored_ok_def)
    then show "s \<in> elected ?a" "s \<le> terms ?a u" "prefix P (history ?a s)" using t L(1) by auto
    fix P' assume "prefix P' P" "passed ?a s P' (terms ?a u)"
    then have "P' = L \<and> u = c \<or> prefix P' L \<and> u = c \<or> prefix P' (entries a u)"
      using o extends_passed [OF x, of s P' "terms ?a u" "terms a u"] by auto
    then show "prefix P' (entries ?a u)" using t(3) L(1) by auto
  qed
  moreover have "ballots_ok ?a" using extends_ballots [OF x i(4)] t(2) by auto
  moreover have "elections_ok quorum ?a" using extends_elections [OF x i(5)] by simp
  ultimately show ?thesis by (simp add: protocol_inv_def)
qed

lemma inv_accept:
  assumes inv: "protocol_inv quorum a" and t: "t \<in> elected a" "terms a v = t" and P: "prefix P (history a t)"
  shows "protocol_inv quorum (a\<lparr>entries := (entries a)(v := takeOver P (entries a v)),
      stored := insert (v, t, P) (stored a)\<rparr>)" (is "protocol_inv quorum ?a")
proof -
  note i = protocol_invD [OF inv]
  let ?L = "takeOver P (entries a v)"
  have x: "extends a ?a" by (auto simp: extends_def)
  have p: "passed ?a = passed a" by (simp add: passed_def fun_eq_iff)
  have h: "\<forall>e \<in> set (history a t). Term e \<le> t" "coherent a (history a t)"
    using i(1,2) t(1) by (auto simp: history_ok_def logs_ok_def)
  have "history_ok ?a" using i(1) by (simp add: history_ok_def)
  moreover have "logs_ok ?a"
  proof -
    have "coherent a ?L" "\<forall>e \<in> set ?L. Term e \<le> t"
      using i(2) t(2) coherent_prefix [OF h(2) P] h(1) P
      by (auto simp: logs_ok_def takeOver_def dest: set_mono_prefix)
    then show ?thesis using i(2) extends_coherent [OF x] t(2) unfolding logs_ok_def by auto
  qed
  moreover have "stored_ok ?a"
    unfolding stored_ok_def
  proof (intro allI impI conjI)
    fix u s Q assume st: "(u, s, Q) \<in> stored ?a"
    then have o: "(u, s, Q) = (v, t, P) \<or> s \<in> elected a \<and> s \<le> terms a u \<and> prefix Q (history a s) \<and>
        (\<forall>P'. prefix P' Q \<longrightarrow> passed a s P' (terms a u) \<longrightarrow> prefix P' (entries a u))"
      using i(3) by (auto simp: stored_ok_def)
    then show "s \<in> elected ?a" "s \<le> terms ?a u" "prefix Q (history ?a s)" using t P by auto
    fix P' assume q: "prefix P' Q" "passed ?a s P' (terms ?a u)"
    show "prefix P' (entries ?a u)"
    proof (cases "(u, s, Q) = (v, t, P)")
      case True
      then show ?thesis using q(1) takeOver_prefix prefix_order.trans by fastforce
    next
      case False
      with o q p have k: "prefix P' (entries a u)" "s \<in> elected a" "s \<le> terms a u" "prefix P' (history a s)"
        by (auto intro: prefix_order.trans)
      show ?thesis
      proof (cases "u = v")
        case True
        have "prefix P' (history a t)"
        proof (cases "s = t")
          case False
          then have "prefix P' (inherited a t)" using k(3) q(2) t True by (auto simp: passed_def p)
          then show ?thesis using i(1) t(1) prefix_order.trans by (fastforce simp: history_ok_def)
        qed (use k(4) in simp)
        then show ?thesis using takeOver_keeps [OF _ k(1) [unfolded True] P] True by simp
      qed (use k in simp)
    qed
  qed
  moreover have "ballots_ok ?a" using extends_ballots [OF x i(4)] t(2) by auto
  moreover have "elections_ok quorum ?a" using extends_elections [OF x i(5)] by simp
  ultimately show ?thesis by (simp add: protocol_inv_def)
qed

lemma protocol_step_inv: "protocol_step quorum a a' \<Longrightarrow> protocol_inv quorum a \<Longrightarrow> protocol_inv quorum a'"
  by (induction rule: protocol_step.induct)
     (blast intro: inv_raise_term inv_cast_ballot inv_elect inv_append inv_accept)+

section \<open>Commitment\<close>

definition committed :: "(int set \<Rightarrow> bool) \<Rightarrow> Protocol \<Rightarrow> int \<Rightarrow> LogEntry list \<Rightarrow> bool" where
  "committed quorum a t P \<longleftrightarrow> t \<in> elected a \<and> P \<noteq> [] \<and> Term (last P) = t \<and> prefix P (history a t) \<and>
     quorum {v. \<exists>Q. (v, t, Q) \<in> stored a \<and> prefix P Q}"

text \<open>What the argument needs of the servers' quorums is the contract of \<^verbatim>\<open>quorum_family\<close>.\<close>

locale server_quorums = quorum_family valid quorum
  for valid :: "'c \<Rightarrow> bool" and quorum :: "'c \<Rightarrow> int set \<Rightarrow> bool"
begin

lemma committed_extends:
  assumes "extends a a'" and "committed (quorum c) a t P"
  shows "committed (quorum c) a' t P"
proof -
  have "{v. \<exists>Q. (v, t, Q) \<in> stored a \<and> prefix P Q} \<subseteq> {v. \<exists>Q. (v, t, Q) \<in> stored a' \<and> prefix P Q}"
    using assms(1) by (auto simp: extends_def)
  then show ?thesis
    using assms quorum_mono unfolding committed_def extends_def by (meson prefix_order.trans subset_iff)
qed

text \<open>Leader completeness: a leader of a later term was elected with all that was committed.\<close>

lemma leader_complete:
  assumes c: "valid c" and inv: "protocol_inv (quorum c) a" and P: "committed (quorum c) a t0 P"
  shows "t \<in> elected a \<Longrightarrow> t0 < t \<Longrightarrow> prefix P (inherited a t)"
proof (induction "nat t" arbitrary: t rule: less_induct)
  case less
  note i = protocol_invD [OF inv]
  have t1: "1 \<le> t" using i(1) less.prems(1) by (simp add: history_ok_def)
  have pass: "passed a t0 P (t - 1)" using less.hyps t1 by (auto simp: passed_def)
  let ?E = "inherited a t"
  obtain A where A: "quorum c A" "\<forall>v \<in> A. \<exists>L. (v, t, L) \<in> ballots a \<and> upToDate ?E L"
    using i(5) less.prems(1) by (auto simp: elections_ok_def)
  obtain v Q L where v: "(v, t0, Q) \<in> stored a" "prefix P Q" "(v, t, L) \<in> ballots a" "upToDate ?E L"
    using quorum_meet [OF c _ A(1)] P A(2) unfolding committed_def by blast
  have L: "prefix P L" using i(4) v less.prems(2) pass by (auto simp: ballots_ok_def)
  have P': "P \<noteq> []" "Term (last P) = t0" "prefix P (history a t0)" "t0 \<in> elected a" using P by (auto simp: committed_def)
  have cL: "coherent a L" using i(2) v(3) by (auto simp: logs_ok_def)
  have "last P \<in> set L" using L P'(1) set_mono_prefix last_in_set by blast
  then have t0: "t0 \<le> lastTermOf L" using coherent_sorted(3) [OF i(1) cL] P'(2) by blast
  have h: "prefix ?E (history a t)" "\<forall>e \<in> set ?E. Term e < t" using i(1) less.prems(1) by (auto simp: history_ok_def)
  have cE: "coherent a ?E" using i(2) less.prems(1) coherent_prefix h(1) by (auto simp: logs_ok_def)
  have "1 \<le> t0" using i(1) P'(4) by (simp add: history_ok_def)
  then have E: "?E \<noteq> []" "lastTermOf L \<le> lastTermOf ?E" "lastTermOf L = lastTermOf ?E \<Longrightarrow> length L \<le> length ?E"
    using v(4) t0 by (auto simp: upToDate_def candidateUpToDate_def lastTermOf_def split: if_splits)
  let ?u = "Term (last ?E)"
  have u: "?u \<in> elected a" "prefix ?E (history a ?u)" "t0 \<le> ?u" "?u < t"
    using coherent_history [OF cE E(1)] E(1,2) t0 h(2) by (auto simp: lastTermOf_def)
  have "prefix P (history a ?u) \<and> length P \<le> length ?E"
  proof (cases "?u = t0")
    case True
    then have "lastTermOf L = lastTermOf ?E" using E t0 by (auto simp: lastTermOf_def)
    then show ?thesis using E(3) prefix_length_le [OF L] P'(3) True by simp
  next
    case False
    let ?I = "inherited a ?u"
    have "prefix P ?I" using less.hyps [of ?u] u False t1 by simp
    moreover have I: "prefix ?I (history a ?u)" "\<forall>e \<in> set ?I. Term e < ?u" using i(1) u(1) by (auto simp: history_ok_def)
    moreover have "\<not> prefix ?E ?I" using I(2) E(1) set_mono_prefix [of ?E ?I] last_in_set by blast
    then have "prefix ?I ?E" using I(1) u(2) prefix_same_cases by blast
    ultimately show ?thesis using prefix_length_le prefix_order.trans by (meson order_trans)
  qed
  then show ?case using u(2) prefix_length_prefix by blast
qed

lemma committed_history:
  assumes "valid c" and "protocol_inv (quorum c) a" and "committed (quorum c) a t0 P" and "t \<in> elected a" and "t0 \<le> t"
  shows "prefix P (history a t)"
proof (cases "t0 = t")
  case False
  then have "prefix P (inherited a t)" using leader_complete [OF assms(1-4)] assms(5) by simp
  then show ?thesis using protocol_invD(1) [OF assms(2)] assms(4) by (auto simp: history_ok_def intro: prefix_order.trans)
qed (use assms(3) in \<open>simp add: committed_def\<close>)

text \<open>Commitments of any two terms agree.\<close>

lemma committed_agree:
  assumes "valid c" and "protocol_inv (quorum c) a" and "committed (quorum c) a t P" and "committed (quorum c) a u Q"
  shows "prefix P Q \<or> prefix Q P"
proof -
  have "t \<in> elected a" "u \<in> elected a" using assms(3,4) by (simp_all add: committed_def)
  then have "prefix P (history a (max t u))" "prefix Q (history a (max t u))"
    using committed_history [OF assms(1-3)] committed_history [OF assms(1,2,4)] by (simp_all add: max_def)
  then show ?thesis using prefix_same_cases by blast
qed

end

interpretation sq: server_quorums cfg_ok quorum_of
  by unfold_locales

end
