(* ===== verification/Raft_Node_Props.thy ===== *)
theory Raft_Node_Props
  imports Cluster_Election
begin

text \<open>
  Properties of the node's transitions, branch by branch: the receivers of the four RPCs,
  the commit rule, the progress of peers, and the order of disk and memory.
\<close>

section \<open>Receivers\<close>

text \<open>C28. A vote granted is durable: it is for the candidate that asked, in its term, given only
  to a log at least as up to date as the voter's and only if no other vote was given in
  that term; and whatever record a crash reveals, the restarted node stands by it.\<close>

theorem vote_granted_durable:
  assumes "HandleRequestVote now req lastLog rn = (resp, rn')" and "rvr_VoteGranted resp" and "durable rn"
    and "cfg_wf (config rn)" and "p \<in> set (mayHold (store rn'))" and "restartNode now' p os rn' = Inr rn''"
  shows "persistent rn' = \<lparr>CurrentTerm = rv_Term req, VotedFor = rv_CandidateID req\<rparr> \<and>
    candidateUpToDate (rv_LastLogTerm req) (rv_LastLogIndex req) (snd lastLog) (fst lastLog) \<and>
    (CurrentTerm (persistent rn) = rv_Term req \<longrightarrow> VotedFor (persistent rn) \<in> {-1, rv_CandidateID req}) \<and>
    ps_le \<lparr>CurrentTerm = rv_Term req, VotedFor = rv_CandidateID req\<rparr> (persistent rn'')"
proof -
  note g = request_vote_granted [OF assms(1,2)]
  have k: "keeps rn rn'" using request_vote_quiet [OF assms(1)] by (simp add: quiet_def)
  then have "durable rn'" "cfg_wf (config rn')" using assms(3,4) by (auto simp: keeps_def)
  from restart_steps(5) [OF assms(6,5) this] g show ?thesis by auto
qed

theorem vote_granted_durable_witness:
  "\<exists>rn''. restartNode 9 (Some \<lparr>CurrentTerm = 1, VotedFor = 1\<rparr>) []
      (snd (HandleRequestVote 5 \<lparr>rv_Term = 1, rv_CandidateID = 1, rv_LastLogIndex = 0, rv_LastLogTerm = 0\<rparr> (0, 0)
        (demoNode 2))) = Inr rn'' \<and>
    ps_le \<lparr>CurrentTerm = 1, VotedFor = 1\<rparr> (persistent rn'')"
proof -
  let ?rn' = "(demoSaved 2 \<lparr>CurrentTerm = 1, VotedFor = 1\<rparr>)\<lparr>lastContact := 5\<rparr>"
  have d: "durable (demoNode 2)" "cfg_wf (config (demoNode 2))"
    using demoConfig_ok by (simp_all add: durable_def demoNode_def cfg_ok_def)
  have p: "Some \<lparr>CurrentTerm = 1, VotedFor = 1\<rparr> \<in> set (mayHold (store ?rn'))" by (simp add: demoSaved_def)
  have v: "Validate demoConfig = None" by (simp add: Validate_None demoConfig_eq demoVoters_def)
  obtain rn'' where r: "restartNode 9 (Some \<lparr>CurrentTerm = 1, VotedFor = 1\<rparr>) [] ?rn' = Inr rn''"
    by (simp add: restartNode_def NewRaftNode_def loadPersistentState_def Load_def Let_def v demoSaved_def demoNode_def)
  from vote_granted_durable [OF demo_vote _ d p r] show ?thesis using r demo_vote by simp
qed




definition demoAppend :: AppendEntriesRequest where
  "demoAppend = \<lparr>ae_Term = 1, ae_LeaderID = 3, ae_PrevLogIndex = 4, ae_PrevLogTerm = 2,
     ae_Entries = [demoEntry 5 2, demoEntry 6 3], ae_LeaderCommit = 5\<rparr>"


text \<open>C30. The InstallSnapshot receiver touches the log only after the snapshot was restored and
  written to disk, and by then the commit and applied indices have reached the snapshot's
  end; a success means the log starts at or beyond it.\<close>

theorem install_snapshot_order:
  assumes "HandleInstallSnapshot m restore persist now req rl w rn = (resp, rl', w', rn')" and "log_wf rl"
  shows "(rl' \<noteq> rl \<longrightarrow> (\<exists>w1. restore (is_Data req) w = (True, w1) \<and> persist w1 = (True, w')) \<and>
      is_LastIncludedIndex req \<le> CommitIndex rn' \<and> is_LastIncludedIndex req \<le> LastApplied rn') \<and>
    (isr_Success resp \<longrightarrow> is_LastIncludedIndex req < FirstIndex rl' \<and> CurrentTerm (persistent rn) \<le> is_Term req \<and>
      CommitIndex rn \<le> CommitIndex rn' \<and> LastApplied rn \<le> LastApplied rn')"
proof (cases "is_Term req < CurrentTerm (persistent rn)")
  case True
  with assms show ?thesis by (auto simp: HandleInstallSnapshot_def Let_def)
next
  case False
  obtain fin rn1 where a: "acceptLeader (is_Term req) (is_LeaderID req) rn = (fin, rn1)" by force
  have same: "CommitIndex rn1 = CommitIndex rn" "LastApplied rn1 = LastApplied rn"
    using acceptLeader_steps(3,4) [OF a] False by simp_all
  obtain b rl1 where r: "ResetToSnapshot m (is_LastIncludedIndex req) (is_LastIncludedTerm req) rl = (b, rl1)" by force
  have first: "is_LastIncludedIndex req < FirstIndex rl1" if "\<not> is_LastIncludedIndex req \<le> FirstIndex rl - 1"
    using reset_to_snapshot_boundary [OF assms(2) r] that assms(2) by (simp add: FirstIndex_def log_wf_def)
  show ?thesis
    using assms(1) False a r first same
    by (auto simp: HandleInstallSnapshot_def Let_def seedFromSnapshotLocked_def
        split: prod.splits bool.splits if_splits)
qed

theorem install_snapshot_order_witness:
  "let (resp, rl', w', rn') = HandleInstallSnapshot demoMarshal (\<lambda>d w. (True, d)) (\<lambda>w. (True, w)) 7
      \<lparr>is_Term = 1, is_LeaderID = 3, is_LastIncludedIndex = 9, is_LastIncludedTerm = 2, is_Data = ''kv''\<rparr>
      (demoLog []) [] (demoNode 2) in
   isr_Success resp \<and> 9 < FirstIndex rl' \<and> 9 \<le> LastApplied rn'"
proof -
  let ?h = "HandleInstallSnapshot demoMarshal (\<lambda>d w. (True, d)) (\<lambda>w. (True, w)) 7
      \<lparr>is_Term = 1, is_LeaderID = 3, is_LastIncludedIndex = 9, is_LastIncludedTerm = 2, is_Data = ''kv''\<rparr>
      (demoLog []) [] (demoNode 2)"
  obtain resp rl' w' rn' where h: "?h = (resp, rl', w', rn')" by (metis prod_cases4)
  have "isr_Success resp \<and> rl' \<noteq> demoLog []"
    using h by (auto simp: HandleInstallSnapshot_def acceptLeader_def becomeFollowerLocked_def
        commitPersistentLocked_def Save_def demoNode_def Let_def ResetToSnapshot_def rewrite_no_faults demo_simps
        FirstIndex_def)
  with install_snapshot_order [OF h demoLog_ok(1)] h show ?thesis by simp
qed

section \<open>Commitment\<close>

text \<open>The index through which each server is known to hold the leader's log.\<close>

definition knownMatch :: "RaftNode \<Rightarrow> int \<Rightarrow> int \<Rightarrow> int set" where
  "knownMatch rn latest N = {v. N \<le> (if v = nodeID rn then latest else mget0 0 (MatchIndex rn) v)}"

text \<open>C27. The commit rule: only a leader commits, only an entry of its own term that a quorum of
  the configuration is known to hold, and the commit index never falls; and an index a
  quorum holds is committed at once when the entries from it up to the frontier are of the
  leader's term.\<close>

theorem commit_rule:
  assumes "AdvanceCommitIndex latest termAt t rn = ((n, advanced), rn')" and "cfg_ok (config rn)" and "mwf (MatchIndex rn)"
  shows "n = CommitIndex rn' \<and> CommitIndex rn \<le> CommitIndex rn' \<and>
    (advanced \<longrightarrow> Role rn = Leader \<and> termAt n = t \<and> CommitIndex rn < n \<and> quorum_of (config rn) (knownMatch rn latest n)) \<and>
    (\<forall>N. Role rn = Leader \<and> CommitIndex rn < N \<and> quorum_of (config rn) (knownMatch rn latest N) \<and>
       (\<forall>k \<ge> N. quorum_of (config rn) (knownMatch rn latest k) \<longrightarrow> termAt k = t) \<longrightarrow> advanced \<and> N \<le> n)"
proof -
  define mi where "mi = mput (nodeID rn) latest (MatchIndex rn)"
  have copy: "fold (\<lambda>(i, idx). mput i idx) (MatchIndex rn) [] = MatchIndex rn"
    using fold_mput_append [of "[]" "MatchIndex rn"] assms(3) by (simp add: mwf_def)
  have "holders mi N = knownMatch rn latest N" for N by (auto simp: holders_def knownMatch_def mi_def)
  then have q: "quorum_of (config rn) (knownMatch rn latest N) \<longleftrightarrow> N \<le> QuorumIndex (config rn) mi" for N
    using QuorumIndex_ge_iff [OF assms(2), of N mi] by simp
  show ?thesis
    using assms(1) unfolding q
    by (auto simp: AdvanceCommitIndex_def copy mi_def [symmetric] Let_def split: if_splits)
qed

theorem commit_rule_witness:
  "let rn = (demoNode 1)\<lparr>Role := Leader, CommitIndex := 2, MatchIndex := [(2, 4), (3, 3)]\<rparr>;
       r = AdvanceCommitIndex 6 (\<lambda>i. 7) 7 rn in
   CommitIndex (snd r) = 4 \<and> quorum_of demoConfig (knownMatch rn 6 4)"
proof -
  let ?rn = "(demoNode 1)\<lparr>Role := Leader, CommitIndex := 2, MatchIndex := [(2, 4), (3, 3)]\<rparr>"
  have run: "AdvanceCommitIndex 6 (\<lambda>i. 7) 7 ?rn = ((4, True), ?rn\<lparr>CommitIndex := 4\<rparr>)"
    by (simp add: AdvanceCommitIndex_def demoNode_def demo_config_simps mput_def)
  from commit_rule [OF this] demoConfig_ok show ?thesis by (simp add: run) (simp add: demoNode_def mwf_def)
qed

section \<open>Failing disks\<close>

lemma commit_unsaved:
  assumes "saves (store rn) = x # os" and "x \<noteq> SaveOk" and "CurrentTerm (persistent rn) < CurrentTerm nxt"
  shows "\<exists>s. commitPersistentLocked nxt rn = (False, rn\<lparr>store := s\<rparr>)"
  using assms by (cases x) (auto simp: commitPersistentLocked_def Save_def Let_def)

text \<open>C37. When the term and vote cannot be saved the node adopts nothing: a campaign does not
  start, a higher term is not entered, a vote is refused with the old term, an append is
  refused with the log untouched; in memory nothing has changed.\<close>

theorem unsaved_changes_nothing:
  assumes "saves (store rn) = x # os" and "x \<noteq> SaveOk" and "CurrentTerm (persistent rn) < t"
    and "rv_Term vreq = t" and "ae_Term areq = t"
  shows "(\<exists>s. BecomeCandidate now rn = (None, rn\<lparr>store := s\<rparr>)) \<and>
    (\<exists>s. BecomeFollower t l rn = (False, rn\<lparr>store := s\<rparr>)) \<and>
    (\<exists>s. HandleRequestVote now vreq lastLog rn =
      (\<lparr>rvr_Term = CurrentTerm (persistent rn), rvr_VoteGranted = False\<rparr>, rn\<lparr>store := s\<rparr>)) \<and>
    (\<exists>s. HandleAppendEntries m now areq rl rn =
      (\<lparr>aer_Term = CurrentTerm (persistent rn), aer_Success = False, aer_MatchIndex = 0, aer_ConflictTerm = 0,
        aer_ConflictIndex = 0\<rparr>, rl, rn\<lparr>store := s\<rparr>))"
proof -
  note u = commit_unsaved [OF assms(1,2)]
  have cand: "\<exists>s. BecomeCandidate now rn = (None, rn\<lparr>store := s\<rparr>)"
    using u [of "\<lparr>CurrentTerm = CurrentTerm (persistent rn) + 1, VotedFor = nodeID rn\<rparr>"]
    by (auto simp: BecomeCandidate_def)
  have fol: "\<exists>s. becomeFollowerLocked t l rn = (False, rn\<lparr>store := s\<rparr>)" for l
    using u [of "(persistent rn)\<lparr>CurrentTerm := t, VotedFor := -1\<rparr>"] assms(3) by (auto simp: becomeFollowerLocked_def)
  have app: "\<exists>s. HandleAppendEntries m now areq rl rn =
      (\<lparr>aer_Term = CurrentTerm (persistent rn), aer_Success = False, aer_MatchIndex = 0, aer_ConflictTerm = 0,
        aer_ConflictIndex = 0\<rparr>, rl, rn\<lparr>store := s\<rparr>)"
    using fol [of "ae_LeaderID areq"] assms(3,5) by (auto simp: HandleAppendEntries_def acceptLeader_def Let_def)
  have "\<exists>s. HandleRequestVote now vreq lastLog rn =
      (\<lparr>rvr_Term = CurrentTerm (persistent rn), rvr_VoteGranted = False\<rparr>, rn\<lparr>store := s\<rparr>)"
  proof -
    obtain resp rn' where h: "HandleRequestVote now vreq lastLog rn = (resp, rn')" by force
    let ?nxt = "voteState vreq (\<not> candidateBehind vreq lastLog) (persistent rn)"
    have "CurrentTerm ?nxt = t" using assms(3,4) by (simp add: voteState_def Let_def)
    then obtain s where s: "commitPersistentLocked ?nxt rn = (False, rn\<lparr>store := s\<rparr>)" using u assms(3) by metis
    have "(\<exists>s. rn' = rn\<lparr>store := s\<rparr>) \<and> \<not> rvr_VoteGranted resp \<and> rvr_Term resp = CurrentTerm (persistent rn)"
      using h
    proof (cases rule: request_vote_branches)
      case Unchanged
      then show ?thesis by (auto intro: exI [of _ "store rn"])
    next
      case Unsaved
      then show ?thesis using s by auto
    next
      case (Saved rn1 granted)
      then show ?thesis using s by simp
    qed
    then show ?thesis using h by (cases resp) auto
  qed
  with cand fol app show ?thesis by (simp add: BecomeFollower_def)
qed

theorem unsaved_changes_nothing_witness:
  "\<exists>s. BecomeFollower 3 1 ((demoNode 2)\<lparr>store := (store (demoNode 2))\<lparr>saves := [SaveFailNew]\<rparr>\<rparr>) =
    (False, (demoNode 2)\<lparr>store := s\<rparr>)"
proof -
  let ?rn = "(demoNode 2)\<lparr>store := (store (demoNode 2))\<lparr>saves := [SaveFailNew]\<rparr>\<rparr>"
  have "saves (store ?rn) = SaveFailNew # []" "SaveFailNew \<noteq> SaveOk" "CurrentTerm (persistent ?rn) < 3"
    by (simp_all add: demoNode_def)
  from unsaved_changes_nothing [OF this, of "\<lparr>rv_Term = 3, rv_CandidateID = 1, rv_LastLogIndex = 0, rv_LastLogTerm = 0\<rparr>"
      "demoAppend\<lparr>ae_Term := 3\<rparr>"] show ?thesis by simp
qed

end
