(* ===== verification/Replicator.thy ===== *)
theory Replicator
  imports Raft_Node_Props
begin

text \<open>
  The leader's side of replication, \<^verbatim>\<open>internal/raft/replicator.go\<close>.  The transport is an
  interface in the source; here it is a function from the request to the reply, with
  \<^const>\<open>None\<close> for a failed call.
\<close>

section \<open>Definitions\<close>

definition appendRequest :: "RaftLog \<Rightarrow> int \<Rightarrow> RaftNode \<Rightarrow> AppendEntriesRequest" where
  "appendRequest rl peerID rn =
     (let (_, term) = node_State rn;
          commitIndex = CommitIndex rn;
          nextIdx = NextIndexFor rn peerID;
          prevLogIndex = nextIdx - 1;
          prevLogTerm = (if 0 < prevLogIndex then TermAt rl prevLogIndex else 0)
      in \<lparr>ae_Term = term, ae_LeaderID = NodeID rn, ae_PrevLogIndex = prevLogIndex, ae_PrevLogTerm = prevLogTerm,
          ae_Entries = GetEntriesFrom rl nextIdx, ae_LeaderCommit = commitIndex\<rparr>)"

text \<open>What follows the reply; \<open>term\<close> is the term read before the call.\<close>

definition appendReply :: "int \<Rightarrow> int \<Rightarrow> AppendEntriesResponse \<Rightarrow> RaftNode \<Rightarrow> int \<times> RaftNode" where
  "appendReply term peerID result rn =
     (if term < aer_Term result then (aer_Term result, rn)
      else if aer_Success result then (aer_Term result, UpdatePeerProgress peerID (aer_MatchIndex result) rn)
      else (aer_Term result, BacktrackNextIndex peerID (aer_ConflictIndex result) rn))"

definition ReplicateTo ::
  "(AppendEntriesRequest \<Rightarrow> AppendEntriesResponse option) \<Rightarrow> RaftLog \<Rightarrow> int \<Rightarrow> RaftNode \<Rightarrow> int \<times> RaftNode" where
  "ReplicateTo send rl peerID rn =
     (case send (appendRequest rl peerID rn) of
        None \<Rightarrow> (0, rn)
      | Some result \<Rightarrow> appendReply (snd (node_State rn)) peerID result rn)"

definition PreVoteFrom :: "(PreVoteRequest \<Rightarrow> PreVoteResponse option) \<Rightarrow> PreVoteRequest \<Rightarrow> PreVoteResponse option" where
  "PreVoteFrom send req = (case send req of None \<Rightarrow> None | Some resp \<Rightarrow> Some resp)"

definition RequestVoteFrom ::
  "(RequestVoteRequest \<Rightarrow> RequestVoteResponse option) \<Rightarrow> RequestVoteRequest \<Rightarrow> RequestVoteResponse option" where
  "RequestVoteFrom send req = (case send req of None \<Rightarrow> None | Some resp \<Rightarrow> Some resp)"

definition ReadIndexFrom :: "(ReadIndexRequest \<Rightarrow> ReadIndexResponse option) \<Rightarrow> ReadIndexRequest \<Rightarrow> ReadIndexResponse option" where
  "ReadIndexFrom send req = (case send req of None \<Rightarrow> None | Some resp \<Rightarrow> Some resp)"

definition InstallSnapshotTo ::
  "(InstallSnapshotRequest \<Rightarrow> InstallSnapshotResponse option) \<Rightarrow> int \<Rightarrow> InstallSnapshotRequest \<Rightarrow> RaftNode
     \<Rightarrow> int \<times> RaftNode" where
  "InstallSnapshotTo send peerID req rn =
     (let (_, term) = node_State rn in
      case send req of
        None \<Rightarrow> (0, rn)
      | Some result \<Rightarrow>
          (if term < isr_Term result then (isr_Term result, rn)
           else if \<not> isr_Success result then (isr_Term result, rn)
           else (isr_Term result, UpdatePeerProgress peerID (is_LastIncludedIndex req) rn)))"

section \<open>The request\<close>

lemma GetEntriesFrom_contig:
  assumes "log_wf rl" and "firstIndex rl \<le> k"
  shows "contig k (GetEntriesFrom rl k)"
    and "k \<le> nextIndex rl \<Longrightarrow> k + int (length (GetEntriesFrom rl k)) = nextIndex rl"
    and "i < length (GetEntriesFrom rl k) \<Longrightarrow> getEntryLocked rl (k + int i) = Some (GetEntriesFrom rl k ! i)"
proof -
  let ?d = "nat (k - firstIndex rl)"
  note wf = log_wfD [OF assms(1)]
  have g: "GetEntriesFrom rl k = drop ?d (cache rl)" using assms(2) by (auto simp: GetEntriesFrom_def Let_def)
  show "contig k (GetEntriesFrom rl k)"
  proof (cases "?d \<le> length (cache rl)")
    case True
    with contig_drop [OF wf(1) True] assms(2) g show ?thesis by simp
  qed (simp add: g)
  show "k \<le> nextIndex rl \<Longrightarrow> k + int (length (GetEntriesFrom rl k)) = nextIndex rl" using wf(4) assms(2) by (auto simp: g)
  show "i < length (GetEntriesFrom rl k) \<Longrightarrow> getEntryLocked rl (k + int i) = Some (GetEntriesFrom rl k ! i)"
    using assms(2) by (auto simp: g getEntryLocked_iff nat_add_distrib nat_diff_distrib' algebra_simps
        intro!: arg_cong [of _ _ "\<lambda>n. cache rl ! n"])
qed

lemma request_fields:
  "ae_Term (appendRequest rl p rn) = CurrentTerm (persistent rn)"
  "ae_PrevLogIndex (appendRequest rl p rn) = NextIndexFor rn p - 1"
  "ae_PrevLogTerm (appendRequest rl p rn) = (if 1 < NextIndexFor rn p then TermAt rl (NextIndexFor rn p - 1) else 0)"
  "ae_Entries (appendRequest rl p rn) = GetEntriesFrom rl (NextIndexFor rn p)"
  "ae_LeaderCommit (appendRequest rl p rn) = CommitIndex rn" "ae_LeaderID (appendRequest rl p rn) = nodeID rn"
  by (simp_all add: appendRequest_def node_State_def Let_def NodeID_def)

lemma NextIndexFor_pos: "1 \<le> NextIndexFor rn p"
  by (simp add: NextIndexFor_def Let_def)

section \<open>One exchange\<close>

text \<open>One call answered by the peer: its log and node, and the leader's node, after it.\<close>

definition exchange ::
  "marshal \<Rightarrow> nanos \<Rightarrow> int \<Rightarrow> RaftLog \<Rightarrow> RaftNode \<Rightarrow> RaftLog \<Rightarrow> RaftNode
     \<Rightarrow> AppendEntriesResponse \<times> RaftNode \<times> RaftLog \<times> RaftNode" where
  "exchange m now peerID rl rn frl frn =
     (case HandleAppendEntries m now (appendRequest rl peerID rn) frl frn of
        (resp, frl', frn') \<Rightarrow> (resp, snd (appendReply (snd (node_State rn)) peerID resp rn), frl', frn'))"

text \<open>An exchange is one call of \<^const>\<open>ReplicateTo\<close> over a transport that reaches the peer.\<close>

lemma exchange_ReplicateTo:
  assumes "exchange m now p rl rn frl frn = (resp, rn', frl', frn')"
  shows "rn' = snd (ReplicateTo (\<lambda>req. Some (fst (HandleAppendEntries m now req frl frn))) rl p rn)"
  using assms by (auto simp: exchange_def ReplicateTo_def split: prod.splits)

lemma accept_no_faults:
  assumes "saves (store rn) = []" and "CurrentTerm (persistent rn) \<le> t"
  shows "\<exists>rn'. acceptLeader t l rn = (True, rn') \<and> saves (store rn') = [] \<and> CurrentTerm (persistent rn') = t"
  using assms
  by (auto simp: acceptLeader_def becomeFollowerLocked_def commitPersistentLocked_def Save_def Let_def
      dest!: arg_cong [of _ _ CurrentTerm])

lemma accept_saves:
  assumes "saves (store rn) = []" and "acceptLeader t l rn = (b, rn')"
  shows "saves (store rn') = []"
  using assms
  by (auto simp: acceptLeader_def becomeFollowerLocked_def commitPersistentLocked_def Save_def Let_def split: if_splits)

lemma exchange_success:
  assumes wf: "log_wf rl" "log_wf frl" "wal_ok m frl"
    and n: "lastIncludedIndex rl < NextIndexFor rn p" "lastIncludedIndex frl < NextIndexFor rn p"
      "NextIndexFor rn p \<le> nextIndex rl"
    and run: "exchange m now p rl rn frl frn = (resp, rn', frl', frn')" "aer_Success resp"
    and tm: "aer_Term resp \<le> CurrentTerm (persistent rn)"
  shows "log_wf frl'" and "wal_ok m frl'" and "aer_MatchIndex resp = LatestIndex rl"
    and "NextIndexFor rn p \<le> i \<Longrightarrow> i \<le> LatestIndex rl \<Longrightarrow> TermAt frl' i = TermAt rl i"
    and "rn' = UpdatePeerProgress p (LatestIndex rl) rn"
proof -
  let ?k = "NextIndexFor rn p" and ?req = "appendRequest rl p rn"
  let ?es = "GetEntriesFrom rl ?k"
  have k: "firstIndex rl \<le> ?k" using n(1) wf(1) by (simp add: log_wf_def)
  note e = GetEntriesFrom_contig [OF wf(1) k]
  from run(1) have h: "HandleAppendEntries m now ?req frl frn = (resp, frl', frn')"
    and rn': "rn' = snd (appendReply (snd (node_State rn)) p resp rn)"
    by (auto simp: exchange_def split: prod.splits)
  from h run(2) obtain r where r: "AppendEntriesToLog m (?k - 1) (ae_PrevLogTerm ?req) ?es frl = (r, frl')"
      "ar_ok r" "aer_MatchIndex resp = ar_matchIndex r"
    by (cases rule: append_entries_branches) (auto simp: request_fields)
  have c: "contig (?k - 1 + 1) ?es" "lastIncludedIndex frl \<le> ?k - 1" using e(1) n(2) by simp_all
  note g = append_entries_merge [OF wf(2,3) c r(1,2)]
  show wf': "log_wf frl'" and "wal_ok m frl'" using g by simp_all
  have latest: "LatestIndex rl = nextIndex rl - 1" using log_wf_last [OF wf(1)] by (simp add: LatestIndex_def)
  show match: "aer_MatchIndex resp = LatestIndex rl" using g r(3) e(2) n(3) latest by simp
  show "rn' = UpdatePeerProgress p (LatestIndex rl) rn"
    using rn' tm run(2) match by (simp add: appendReply_def node_State_def)
  show "TermAt frl' i = TermAt rl i" if i: "?k \<le> i" "i \<le> LatestIndex rl"
  proof -
    let ?j = "nat (i - ?k)"
    have j: "?j < length ?es" "?k + int ?j = i" using i e(2) [OF n(3)] latest by auto
    from e(3) [OF j(1)] j(2) have x: "getEntryLocked rl i = Some (?es ! ?j)" by simp
    have b: "?k - 1 < nextIndex frl"
      using check_passed(2) [OF wf(2) c(2) append_entries_cases(1) [OF r(1,2)]] by simp
    have "Index (?es ! ?j) = i" using contig_nth [OF e(1) j(1)] j(2) by simp
    then obtain y where y: "getEntryLocked frl' i = Some y" "Term y = Term (?es ! ?j)"
      using merged_entries [OF wf(2) c(2) b _ c(1), of frl' "?es ! ?j"] g j(1) by auto
    have "i \<noteq> lastIncludedIndex rl" "i \<noteq> lastIncludedIndex frl'"
      using i n g wf(2) by (auto simp: log_wf_def)
    with x y show ?thesis by (simp add: TermAt_def)
  qed
qed

section \<open>Repair\<close>

text \<open>Exchanges until one is acknowledged, at most \<open>n\<close> of them.\<close>

fun exchanges ::
  "marshal \<Rightarrow> nanos \<Rightarrow> int \<Rightarrow> RaftLog \<Rightarrow> nat \<Rightarrow> RaftNode \<Rightarrow> RaftLog \<Rightarrow> RaftNode
     \<Rightarrow> bool \<times> RaftNode \<times> RaftLog \<times> RaftNode" where
  "exchanges m now p rl 0 rn frl frn = (False, rn, frl, frn)"
| "exchanges m now p rl (Suc n) rn frl frn =
     (case exchange m now p rl rn frl frn of
        (resp, rn', frl', frn') \<Rightarrow>
          (if aer_Success resp then (True, rn', frl', frn') else exchanges m now p rl n rn' frl' frn'))"

lemma backtrack_lowers:
  "1 < NextIndexFor rn p \<Longrightarrow> NextIndexFor (BacktrackNextIndex p c rn) p < NextIndexFor rn p"
  by (auto simp: NextIndexFor_def BacktrackNextIndex_def Let_def split: if_splits)

text \<open>Without faults an exchange is acknowledged, or changes nothing but the indices it lowers.\<close>

lemma exchange_progress:
  assumes wf: "log_wf rl" "log_wf frl" "wal_ok m frl" "script (wal frl) = []"
    and n: "lastIncludedIndex rl = 0" "lastIncludedIndex frl = 0"
    and f: "saves (store frn) = []" "CurrentTerm (persistent frn) \<le> CurrentTerm (persistent rn)"
    and run: "exchange m now p rl rn frl frn = (resp, rn', frl', frn')" "\<not> aer_Success resp"
  shows "frl' = frl" and "rn' = BacktrackNextIndex p (aer_ConflictIndex resp) rn" and "1 < NextIndexFor rn p"
    and "saves (store frn') = []" and "CurrentTerm (persistent frn') = CurrentTerm (persistent rn)"
proof -
  let ?k = "NextIndexFor rn p" and ?req = "appendRequest rl p rn"
  let ?es = "GetEntriesFrom rl ?k"
  have k: "firstIndex rl \<le> ?k" using n(1) wf(1) NextIndexFor_pos [of rn p] by (simp add: log_wf_def)
  note e = GetEntriesFrom_contig [OF wf(1) k]
  have c: "contig (?k - 1 + 1) ?es" "lastIncludedIndex frl \<le> ?k - 1" using e(1) n(2) NextIndexFor_pos [of rn p] by simp_all
  have o: "isOpen (wal frl)" using wf(3) by (simp add: wal_ok_def wal_matches_def)
  from run(1) have h: "HandleAppendEntries m now ?req frl frn = (resp, frl', frn')"
    and rn': "rn' = snd (appendReply (snd (node_State rn)) p resp rn)"
    by (auto simp: exchange_def split: prod.splits)
  obtain frn1 where a: "acceptLeader (CurrentTerm (persistent rn)) (nodeID rn) frn = (True, frn1)"
      "saves (store frn1) = []" "CurrentTerm (persistent frn1) = CurrentTerm (persistent rn)"
    using accept_no_faults [OF f] by blast
  from h run(2) f(2) a obtain r where r: "AppendEntriesToLog m (?k - 1) (ae_PrevLogTerm ?req) ?es frl = (r, frl')"
      "\<not> ar_ok r" "frn' = frn1\<lparr>lastContact := now\<rparr>" "aer_Term resp = CurrentTerm (persistent rn)"
    by (cases rule: append_entries_branches) (auto simp: request_fields)
  have chk: "consistencyCheck frl (?k - 1) (ae_PrevLogTerm ?req) \<noteq> None"
    using append_entries_no_faults [OF wf(2) o wf(4) c] r(1,2) by (metis fst_conv)
  then show "frl' = frl" using r(1) by (auto simp: AppendEntriesToLog_def)
  show "1 < ?k" using chk NextIndexFor_pos [of rn p] by (auto simp: consistencyCheck_def split: if_splits)
  show "rn' = BacktrackNextIndex p (aer_ConflictIndex resp) rn"
    using rn' run(2) r(4) by (simp add: appendReply_def node_State_def)
  show "saves (store frn') = []" "CurrentTerm (persistent frn') = CurrentTerm (persistent rn)"
    using a r(3) by simp_all
qed

lemma backtrack_persistent [simp]: "persistent (BacktrackNextIndex p c rn) = persistent rn"
  by (simp add: BacktrackNextIndex_def Let_def)

lemma exchanges_succeed:
  assumes "log_wf rl" "log_wf frl" "wal_ok m frl" "script (wal frl) = []"
    and "lastIncludedIndex rl = 0" "lastIncludedIndex frl = 0"
  shows "saves (store frn) = [] \<Longrightarrow> CurrentTerm (persistent frn) \<le> CurrentTerm (persistent rn) \<Longrightarrow>
    NextIndexFor rn p \<le> int n \<Longrightarrow> fst (exchanges m now p rl n rn frl frn)"
proof (induction n arbitrary: rn frn)
  case 0
  then show ?case using NextIndexFor_pos [of rn p] by simp
next
  case (Suc n)
  obtain resp rn' frl' frn' where x: "exchange m now p rl rn frl frn = (resp, rn', frl', frn')" by (metis prod_cases4)
  show ?case
  proof (cases "aer_Success resp")
    case False
    note pr = exchange_progress [OF assms Suc.prems(1,2) x False]
    have "NextIndexFor rn' p \<le> int n" using backtrack_lowers [OF pr(3), of "aer_ConflictIndex resp"] pr(2) Suc.prems(3) by simp
    then have "fst (exchanges m now p rl n rn' frl frn')" using Suc.IH [OF pr(4)] pr(2,5) by simp
    then show ?thesis using x False pr(1) by simp
  qed (simp add: x)
qed

section \<open>A leader and a diverged peer\<close>

definition demoWhole :: "LogEntry list \<Rightarrow> RaftLog" where
  "demoWhole es = (let b = frames demoMarshal es in
     \<lparr>wal = \<lparr>content = b, synced = length b, shadow = None, isOpen = True, script = []\<rparr>, cache = es,
      nextIndex = 1 + int (length es), firstIndex = 1, lastIncludedIndex = 0, lastIncludedTerm = 0,
      compactionThreshold = 1000\<rparr>)"

definition demoLeader :: "int \<Rightarrow> RaftNode" where
  "demoLeader k = (demoNode 1)\<lparr>Role := Leader, persistent := \<lparr>CurrentTerm = 3, VotedFor = 1\<rparr>,
     NextIndex := [(2, k), (3, k)], MatchIndex := [(2, 0), (3, 0)]\<rparr>"

abbreviation demoMine :: RaftLog where
  "demoMine \<equiv> demoWhole [demoEntry 1 1, demoEntry 2 2, demoEntry 3 3]"

abbreviation demoTheirs :: RaftLog where
  "demoTheirs \<equiv> demoWhole [demoEntry 1 1, demoEntry 2 1, demoEntry 3 1, demoEntry 4 1]"

lemma demoWhole_ok: "contig 1 es \<Longrightarrow> log_wf (demoWhole es)" "wal_ok demoMarshal (demoWhole es)"
  by (simp_all add: demoWhole_def log_wf_def positional_def wal_ok_def wal_matches_def Let_def)

lemma demo_logs: "log_wf demoMine" "log_wf demoTheirs"
  by (rule demoWhole_ok(1); simp add: demoEntry_def)+

lemma demoWhole_sel [simp]:
  "lastIncludedIndex (demoWhole es) = 0" "script (wal (demoWhole es)) = []" "isOpen (wal (demoWhole es))"
  "cache (demoWhole es) = es" "firstIndex (demoWhole es) = 1" "nextIndex (demoWhole es) = 1 + int (length es)"
  "lastIncludedTerm (demoWhole es) = 0"
  by (simp_all add: demoWhole_def Let_def)

section \<open>Properties\<close>



text \<open>An acknowledged call means what the leader takes it to mean: the peer's log now has
  the leader's term at every index sent, through the leader's last index, and that is the
  index the leader records for the peer.\<close>

theorem acknowledged_call_matches:
  assumes "log_wf rl" and "log_wf frl" and "wal_ok m frl"
    and "lastIncludedIndex rl < NextIndexFor rn p" and "lastIncludedIndex frl < NextIndexFor rn p"
    and "NextIndexFor rn p \<le> nextIndex rl" and "mget (MatchIndex rn) p = Some j"
    and "exchange m now p rl rn frl frn = (resp, rn', frl', frn')" and "aer_Success resp"
    and "aer_Term resp \<le> CurrentTerm (persistent rn)"
  shows "log_wf frl' \<and> wal_ok m frl' \<and>
    (\<forall>i. NextIndexFor rn p \<le> i \<and> i \<le> LatestIndex rl \<longrightarrow> TermAt frl' i = TermAt rl i) \<and>
    mget (MatchIndex rn') p = Some (max j (LatestIndex rl)) \<and> LatestIndex rl < NextIndexFor rn' p"
proof -
  note x = exchange_success [OF assms(1-6,8-10)]
  have "mget (MatchIndex rn') p = Some (max j (LatestIndex rl)) \<and> LatestIndex rl < NextIndexFor rn' p"
    using x(5) assms(7)
    by (auto simp: UpdatePeerProgress_def NextIndexFor_def Let_def gm.lookup_put mget0_mget split: option.splits)
  with x(1,2,4) show ?thesis by blast
qed

theorem acknowledged_call_matches_witness:
  "case exchange demoMarshal 5 2 demoMine (demoLeader 2) demoTheirs (demoNode 2) of
     (resp, rn', frl', frn') \<Rightarrow> aer_Success resp \<and> TermAt frl' 2 = 2 \<and> TermAt frl' 3 = 3 \<and>
       mget (MatchIndex rn') 2 = Some 3"
proof -
  let ?x = "exchange demoMarshal 5 2 demoMine (demoLeader 2) demoTheirs (demoNode 2)"
  obtain resp rn' frl' frn' where x: "?x = (resp, rn', frl', frn')" by (metis prod_cases4)
  have n: "NextIndexFor (demoLeader 2) 2 = 2" "mget (MatchIndex (demoLeader 2)) 2 = Some 0"
      "CurrentTerm (persistent (demoLeader 2)) = 3" "nodeID (demoLeader 2) = 1" "CurrentTerm (persistent (demoNode 2)) = 0"
    by (simp_all add: demoLeader_def demoNode_def NextIndexFor_def mget0_def mget_def)
  have f: "saves (store (demoNode 2)) = []" "CurrentTerm (persistent (demoNode 2)) \<le> CurrentTerm (persistent (demoLeader 2))"
    by (simp_all add: demoNode_def n(3))
  let ?es = "[demoEntry 2 2, demoEntry 3 3]"
  have es: "GetEntriesFrom demoMine 2 = ?es" by (simp add: GetEntriesFrom_def)
  have t: "TermAt demoMine 1 = 1" "TermAt demoMine 2 = 2" "TermAt demoMine 3 = 3" "LatestIndex demoMine = 3"
    by (simp_all add: TermAt_def getEntryLocked_def demoEntry_def LatestIndex_def lastIndexLocked_def)
  have c: "contig (1 + 1) ?es" "lastIncludedIndex demoTheirs \<le> 1" "consistencyCheck demoTheirs 1 1 = None"
    by (simp_all add: demoEntry_def consistencyCheck_def lastIndexLocked_def entryOrZero_def getEntryLocked_def)
  note ok = append_entries_no_faults [OF demo_logs(2) demoWhole_sel(3,2) c, of demoMarshal]
  obtain frn1 where a: "acceptLeader 3 1 (demoNode 2) = (True, frn1)" "CurrentTerm (persistent frn1) = 3"
    using accept_no_faults [OF f(1), of 3 1] f(2) n(3) by auto
  have "aer_Success resp" "aer_Term resp = 3"
    using x ok a by (auto simp: exchange_def HandleAppendEntries_def request_fields n es t Let_def split_beta)
  with acknowledged_call_matches [OF demo_logs demoWhole_ok(2) _ _ _ n(2) x] n t show ?thesis
    by (simp add: x)
qed

end
