(* ===== verification/Cluster_Log.thy ===== *)
theory Cluster_Log
  imports Raft_Protocol Replicator
begin

text \<open>
  The cluster with its logs: nodes, their write-ahead logs, and the messages between them.
  Every message is one a node really sent; it may be lost, delayed, duplicated and reordered.
  Any node may crash at any time and is made anew from its disk; writes of the term and vote
  may fail, writes of the log do not.  There is one membership and no compaction.

  Each step runs one handler of the code to its end.  A reply is handled by a node that
  does not lead a later term than the request's: \<^verbatim>\<open>stopReplicators\<close> waits for the calls of one
  leadership before the node can win another.
\<close>

section \<open>Definitions\<close>

record Network =
  members :: Cluster
  rlog :: "int \<Rightarrow> RaftLog"
  polls :: "RequestVoteRequest set"
  sent :: "AppendEntriesRequest set"
  answers :: "(int \<times> AppendEntriesRequest \<times> AppendEntriesResponse) set"

abbreviation peer :: "Network \<Rightarrow> int \<Rightarrow> RaftNode" where
  "peer s v \<equiv> node (members s) v"

abbreviation setNode :: "int \<Rightarrow> RaftNode \<Rightarrow> Network \<Rightarrow> Network" where
  "setNode v rn s \<equiv> s\<lparr>members := (members s)\<lparr>node := (node (members s))(v := rn)\<rparr>\<rparr>"

definition voteRequest :: "int \<Rightarrow> RaftNode \<Rightarrow> RaftLog \<Rightarrow> RequestVoteRequest" where
  "voteRequest t rn rl =
     (let (lastLogIndex, lastLogTerm) = LastLogState rl in
      \<lparr>rv_Term = t, rv_CandidateID = NodeID rn, rv_LastLogIndex = lastLogIndex, rv_LastLogTerm = lastLogTerm\<rparr>)"

inductive net_step :: "marshal \<Rightarrow> unmarshal \<Rightarrow> Network \<Rightarrow> Network \<Rightarrow> bool" for m um where
  campaign: "BecomeCandidate now (peer s c) = (r, rn) \<Longrightarrow> c \<noteq> -1 \<Longrightarrow>
    net_step m um s (s\<lparr>members := (members s)\<lparr>node := (node (members s))(c := rn),
        ledger := (case r of None \<Rightarrow> ledger (members s) | Some t \<Rightarrow> insert (c, t, c) (ledger (members s))),
        majorities := (case r of None \<Rightarrow> majorities (members s)
          | Some t \<Rightarrow> if node_Peers rn = [] then insert (c, t) (majorities (members s)) else majorities (members s))\<rparr>,
      polls := (case r of None \<Rightarrow> polls s | Some t \<Rightarrow> insert (voteRequest t rn (rlog s c)) (polls s))\<rparr>)"
| vote: "req \<in> polls s \<Longrightarrow> HandleRequestVote now req (LastLogState (rlog s v)) (peer s v) = (resp, rn) \<Longrightarrow>
    net_step m um s (s\<lparr>members := (members s)\<lparr>node := (node (members s))(v := rn),
      ledger := (if rvr_VoteGranted resp then insert (v, rvr_Term resp, rv_CandidateID req) (ledger (members s))
                 else ledger (members s))\<rparr>\<rparr>)"
| tally: "(v, t, c) \<in> ledger (members s) \<Longrightarrow> RecordVoteAndCheckMajority v t (peer s c) = (won, rn) \<Longrightarrow>
    net_step m um s (s\<lparr>members := (members s)\<lparr>node := (node (members s))(c := rn),
      majorities := (if won then insert (c, t) (majorities (members s)) else majorities (members s))\<rparr>\<rparr>)"
| promote: "(c, t) \<in> majorities (members s) \<Longrightarrow> BecomeLeader t (LatestIndex (rlog s c)) (peer s c) = (promoted, rn) \<Longrightarrow>
    net_step m um s (s\<lparr>members := (members s)\<lparr>node := (node (members s))(c := rn),
      leaders := (if promoted then insert (c, t) (leaders (members s)) else leaders (members s))\<rparr>\<rparr>)"
| propose: "IsLeader (peer s c) \<Longrightarrow> AppendLeader m cmd (node_CurrentTerm (peer s c)) (rlog s c) = (Some e, rl) \<Longrightarrow>
    codec_ok m um [e] \<Longrightarrow> net_step m um s (s\<lparr>rlog := (rlog s)(c := rl)\<rparr>)"
| send: "IsLeader (peer s c) \<Longrightarrow>
    net_step m um s (s\<lparr>sent := insert (appendRequest (rlog s c) p (peer s c)) (sent s)\<rparr>)"
| receive: "req \<in> sent s \<Longrightarrow> HandleAppendEntries m now req (rlog s v) (peer s v) = (resp, rl, rn) \<Longrightarrow>
    net_step m um s ((setNode v rn s)\<lparr>rlog := (rlog s)(v := rl), answers := insert (v, req, resp) (answers s)\<rparr>)"
| reply: "(p, req, resp) \<in> answers s \<Longrightarrow> ae_LeaderID req = c \<Longrightarrow>
    (IsLeader (peer s c) \<longrightarrow> node_CurrentTerm (peer s c) = ae_Term req) \<Longrightarrow>
    appendReply (ae_Term req) p resp (peer s c) = (t, rn) \<Longrightarrow> net_step m um s (setNode c rn s)"
| commit: "AdvanceCommitIndex (LatestIndex (rlog s c)) (TermAt (rlog s c)) (node_CurrentTerm (peer s c)) (peer s c) = (r, rn) \<Longrightarrow>
    net_step m um s (setNode c rn s)"
| step_down: "BecomeFollower t l (peer s v) = (fin, rn) \<Longrightarrow> net_step m um s (setNode v rn s)"
| applied: "AdvanceLastApplied (peer s v) = (i, rn) \<Longrightarrow> net_step m um s (setNode v rn s)"
| restart: "p \<in> set (mayHold (store (peer s v))) \<Longrightarrow> restartNode now p os (peer s v) = Inr rn \<Longrightarrow>
    crash_image (wal (rlog s v)) b \<Longrightarrow> NewRaftLog um b [] = Inr rl \<Longrightarrow>
    net_step m um s ((setNode v rn s)\<lparr>rlog := (rlog s)(v := rl)\<rparr>)"

text \<open>An empty cluster.\<close>

definition whole :: "marshal \<Rightarrow> unmarshal \<Rightarrow> RaftLog \<Rightarrow> bool" where
  "whole m um rl \<longleftrightarrow> log_wf rl \<and> wal_ok m rl \<and> script (wal rl) = [] \<and> lastIncludedIndex rl = 0 \<and>
     lastIncludedTerm rl = 0 \<and> codec_ok m um (cache rl)"

definition net_initial :: "marshal \<Rightarrow> unmarshal \<Rightarrow> Configuration \<Rightarrow> Network \<Rightarrow> bool" where
  "net_initial m um cfg s \<longleftrightarrow> initial cfg (members s) \<and> polls s = {} \<and> sent s = {} \<and> answers s = {} \<and>
     (\<forall>v. whole m um (rlog s v) \<and> cache (rlog s v) = [] \<and> CommitIndex (peer s v) = 0 \<and>
       0 \<le> CurrentTerm (persistent (peer s v)))"

inductive net_reachable :: "marshal \<Rightarrow> unmarshal \<Rightarrow> Configuration \<Rightarrow> Network \<Rightarrow> bool" for m um cfg where
  start: "net_initial m um cfg s \<Longrightarrow> net_reachable m um cfg s"
| step: "net_reachable m um cfg s \<Longrightarrow> net_step m um s s' \<Longrightarrow> net_reachable m um cfg s'"

inductive_cases net_stepE: "net_step m um s s'"

section \<open>The elections of the network\<close>

definition polled :: "Network \<Rightarrow> bool" where
  "polled s \<longleftrightarrow> (\<forall>req \<in> polls s. rv_CandidateID req \<noteq> -1)"

text \<open>A step of the network is a step of the cluster, or leaves its nodes and history alone.\<close>

lemma net_cluster:
  assumes "net_step m um s s'" and "polled s" and "nodes_ok cfg (members s)"
  shows "(members s' = members s \<or> cluster_step (members s) (members s')) \<and> polled s'"
  using assms
proof (induction rule: net_step.induct)
  case (campaign now s c r rn)
  have "NodeID rn = c"
    using candidate_steps(1) [OF campaign.hyps(1)] campaign.prems(2) by (auto simp: keeps_def nodes_ok_def NodeID_def)
  then have "polled (s\<lparr>polls := (case r of None \<Rightarrow> polls s | Some t \<Rightarrow> insert (voteRequest t rn (rlog s c)) (polls s))\<rparr>)"
    using campaign.prems(1) campaign.hyps(2) by (auto simp: polled_def voteRequest_def Let_def split_beta split: option.splits)
  then show ?case using cluster_step.campaign [OF campaign.hyps] by (simp add: polled_def)
next
  case (vote req s now v resp rn)
  then have "rv_CandidateID req \<noteq> -1" by (simp add: polled_def)
  then show ?case using cluster_step.vote [OF vote.hyps(2)] vote.prems(1) by (simp add: polled_def)
next
  case (tally v t c s won rn)
  then show ?case using cluster_step.tally [OF tally.hyps] by (simp add: polled_def)
next
  case (promote c t s promoted rn)
  then show ?case using cluster_step.promote [OF promote.hyps] by (simp add: polled_def)
next
  case (receive req s now v resp rl rn)
  then show ?case using cluster_step.other [OF other_step.append_entries [OF receive.hyps(2)]] by (simp add: polled_def)
next
  case (reply p req resp s c t rn)
  have "rn = peer s c \<or> other_step (peer s c) rn"
    using reply.hyps(4) other_step.peer_progress [of "peer s c" p "aer_MatchIndex resp"]
      other_step.backtrack [of "peer s c" p "aer_ConflictIndex resp"]
    by (auto simp: appendReply_def split: if_splits)
  then show ?case using cluster_step.other [of "members s" c rn] reply.prems(1) by (auto simp: polled_def)
next
  case (commit s c r rn)
  then show ?case
    using cluster_step.other [OF other_step.advance_commit [where adv = r]] by (simp add: polled_def)
next
  case (step_down t l s v fin rn)
  then show ?case using cluster_step.other [OF other_step.become_follower] by (simp add: polled_def)
next
  case (applied s v i rn)
  then show ?case using cluster_step.other [OF other_step.advance_applied] by (simp add: polled_def)
next
  case (restart p s v now os rn b rl)
  then show ?case using cluster_step.restart [OF restart.hyps(1,2)] by (simp add: polled_def)
qed (simp_all add: polled_def)

lemma net_reachable_cluster:
  assumes "cfg_ok cfg" and "net_reachable m um cfg s"
  shows "reachable cfg (members s) \<and> polled s"
  using assms(2)
proof induction
  case (start s)
  then show ?case by (auto simp: net_initial_def polled_def intro: reachable.start)
next
  case (step s s')
  then have "nodes_ok cfg (members s)" using reachable_inv [OF assms(1)] by (simp add: election_inv_def)
  with net_cluster [OF step.hyps(2)] step.IH show ?case by (metis reachable.step)
qed

lemma net_elections:
  assumes "cfg_ok cfg" and "net_reachable m um cfg s"
  shows "election_inv cfg (members s)"
  using reachable_inv [OF assms(1)] net_reachable_cluster [OF assms] by blast

section \<open>Simulation of the protocol\<close>

definition credited :: "Protocol \<Rightarrow> int \<Rightarrow> int \<Rightarrow> int \<Rightarrow> bool" where
  "credited a p t k \<longleftrightarrow> k \<le> 0 \<or> (\<exists>P. (p, t, P) \<in> stored a \<and> k \<le> int (length P))"

definition progress_ok :: "Protocol \<Rightarrow> int \<Rightarrow> RaftNode \<Rightarrow> bool" where
  "progress_ok a t rn \<longleftrightarrow> mwf (MatchIndex rn) \<and> (\<forall>p k. mget (MatchIndex rn) p = Some k \<longrightarrow> credited a p t k) \<and>
     (\<forall>p k. mget (NextIndex rn) p = Some k \<longrightarrow> k \<le> int (length (history a t)) + 1)"

definition commit_known :: "Configuration \<Rightarrow> Protocol \<Rightarrow> int \<Rightarrow> int \<Rightarrow> bool" where
  "commit_known cfg a t k \<longleftrightarrow> k \<le> 0 \<or> (\<exists>t0 P. t0 \<le> t \<and> committed (quorum_of cfg) a t0 P \<and> k \<le> int (length P))"

definition commit_held :: "Configuration \<Rightarrow> Protocol \<Rightarrow> int \<Rightarrow> int \<Rightarrow> bool" where
  "commit_held cfg a v k \<longleftrightarrow> k \<le> 0 \<or> (\<exists>t0 P. t0 \<le> terms a v \<and> committed (quorum_of cfg) a t0 P \<and> k \<le> int (length P) \<and>
     prefix (take (nat k) P) (entries a v))"

definition sent_ok :: "Configuration \<Rightarrow> Protocol \<Rightarrow> AppendEntriesRequest \<Rightarrow> bool" where
  "sent_ok cfg a req \<longleftrightarrow> ae_Term req \<in> elected a \<and> commit_known cfg a (ae_Term req) (ae_LeaderCommit req) \<and>
     (\<exists>n P. prefix P (history a (ae_Term req)) \<and> n \<le> length P \<and> ae_PrevLogIndex req = int n \<and>
        ae_PrevLogTerm req = lastTermOf (take n P) \<and> ae_Entries req = drop n P)"

definition logs_sim :: "marshal \<Rightarrow> unmarshal \<Rightarrow> Network \<Rightarrow> Protocol \<Rightarrow> bool" where
  "logs_sim m um s a \<longleftrightarrow> (\<forall>v. terms a v = CurrentTerm (persistent (peer s v)) \<and> 0 \<le> CurrentTerm (persistent (peer s v)) \<and>
     entries a v = cache (rlog s v) \<and> whole m um (rlog s v)) \<and> (\<forall>t \<in> elected a. codec_ok m um (history a t))"

definition leaders_sim :: "Network \<Rightarrow> Protocol \<Rightarrow> bool" where
  "leaders_sim s a \<longleftrightarrow> elected a = snd ` leaders (members s) \<and> (\<forall>c t. (c, t) \<in> leaders (members s) \<longrightarrow> t \<le> terms a c) \<and>
     (\<forall>c. Role (peer s c) = Leader \<longrightarrow> entries a c = history a (terms a c) \<and>
        (c, terms a c, history a (terms a c)) \<in> stored a \<and> progress_ok a (terms a c) (peer s c))"

text \<open>A candidate's log is the one its requests described and its voters compared with theirs.\<close>

definition candidate_ok :: "Network \<Rightarrow> Protocol \<Rightarrow> int \<Rightarrow> bool" where
  "candidate_ok s a c \<longleftrightarrow>
     1 \<le> terms a c \<and> (c, terms a c) \<notin> leaders (members s) \<and> (\<forall>e \<in> set (entries a c). Term e < terms a c) \<and>
     (\<forall>req \<in> polls s. rv_CandidateID req = c \<longrightarrow> rv_Term req = terms a c \<longrightarrow>
        rv_LastLogTerm req = lastTermOf (entries a c) \<and> rv_LastLogIndex req = int (length (entries a c))) \<and>
     (\<forall>v. (v, terms a c, c) \<in> ledger (members s) \<longrightarrow> terms a c \<in> elected a \<or>
        (\<exists>L. (v, terms a c, L) \<in> ballots a \<and> upToDate (entries a c) L))"

definition candidates_sim :: "Network \<Rightarrow> Protocol \<Rightarrow> bool" where
  "candidates_sim s a \<longleftrightarrow> (\<forall>c. Role (peer s c) = Candidate \<longrightarrow> candidate_ok s a c)"

definition votes_sim :: "Network \<Rightarrow> Protocol \<Rightarrow> bool" where
  "votes_sim s a \<longleftrightarrow> (\<forall>req \<in> polls s. rv_Term req \<le> terms a (rv_CandidateID req)) \<and>
     (\<forall>v t c. (v, t, c) \<in> ledger (members s) \<longrightarrow> t \<le> terms a c)"

definition messages_sim :: "Configuration \<Rightarrow> Network \<Rightarrow> Protocol \<Rightarrow> bool" where
  "messages_sim cfg s a \<longleftrightarrow> (\<forall>req \<in> sent s. sent_ok cfg a req) \<and>
     (\<forall>v req resp. (v, req, resp) \<in> answers s \<longrightarrow> req \<in> sent s \<and>
        (aer_Success resp \<longrightarrow> credited a v (ae_Term req) (aer_MatchIndex resp)))"

definition commits_sim :: "Configuration \<Rightarrow> Network \<Rightarrow> Protocol \<Rightarrow> bool" where
  "commits_sim cfg s a \<longleftrightarrow> (\<forall>v. commit_held cfg a v (CommitIndex (peer s v)))"

definition sim :: "marshal \<Rightarrow> unmarshal \<Rightarrow> Configuration \<Rightarrow> Network \<Rightarrow> Protocol \<Rightarrow> bool" where
  "sim m um cfg s a \<longleftrightarrow> logs_sim m um s a \<and> leaders_sim s a \<and> candidates_sim s a \<and> votes_sim s a \<and>
     messages_sim cfg s a \<and> commits_sim cfg s a"

lemma simD:
  assumes "sim m um cfg s a"
  shows "logs_sim m um s a" and "leaders_sim s a" and "candidates_sim s a" and "votes_sim s a"
    and "messages_sim cfg s a" and "commits_sim cfg s a"
  using assms by (simp_all add: sim_def)

section \<open>What lasts\<close>

lemma credited_extends: "extends a a' \<Longrightarrow> credited a p t k \<Longrightarrow> credited a' p t k"
  by (auto simp: credited_def extends_def)

lemma commit_known_extends: "extends a a' \<Longrightarrow> commit_known cfg a t k \<Longrightarrow> t \<le> t' \<Longrightarrow> commit_known cfg a' t' k"
  unfolding commit_known_def by (meson order_trans sq.committed_extends)

lemma sent_ok_extends: "extends a a' \<Longrightarrow> sent_ok cfg a req \<Longrightarrow> sent_ok cfg a' req"
  using commit_known_extends [of a a' cfg "ae_Term req" _ "ae_Term req"]
  unfolding sent_ok_def extends_def by (meson order_refl prefix_order.trans subsetD)

lemma commit_held_extends:
  assumes "extends a a'" and "commit_held cfg a v k" and "prefix (entries a v) (entries a' v)"
  shows "commit_held cfg a' v k"
proof -
  have "terms a v \<le> terms a' v" using assms(1) by (simp add: extends_def)
  with assms show ?thesis
    unfolding commit_held_def by (meson order_trans prefix_order.trans sq.committed_extends)
qed

lemma messages_extends: "extends a a' \<Longrightarrow> messages_sim cfg s a \<Longrightarrow> messages_sim cfg s a'"
  unfolding messages_sim_def using sent_ok_extends credited_extends by blast

end
