(* ===== verification/Cluster_Log_Sim.thy ===== *)
theory Cluster_Log_Sim
  imports Cluster_Log
begin

text \<open>
  Every step of the network is matched by steps of the protocol: the simulation relation
  \<^const>\<open>sim\<close> is kept.
\<close>

abbreviation termOf :: "RaftNode \<Rightarrow> int" where
  "termOf rn \<equiv> CurrentTerm (persistent rn)"

definition simulated :: "marshal \<Rightarrow> unmarshal \<Rightarrow> Configuration \<Rightarrow> Protocol \<Rightarrow> Network \<Rightarrow> bool" where
  "simulated m um cfg a s' \<longleftrightarrow> (\<exists>a'. (protocol_step (quorum_of cfg))\<^sup>*\<^sup>* a a' \<and> sim m um cfg s' a')"

lemma simulated_same: "sim m um cfg s' a \<Longrightarrow> simulated m um cfg a s'"
  by (auto simp: simulated_def)

lemma simulated_step: "protocol_step (quorum_of cfg) a a' \<Longrightarrow> sim m um cfg s' a' \<Longrightarrow> simulated m um cfg a s'"
  by (auto simp: simulated_def)

lemma simulated_trans: "protocol_step (quorum_of cfg) a a' \<Longrightarrow> simulated m um cfg a' s' \<Longrightarrow> simulated m um cfg a s'"
  unfolding simulated_def by (meson converse_rtranclp_into_rtranclp)

section \<open>A step of one node\<close>

lemma progress_terms [simp]: "progress_ok (a\<lparr>terms := x\<rparr>) = progress_ok a" "progress_ok (a\<lparr>ballots := y\<rparr>) = progress_ok a"
  by (simp_all add: fun_eq_iff progress_ok_def credited_def)

lemma sim_node:
  assumes sim: "sim m um cfg s a" and t: "terms a v \<le> termOf rn"
    and role: "Role rn = Follower \<or> Role rn = Role (peer s v) \<and> termOf rn = terms a v"
    and prog: "Role rn = Leader \<Longrightarrow> progress_ok a (terms a v) rn" and commit: "commit_held cfg a v (CommitIndex rn)"
  shows "sim m um cfg (setNode v rn s) (a\<lparr>terms := (terms a)(v := termOf rn)\<rparr>)" (is "sim m um cfg ?s ?a")
proof -
  note i = simD [OF sim]
  have x: "extends a ?a" using t by (simp add: extends_def)
  have "logs_sim m um ?s ?a" using i(1) t by (auto simp: logs_sim_def intro: order_trans)
  moreover have "leaders_sim ?s ?a"
    using i(2) t role prog unfolding leaders_sim_def by (auto intro: order_trans)
  moreover have "candidates_sim ?s ?a"
  proof -
    have "candidate_ok ?s ?a c = candidate_ok s a c" if "c \<noteq> v \<or> termOf rn = terms a v" for c
      using that by (auto simp: candidate_ok_def)
    then show ?thesis using i(3) role by (auto simp: candidates_sim_def)
  qed
  moreover have "votes_sim ?s ?a" using i(4) t unfolding votes_sim_def by auto (meson order_trans)+
  moreover have "messages_sim cfg ?s ?a" using messages_extends [OF x i(5)] by (simp add: messages_sim_def)
  moreover have "commits_sim cfg ?s ?a"
    using i(6) commit commit_held_extends [OF x] by (auto simp: commits_sim_def)
  ultimately show ?thesis by (simp add: sim_def)
qed

text \<open>A transition that leaves the progress and the commit index alone.\<close>

definition still :: "RaftNode \<Rightarrow> RaftNode \<Rightarrow> bool" where
  "still rn rn' \<longleftrightarrow> termOf rn \<le> termOf rn' \<and> (Role rn' = Follower \<or> Role rn' = Role rn \<and> termOf rn' = termOf rn) \<and>
     (Role rn' = Leader \<longrightarrow> MatchIndex rn' = MatchIndex rn \<and> NextIndex rn' = NextIndex rn) \<and>
     (CommitIndex rn' = CommitIndex rn \<or> CommitIndex rn' = 0)"

lemma sim_still:
  assumes sim: "sim m um cfg s a" and "still (peer s v) rn"
  shows "sim m um cfg (setNode v rn s) (a\<lparr>terms := (terms a)(v := termOf rn)\<rparr>)"
proof (rule sim_node [OF sim])
  note i = simD [OF sim]
  have t: "terms a v = termOf (peer s v)" using i(1) by (simp add: logs_sim_def)
  show "terms a v \<le> termOf rn" "Role rn = Follower \<or> Role rn = Role (peer s v) \<and> termOf rn = terms a v"
    using assms(2) t by (auto simp: still_def)
  show "progress_ok a (terms a v) rn" if "Role rn = Leader"
  proof -
    have r: "Role (peer s v) = Leader" "MatchIndex rn = MatchIndex (peer s v)" "NextIndex rn = NextIndex (peer s v)"
      using assms(2) that by (auto simp: still_def)
    then have "progress_ok a (terms a v) (peer s v)" using i(2) by (simp add: leaders_sim_def)
    then show ?thesis using r by (simp add: progress_ok_def)
  qed
  have "commit_held cfg a v (CommitIndex (peer s v))" using i(6) by (simp add: commits_sim_def)
  then show "commit_held cfg a v (CommitIndex rn)" using assms(2) by (auto simp: still_def commit_held_def)
qed

lemma still_follow: "BecomeFollower t l rn = (fin, rn') \<Longrightarrow> still rn rn'"
  by (auto simp: BecomeFollower_def becomeFollowerLocked_def Let_def still_def split: prod.splits bool.splits if_splits
      dest!: commit_fields)

lemma still_accept: "acceptLeader t l rn = (fin, rn') \<Longrightarrow> still rn rn'"
  using still_follow by (auto simp: acceptLeader_def BecomeFollower_def still_def split: if_splits)

lemma still_vote:
  assumes "HandleRequestVote now req lastLog rn = (resp, rn')"
  shows "still rn rn'"
  using assms
proof (cases rule: request_vote_branches)
  case Unsaved
  then show ?thesis by (auto dest!: commit_fields simp: still_def)
next
  case (Saved rn1 granted)
  then show ?thesis by (auto dest!: commit_fields simp: still_def voteState_def Let_def)
qed (simp add: still_def)

lemma still_other:
  "RecordVoteAndCheckMajority v t rn = (won, rn') \<Longrightarrow> still rn rn'"
  "AdvanceLastApplied rn = (i, rn') \<Longrightarrow> still rn rn'"
  by (auto simp: still_def RecordVoteAndCheckMajority_def AdvanceLastApplied_def Let_def split: if_splits)

lemma raise_step:
  assumes "sim m um cfg s a" and "termOf (peer s v) \<le> t"
  shows "protocol_step (quorum_of cfg) a (a\<lparr>terms := (terms a)(v := t)\<rparr>)"
  by (rule protocol_step.raise_term) (use assms in \<open>simp add: sim_def logs_sim_def\<close>)

lemma sim_still_step:
  assumes "sim m um cfg s a" and "still (peer s v) rn"
  shows "simulated m um cfg a (setNode v rn s)"
  by (rule simulated_step [OF raise_step [OF assms(1)] sim_still [OF assms]]) (use assms(2) in \<open>simp add: still_def\<close>)

section \<open>Elections\<close>

lemma last_state:
  assumes "whole m um rl"
  shows "LastLogState rl = (int (length (cache rl)), lastTermOf (cache rl))" and "LatestIndex rl = int (length (cache rl))"
proof -
  have wf: "log_wf rl" "lastIncludedIndex rl = 0" "lastIncludedTerm rl = 0" using assms by (auto simp: whole_def)
  have "lastIndexLocked rl = int (length (cache rl))"
    using log_wf_last [OF wf(1)] log_wfD(2,4) [OF wf(1)] wf(2) by simp
  then show "LatestIndex rl = int (length (cache rl))" "LastLogState rl = (int (length (cache rl)), lastTermOf (cache rl))"
    using wf by (auto simp: LatestIndex_def LastLogState_def lastIndexLocked_def lastTermOf_def Let_def split: if_splits)
qed

text \<open>A vote entered for a candidate whose log the voter has found up to date.\<close>

lemma sim_ledger:
  assumes sim: "sim m um cfg s a" and "t \<le> terms a c"
    and ballot: "Role (peer s c) = Candidate \<Longrightarrow> terms a c = t \<Longrightarrow> t \<in> elected a \<or>
      (\<exists>L. (v, t, L) \<in> ballots a \<and> upToDate (entries a c) L)"
  shows "sim m um cfg (s\<lparr>members := (members s)\<lparr>ledger := insert (v, t, c) (ledger (members s)), majorities := mj\<rparr>\<rparr>) a"
    (is "sim m um cfg ?s a")
proof -
  note i = simD [OF sim]
  have "logs_sim m um ?s a" "leaders_sim ?s a" "messages_sim cfg ?s a" "commits_sim cfg ?s a"
    using i(1,2,5,6) unfolding logs_sim_def leaders_sim_def messages_sim_def commits_sim_def by auto
  moreover have "candidates_sim ?s a" using i(3) ballot unfolding candidates_sim_def candidate_ok_def by auto
  moreover have "votes_sim ?s a" using i(4) assms(2) by (auto simp: votes_sim_def)
  ultimately show ?thesis by (simp add: sim_def)
qed

lemma sim_ballot:
  assumes sim: "sim m um cfg s a" and x: "a' = a\<lparr>ballots := insert b (ballots a)\<rparr>"
  shows "sim m um cfg s a'"
proof -
  note i = simD [OF sim]
  have e: "extends a a'" by (auto simp: x extends_def)
  have "logs_sim m um s a'" "leaders_sim s a'" "votes_sim s a'"
    using i(1,2,4) unfolding x logs_sim_def leaders_sim_def votes_sim_def by auto
  moreover have "candidates_sim s a'" using i(3) unfolding x candidates_sim_def candidate_ok_def by simp blast
  moreover have "messages_sim cfg s a'" by (rule messages_extends [OF e i(5)])
  moreover have "commits_sim cfg s a'"
    using i(6) commit_held_extends [OF e] by (simp add: x commits_sim_def)
  ultimately show ?thesis by (simp add: sim_def)
qed

lemma sim_majorities:
  "sim m um cfg (s\<lparr>members := (members s)\<lparr>majorities := mj\<rparr>\<rparr>) a = sim m um cfg s a"
  by (simp add: sim_def logs_sim_def leaders_sim_def candidates_sim_def candidate_ok_def votes_sim_def
      messages_sim_def commits_sim_def)

lemma sim_vote:
  assumes sim: "sim m um cfg s a" and inv: "election_inv cfg (members s)"
    and req: "req \<in> polls s" and run: "HandleRequestVote now req (LastLogState (rlog s v)) (peer s v) = (resp, rn)"
  shows "simulated m um cfg a (s\<lparr>members := (members s)\<lparr>node := (node (members s))(v := rn),
      ledger := (if rvr_VoteGranted resp then insert (v, rvr_Term resp, rv_CandidateID req) (ledger (members s))
                 else ledger (members s))\<rparr>\<rparr>)"
proof (cases "rvr_VoteGranted resp")
  case False
  then show ?thesis using sim_still_step [OF sim still_vote [OF run]] by simp
next
  case True
  note g = request_vote_granted [OF run True] and st = still_vote [OF run] and i = simD [OF sim]
  let ?t = "rv_Term req" and ?c = "rv_CandidateID req"
  let ?a = "a\<lparr>terms := (terms a)(v := ?t)\<rparr>" and ?s = "setNode v rn s"
  have t: "termOf rn = ?t" using g(1) by simp
  have sim1: "sim m um cfg ?s ?a" using sim_still [OF sim st] t by simp
  have step: "protocol_step (quorum_of cfg) a ?a"
    by (rule raise_step [OF sim]) (use st t in \<open>simp add: still_def\<close>)
  have c: "?t \<le> terms ?a ?c" using i(4) req by (auto simp: votes_sim_def)
  let ?L = "entries a v" and ?C = "entries a ?c"
  have l: "LastLogState (rlog s v) = (int (length ?L), lastTermOf ?L)"
    using i(1) last_state(1) by (auto simp: logs_sim_def)
  have up: "upToDate ?C ?L" if "Role (peer ?s ?c) = Candidate" "terms ?a ?c = ?t"
  proof -
    have "rv_LastLogTerm req = lastTermOf ?C" "rv_LastLogIndex req = int (length ?C)"
      using simD(3) [OF sim1] that req by (auto simp: candidates_sim_def candidate_ok_def)
    then show ?thesis using g(3) l by (simp add: upToDate_def)
  qed
  have fin: "(s\<lparr>members := (members s)\<lparr>node := (node (members s))(v := rn), ledger := insert (v, rvr_Term resp, ?c)
      (ledger (members s))\<rparr>\<rparr>) = ?s\<lparr>members := (members ?s)\<lparr>ledger := insert (v, ?t, ?c) (ledger (members ?s)),
      majorities := majorities (members ?s)\<rparr>\<rparr>"
    using g(2) by simp
  show ?thesis
  proof (cases "?t \<in> elected a")
    case True
    then have "sim m um cfg (?s\<lparr>members := (members ?s)\<lparr>ledger := insert (v, ?t, ?c) (ledger (members ?s)),
        majorities := majorities (members ?s)\<rparr>\<rparr>) ?a"
      by (intro sim_ledger [OF sim1 c]) simp
    then show ?thesis using simulated_step [OF step] fin \<open>rvr_VoteGranted resp\<close> by simp
  next
    case False
    let ?b = "?a\<lparr>ballots := insert (v, ?t, entries ?a v) (ballots ?a)\<rparr>"
    have step2: "protocol_step (quorum_of cfg) ?a ?b" by (rule protocol_step.cast_ballot) (use False in simp_all)
    have "sim m um cfg (?s\<lparr>members := (members ?s)\<lparr>ledger := insert (v, ?t, ?c) (ledger (members ?s)),
        majorities := majorities (members ?s)\<rparr>\<rparr>) ?b"
      by (intro sim_ledger [OF sim_ballot [OF sim1 refl]]) (use c up in auto)
    then show ?thesis using simulated_trans [OF step simulated_step [OF step2]] fin \<open>rvr_VoteGranted resp\<close> by simp
  qed
qed

text \<open>A candidate votes for itself; its term is new, so nobody has asked for votes in it before.\<close>

lemma sim_campaign:
  assumes sim: "sim m um cfg s a" and inv: "election_inv cfg (members s)" and pr: "logs_ok a"
    and run: "BecomeCandidate now (peer s c) = (Some t, rn)"
  shows "simulated m um cfg a (s\<lparr>members := (members s)\<lparr>node := (node (members s))(c := rn),
      ledger := insert (c, t, c) (ledger (members s)), majorities := mj\<rparr>,
    polls := insert (voteRequest t rn (rlog s c)) (polls s)\<rparr>)" (is "simulated m um cfg a ?s")
proof -
  note i = simD [OF sim]
  have id: "nodeID (peer s c) = c" using inv by (simp add: inv_defs)
  have f: "t = termOf (peer s c) + 1" "Role rn = Candidate" "termOf rn = t" "CommitIndex rn = CommitIndex (peer s c)" "nodeID rn = c"
    using run id by (auto simp: BecomeCandidate_def Let_def split: prod.splits bool.splits dest!: commit_fields)
  have t: "terms a c + 1 = t" "0 \<le> terms a c" "entries a c = cache (rlog s c)" "whole m um (rlog s c)"
    using i(1) f(1) by (auto simp: logs_sim_def)
  obtain b where run: "(protocol_step (quorum_of cfg))\<^sup>*\<^sup>* a b" and b: "terms b = (terms a)(c := t)" "entries b = entries a"
      "elected b = elected a" "history b = history a" "stored b = stored a" "inherited b = inherited a"
    and own: "ballots a \<subseteq> ballots b" "t \<in> elected a \<or> (c, t, entries a c) \<in> ballots b"
  proof -
    let ?a = "a\<lparr>terms := (terms a)(c := t)\<rparr>"
    have step: "protocol_step (quorum_of cfg) a ?a" by (rule protocol_step.raise_term) (use t in simp)
    show thesis
    proof (cases "t \<in> elected a")
      case True
      then show ?thesis by (intro that [of ?a] r_into_rtranclp [of "protocol_step (quorum_of cfg)", OF step]) simp_all
    next
      case False
      then have "protocol_step (quorum_of cfg) ?a (?a\<lparr>ballots := insert (c, t, entries ?a c) (ballots ?a)\<rparr>)"
        by (intro protocol_step.cast_ballot) simp_all
      then show ?thesis
        by (intro that [of "?a\<lparr>ballots := insert (c, t, entries ?a c) (ballots ?a)\<rparr>"]
            rtranclp.rtrancl_into_rtrancl [OF r_into_rtranclp [of "protocol_step (quorum_of cfg)", OF step]]) auto
    qed
  qed
  have x: "extends a b" using t(1) own(1) b by (auto simp: extends_def)
  have new: "(c, t) \<notin> leaders (members s)" "(v, t, c) \<notin> ledger (members s)" "req \<in> polls s \<Longrightarrow> rv_CandidateID req = c \<Longrightarrow> rv_Term req \<noteq> t" for v req
    using i(2,4) t(1) unfolding leaders_sim_def votes_sim_def by force+
  have "sim m um cfg ?s b"
    unfolding sim_def
  proof (intro conjI)
    show "logs_sim m um ?s b" using i(1) f t unfolding logs_sim_def b by auto
    have p: "progress_ok b = progress_ok a" by (simp add: fun_eq_iff progress_ok_def credited_def b)
    show "leaders_sim ?s b" using i(2) f t unfolding leaders_sim_def b p by auto force
    show "votes_sim ?s b" using i(4) f(5) t(1) by (fastforce simp: votes_sim_def b voteRequest_def Let_def split_beta NodeID_def)
    show "messages_sim cfg ?s b" using messages_extends [OF x i(5)] by (simp add: messages_sim_def)
    show "commits_sim cfg ?s b" using i(6) f commit_held_extends [OF x] by (simp add: commits_sim_def b)
    have "candidate_ok ?s b d" if "Role (peer s d) = Candidate" "d \<noteq> c" for d
    proof -
      have "candidate_ok s a d" using i(3) that by (simp add: candidates_sim_def)
      then show ?thesis using that f(5) own(1) unfolding candidate_ok_def b
        by (auto simp: voteRequest_def Let_def split_beta NodeID_def) blast
    qed
    moreover have "candidate_ok ?s b c"
      unfolding candidate_ok_def
    proof (intro conjI)
      show "\<forall>e \<in> set (entries b c). Term e < terms b c" using pr t(1) unfolding b logs_ok_def by fastforce
      show "\<forall>req \<in> polls ?s. rv_CandidateID req = c \<longrightarrow> rv_Term req = terms b c \<longrightarrow>
          rv_LastLogTerm req = lastTermOf (entries b c) \<and> rv_LastLogIndex req = int (length (entries b c))"
        using new(3) t(3) last_state(1) [OF t(4)] by (auto simp: voteRequest_def b)
      show "\<forall>v. (v, terms b c, c) \<in> ledger (members ?s) \<longrightarrow> terms b c \<in> elected b \<or>
          (\<exists>L. (v, terms b c, L) \<in> ballots b \<and> upToDate (entries b c) L)"
        using new(2) own(2) by (auto simp: upToDate_def candidateUpToDate_def b)
    qed (use t new(1) b in simp_all)
    ultimately show "candidates_sim ?s b" using f(2) by (simp add: candidates_sim_def)
  qed
  with run show ?thesis unfolding simulated_def by blast
qed

text \<open>The nodes that do not change keep what the relation says of them when the history grows.\<close>

lemma progress_extends: "extends a a' \<Longrightarrow> t \<in> elected a \<Longrightarrow> progress_ok a t rn \<Longrightarrow> progress_ok a' t rn"
proof -
  assume e: "extends a a'" "t \<in> elected a" "progress_ok a t rn"
  then have "length (history a t) \<le> length (history a' t)" by (auto simp: extends_def prefix_length_le)
  with e credited_extends [OF e(1)] show "progress_ok a' t rn" unfolding progress_ok_def by fastforce
qed

lemma sim_promote:
  assumes sim: "sim m um cfg s a" and ok: "cfg_ok cfg" and inv: "election_inv cfg (members s)"
    and won: "(c, t) \<in> majorities (members s)" and run: "BecomeLeader t (LatestIndex (rlog s c)) (peer s c) = (True, rn)"
    and s': "s' = s\<lparr>members := (members s)\<lparr>node := (node (members s))(c := rn), leaders := insert (c, t) (leaders (members s))\<rparr>\<rparr>"
    and inv': "election_inv cfg (members s')"
  shows "simulated m um cfg a s'"
proof -
  note i = simD [OF sim]
  let ?L = "entries a c"
  have r: "Role (peer s c) = Candidate" "termOf (peer s c) = t" "Role rn = Leader" "termOf rn = t"
      "CommitIndex rn = CommitIndex (peer s c)"
      "MatchIndex rn = fold (\<lambda>p. mput p 0) (mkeys (Peers (config (peer s c)) (nodeID (peer s c)))) []"
      "NextIndex rn = fold (\<lambda>p. mput p (LatestIndex (rlog s c) + 1)) (mkeys (Peers (config (peer s c)) (nodeID (peer s c)))) []"
    using run by (auto simp: BecomeLeader_def Let_def split: if_splits)
  have t: "terms a c = t" "?L = cache (rlog s c)" "whole m um (rlog s c)" using i(1) r(2) by (auto simp: logs_sim_def)
  have cand: "1 \<le> t" "(c, t) \<notin> leaders (members s)" "\<forall>e \<in> set ?L. Term e < t"
      "\<And>v. (v, t, c) \<in> ledger (members s) \<Longrightarrow> t \<in> elected a \<or> (\<exists>L. (v, t, L) \<in> ballots a \<and> upToDate ?L L)"
    using i(3) r(1) t(1) by (auto simp: candidates_sim_def candidate_ok_def)
  have new: "t \<notin> elected a"
  proof
    assume "t \<in> elected a"
    then obtain d where d: "(d, t) \<in> leaders (members s)" using i(2) by (auto simp: leaders_sim_def)
    then have "d = c" using one_leader [OF ok inv', of d t c] s' by simp
    then show False using d cand(2) by simp
  qed
  have "quorum_of cfg (voters_of (members s) t c)" using inv won by (auto simp: inv_defs)
  moreover have "\<forall>v \<in> voters_of (members s) t c. \<exists>L. (v, t, L) \<in> ballots a \<and> upToDate ?L L"
    using cand(4) new by (auto simp: voters_of_def)
  ultimately have step: "protocol_step (quorum_of cfg) a (a\<lparr>elected := insert t (elected a), history := (history a)(t := ?L),
      inherited := (inherited a)(t := ?L), stored := insert (c, t, ?L) (stored a)\<rparr>)"
    using protocol_step.elect [OF new t(1) cand(1,3)] by blast
  define b where "b = a\<lparr>elected := insert t (elected a), history := (history a)(t := ?L),
      inherited := (inherited a)(t := ?L), stored := insert (c, t, ?L) (stored a)\<rparr>"
  have b: "terms b = terms a" "entries b = entries a" "elected b = insert t (elected a)" "history b = (history a)(t := ?L)"
      "stored b = insert (c, t, ?L) (stored a)" "ballots b = ballots a" by (simp_all add: b_def)
  have step: "protocol_step (quorum_of cfg) a b" using step by (simp add: b_def)
  note x = step_extends [OF step]
  have "sim m um cfg s' b"
    unfolding sim_def
  proof (intro conjI)
    show "logs_sim m um s' b" using i(1) r t unfolding logs_sim_def b s' by (auto simp: whole_def)
    show "leaders_sim s' b"
      unfolding leaders_sim_def
    proof (intro conjI allI impI)
      show "elected b = snd ` leaders (members s')" using i(2) by (simp add: leaders_sim_def b s')
      show "u \<le> terms b d" if "(d, u) \<in> leaders (members s')" for d u
        using that i(2) t(1) by (auto simp: leaders_sim_def b s')
      fix d assume d: "Role (peer s' d) = Leader"
      have "entries b d = history b (terms b d) \<and> (d, terms b d, history b (terms b d)) \<in> stored b \<and>
          progress_ok b (terms b d) (peer s' d)"
      proof (cases "d = c")
        case True
        have "progress_ok b t rn"
          unfolding progress_ok_def r using last_state(2) [OF t(3)] t(2)
          by (auto simp: fold_mput_const credited_def b split: if_splits)
        then show ?thesis using True t(1) by (simp add: b s')
      next
        case False
        then have l: "Role (peer s d) = Leader" using d by (simp add: s')
        have "(d, terms a d) \<in> leaders (members s)" using inv l i(1) by (simp add: inv_defs logs_sim_def)
        then have "terms a d \<in> elected a" using i(2) by (force simp: leaders_sim_def)
        then show ?thesis using i(2) l new progress_extends [OF x] False by (auto simp: leaders_sim_def b s')
      qed
      then show "entries b d = history b (terms b d)" "(d, terms b d, history b (terms b d)) \<in> stored b"
        "progress_ok b (terms b d) (peer s' d)" by simp_all
    qed
    show "candidates_sim s' b"
      unfolding candidates_sim_def
    proof (intro allI impI)
      fix d assume "Role (peer s' d) = Candidate"
      then have d: "d \<noteq> c" "Role (peer s d) = Candidate" using r(3) by (auto simp: s' split: if_splits)
      then have "candidate_ok s a d" using i(3) by (simp add: candidates_sim_def)
      then show "candidate_ok s' b d" using d(1) unfolding candidate_ok_def b s' by auto
    qed
    show "votes_sim s' b" using i(4) by (simp add: votes_sim_def b s')
    show "messages_sim cfg s' b" using messages_extends [OF x i(5)] by (simp add: messages_sim_def s')
    show "commits_sim cfg s' b" using i(6) r(5) commit_held_extends [OF x] by (simp add: commits_sim_def b s')
  qed
  then show ?thesis by (rule simulated_step [OF step])
qed

section \<open>Logs\<close>

lemma whole_append:
  assumes w: "whole m um rl" and run: "AppendLeader m cmd t rl = (Some e, rl')" and e: "codec_ok m um [e]"
  shows "whole m um rl'" and "cache rl' = cache rl @ [e]" and "Term e = t" and "Index e = int (length (cache rl)) + 1"
proof -
  note a = AppendLeader_ok [OF run]
  have wf: "log_wf rl" "wal_ok m rl" "script (wal rl) = []" "lastIncludedIndex rl = 0" "lastIncludedTerm rl = 0" "codec_ok m um (cache rl)"
    using w by (auto simp: whole_def)
  show c: "cache rl' = cache rl @ [e]" using a(2) by auto
  show "Term e = t" "Index e = int (length (cache rl)) + 1" using a(1) log_wfD(2,4) [OF wf(1)] wf(4) by simp_all
  have "script (wal rl') = []"
    using run wf(2,3) a(3)
    by (auto simp: AppendLeader_def writeEntryToDisk_def writeEntryTo_no_faults file_no_faults Let_def split: prod.splits bool.splits)
  then show "whole m um rl'"
    using AppendLeader_wf [OF wf(1) run] AppendLeader_wal [OF wf(2) run] a(2) wf(4-6) e c by (auto simp: whole_def codec_ok_def)
qed

lemma sim_propose:
  assumes sim: "sim m um cfg s a" and ok: "cfg_ok cfg" and inv: "election_inv cfg (members s)"
    and l: "IsLeader (peer s c)" and run: "AppendLeader m cmd (node_CurrentTerm (peer s c)) (rlog s c) = (Some e, rl)"
    and e: "codec_ok m um [e]"
  shows "simulated m um cfg a (s\<lparr>rlog := (rlog s)(c := rl)\<rparr>)" (is "simulated m um cfg a ?s")
proof -
  note i = simD [OF sim]
  let ?t = "terms a c"
  let ?L = "history a ?t @ [e]"
  have r: "Role (peer s c) = Leader" using l by (simp add: IsLeader_def)
  have t: "?t = termOf (peer s c)" "entries a c = cache (rlog s c)" "whole m um (rlog s c)" using i(1) by (auto simp: logs_sim_def)
  have ld: "entries a c = history a ?t" "(c, ?t) \<in> leaders (members s)"
    using i(2) r inv t(1) by (auto simp: leaders_sim_def inv_defs)
  then have el: "?t \<in> elected a" using i(2) by (force simp: leaders_sim_def)
  note w = whole_append [OF t(3) run e]
  have le: "Term e = ?t" "Index e = int (length ?L)" using w(3,4) t ld(1) by (simp_all add: node_CurrentTerm_def)
  define b where "b = a\<lparr>entries := (entries a)(c := ?L), history := (history a)(?t := ?L), stored := insert (c, ?t, ?L) (stored a)\<rparr>"
  have b: "terms b = terms a" "entries b = (entries a)(c := ?L)" "elected b = elected a" "history b = (history a)(?t := ?L)"
      "stored b = insert (c, ?t, ?L) (stored a)" "ballots b = ballots a" by (simp_all add: b_def)
  have step: "protocol_step (quorum_of cfg) a b" unfolding b_def by (rule protocol_step.append [OF el refl ld(1) refl le])
  note x = step_extends [OF step]
  have "codec_ok m um (history a ?t)" using i(1) el by (simp add: logs_sim_def)
  then have cod: "codec_ok m um ?L" using e by (auto simp: codec_ok_def)
  have "sim m um cfg ?s b"
    unfolding sim_def
  proof (intro conjI)
    show "logs_sim m um ?s b" using i(1) w(1,2) t ld(1) cod unfolding logs_sim_def b by auto
    show "leaders_sim ?s b"
      unfolding leaders_sim_def
    proof (intro conjI allI impI)
      show "elected b = snd ` leaders (members ?s)" "\<And>d u. (d, u) \<in> leaders (members ?s) \<Longrightarrow> u \<le> terms b d"
        using i(2) by (simp_all add: leaders_sim_def b)
      fix d assume d: "Role (peer ?s d) = Leader"
      then have old: "entries a d = history a (terms a d)" "(d, terms a d, history a (terms a d)) \<in> stored a"
          "progress_ok a (terms a d) (peer s d)" using i(2) by (auto simp: leaders_sim_def)
      have dl: "(d, terms a d) \<in> leaders (members s)" using inv d i(1) by (simp add: inv_defs logs_sim_def)
      then have "terms a d \<in> elected a" using i(2) by (force simp: leaders_sim_def)
      then show "progress_ok b (terms b d) (peer ?s d)" using progress_extends [OF x _ old(3)] by (simp add: b)
      have "d = c" if "terms a d = ?t" using one_leader [OF ok inv dl] that ld(2) by simp
      then show "entries b d = history b (terms b d)" "(d, terms b d, history b (terms b d)) \<in> stored b"
        using old by (auto simp: b)
    qed
    show "candidates_sim ?s b"
      unfolding candidates_sim_def
    proof (intro allI impI)
      fix d assume "Role (peer ?s d) = Candidate"
      then have "d \<noteq> c" "candidate_ok s a d" using i(3) r by (auto simp: candidates_sim_def)
      then show "candidate_ok ?s b d" unfolding candidate_ok_def b by simp
    qed
    show "votes_sim ?s b" using i(4) by (simp add: votes_sim_def b)
    show "messages_sim cfg ?s b" using messages_extends [OF x i(5)] by (simp add: messages_sim_def)
    show "commits_sim cfg ?s b" using i(6) commit_held_extends [OF x] ld(1) by (simp add: commits_sim_def b)
  qed
  then show ?thesis by (rule simulated_step [OF step])
qed

lemma sim_send:
  assumes sim: "sim m um cfg s a" and inv: "election_inv cfg (members s)" and l: "IsLeader (peer s c)"
  shows "sim m um cfg (s\<lparr>sent := insert (appendRequest (rlog s c) p (peer s c)) (sent s)\<rparr>) a" (is "sim m um cfg ?s a")
proof -
  note i = simD [OF sim]
  let ?req = "appendRequest (rlog s c) p (peer s c)" and ?rl = "rlog s c" and ?k = "NextIndexFor (peer s c) p"
  have r: "Role (peer s c) = Leader" using l by (simp add: IsLeader_def)
  have t: "terms a c = termOf (peer s c)" "entries a c = cache ?rl" "whole m um ?rl" using i(1) by (auto simp: logs_sim_def)
  let ?H = "history a (terms a c)"
  have ld: "cache ?rl = ?H" "progress_ok a (terms a c) (peer s c)" "(c, terms a c) \<in> leaders (members s)"
    using i(2) r inv t by (auto simp: leaders_sim_def inv_defs)
  have el: "terms a c \<in> elected a" using i(2) ld(3) by (force simp: leaders_sim_def)
  have wf: "log_wf ?rl" "lastIncludedIndex ?rl = 0" "firstIndex ?rl = 1" using t(3) by (auto simp: whole_def log_wf_def)
  have k: "1 \<le> ?k" "?k \<le> int (length ?H) + 1"
    using ld(2) NextIndexFor_pos by (auto simp: progress_ok_def NextIndexFor_def mget0_mget Let_def split: option.splits)
  define n where "n = nat (?k - 1)"
  have n: "?k = int n + 1" "n \<le> length ?H" using k by (auto simp: n_def)
  have "ae_PrevLogTerm ?req = lastTermOf (take n ?H)"
  proof (cases n)
    case (Suc j)
    then have "getEntryLocked ?rl (?k - 1) = Some (?H ! j)" using n wf(3) ld(1) by (simp add: getEntryLocked_def Let_def)
    then have "TermAt ?rl (?k - 1) = Term (?H ! j)" using n Suc wf(2) by (simp add: TermAt_def)
    then show ?thesis using n Suc by (simp add: request_fields lastTermOf_def take_Suc_conv_app_nth)
  qed (use n in \<open>simp add: request_fields lastTermOf_def\<close>)
  moreover have "ae_Entries ?req = drop n ?H" using n wf(3) ld(1) by (auto simp: request_fields GetEntriesFrom_def Let_def)
  moreover have "commit_known cfg a (terms a c) (CommitIndex (peer s c))"
    using i(6) by (auto simp: commits_sim_def commit_held_def commit_known_def)
  ultimately have "sent_ok cfg a ?req"
    unfolding sent_ok_def using el t(1) n by (auto simp: request_fields intro!: exI [of _ n] exI [of _ ?H])
  then have "messages_sim cfg ?s a" using i(5) by (auto simp: messages_sim_def)
  then show ?thesis
    using i unfolding sim_def logs_sim_def leaders_sim_def candidates_sim_def candidate_ok_def votes_sim_def commits_sim_def by simp
qed

section \<open>Replication\<close>

lemma mergeLog_prefix:
  assumes "\<And>i. i < length xs \<Longrightarrow> i < length ys \<Longrightarrow> Term (xs ! i) = Term (ys ! i) \<Longrightarrow> xs ! i = ys ! i"
  shows "mergeLog xs ys = (if prefix ys xs then xs else ys)"
  using assms
proof (induction xs ys rule: mergeLog.induct)
  case (3 x xs y ys)
  have hd: "x = y" if "Term x = Term y" using "3.prems" [of 0] that by simp
  have tl: "xs ! i = ys ! i" if "i < length xs" "i < length ys" "Term (xs ! i) = Term (ys ! i)" for i
    using "3.prems" [of "Suc i"] that by simp
  show ?case
  proof (cases "Term x = Term y")
    case True
    then have "mergeLog xs ys = (if prefix ys xs then xs else ys)" using "3.IH" tl by blast
    then show ?thesis using True hd by simp
  qed auto
qed auto

lemma merge_takeOver:
  assumes "coherent a L" and "coherent a P" and n: "n \<le> length P" "n \<le> length L" and "take n L = take n P"
  shows "take n L @ mergeLog (drop n L) (drop n P) = takeOver P L"
proof -
  have "drop n L ! i = drop n P ! i" if i: "i < length (drop n L)" "i < length (drop n P)" "Term (drop n L ! i) = Term (drop n P ! i)" for i
  proof -
    let ?k = "Suc (n + i)"
    have len: "n + i < length L" "n + i < length P" using i by auto
    then have "lastTermOf (take ?k L) = lastTermOf (take ?k P)" using i(3) n by (simp add: lastTermOf_def take_Suc_conv_app_nth)
    then have "take ?k L = take ?k P"
      using coherent_match [OF assms(1,2) take_is_prefix take_is_prefix] len by simp
    then have "take ?k L ! (n + i) = take ?k P ! (n + i)" by simp
    then show ?thesis using n by simp
  qed
  then have "mergeLog (drop n L) (drop n P) = (if prefix (drop n P) (drop n L) then drop n L else drop n P)"
    by (rule mergeLog_prefix)
  moreover have "prefix P L \<longleftrightarrow> prefix (drop n P) (drop n L)"
    by (metis append_take_drop_id assms(5) same_prefix_prefix)
  ultimately show ?thesis unfolding takeOver_def by (metis append_take_drop_id assms(5))
qed

lemma checked_match:
  assumes w: "whole m um rl" and chk: "consistencyCheck rl (int n) (lastTermOf (take n P)) = None"
    and c: "coherent a (cache rl)" "coherent a P" and n: "n \<le> length P"
  shows "n \<le> length (cache rl)" and "take n (cache rl) = take n P"
proof -
  have wf: "log_wf rl" "lastIncludedIndex rl = 0" "firstIndex rl = 1" using w by (auto simp: whole_def log_wf_def)
  show len: "n \<le> length (cache rl)"
    using check_passed(2) [OF wf(1) _ chk] wf(2,3) log_wfD(4) [OF wf(1)] by simp
  have "lastTermOf (take n (cache rl)) = lastTermOf (take n P)"
  proof (cases n)
    case (Suc j)
    then have "getEntryLocked rl (int n) = Some (cache rl ! j)" using wf(3) len by (simp add: getEntryLocked_def Let_def)
    then have "Term (cache rl ! j) = lastTermOf (take n P)"
      using chk Suc wf(2) by (auto simp: consistencyCheck_def entryOrZero_def Let_def split: if_splits)
    then show ?thesis using len Suc by (simp add: lastTermOf_def take_Suc_conv_app_nth)
  qed simp
  then show "take n (cache rl) = take n P"
    using coherent_match [OF c take_is_prefix take_is_prefix] len n by simp
qed

text \<open>The receiver's log takes over what the request carries, or stays.\<close>

lemma receive_log:
  assumes w: "whole m um rl" and c: "coherent a (cache rl)" "coherent a P" and ix: "contig 1 P" and cod: "codec_ok m um P"
    and n: "n \<le> length P" and run: "AppendEntriesToLog m (int n) (lastTermOf (take n P)) (drop n P) rl = (r, rl')"
  shows "\<not> ar_ok r \<Longrightarrow> rl' = rl"
    and "ar_ok r \<Longrightarrow> whole m um rl' \<and> cache rl' = takeOver P (cache rl) \<and> ar_matchIndex r = int (length P)"
proof -
  have wf: "log_wf rl" "wal_ok m rl" "script (wal rl) = []" "lastIncludedIndex rl = 0" "lastIncludedTerm rl = 0" "codec_ok m um (cache rl)"
    using w by (auto simp: whole_def)
  have o: "isOpen (wal rl)" using wf(2) by (simp add: wal_ok_def wal_matches_def)
  have es: "contig (int n + 1) (drop n P)" "lastIncludedIndex rl \<le> int n" using contig_drop [OF ix n] wf(4) by (simp_all add: add.commute)
  show "rl' = rl" if "\<not> ar_ok r"
  proof -
    have "consistencyCheck rl (int n) (lastTermOf (take n P)) \<noteq> None"
      using append_entries_no_faults [OF wf(1) o wf(3) es] run that by (metis fst_conv)
    then show ?thesis using run by (auto simp: AppendEntriesToLog_def)
  qed
  assume ok: "ar_ok r"
  note g = append_entries_merge [OF wf(1,2) es run ok] and chk = append_entries_cases(1) [OF run ok]
  note k = checked_match [OF w chk c n]
  have ca: "cache rl' = takeOver P (cache rl)"
    using g merge_takeOver [OF c n k] wf(4) by simp
  have "script (wal rl') = []"
  proof -
    obtain n' rl1 where s: "spliceEntries m (drop n P) 0 rl = (True, n', rl1)" "isOpen (wal rl1)" "script (wal rl1) = []"
      using splice_no_faults [OF wf(1) o wf(3) es(1) check_passed [OF wf(1) es(2) chk]] by blast
    with run chk show ?thesis by (auto simp: AppendEntriesToLog_def file_no_faults split: if_splits)
  qed
  moreover have "codec_ok m um (cache rl')" using ca cod wf(6) by (auto simp: takeOver_def)
  moreover have "lastIncludedIndex rl' = 0" using g log_wfD(2) [of rl'] log_wfD(2) [OF wf(1)] wf(4) by simp
  ultimately show "whole m um rl' \<and> cache rl' = takeOver P (cache rl) \<and> ar_matchIndex r = int (length P)"
    using g ca wf(5) n by (simp add: whole_def)
qed

lemma sim_answer:
  assumes "sim m um cfg s a" and "req \<in> sent s"
    and "aer_Success resp \<Longrightarrow> credited a v (ae_Term req) (aer_MatchIndex resp)"
  shows "sim m um cfg (s\<lparr>answers := insert (v, req, resp) (answers s)\<rparr>) a"
proof -
  note i = simD [OF assms(1)]
  have "messages_sim cfg (s\<lparr>answers := insert (v, req, resp) (answers s)\<rparr>) a"
    using i(5) assms(2,3) by (auto simp: messages_sim_def)
  then show ?thesis
    using i unfolding sim_def logs_sim_def leaders_sim_def candidates_sim_def candidate_ok_def votes_sim_def commits_sim_def by simp
qed

text \<open>A follower in the leader's term takes over a prefix of the leader's log.\<close>

lemma sim_takeOver:
  assumes sim: "sim m um cfg s a" and inv: "protocol_inv (quorum_of cfg) a" and ok: "cfg_ok cfg"
    and t: "t \<in> elected a" "terms a v = t" "Role (peer s v) = Follower" and P: "prefix P (history a t)"
    and w: "whole m um rl" "cache rl = takeOver P (entries a v)"
    and b: "b = a\<lparr>entries := (entries a)(v := takeOver P (entries a v)), stored := insert (v, t, P) (stored a)\<rparr>"
  shows "protocol_step (quorum_of cfg) a b" and "sim m um cfg (s\<lparr>rlog := (rlog s)(v := rl)\<rparr>) b" (is "sim m um cfg ?s b")
proof -
  note i = simD [OF sim]
  show step: "protocol_step (quorum_of cfg) a b" unfolding b by (rule protocol_step.accept [OF t(1,2) P])
  note x = step_extends [OF step]
  show "sim m um cfg ?s b"
    unfolding sim_def
  proof (intro conjI)
    show "logs_sim m um ?s b" using i(1) w by (auto simp: logs_sim_def b)
    show "leaders_sim ?s b"
    proof -
      have "history b = history a" by (simp add: b)
      then have "progress_ok a u rn \<Longrightarrow> progress_ok b u rn" for u rn
        using credited_extends [OF x] by (auto simp: progress_ok_def)
      then show ?thesis using i(2) t(3) unfolding leaders_sim_def b by auto
    qed
    show "candidates_sim ?s b"
      unfolding candidates_sim_def
    proof (intro allI impI)
      fix d assume "Role (peer ?s d) = Candidate"
      then have "d \<noteq> v" "candidate_ok s a d" using i(3) t(3) by (auto simp: candidates_sim_def)
      then show "candidate_ok ?s b d" unfolding candidate_ok_def b by simp
    qed
    show "votes_sim ?s b" using i(4) by (simp add: votes_sim_def b)
    show "messages_sim cfg ?s b" using messages_extends [OF x i(5)] by (simp add: messages_sim_def)
    have "commit_held cfg b v (CommitIndex (peer s v))"
    proof (cases "CommitIndex (peer s v) \<le> 0")
      case False
      let ?k = "nat (CommitIndex (peer s v))"
      obtain t0 Q where q: "t0 \<le> t" "committed (quorum_of cfg) a t0 Q" "CommitIndex (peer s v) \<le> int (length Q)"
          "prefix (take ?k Q) (entries a v)"
        using i(6) False t(2) by (auto simp: commits_sim_def commit_held_def)
      have "prefix Q (history a t)" by (rule sq.committed_history [OF ok inv q(2) t(1) q(1)])
      then have "prefix (take ?k Q) (takeOver P (entries a v))"
        using takeOver_keeps [OF _ q(4) P] prefix_order.trans take_is_prefix by blast
      then show ?thesis using q sq.committed_extends [OF x q(2)] t(2) by (auto simp: commit_held_def b)
    qed (simp add: commit_held_def)
    moreover have "commit_held cfg b u (CommitIndex (peer s u))" if "u \<noteq> v" for u
      by (rule commit_held_extends [OF x]) (use i(6) that in \<open>simp_all add: commits_sim_def b\<close>)
    ultimately show "commits_sim cfg ?s b" unfolding commits_sim_def by simp metis
  qed
qed

lemma sim_receive:
  assumes sim: "sim m um cfg s a" and inv: "protocol_inv (quorum_of cfg) a" and ok: "cfg_ok cfg"
    and req: "req \<in> sent s" and run: "HandleAppendEntries m now req (rlog s v) (peer s v) = (resp, rl, rn)"
  shows "simulated m um cfg a ((setNode v rn s)\<lparr>rlog := (rlog s)(v := rl), answers := insert (v, req, resp) (answers s)\<rparr>)"
proof -
  note i = simD [OF sim] and ih = protocol_invD [OF inv]
  let ?t = "ae_Term req"
  have so: "sent_ok cfg a req" using i(5) req by (simp add: messages_sim_def)
  then obtain n P where el: "?t \<in> elected a" "commit_known cfg a ?t (ae_LeaderCommit req)"
    and P: "prefix P (history a ?t)" "n \<le> length P"
    and fields: "ae_PrevLogIndex req = int n" "ae_PrevLogTerm req = lastTermOf (take n P)" "ae_Entries req = drop n P"
    by (auto simp: sent_ok_def)
  have quietly: "simulated m um cfg a ((setNode v rn' s)\<lparr>rlog := (rlog s)(v := rlog s v), answers := insert (v, req, resp) (answers s)\<rparr>)"
    if st: "still (peer s v) rn'" and no: "\<not> aer_Success resp" for rn'
  proof -
    have "sim m um cfg ((setNode v rn' s)\<lparr>answers := insert (v, req, resp) (answers (setNode v rn' s))\<rparr>)
        (a\<lparr>terms := (terms a)(v := termOf rn')\<rparr>)"
      by (rule sim_answer [OF sim_still [OF sim st]]) (use req no in simp_all)
    moreover have "protocol_step (quorum_of cfg) a (a\<lparr>terms := (terms a)(v := termOf rn')\<rparr>)"
      by (rule raise_step [OF sim]) (use st in \<open>simp add: still_def\<close>)
    ultimately show ?thesis using simulated_step by simp
  qed
  have w: "whole m um (rlog s v)" "cache (rlog s v) = entries a v" "coherent a (entries a v)"
    using i(1) ih(2) by (auto simp: logs_sim_def logs_ok_def)
  have h: "coherent a P" "contig 1 P" "codec_ok m um P"
  proof -
    show c: "coherent a P" using ih(2) el(1) coherent_prefix [OF _ P(1)] by (simp add: logs_ok_def)
    show "contig 1 P" by (rule coherent_sorted(2) [OF ih(1) c])
    show "codec_ok m um P" using i(1) el(1) set_mono_prefix [OF P(1)] by (auto simp: logs_sim_def codec_ok_def)
  qed
  note log = receive_log [OF w(1) w(3) [folded w(2)] h P(2)]
  from run show ?thesis
  proof (cases rule: append_entries_branches)
    case Stale
    then show ?thesis using quietly [of "peer s v"] by (simp add: still_def)
  next
    case Unsaved
    then show ?thesis using quietly [OF still_accept] by simp
  next
    case (Refused r rn1)
    then have "rl = rlog s v" using log(1) fields by simp
    moreover have "still (peer s v) rn" using still_accept [OF Refused(2)] Refused(5) by (simp add: still_def)
    ultimately show ?thesis using quietly Refused(6) by simp
  next
    case (Spliced r rn1)
    have l: "whole m um rl" "cache rl = takeOver P (entries a v)" "ar_matchIndex r = int (length P)"
      using log(2) [OF Spliced(3) [unfolded fields] Spliced(4)] w(2) by simp_all
    have st: "still (peer s v) (rn1\<lparr>lastContact := now\<rparr>)" using still_accept [OF Spliced(2)] by (simp add: still_def)
    have f: "termOf rn1 = ?t" "Role rn1 = Follower" using acceptLeader_steps(2) [OF Spliced(2,1)] by simp_all
    let ?s1 = "setNode v (rn1\<lparr>lastContact := now\<rparr>) s" and ?a1 = "a\<lparr>terms := (terms a)(v := ?t)\<rparr>"
    have sim1: "sim m um cfg ?s1 ?a1" using sim_still [OF sim st] f(1) by simp
    have step1: "protocol_step (quorum_of cfg) a ?a1" by (rule raise_step [OF sim]) (use Spliced(1) in simp)
    define b where "b = ?a1\<lparr>entries := (entries ?a1)(v := takeOver P (entries ?a1 v)), stored := insert (v, ?t, P) (stored ?a1)\<rparr>"
    have t2: "protocol_step (quorum_of cfg) ?a1 b" "sim m um cfg (?s1\<lparr>rlog := (rlog ?s1)(v := rl)\<rparr>) b"
      using sim_takeOver [OF sim1 protocol_step_inv [OF step1 inv] ok _ _ _ _ l(1) _ b_def] el(1) f P(1) l(2) by simp_all
    let ?s2 = "?s1\<lparr>rlog := (rlog ?s1)(v := rl)\<rparr>"
    have inv2: "protocol_inv (quorum_of cfg) b" by (rule protocol_step_inv [OF t2(1) protocol_step_inv [OF step1 inv]])
    have x: "extends a b" by (rule extends_trans [OF step_extends [OF step1] step_extends [OF t2(1)]])
    have bf: "terms b v = ?t" "entries b v = takeOver P (entries a v)" "history b = history a" "elected b = elected a"
      by (simp_all add: b_def)
    have "sim m um cfg (setNode v rn ?s2) (b\<lparr>terms := (terms b)(v := termOf rn)\<rparr>)"
    proof (rule sim_node [OF t2(2)])
      show "terms b v \<le> termOf rn" "Role rn = Follower \<or> Role rn = Role (peer ?s2 v) \<and> termOf rn = terms b v"
        "Role rn = Leader \<Longrightarrow> progress_ok b (terms b v) rn"
        using Spliced(5) f bf(1) by (auto simp: setFollowerCommitIndexLocked_def Let_def)
      have old: "commit_held cfg b v (CommitIndex rn1)"
        using simD(6) [OF t2(2), unfolded commits_sim_def, rule_format, of v] by simp
      have new: "commit_held cfg b v (min (ae_LeaderCommit req) (int (length P)))"
      proof (cases "ae_LeaderCommit req \<le> 0")
        case False
        then obtain t0 Q where q: "t0 \<le> ?t" "committed (quorum_of cfg) b t0 Q" "ae_LeaderCommit req \<le> int (length Q)"
          using commit_known_extends [OF x el(2) order_refl] by (auto simp: commit_known_def)
        let ?k = "min (ae_LeaderCommit req) (int (length P))"
        have "prefix Q (history a ?t)" using sq.committed_history [OF ok inv2 q(2) _ q(1)] el(1) bf by simp
        then have "prefix (take (nat ?k) Q) (history a ?t)" using prefix_order.trans take_is_prefix by blast
        then have "prefix (take (nat ?k) Q) P" by (rule prefix_length_prefix [OF _ P(1)]) simp
        then have "prefix (take (nat ?k) Q) (entries b v)" using takeOver_prefix prefix_order.trans bf(2) by metis
        then show ?thesis using q bf(1) by (auto simp: commit_held_def)
      qed (simp add: commit_held_def min_def)
      show "commit_held cfg b v (CommitIndex rn)"
        using old new Spliced(5) l(3) by (auto simp: setFollowerCommitIndexLocked_def Let_def min_def split: if_splits)
    qed
    moreover have "(terms b)(v := termOf rn) = terms b"
      using Spliced(5) f(1) bf(1) by (auto simp: setFollowerCommitIndexLocked_def Let_def)
    ultimately have "sim m um cfg (setNode v rn ?s2) b" by simp
    moreover have "credited b v ?t (aer_MatchIndex resp)" using Spliced(8) l(3) by (auto simp: credited_def b_def)
    ultimately have "sim m um cfg ((setNode v rn ?s2)\<lparr>answers := insert (v, req, resp) (answers (setNode v rn ?s2))\<rparr>) b"
      using sim_answer [of m um cfg "setNode v rn ?s2" b req resp v] req by simp
    moreover have "(setNode v rn ?s2)\<lparr>answers := insert (v, req, resp) (answers (setNode v rn ?s2))\<rparr> =
        (setNode v rn s)\<lparr>rlog := (rlog s)(v := rl), answers := insert (v, req, resp) (answers s)\<rparr>"
      by (rule Network.equality) simp_all
    ultimately show ?thesis using simulated_trans [OF step1 simulated_step [OF t2(1)]] by metis
  qed
qed

lemma sim_reply:
  assumes sim: "sim m um cfg s a" and inv: "protocol_inv (quorum_of cfg) a" and ans: "(p, req, resp) \<in> answers s"
    and t: "IsLeader (peer s c) \<longrightarrow> node_CurrentTerm (peer s c) = ae_Term req"
    and run: "appendReply (ae_Term req) p resp (peer s c) = (u, rn)"
  shows "sim m um cfg (setNode c rn s) a"
proof -
  note i = simD [OF sim]
  have same: "persistent rn = persistent (peer s c)" "Role rn = Role (peer s c)" "CommitIndex rn = CommitIndex (peer s c)"
    using run by (auto simp: appendReply_def UpdatePeerProgress_def BacktrackNextIndex_def Let_def split: if_splits)
  have tc: "terms a c = termOf (peer s c)" using i(1) by (simp add: logs_sim_def)
  have "sim m um cfg (setNode c rn s) (a\<lparr>terms := (terms a)(c := termOf rn)\<rparr>)"
  proof (rule sim_node [OF sim])
    show "terms a c \<le> termOf rn" "Role rn = Follower \<or> Role rn = Role (peer s c) \<and> termOf rn = terms a c"
      using same tc by auto
    show "commit_held cfg a c (CommitIndex rn)" using i(6) same(3) by (simp add: commits_sim_def)
    assume "Role rn = Leader"
    then have l: "Role (peer s c) = Leader" "terms a c = ae_Term req" using same t tc by (auto simp: IsLeader_def node_CurrentTerm_def)
    have pr: "progress_ok a (terms a c) (peer s c)" using i(2) l(1) by (simp add: leaders_sim_def)
    have cr: "credited a p (terms a c) (aer_MatchIndex resp)" if "aer_Success resp"
      using i(5) ans that l(2) by (auto simp: messages_sim_def)
    have len: "aer_MatchIndex resp \<le> int (length (history a (terms a c)))" if succ: "aer_Success resp"
    proof (cases "aer_MatchIndex resp \<le> 0")
      case False
      then obtain P where "(p, terms a c, P) \<in> stored a" "aer_MatchIndex resp \<le> int (length P)"
        using cr [OF succ] by (auto simp: credited_def)
      moreover from this(1) have "length P \<le> length (history a (terms a c))"
        using protocol_invD(3) [OF inv] by (auto simp: stored_ok_def dest!: prefix_length_le)
      ultimately show ?thesis by simp
    qed simp
    show "progress_ok a (terms a c) rn"
    proof (cases "aer_Success resp \<and> aer_Term resp \<le> ae_Term req")
      case True
      then have "rn = UpdatePeerProgress p (aer_MatchIndex resp) (peer s c)" using run by (simp add: appendReply_def split: if_splits)
      then show ?thesis using pr cr len True
        by (auto simp: progress_ok_def UpdatePeerProgress_def Let_def gm.lookup_put gm.wf_put split: if_splits)
    next
      case False
      have "rn = peer s c \<or> rn = BacktrackNextIndex p (aer_ConflictIndex resp) (peer s c)"
        using run False by (auto simp: appendReply_def split: if_splits)
      then show ?thesis
      proof
        assume "rn = BacktrackNextIndex p (aer_ConflictIndex resp) (peer s c)"
        then show ?thesis using pr by (fastforce simp: progress_ok_def BacktrackNextIndex_def Let_def gm.lookup_put
              mget0_mget split: if_splits option.splits)
      qed (use pr in simp)
    qed
  qed
  then show ?thesis using same(1) tc by (simp add: fun_upd_idem)
qed

section \<open>Commitment\<close>

lemma advance_quorum:
  assumes run: "AdvanceCommitIndex latest termAt t rn = (r, rn')" and cfg: "cfg_ok (config rn)" and wf: "mwf (MatchIndex rn)"
    and moved: "CommitIndex rn' \<noteq> CommitIndex rn"
  shows "Role rn = Leader" and "termAt (CommitIndex rn') = t" and "quorum_of (config rn) (knownMatch rn latest (CommitIndex rn'))"
proof -
  define mi where "mi = mput (nodeID rn) latest (MatchIndex rn)"
  have copy: "fold (\<lambda>(i, idx). mput i idx) (MatchIndex rn) [] = MatchIndex rn"
    using fold_mput_append [of "[]" "MatchIndex rn"] wf by (simp add: mwf_def)
  have n: "Role rn = Leader" "CommitIndex rn' = QuorumIndex (config rn) mi" "termAt (CommitIndex rn') = t"
    using run moved by (auto simp: AdvanceCommitIndex_def copy mi_def [symmetric] Let_def split: if_splits)
  then show "Role rn = Leader" "termAt (CommitIndex rn') = t" by simp_all
  have "holders mi N = knownMatch rn latest N" for N by (auto simp: holders_def knownMatch_def mi_def)
  then show "quorum_of (config rn) (knownMatch rn latest (CommitIndex rn'))"
    using QuorumIndex_ge_iff [OF cfg, of "QuorumIndex (config rn) mi" mi] n(2) by simp
qed

lemma sim_commit:
  assumes sim: "sim m um cfg s a" and pi: "protocol_inv (quorum_of cfg) a" and ok: "cfg_ok cfg" and inv: "election_inv cfg (members s)"
    and run: "AdvanceCommitIndex (LatestIndex (rlog s c)) (TermAt (rlog s c)) (node_CurrentTerm (peer s c)) (peer s c) = (r, rn)"
  shows "sim m um cfg (setNode c rn s) a"
proof (cases "CommitIndex rn = CommitIndex (peer s c)")
  case True
  then have "rn = peer s c" using run by (auto simp: AdvanceCommitIndex_def Let_def split: if_splits)
  then show ?thesis using sim by simp
next
  case False
  note i = simD [OF sim]
  let ?t = "terms a c" and ?N = "CommitIndex rn" and ?rl = "rlog s c"
  let ?H = "history a ?t"
  have tc: "?t = termOf (peer s c)" "entries a c = cache ?rl" "whole m um ?rl" using i(1) by (auto simp: logs_sim_def)
  have id: "nodeID (peer s c) = c" "config (peer s c) = cfg" using inv by (simp_all add: inv_defs)
  have lead: "Role (peer s c) = Leader" using run False by (auto simp: AdvanceCommitIndex_def Let_def split: if_splits)
  have ld: "entries a c = ?H" "(c, ?t, ?H) \<in> stored a" "progress_ok a ?t (peer s c)"
    using i(2) lead by (auto simp: leaders_sim_def)
  have "(c, ?t) \<in> leaders (members s)" using inv lead tc(1) by (simp add: inv_defs)
  then have el: "?t \<in> elected a" using i(2) by (force simp: leaders_sim_def)
  have t1: "1 \<le> ?t" using protocol_invD(1) [OF pi] el by (simp add: history_ok_def)
  have q: "TermAt ?rl ?N = ?t" "quorum_of cfg (knownMatch (peer s c) (int (length ?H)) ?N)"
    using advance_quorum [OF run _ _ False] ok id ld(1,3) last_state(2) [OF tc(3)] tc by (auto simp: progress_ok_def node_CurrentTerm_def)
  obtain e where e: "getEntryLocked ?rl ?N = Some e" "Term e = ?t"
    using q(1) t1 tc(3) by (auto simp: TermAt_def whole_def split: if_splits option.splits)
  then have N: "1 \<le> ?N" "?N \<le> int (length ?H)" "?H ! nat (?N - 1) = e"
    using tc ld(1) by (auto simp: getEntryLocked_def whole_def log_wf_def Let_def split: if_splits)
  let ?P = "take (nat ?N) ?H"
  have P: "?P \<noteq> []" "length ?P = nat ?N" using N by auto
  have "last ?P = ?H ! nat (?N - 1)" using N(1,2) P by (simp add: last_conv_nth nat_diff_distrib)
  then have last: "Term (last ?P) = ?t" using N(3) e(2) by simp
  have "knownMatch (peer s c) (int (length ?H)) ?N \<subseteq> {v. \<exists>Q. (v, ?t, Q) \<in> stored a \<and> prefix ?P Q}"
  proof
    fix v assume v: "v \<in> knownMatch (peer s c) (int (length ?H)) ?N"
    have "\<exists>Q. (v, ?t, Q) \<in> stored a \<and> ?N \<le> int (length Q)"
    proof (cases "v = c")
      case True
      then show ?thesis using ld(2) N(2) by blast
    next
      case False
      then obtain k where "mget (MatchIndex (peer s c)) v = Some k" "?N \<le> k"
        using v N(1) id(1) by (auto simp: knownMatch_def mget0_mget split: option.splits)
      then show ?thesis using ld(3) N(1) unfolding progress_ok_def credited_def by fastforce
    qed
    then obtain Q where Q: "(v, ?t, Q) \<in> stored a" "?N \<le> int (length Q)" by blast
    then have "prefix Q ?H" using protocol_invD(3) [OF pi] by (auto simp: stored_ok_def)
    then have "prefix ?P Q" by (rule prefix_length_prefix [OF take_is_prefix]) (use Q(2) P(2) in simp)
    with Q(1) show "v \<in> {v. \<exists>Q. (v, ?t, Q) \<in> stored a \<and> prefix ?P Q}" by blast
  qed
  then have "quorum_of cfg {v. \<exists>Q. (v, ?t, Q) \<in> stored a \<and> prefix ?P Q}" by (rule cq.quorum_mono [OF q(2)])
  then have "committed (quorum_of cfg) a ?t ?P" using el P(1) last by (simp add: committed_def take_is_prefix)
  moreover have "?N \<le> int (length ?P)" "prefix (take (nat ?N) ?P) (entries a c)"
    using N(1) P(2) ld(1) by (simp_all add: take_is_prefix)
  ultimately have held: "commit_held cfg a c ?N" unfolding commit_held_def by blast
  have rn: "rn = (peer s c)\<lparr>CommitIndex := ?N\<rparr>"
    using run False by (auto simp: AdvanceCommitIndex_def Let_def split: if_splits)
  have "sim m um cfg (setNode c rn s) (a\<lparr>terms := (terms a)(c := termOf rn)\<rparr>)"
  proof (rule sim_node [OF sim])
    show "terms a c \<le> termOf rn" "Role rn = Follower \<or> Role rn = Role (peer s c) \<and> termOf rn = terms a c"
      by (subst rn, simp add: tc(1))+
    show "progress_ok a (terms a c) rn" by (subst rn) (use ld(3) in \<open>simp add: progress_ok_def\<close>)
  qed (rule held)
  moreover have "termOf rn = terms a c" by (subst rn) (simp add: tc(1))
  ultimately show ?thesis by (simp add: fun_upd_idem)
qed

section \<open>Restart\<close>

lemma whole_opened: "contig 1 es \<Longrightarrow> codec_ok m um es \<Longrightarrow> whole m um (opened m es)"
proof -
  assume a: "contig 1 es" "codec_ok m um es"
  have "log_wf (opened m es) \<and> lastIncludedIndex (opened m es) = 0 \<and> lastIncludedTerm (opened m es) = 0"
  proof (cases "es = []")
    case False
    then have "Index (hd es) = 1" "Index (last es) = int (length es)"
      using a(1) contig_last [OF a(1) False] by (cases es; auto)+
    then show ?thesis using a(1) False by (simp add: opened_def recover_entries freshLog_def log_wf_def positional_def)
  qed (simp add: opened_def freshLog_def log_wf_def positional_def)
  then show ?thesis using a(2) opened_fields [of m es] by (simp add: whole_def)
qed

lemma reopened:
  assumes "whole m um rl" and "crash_image (wal rl) b" and "NewRaftLog um b [] = Inr rl'"
  shows "whole m um rl' \<and> cache rl' = cache rl"
proof -
  have w: "log_wf rl" "wal_ok m rl" "codec_ok m um (cache rl)" "lastIncludedIndex rl = 0" using assms(1) by (auto simp: whole_def)
  have "b = frames m (cache rl)" using w(2) assms(2) crash_image_synced by (auto simp: wal_ok_def wal_matches_def)
  then have "rl' = opened m (cache rl)" using open_image [OF w(3), of b] assms(3) by (simp add: wholeFrames_all)
  moreover have "contig 1 (cache rl)" using log_wfD(1,2) [OF w(1)] w(4) by simp
  ultimately show ?thesis using whole_opened w(3) opened_fields(1) by simp
qed

lemma sim_log:
  assumes sim: "sim m um cfg s a" and "whole m um rl" and "cache rl = cache (rlog s v)"
  shows "sim m um cfg (s\<lparr>rlog := (rlog s)(v := rl)\<rparr>) a" (is "sim m um cfg ?s a")
proof -
  note i = simD [OF sim]
  have "logs_sim m um ?s a" using i(1) assms(2,3) by (simp add: logs_sim_def)
  then show ?thesis
    using i(2-6) unfolding sim_def leaders_sim_def candidates_sim_def candidate_ok_def votes_sim_def messages_sim_def commits_sim_def
    by simp
qed

lemma sim_restart:
  assumes sim: "sim m um cfg s a" and inv: "election_inv cfg (members s)" and ok: "cfg_ok cfg"
    and p: "p \<in> set (mayHold (store (peer s v)))" and run: "restartNode now p os (peer s v) = Inr rn"
    and img: "crash_image (wal (rlog s v)) b" "NewRaftLog um b [] = Inr rl"
  shows "simulated m um cfg a ((setNode v rn s)\<lparr>rlog := (rlog s)(v := rl)\<rparr>)"
proof -
  have d: "durable (peer s v)" "cfg_wf (config (peer s v))" using inv ok by (auto simp: inv_defs cfg_ok_def)
  note r = restart_steps [OF run p d]
  have "CommitIndex rn = 0"
    using run by (auto simp: restartNode_def NewRaftNode_def loadPersistentState_def Let_def split: option.splits sum.splits prod.splits)
  then have st: "still (peer s v) rn" using r(3,5) by (auto simp: still_def ps_le_def)
  have "whole m um (rlog s v)" using simD(1) [OF sim] by (simp add: logs_sim_def)
  then have l: "whole m um rl" "cache rl = cache (rlog (setNode v rn s) v)" using reopened [OF _ img] by simp_all
  have "sim m um cfg ((setNode v rn s)\<lparr>rlog := (rlog (setNode v rn s))(v := rl)\<rparr>) (a\<lparr>terms := (terms a)(v := termOf rn)\<rparr>)"
    by (rule sim_log [OF sim_still [OF sim st] l])
  then show ?thesis
    using simulated_step [OF raise_step [OF sim, of v "termOf rn"]] st by (simp add: still_def)
qed

section \<open>Every step\<close>

lemma net_sim:
  assumes step: "net_step m um s s'" and sim: "sim m um cfg s a" and pi: "protocol_inv (quorum_of cfg) a"
    and ok: "cfg_ok cfg" and inv: "election_inv cfg (members s)" and inv': "election_inv cfg (members s')"
  shows "simulated m um cfg a s'"
  using assms
proof (induction rule: net_step.induct)
  case (campaign now s c r rn)
  show ?case
  proof (cases r)
    case None
    then have "still (peer s c) rn"
      using campaign.hyps(1) by (auto simp: BecomeCandidate_def Let_def still_def split: prod.splits bool.splits dest!: commit_fields)
    then show ?thesis using sim_still_step [OF campaign.prems(1)] None by simp
  next
    case (Some t)
    then show ?thesis
      using sim_campaign [OF campaign.prems(1,4) protocol_invD(2) [OF campaign.prems(2)]] campaign.hyps(1) by simp
  qed
next
  case (vote req s now v resp rn)
  then show ?case using sim_vote by blast
next
  case (tally v t c s won rn)
  have "sim m um cfg (setNode c rn s) (a\<lparr>terms := (terms a)(c := termOf rn)\<rparr>)"
    by (rule sim_still [OF tally.prems(1) still_other(1) [OF tally.hyps(2)]])
  then have "sim m um cfg ((setNode c rn s)\<lparr>members := (members (setNode c rn s))\<lparr>majorities :=
      (if won then insert (c, t) (majorities (members s)) else majorities (members s))\<rparr>\<rparr>)
      (a\<lparr>terms := (terms a)(c := termOf rn)\<rparr>)"
    by (subst sim_majorities)
  then show ?case
    using simulated_step [OF raise_step [OF tally.prems(1), of c "termOf rn"]] still_other(1) [OF tally.hyps(2)]
    by (simp add: still_def)
next
  case (promote c t s promoted rn)
  show ?case
  proof (cases promoted)
    case True
    then show ?thesis
      using sim_promote [OF promote.prems(1,3,4) promote.hyps(1) _ refl] promote.hyps(2) promote.prems(5) by simp
  next
    case False
    then have "rn = peer s c" using leader_steps(5) [OF promote.hyps(2)] by simp
    then show ?thesis using simulated_same [OF promote.prems(1)] False by simp
  qed
next
  case (restart p s v now os rn b rl)
  then show ?case using sim_restart by blast
qed (blast intro: sim_propose simulated_same sim_send sim_receive sim_reply sim_commit sim_still_step still_follow still_other(2))+

end
