(* ===== verification/Cluster_Safety.thy ===== *)
theory Cluster_Safety
  imports Cluster_Log_Sim
begin

text \<open>
  The safety of the cluster: logs match, leaders have what was committed, and no two nodes
  ever apply different commands at one index.
\<close>

section \<open>Runs\<close>

definition protocol_initial :: "Protocol \<Rightarrow> bool" where
  "protocol_initial a \<longleftrightarrow> (\<forall>v. entries a v = []) \<and> elected a = {} \<and> stored a = {} \<and> ballots a = {}"

lemma protocol_initial_inv: "protocol_initial a \<Longrightarrow> protocol_inv quorum a"
  by (simp add: protocol_initial_def protocol_inv_def history_ok_def logs_ok_def coherent_def stored_ok_def ballots_ok_def
      elections_ok_def)

lemma protocol_run_inv:
  "(protocol_step quorum)\<^sup>*\<^sup>* a a' \<Longrightarrow> protocol_inv quorum a \<Longrightarrow> protocol_inv quorum a' \<and> extends a a'"
  by (induction rule: rtranclp_induct) (auto intro: protocol_step_inv extends_trans step_extends)

lemma net_initial_sim:
  assumes "net_initial m um cfg s"
  shows "\<exists>a. protocol_initial a \<and> sim m um cfg s a"
proof -
  let ?a = "\<lparr>terms = (\<lambda>v. termOf (peer s v)), entries = (\<lambda>v. cache (rlog s v)), elected = {}, history = (\<lambda>t. []),
    inherited = (\<lambda>t. []), stored = {}, ballots = {}\<rparr>"
  have "protocol_initial ?a" using assms by (simp add: protocol_initial_def net_initial_def)
  moreover have "logs_sim m um s ?a" "leaders_sim s ?a" "candidates_sim s ?a" "votes_sim s ?a" "messages_sim cfg s ?a"
      "commits_sim cfg s ?a"
    using assms by (simp_all add: net_initial_def initial_def logs_sim_def leaders_sim_def candidates_sim_def votes_sim_def
        messages_sim_def commits_sim_def commit_held_def)
  ultimately show ?thesis by (auto simp: sim_def)
qed

lemma net_step_sim:
  assumes "cfg_ok cfg" and "net_reachable m um cfg s" and "net_step m um s s'" and "sim m um cfg s a" and "protocol_inv (quorum_of cfg) a"
  shows "\<exists>a'. (protocol_step (quorum_of cfg))\<^sup>*\<^sup>* a a' \<and> sim m um cfg s' a'"
  using net_sim [OF assms(3-5,1) net_elections [OF assms(1,2)]] net_elections [OF assms(1) net_reachable.step [OF assms(2,3)]]
  by (simp add: simulated_def)

lemma net_run_sim:
  assumes ok: "cfg_ok cfg" and reach: "net_reachable m um cfg s" and run: "(net_step m um)\<^sup>*\<^sup>* s s'"
    and sim: "sim m um cfg s a" and inv: "protocol_inv (quorum_of cfg) a"
  shows "net_reachable m um cfg s' \<and> (\<exists>a'. (protocol_step (quorum_of cfg))\<^sup>*\<^sup>* a a' \<and> sim m um cfg s' a')"
  using run
proof (induction rule: rtranclp_induct)
  case base
  then show ?case using reach sim by blast
next
  case (step s1 s2)
  then obtain a1 where a1: "(protocol_step (quorum_of cfg))\<^sup>*\<^sup>* a a1" "sim m um cfg s1 a1" by blast
  then have "protocol_inv (quorum_of cfg) a1" using protocol_run_inv inv by blast
  then obtain a2 where "(protocol_step (quorum_of cfg))\<^sup>*\<^sup>* a1 a2" "sim m um cfg s2 a2"
    using net_step_sim [OF ok _ step.hyps(2) a1(2)] step.IH by blast
  then show ?case using a1(1) step net_reachable.step by (meson rtranclp_trans)
qed

lemma net_reachable_sim:
  assumes "cfg_ok cfg" and "net_reachable m um cfg s"
  shows "\<exists>a0 a. protocol_initial a0 \<and> (protocol_step (quorum_of cfg))\<^sup>*\<^sup>* a0 a \<and> sim m um cfg s a"
  using assms(2)
proof induction
  case (start s)
  then show ?case using net_initial_sim by blast
next
  case (step s s')
  then obtain a0 a where a: "protocol_initial a0" "(protocol_step (quorum_of cfg))\<^sup>*\<^sup>* a0 a" "sim m um cfg s a" by blast
  then have "protocol_inv (quorum_of cfg) a" using protocol_run_inv protocol_initial_inv by blast
  from net_step_sim [OF assms(1) step.hyps a(3) this] a(1,2) show ?case by (meson rtranclp_trans)
qed

lemma net_simulated:
  assumes "cfg_ok cfg" and "net_reachable m um cfg s"
  obtains a where "sim m um cfg s a" and "protocol_inv (quorum_of cfg) a"
  using net_reachable_sim [OF assms] protocol_run_inv protocol_initial_inv by blast

section \<open>Entries by index\<close>

lemma sim_entry:
  assumes "sim m um cfg s a"
  shows "GetEntry (rlog s v) j = (if 1 \<le> j \<and> j \<le> int (length (entries a v)) then Some (entries a v ! nat (j - 1)) else None)"
proof -
  have "entries a v = cache (rlog s v)" "whole m um (rlog s v)" using assms by (auto simp: sim_def logs_sim_def)
  then show ?thesis by (auto simp: GetEntry_def getEntryLocked_def whole_def log_wf_def Let_def)
qed

lemma shared_prefix:
  assumes "sim m um cfg s a" and "sim m um cfg s' a'" and "prefix P (entries a u)" and "prefix P (entries a' v)"
    and "1 \<le> j" and "j \<le> int (length P)"
  shows "\<exists>e. GetEntry (rlog s u) j = Some e \<and> GetEntry (rlog s' v) j = Some e"
proof -
  have "entries a u ! nat (j - 1) = P ! nat (j - 1)" "entries a' v ! nat (j - 1) = P ! nat (j - 1)"
    using assms(3-6) by (auto simp: prefix_def nth_append)
  moreover have "j \<le> int (length (entries a u))" "j \<le> int (length (entries a' v))"
    using prefix_length_le [OF assms(3)] prefix_length_le [OF assms(4)] assms(6) by simp_all
  ultimately show ?thesis using assms(5) by (simp add: sim_entry [OF assms(1)] sim_entry [OF assms(2)])
qed

lemma commit_prefix:
  assumes "sim m um cfg s a" and "1 \<le> j" and "j \<le> CommitIndex (peer s v)"
  shows "\<exists>t P. t \<le> terms a v \<and> committed (quorum_of cfg) a t P \<and> j \<le> int (length P) \<and> prefix (take (nat j) P) (entries a v)"
proof -
  obtain t P where "t \<le> terms a v" "committed (quorum_of cfg) a t P" "CommitIndex (peer s v) \<le> int (length P)"
      "prefix (take (nat (CommitIndex (peer s v))) P) (entries a v)"
  proof -
    have "commit_held cfg a v (CommitIndex (peer s v))" using simD(6) [OF assms(1)] by (simp add: commits_sim_def)
    moreover have "\<not> CommitIndex (peer s v) \<le> 0" using assms(2,3) by simp
    ultimately show thesis using that unfolding commit_held_def by blast
  qed
  moreover have "prefix (take (nat j) P) (take (nat (CommitIndex (peer s v))) P)"
    using assms(3) by (metis min.absorb1 nat_mono take_is_prefix take_take)
  ultimately show ?thesis using assms(3) by (meson order_trans prefix_order.trans)
qed

section \<open>Properties\<close>

text \<open>C14. The cluster refines the protocol: to every reachable state of the nodes, their
  write-ahead logs and the messages between them belongs a run of the abstract protocol whose
  servers have the nodes' terms and the entries of their logs, and whose leaders are the
  nodes promoted.\<close>

theorem network_refines_protocol:
  assumes "cfg_ok cfg" and "net_reachable m um cfg s"
  shows "\<exists>a0 a. protocol_initial a0 \<and> (protocol_step (quorum_of cfg))\<^sup>*\<^sup>* a0 a \<and>
    (\<forall>v. terms a v = node_CurrentTerm (peer s v) \<and> entries a v = cache (rlog s v)) \<and>
    elected a = {t. \<exists>c. (c, t) \<in> leaders (members s)}"
proof -
  obtain a0 a where a: "protocol_initial a0" "(protocol_step (quorum_of cfg))\<^sup>*\<^sup>* a0 a" "sim m um cfg s a"
    using net_reachable_sim [OF assms] by blast
  have "\<forall>v. terms a v = node_CurrentTerm (peer s v) \<and> entries a v = cache (rlog s v)"
    using simD(1) [OF a(3)] by (simp add: logs_sim_def node_CurrentTerm_def)
  moreover have "elected a = snd ` leaders (members s)" using simD(2) [OF a(3)] unfolding leaders_sim_def by blast
  then have "elected a = {t. \<exists>c. (c, t) \<in> leaders (members s)}" by force
  ultimately show ?thesis using a(1,2) by blast
qed

text \<open>C13. Log matching: when the logs of two nodes hold entries of one term at one index, they
  are identical in that entry and in all before it, at every moment of every run.\<close>

theorem log_matching:
  assumes "cfg_ok cfg" and "net_reachable m um cfg s"
    and "GetEntry (rlog s u) i = Some e" and "GetEntry (rlog s v) i = Some e'" and "Term e = Term e'" and "j \<le> i"
  shows "GetEntry (rlog s u) j = GetEntry (rlog s v) j"
proof -
  obtain a where a: "sim m um cfg s a" "protocol_inv (quorum_of cfg) a" using net_simulated [OF assms(1,2)] .
  have c: "coherent a (entries a w)" for w using protocol_invD(2) [OF a(2)] by (simp add: logs_ok_def)
  let ?n = "nat i"
  have i: "1 \<le> i" "i \<le> int (length (entries a u))" "i \<le> int (length (entries a v))"
      "entries a u ! (?n - 1) = e" "entries a v ! (?n - 1) = e'"
    using assms(3,4) by (auto simp: sim_entry [OF a(1)] nat_diff_distrib split: if_splits)
  then have "lastTermOf (take ?n (entries a w)) = Term (entries a w ! (?n - 1))" if "i \<le> int (length (entries a w))" for w
    using that by (auto simp: lastTermOf_def last_conv_nth)
  then have "take ?n (entries a u) = take ?n (entries a v)"
    using coherent_match [OF c c take_is_prefix take_is_prefix] i assms(5) by simp
  then have "entries a u ! nat (j - 1) = entries a v ! nat (j - 1)" if "1 \<le> j"
    using that assms(6) i(1) by (metis nth_take diff_less_eq nat_less_eq_zless not_le zle_add1_eq_le zless_nat_conj zero_less_one order_less_le_trans)
  then show ?thesis using i assms(6) by (auto simp: sim_entry [OF a(1)])
qed

text \<open>What is committed, a later leader has, and another server that committed as far.\<close>

lemma committed_entries_led:
  assumes "cfg_ok cfg" and "net_reachable m um cfg s" and "(net_step m um)\<^sup>*\<^sup>* s s'"
    and "1 \<le> j" and "j \<le> CommitIndex (peer s u)" and "IsLeader (peer s' c)"
    and "node_CurrentTerm (peer s u) \<le> node_CurrentTerm (peer s' c)"
  shows "\<exists>e. GetEntry (rlog s u) j = Some e \<and> GetEntry (rlog s' c) j = Some e"
proof -
  obtain a where a: "sim m um cfg s a" "protocol_inv (quorum_of cfg) a" using net_simulated [OF assms(1,2)] .
  obtain a' where a': "(protocol_step (quorum_of cfg))\<^sup>*\<^sup>* a a'" "sim m um cfg s' a'" and r': "net_reachable m um cfg s'"
    using net_run_sim [OF assms(1-3) a] by blast
  note x = protocol_run_inv [OF a'(1) a(2)]
  obtain t P where P: "t \<le> terms a u" "committed (quorum_of cfg) a t P" "j \<le> int (length P)" "prefix (take (nat j) P) (entries a u)"
    using commit_prefix [OF a(1) assms(4,5)] by blast
  have tm: "terms a u = termOf (peer s u)" "terms a' c = termOf (peer s' c)"
    using simD(1) [OF a(1)] simD(1) [OF a'(2)] by (simp_all add: logs_sim_def)
  have ld: "entries a' c = history a' (terms a' c)" "(c, terms a' c) \<in> leaders (members s')"
    using simD(2) [OF a'(2)] net_elections [OF assms(1) r'] assms(6) tm(2) by (auto simp: leaders_sim_def inv_defs IsLeader_def)
  then have el: "terms a' c \<in> elected a'" using simD(2) [OF a'(2)] by (force simp: leaders_sim_def)
  have "t \<le> terms a' c" using P(1) tm assms(7) by (simp add: node_CurrentTerm_def)
  then have "prefix P (entries a' c)"
    using sq.committed_history [OF assms(1) conjunct1 [OF x] sq.committed_extends [OF conjunct2 [OF x] P(2)] el] ld(1) by simp
  then have "prefix (take (nat j) P) (entries a' c)" using take_is_prefix prefix_order.trans by blast
  from shared_prefix [OF a(1) a'(2) P(4) this assms(4)] P(3) assms(4) show ?thesis by simp
qed

text \<open>C8. Leader completeness: what any node knew to be committed at any moment is in the log of
  every node that leads, then or later, a term at least that node's.\<close>

theorem leader_completeness:
  assumes "cfg_ok cfg" and "net_reachable m um cfg s" and "(net_step m um)\<^sup>*\<^sup>* s s'"
    and "1 \<le> j" and "j \<le> CommitIndex (peer s u)" and "IsLeader (peer s' c)"
    and "node_CurrentTerm (peer s u) \<le> node_CurrentTerm (peer s' c)"
  shows "\<exists>e. GetEntry (rlog s u) j = Some e \<and> GetEntry (rlog s' c) j = Some e"
  using assms by (rule committed_entries_led)


lemma committed_entries_agree:
  assumes "cfg_ok cfg" and "net_reachable m um cfg s" and "(net_step m um)\<^sup>*\<^sup>* s s'"
    and "1 \<le> j" and "j \<le> CommitIndex (peer s u)" and "j \<le> CommitIndex (peer s' v)"
  shows "\<exists>e. GetEntry (rlog s u) j = Some e \<and> GetEntry (rlog s' v) j = Some e"
proof -
  obtain a where a: "sim m um cfg s a" "protocol_inv (quorum_of cfg) a" using net_simulated [OF assms(1,2)] .
  obtain a' where a': "(protocol_step (quorum_of cfg))\<^sup>*\<^sup>* a a'" "sim m um cfg s' a'"
    using net_run_sim [OF assms(1-3) a] by blast
  note x = protocol_run_inv [OF a'(1) a(2)]
  obtain t P where P: "committed (quorum_of cfg) a t P" "j \<le> int (length P)" "prefix (take (nat j) P) (entries a u)"
    using commit_prefix [OF a(1) assms(4,5)] by blast
  obtain t' Q where Q: "committed (quorum_of cfg) a' t' Q" "j \<le> int (length Q)" "prefix (take (nat j) Q) (entries a' v)"
    using commit_prefix [OF a'(2) assms(4,6)] by blast
  have "prefix P Q \<or> prefix Q P"
    by (rule sq.committed_agree [OF assms(1) conjunct1 [OF x] sq.committed_extends [OF conjunct2 [OF x] P(1)] Q(1)])
  then have "take (nat j) P = take (nat j) Q" using P(2) Q(2) by (auto simp: prefix_def)
  then have "prefix (take (nat j) P) (entries a' v)" using Q(3) by simp
  from shared_prefix [OF a(1) a'(2) P(3) this assms(4)] P(2) assms(4) show ?thesis by simp
qed

text \<open>C1. State machine safety: no two nodes ever have different committed entries at one index.
  An entry a node has committed at some moment is the entry every node has at that index
  whenever that node has committed it, in the same state or any later one, crashes, lost
  messages and changes of leader in between.\<close>

theorem state_machine_safety:
  assumes "cfg_ok cfg" and "net_reachable m um cfg s" and "(net_step m um)\<^sup>*\<^sup>* s s'"
    and "1 \<le> j" and "j \<le> CommitIndex (peer s u)" and "j \<le> CommitIndex (peer s' v)"
  shows "\<exists>e. GetEntry (rlog s u) j = Some e \<and> GetEntry (rlog s' v) j = Some e"
  using assms by (rule committed_entries_agree)

end
