(* ===== verification/Cluster_Demo.thy ===== *)
theory Cluster_Demo
  imports Cluster_Safety
begin

text \<open>
  A run of three servers, for the witnesses: the first is elected, appends an entry, the
  second stores it, the first commits it and tells the second.
\<close>

section \<open>The states\<close>

definition demoCand :: "(int, bool) gomap \<Rightarrow> RaftNode" where
  "demoCand vs = (demoSaved 1 \<lparr>CurrentTerm = 1, VotedFor = 1\<rparr>)\<lparr>Role := Candidate, votesFrom := Some vs, lastContact := 5\<rparr>"

definition demoVoter :: RaftNode where
  "demoVoter = (demoSaved 2 \<lparr>CurrentTerm = 1, VotedFor = 1\<rparr>)\<lparr>lastContact := 5\<rparr>"

definition demoLead :: "(int, int) gomap \<Rightarrow> (int, int) gomap \<Rightarrow> int \<Rightarrow> RaftNode" where
  "demoLead ni mi ci = (demoCand [(1, True), (2, True)])\<lparr>Role := Leader, LeaderID := 1, NextIndex := ni, MatchIndex := mi, CommitIndex := ci\<rparr>"

definition demoFollow :: "int \<Rightarrow> RaftNode" where
  "demoFollow ci = demoVoter\<lparr>LeaderID := 1, CommitIndex := ci\<rparr>"

definition demoFirst :: LogEntry where
  "demoFirst = \<lparr>Index = 1, Term = 1, Command = ''cmd''\<rparr>"

definition demoNet :: Network where
  "demoNet = \<lparr>members = demoStart, rlog = (\<lambda>v. demoWhole []), polls = {}, sent = {}, answers = {}\<rparr>"

lemmas demo_nodes = demoCand_def demoVoter_def demoLead_def demoFollow_def demoSaved_def demoNode_def

section \<open>The handlers\<close>

lemma demo_lead: "BecomeLeader 1 0 (demoCand [(1, True), (2, True)]) = (True, demoLead [(2, 1), (3, 1)] [(2, 0), (3, 0)] 0)"
  by (simp add: BecomeLeader_def demo_nodes Let_def demoConfig_eq demoVoters_def Peers_def Members_def mput_def mdel_def mkeys_def)

lemma demo_propose: "AppendLeader demoMarshal ''cmd'' 1 (demoWhole []) = (Some demoFirst, demoWhole [demoFirst])"
  by (simp add: AppendLeader_def writeEntryToDisk_def writeEntryTo_no_faults file_no_faults demoWhole_def demoFirst_def Let_def)

lemma demo_logs_first:
  "LatestIndex (demoWhole [demoFirst]) = 1" "TermAt (demoWhole [demoFirst]) 1 = 1" "LatestIndex (demoWhole []) = 0"
  "LastLogState (demoWhole []) = (0, 0)" "lastIndexLocked (demoWhole [demoFirst]) = 1"
  "Index demoFirst = 1" "Term demoFirst = 1" "getEntryLocked (demoWhole [demoFirst]) 1 = Some demoFirst"
  "GetEntriesFrom (demoWhole [demoFirst]) 1 = [demoFirst]" "GetEntriesFrom (demoWhole [demoFirst]) 2 = []"
  by (simp_all add: LatestIndex_def lastIndexLocked_def demoFirst_def TermAt_def getEntryLocked_def GetEntriesFrom_def
      LastLogState_def Let_def)

abbreviation demoCall :: "int \<Rightarrow> AppendEntriesRequest" where
  "demoCall k \<equiv> \<lparr>ae_Term = 1, ae_LeaderID = 1, ae_PrevLogIndex = k, ae_PrevLogTerm = k, ae_Entries = (if k = 0 then [demoFirst] else []),
     ae_LeaderCommit = k\<rparr>"

lemma demo_calls:
  "appendRequest (demoWhole [demoFirst]) 2 (demoLead [(2, 1), (3, 1)] mi 0) = demoCall 0"
  "appendRequest (demoWhole [demoFirst]) 2 (demoLead [(2, 2), (3, 1)] mi 1) = demoCall 1"
  by (simp_all add: appendRequest_def node_State_def NextIndexFor_def mget0_def NodeID_def demo_nodes Let_def demo_logs_first)

abbreviation demoAck :: AppendEntriesResponse where
  "demoAck \<equiv> \<lparr>aer_Term = 1, aer_Success = True, aer_MatchIndex = 1, aer_ConflictTerm = 0, aer_ConflictIndex = 0\<rparr>"

lemma demo_receive:
  "HandleAppendEntries demoMarshal 5 (demoCall 0) (demoWhole []) demoVoter = (demoAck, demoWhole [demoFirst], demoFollow 0)"
  "HandleAppendEntries demoMarshal 5 (demoCall 1) (demoWhole [demoFirst]) (demoFollow 0) = (demoAck, demoWhole [demoFirst], demoFollow 1)"
proof -
  have "AppendEntriesToLog demoMarshal 0 0 [demoFirst] (demoWhole []) =
      (\<lparr>ar_matchIndex = 1, ar_conflictTerm = 0, ar_conflictIndex = 0, ar_ok = True\<rparr>, demoWhole [demoFirst])"
    by (simp add: AppendEntriesToLog_def consistencyCheck_def appendNew_def writeEntryTo_no_faults file_no_faults
        demoWhole_def demoFirst_def getEntryLocked_def Let_def)
  then show "HandleAppendEntries demoMarshal 5 (demoCall 0) (demoWhole []) demoVoter = (demoAck, demoWhole [demoFirst], demoFollow 0)"
    by (simp add: HandleAppendEntries_def acceptLeader_def setFollowerCommitIndexLocked_def demo_nodes Let_def)
  have "AppendEntriesToLog demoMarshal 1 1 [] (demoWhole [demoFirst]) =
      (\<lparr>ar_matchIndex = 1, ar_conflictTerm = 0, ar_conflictIndex = 0, ar_ok = True\<rparr>, demoWhole [demoFirst])"
    by (simp add: AppendEntriesToLog_def consistencyCheck_def entryOrZero_def demo_logs_first)
  then show "HandleAppendEntries demoMarshal 5 (demoCall 1) (demoWhole [demoFirst]) (demoFollow 0) = (demoAck, demoWhole [demoFirst], demoFollow 1)"
    by (simp add: HandleAppendEntries_def acceptLeader_def setFollowerCommitIndexLocked_def demo_nodes Let_def)
qed

lemma demo_reply: "appendReply 1 2 demoAck (demoLead [(2, 1), (3, 1)] [(2, 0), (3, 0)] 0) = (1, demoLead [(2, 2), (3, 1)] [(2, 1), (3, 0)] 0)"
  by (simp add: appendReply_def UpdatePeerProgress_def mget_def mget0_def mput_def demo_nodes Let_def)

lemma demo_commit: "AdvanceCommitIndex 1 (TermAt (demoWhole [demoFirst])) 1 (demoLead ni [(2, 1), (3, 0)] 0) =
    ((1, True), demoLead ni [(2, 1), (3, 0)] 1)"
  by (simp add: AdvanceCommitIndex_def demo_nodes demo_config_simps mput_def demo_logs_first)

section \<open>The run\<close>

lemma demoNet_reachable: "net_reachable demoMarshal demoUnmarshal demoConfig demoNet"
proof (rule net_reachable.start)
  have "whole demoMarshal demoUnmarshal (demoWhole [])" using demoWhole_ok by (simp add: whole_def codec_ok_def)
  then show "net_initial demoMarshal demoUnmarshal demoConfig demoNet"
    by (simp add: net_initial_def demoNet_def initial_def demoStart_def demoNode_def durable_def)
qed

abbreviation demoReach :: "Network \<Rightarrow> bool" where
  "demoReach \<equiv> net_reachable demoMarshal demoUnmarshal demoConfig"

lemmas demo_step = net_reachable.step [of demoMarshal demoUnmarshal demoConfig]

lemma demo_candidate:
  "\<exists>s. demoReach s \<and> peer s 1 = demoCand [(1, True)] \<and> peer s 2 = demoNode 2 \<and> rlog s = (\<lambda>v. demoWhole []) \<and>
    \<lparr>rv_Term = 1, rv_CandidateID = 1, rv_LastLogIndex = 0, rv_LastLogTerm = 0\<rparr> \<in> polls s"
proof -
  have run: "BecomeCandidate 5 (peer demoNet 1) = (Some 1, demoCand [(1, True)])"
    using demo_campaign by (simp add: demoNet_def demoStart_def demoCand_def)
  have req: "voteRequest 1 (demoCand [(1, True)]) (demoWhole []) = \<lparr>rv_Term = 1, rv_CandidateID = 1, rv_LastLogIndex = 0, rv_LastLogTerm = 0\<rparr>"
    by (simp add: voteRequest_def demo_logs_first NodeID_def demo_nodes)
  have "(1 :: int) \<noteq> -1" by simp
  from demo_step [OF demoNet_reachable net_step.campaign [OF run this]] show ?thesis
    by - (rule exI, intro conjI, assumption, simp_all add: demoNet_def demoStart_def req)
qed

lemma demo_leader:
  "\<exists>s. demoReach s \<and> peer s 1 = demoLead [(2, 1), (3, 1)] [(2, 0), (3, 0)] 0 \<and> peer s 2 = demoVoter \<and> rlog s = (\<lambda>v. demoWhole [])"
proof -
  let ?req = "\<lparr>rv_Term = 1, rv_CandidateID = 1, rv_LastLogIndex = 0, rv_LastLogTerm = 0\<rparr>"
  obtain s1 where s1: "demoReach s1" "peer s1 1 = demoCand [(1, True)]" "peer s1 2 = demoNode 2" "rlog s1 = (\<lambda>v. demoWhole [])"
      "?req \<in> polls s1"
    using demo_candidate by blast
  have "HandleRequestVote 5 ?req (LastLogState (rlog s1 2)) (peer s1 2) = (\<lparr>rvr_Term = 1, rvr_VoteGranted = True\<rparr>, demoVoter)"
    using demo_vote s1(3,4) by (simp add: demo_logs_first demoVoter_def)
  from demo_step [OF s1(1) net_step.vote [OF s1(5) this]]
  obtain s2 where s2: "demoReach s2" "peer s2 1 = demoCand [(1, True)]" "peer s2 2 = demoVoter" "rlog s2 = (\<lambda>v. demoWhole [])"
      "(2, 1, 1) \<in> ledger (members s2)"
    using s1 by fastforce
  have "RecordVoteAndCheckMajority 2 1 (peer s2 1) = (True, demoCand [(1, True), (2, True)])"
    using demo_tally s2(2) by (simp add: demoCand_def)
  from demo_step [OF s2(1) net_step.tally [OF s2(5) this]]
  obtain s3 where s3: "demoReach s3" "peer s3 1 = demoCand [(1, True), (2, True)]" "peer s3 2 = demoVoter" "rlog s3 = (\<lambda>v. demoWhole [])"
      "(1, 1) \<in> majorities (members s3)"
    using s2 by fastforce
  have "BecomeLeader 1 (LatestIndex (rlog s3 1)) (peer s3 1) = (True, demoLead [(2, 1), (3, 1)] [(2, 0), (3, 0)] 0)"
    using demo_lead s3(2,4) by (simp add: demo_logs_first)
  from demo_step [OF s3(1) net_step.promote [OF s3(5) this]] show ?thesis using s3 by fastforce
qed

lemma demo_stored:
  "\<exists>s. demoReach s \<and> peer s 1 = demoLead [(2, 1), (3, 1)] [(2, 0), (3, 0)] 0 \<and> peer s 2 = demoFollow 0 \<and>
    rlog s 1 = demoWhole [demoFirst] \<and> rlog s 2 = demoWhole [demoFirst] \<and> (2, demoCall 0, demoAck) \<in> answers s"
proof -
  obtain s1 where s1: "demoReach s1" "peer s1 1 = demoLead [(2, 1), (3, 1)] [(2, 0), (3, 0)] 0" "peer s1 2 = demoVoter"
      "rlog s1 = (\<lambda>v. demoWhole [])"
    using demo_leader by blast
  have l: "IsLeader (demoLead ni mi ci)" "node_CurrentTerm (demoLead ni mi ci) = 1" for ni mi ci
    by (simp_all add: IsLeader_def node_CurrentTerm_def demo_nodes)
  have "codec_ok demoMarshal demoUnmarshal [demoFirst]" by (simp add: codec_ok_def demoMarshal_def demoFirst_def)
  then have "net_step demoMarshal demoUnmarshal s1 (s1\<lparr>rlog := (rlog s1)(1 := demoWhole [demoFirst])\<rparr>)"
    using demo_propose s1(2,4) l by (intro net_step.propose [of s1 1]) simp_all
  then obtain s2 where s2: "demoReach s2" "peer s2 1 = demoLead [(2, 1), (3, 1)] [(2, 0), (3, 0)] 0" "peer s2 2 = demoVoter"
      "rlog s2 1 = demoWhole [demoFirst]" "rlog s2 2 = demoWhole []"
    using demo_step [OF s1(1)] s1 by fastforce
  have "net_step demoMarshal demoUnmarshal s2 (s2\<lparr>sent := insert (demoCall 0) (sent s2)\<rparr>)"
    using net_step.send [of s2 1 demoMarshal demoUnmarshal 2] s2(2,4) l demo_calls by simp
  then obtain s3 where s3: "demoReach s3" "peer s3 1 = demoLead [(2, 1), (3, 1)] [(2, 0), (3, 0)] 0" "peer s3 2 = demoVoter"
      "rlog s3 1 = demoWhole [demoFirst]" "rlog s3 2 = demoWhole []" "demoCall 0 \<in> sent s3"
    using demo_step [OF s2(1)] s2 by fastforce
  have "HandleAppendEntries demoMarshal 5 (demoCall 0) (rlog s3 2) (peer s3 2) = (demoAck, demoWhole [demoFirst], demoFollow 0)"
    using demo_receive(1) s3(3,5) by simp
  from demo_step [OF s3(1) net_step.receive [OF s3(6) this]] show ?thesis using s3 by fastforce
qed

text \<open>The state after it: the first and the second server have committed the entry.\<close>

lemma demo_committed:
  "\<exists>s. demoReach s \<and> peer s 1 = demoLead [(2, 2), (3, 1)] [(2, 1), (3, 0)] 1 \<and> peer s 2 = demoFollow 1 \<and>
    rlog s 1 = demoWhole [demoFirst] \<and> rlog s 2 = demoWhole [demoFirst]"
proof -
  let ?ni = "[(2, 2), (3, 1)]" and ?mi = "[(2, 1), (3, 0)]"
  obtain s1 where s1: "demoReach s1" "peer s1 1 = demoLead [(2, 1), (3, 1)] [(2, 0), (3, 0)] 0" "peer s1 2 = demoFollow 0"
      "rlog s1 1 = demoWhole [demoFirst]" "rlog s1 2 = demoWhole [demoFirst]" "(2, demoCall 0, demoAck) \<in> answers s1"
    using demo_stored by blast
  have l: "IsLeader (demoLead ni mi ci)" "node_CurrentTerm (demoLead ni mi ci) = 1" for ni mi ci
    by (simp_all add: IsLeader_def node_CurrentTerm_def demo_nodes)
  have "net_step demoMarshal demoUnmarshal s1 (setNode 1 (demoLead ?ni ?mi 0) s1)"
    using demo_reply s1(2) l by (intro net_step.reply [OF s1(6)]) simp_all
  then obtain s2 where s2: "demoReach s2" "peer s2 1 = demoLead ?ni ?mi 0" "peer s2 2 = demoFollow 0"
      "rlog s2 1 = demoWhole [demoFirst]" "rlog s2 2 = demoWhole [demoFirst]"
    using demo_step [OF s1(1)] s1 by fastforce
  have "net_step demoMarshal demoUnmarshal s2 (setNode 1 (demoLead ?ni ?mi 1) s2)"
    using demo_commit s2(2,4) l by (intro net_step.commit) (simp add: demo_logs_first)
  then obtain s3 where s3: "demoReach s3" "peer s3 1 = demoLead ?ni ?mi 1" "peer s3 2 = demoFollow 0"
      "rlog s3 1 = demoWhole [demoFirst]" "rlog s3 2 = demoWhole [demoFirst]"
    using demo_step [OF s2(1)] s2 by fastforce
  have "net_step demoMarshal demoUnmarshal s3 (s3\<lparr>sent := insert (demoCall 1) (sent s3)\<rparr>)"
    using net_step.send [of s3 1 demoMarshal demoUnmarshal 2] s3(2,4) l demo_calls by simp
  then obtain s4 where s4: "demoReach s4" "peer s4 1 = demoLead ?ni ?mi 1" "peer s4 2 = demoFollow 0"
      "rlog s4 1 = demoWhole [demoFirst]" "rlog s4 2 = demoWhole [demoFirst]" "demoCall 1 \<in> sent s4"
    using demo_step [OF s3(1)] s3 by fastforce
  have "HandleAppendEntries demoMarshal 5 (demoCall 1) (rlog s4 2) (peer s4 2) = (demoAck, demoWhole [demoFirst], demoFollow 1)"
    using demo_receive(2) s4(3,5) by simp
  from demo_step [OF s4(1) net_step.receive [OF s4(6) this]] show ?thesis using s4 by fastforce
qed

section \<open>Witnesses\<close>

theorem state_machine_safety_witness:
  "\<exists>s e. demoReach s \<and> CommitIndex (peer s 1) = 1 \<and> CommitIndex (peer s 2) = 1 \<and>
    GetEntry (rlog s 1) 1 = Some e \<and> GetEntry (rlog s 2) 1 = Some e"
proof -
  obtain s where s: "demoReach s" "peer s 1 = demoLead [(2, 2), (3, 1)] [(2, 1), (3, 0)] 1" "peer s 2 = demoFollow 1"
    using demo_committed by blast
  have c: "CommitIndex (peer s 1) = 1" "CommitIndex (peer s 2) = 1" by (simp_all add: s demo_nodes)
  then show ?thesis
    using state_machine_safety [OF demoConfig_ok s(1) rtranclp.rtrancl_refl, of 1 1 2] s(1) by auto
qed

theorem leader_completeness_witness:
  "\<exists>s e. demoReach s \<and> CommitIndex (peer s 2) = 1 \<and> GetEntry (rlog s 2) 1 = Some e \<and> GetEntry (rlog s 1) 1 = Some e"
proof -
  obtain s where s: "demoReach s" "peer s 1 = demoLead [(2, 2), (3, 1)] [(2, 1), (3, 0)] 1" "peer s 2 = demoFollow 1"
    using demo_committed by blast
  have c: "CommitIndex (peer s 2) = 1" "IsLeader (peer s 1)" "node_CurrentTerm (peer s 2) \<le> node_CurrentTerm (peer s 1)"
    by (simp_all add: s demo_nodes IsLeader_def node_CurrentTerm_def)
  then show ?thesis
    using leader_completeness [OF demoConfig_ok s(1) rtranclp.rtrancl_refl, of 1 2 1] s(1) by auto
qed

theorem log_matching_witness:
  "\<exists>s. demoReach s \<and> GetEntry (rlog s 1) 1 = Some demoFirst \<and> GetEntry (rlog s 1) 0 = GetEntry (rlog s 2) 0"
proof -
  obtain s where s: "demoReach s" "rlog s 1 = demoWhole [demoFirst]" "rlog s 2 = demoWhole [demoFirst]"
    using demo_committed by blast
  have e: "GetEntry (rlog s 1) 1 = Some demoFirst" "GetEntry (rlog s 2) 1 = Some demoFirst"
    by (simp_all add: s GetEntry_def demo_logs_first)
  from log_matching [OF demoConfig_ok s(1) e refl, of 0] s(1) e(1) show ?thesis by auto
qed

theorem network_refines_protocol_witness:
  "\<exists>s a0 a. demoReach s \<and> protocol_initial a0 \<and> (protocol_step (quorum_of demoConfig))\<^sup>*\<^sup>* a0 a \<and> entries a 2 = [demoFirst]"
proof -
  obtain s where s: "demoReach s" "rlog s 2 = demoWhole [demoFirst]" using demo_committed by blast
  from network_refines_protocol [OF demoConfig_ok s(1)]
  obtain a0 a where "protocol_initial a0" "(protocol_step (quorum_of demoConfig))\<^sup>*\<^sup>* a0 a" "\<forall>v. entries a v = cache (rlog s v)"
    by blast
  moreover from this(3) have "entries a 2 = [demoFirst]" using s(2) by simp
  ultimately show ?thesis using s(1) by blast
qed

end
