(* ===== verification/State_Machine.thy ===== *)
theory State_Machine
  imports Raft_Types
begin

text \<open>
  The replicated state machine, \<^verbatim>\<open>internal/store/statemachine.go\<close>: a key-value map, the
  table of client sessions that makes retries harmless, and the replicated clock and apply
  count that expire sessions.  Commands come from the log; an operation's error is its Go
  error text.
\<close>

section \<open>Definitions\<close>

definition DefaultSessionTTL :: nanos where
  "DefaultSessionTTL = 3600 * 1000000000"

definition sweepInterval :: int where
  "sweepInterval = 1000"

record session =
  LastSeq :: "64 word"
  Err :: string
  LastUsed :: int

record machineState =
  Data :: "(string, string) gomap"
  Sessions :: "(string, session) gomap"
  Now :: int
  AppliesSinceSweep :: int

record MemoryStateMachine =
  sm_data :: "(string, string) gomap"
  sm_sessions :: "(string, session) gomap"
  sm_now :: int
  sm_appliesSinceSweep :: int
  sm_sessionTTL :: nanos

definition NewMemoryStateMachine :: MemoryStateMachine where
  "NewMemoryStateMachine = \<lparr>sm_data = [], sm_sessions = [], sm_now = 0, sm_appliesSinceSweep = 0,
     sm_sessionTTL = DefaultSessionTTL\<rparr>"

definition SetSessionTTL :: "nanos \<Rightarrow> MemoryStateMachine \<Rightarrow> MemoryStateMachine" where
  "SetSessionTTL d m = (if d \<le> 0 then m else m\<lparr>sm_sessionTTL := d\<rparr>)"

text \<open>\<^verbatim>\<open>%q\<close> for the bytes a command name may have; bytes from 128 on stay as they are.\<close>

definition hexDigit :: "nat \<Rightarrow> char" where
  "hexDigit n = ''0123456789abcdef'' ! (n mod 16)"

definition quoteChar :: "char \<Rightarrow> string" where
  "quoteChar c =
     (if c = CHR 0x22 \<or> c = CHR 0x5C then [CHR 0x5C, c]
      else if c = CHR 0x07 then [CHR 0x5C, CHR ''a''] else if c = CHR 0x08 then [CHR 0x5C, CHR ''b'']
      else if c = CHR 0x0C then [CHR 0x5C, CHR ''f''] else if c = CHR 0x0A then [CHR 0x5C, CHR ''n'']
      else if c = CHR 0x0D then [CHR 0x5C, CHR ''r''] else if c = CHR 0x09 then [CHR 0x5C, CHR ''t'']
      else if c = CHR 0x0B then [CHR 0x5C, CHR ''v'']
      else if (of_char c :: nat) < 32 \<or> c = CHR 0x7F
        then [CHR 0x5C, CHR ''x'', hexDigit (of_char c div 16), hexDigit (of_char c)]
      else [c])"

definition goQuote :: "string \<Rightarrow> string" where
  "goQuote s = [CHR 0x22] @ concat (map quoteChar s) @ [CHR 0x22]"

text \<open>The result \<^const>\<open>None\<close> is a nil error.\<close>

definition execute :: "int \<Rightarrow> Command \<Rightarrow> MemoryStateMachine \<Rightarrow> string option \<times> MemoryStateMachine" where
  "execute index cmd m =
     (if Op cmd = OpSet then
        (if Key cmd = [] then (Some (''set: empty key at index '' @ int_dec index), m)
         else (None, m\<lparr>sm_data := mput (Key cmd) (Value cmd) (sm_data m)\<rparr>))
      else if Op cmd = OpDelete then
        (if Key cmd = [] then (Some (''delete: empty key at index '' @ int_dec index), m)
         else (None, m\<lparr>sm_data := mdel (Key cmd) (sm_data m)\<rparr>))
      else if Op cmd = OpNoop then (None, m)
      else (Some (''unknown op '' @ goQuote (Op cmd) @ '' at index '' @ int_dec index), m))"

text \<open>The range over the map deletes the expired entries, in any order.\<close>

definition expireSessions :: "MemoryStateMachine \<Rightarrow> MemoryStateMachine" where
  "expireSessions m =
     (let m = m\<lparr>sm_appliesSinceSweep := sm_appliesSinceSweep m + 1\<rparr> in
      if sm_appliesSinceSweep m < sweepInterval then m
      else
        (let m = m\<lparr>sm_appliesSinceSweep := 0\<rparr>;
             cutoff = wrap64 (sm_now m - sm_sessionTTL m);
             expired = map fst (filter (\<lambda>(i, s). LastUsed s < cutoff) (sm_sessions m))
         in m\<lparr>sm_sessions := fold mdel expired (sm_sessions m)\<rparr>))"

definition advanceClock :: "Command \<Rightarrow> MemoryStateMachine \<Rightarrow> MemoryStateMachine" where
  "advanceClock cmd m = (if sm_now m < Timestamp cmd then m\<lparr>sm_now := Timestamp cmd\<rparr> else m)"

text \<open>The lookup in the session table: the outcome to replay for a retransmission.\<close>

definition replay :: "Command \<Rightarrow> MemoryStateMachine \<Rightarrow> (string option) option" where
  "replay cmd m =
     (if ClientID cmd = [] then None
      else case mget (sm_sessions m) (ClientID cmd) of
             None \<Rightarrow> None
           | Some prev \<Rightarrow>
               (if Seq cmd \<le> LastSeq prev
                then Some (if Err prev = [] then None else Some (Err prev)) else None))"

definition recordOutcome :: "Command \<Rightarrow> string option \<Rightarrow> MemoryStateMachine \<Rightarrow> MemoryStateMachine" where
  "recordOutcome cmd err m =
     (if ClientID cmd = [] then m
      else m\<lparr>sm_sessions := mput (ClientID cmd)
             \<lparr>LastSeq = Seq cmd, Err = (case err of None \<Rightarrow> [] | Some e \<Rightarrow> e), LastUsed = sm_now m\<rparr> (sm_sessions m)\<rparr>)"

definition Apply :: "int \<Rightarrow> Command \<Rightarrow> MemoryStateMachine \<Rightarrow> string option \<times> MemoryStateMachine" where
  "Apply index cmd m =
     (let m = expireSessions (advanceClock cmd m) in
      case replay cmd m of
        Some outcome \<Rightarrow> (outcome, m)
      | None \<Rightarrow> (case execute index cmd m of (err, m) \<Rightarrow> (err, recordOutcome cmd err m)))"

definition Get :: "MemoryStateMachine \<Rightarrow> string \<Rightarrow> string option" where
  "Get m key = mget (sm_data m) key"

definition SessionCount :: "MemoryStateMachine \<Rightarrow> nat" where
  "SessionCount m = length (sm_sessions m)"

text \<open>The JSON encoding of the snapshot and its decoding.\<close>

type_synonym machine_enc = "machineState \<Rightarrow> bytes"
type_synonym machine_dec = "bytes \<Rightarrow> machineState option"

definition machineStateOf :: "MemoryStateMachine \<Rightarrow> machineState" where
  "machineStateOf m = \<lparr>Data = sm_data m, Sessions = sm_sessions m, Now = sm_now m,
     AppliesSinceSweep = sm_appliesSinceSweep m\<rparr>"

definition Snapshot :: "machine_enc \<Rightarrow> MemoryStateMachine \<Rightarrow> bytes" where
  "Snapshot enc m = enc (machineStateOf m)"

definition Restore :: "machine_dec \<Rightarrow> bytes \<Rightarrow> MemoryStateMachine \<Rightarrow> bool \<times> MemoryStateMachine" where
  "Restore dec b m =
     (case dec b of
        None \<Rightarrow> (False, m)
      | Some st \<Rightarrow> (True, m\<lparr>sm_data := Data st, sm_sessions := Sessions st, sm_now := Now st,
                           sm_appliesSinceSweep := AppliesSinceSweep st\<rparr>))"

section \<open>Equivalence of machines\<close>

text \<open>Two machines that no client and no later command can tell apart: equal up to the order of the maps.\<close>

definition sm_wf :: "MemoryStateMachine \<Rightarrow> bool" where
  "sm_wf m \<longleftrightarrow> mwf (sm_data m) \<and> mwf (sm_sessions m)"

definition sm_eq :: "MemoryStateMachine \<Rightarrow> MemoryStateMachine \<Rightarrow> bool" where
  "sm_eq a b \<longleftrightarrow> sm_wf a \<and> sm_wf b \<and> mget (sm_data a) = mget (sm_data b) \<and>
     mget (sm_sessions a) = mget (sm_sessions b) \<and> sm_now a = sm_now b \<and>
     sm_appliesSinceSweep a = sm_appliesSinceSweep b \<and> sm_sessionTTL a = sm_sessionTTL b"

lemma set_expired:
  "mwf s \<Longrightarrow> set (map fst (filter (\<lambda>(i, v). P v) s)) = {i. \<exists>v. mget s i = Some v \<and> P v}"
  by (auto simp: mwf_def mget_def image_iff)

lemma mget_expired:
  assumes "mwf s"
  shows "mget (fold mdel (map fst (filter (\<lambda>(i, v). P v) s)) s) =
    (\<lambda>i. case mget s i of None \<Rightarrow> None | Some v \<Rightarrow> if P v then None else Some v)"
  unfolding gm.lookup_del_all [OF assms] set_expired [OF assms]
  by (auto simp: fun_eq_iff restrict_map_def split: option.splits)

lemma sm_wf_expire: "sm_wf m \<Longrightarrow> sm_wf (expireSessions m)"
  by (auto simp: sm_wf_def expireSessions_def Let_def gm.wf_del_all)

lemma sm_eq_expire: "sm_eq a b \<Longrightarrow> sm_eq (expireSessions a) (expireSessions b)"
  unfolding sm_eq_def using sm_wf_expire [of a] sm_wf_expire [of b]
  by (auto simp: sm_wf_def expireSessions_def Let_def mget_expired)

lemma sm_eq_clock: "sm_eq a b \<Longrightarrow> sm_eq (advanceClock cmd a) (advanceClock cmd b)"
  by (auto simp: sm_eq_def sm_wf_def advanceClock_def)

lemma sm_eq_execute:
  "sm_eq a b \<Longrightarrow> fst (execute i cmd a) = fst (execute i cmd b) \<and> sm_eq (snd (execute i cmd a)) (snd (execute i cmd b))"
  by (auto simp: sm_eq_def sm_wf_def execute_def gm.lookup_put gm.lookup_del gm.wf_put gm.wf_del)

lemma sm_eq_record: "sm_eq a b \<Longrightarrow> sm_eq (recordOutcome cmd e a) (recordOutcome cmd e b)"
  by (auto simp: sm_eq_def sm_wf_def recordOutcome_def gm.lookup_put gm.wf_put)

lemma sm_eq_replay: "sm_eq a b \<Longrightarrow> replay cmd a = replay cmd b"
  by (simp add: sm_eq_def replay_def)

lemma sm_eq_Apply:
  assumes "sm_eq a b"
  shows "fst (Apply i cmd a) = fst (Apply i cmd b) \<and> sm_eq (snd (Apply i cmd a)) (snd (Apply i cmd b))"
proof -
  let ?a = "expireSessions (advanceClock cmd a)" and ?b = "expireSessions (advanceClock cmd b)"
  have e: "sm_eq ?a ?b" by (intro sm_eq_expire sm_eq_clock assms)
  show ?thesis
    using sm_eq_replay [OF e, of cmd] sm_eq_execute [OF e, of i cmd] sm_eq_record e
    by (auto simp: Apply_def Let_def split_beta split: option.splits)
qed

lemma sm_eq_refl: "sm_eq a a \<longleftrightarrow> sm_wf a"
  by (simp add: sm_eq_def)

section \<open>Replicas\<close>

text \<open>
  What replication needs of a state machine: an equivalence that every command respects.
  Then replicas that apply the same log agree, and one that starts from a copy of the state
  and applies the rest of the log agrees with one that applied all of it.
\<close>

locale replica =
  fixes app :: "'c \<Rightarrow> 's \<Rightarrow> 'r \<times> 's" and eq :: "'s \<Rightarrow> 's \<Rightarrow> bool"
  assumes eq_app: "eq a b \<Longrightarrow> fst (app c a) = fst (app c b) \<and> eq (snd (app c a)) (snd (app c b))"
begin

lemma run_agrees:
  "eq a b \<Longrightarrow> fst (runOps app cs a) = fst (runOps app cs b) \<and> eq (snd (runOps app cs a)) (snd (runOps app cs b))"
proof (induction cs arbitrary: a b)
  case (Cons c cs)
  note e = eq_app [OF Cons.prems, of c]
  from Cons.IH [of "snd (app c a)" "snd (app c b)"] e show ?case by (simp add: split_beta)
qed simp

lemma catch_up:
  assumes "eq (snd (runOps app cs a)) b"
  shows "eq (snd (runOps app (cs @ ds) a)) (snd (runOps app ds b))"
proof -
  have "snd (runOps app (cs @ ds) s) = snd (runOps app ds (snd (runOps app cs s)))" for s
    by (induction cs arbitrary: s) (simp_all add: split_beta)
  then show ?thesis using run_agrees [OF assms] by simp
qed

end

abbreviation applyLog :: "(int \<times> Command) list \<Rightarrow> MemoryStateMachine \<Rightarrow> string option list \<times> MemoryStateMachine" where
  "applyLog \<equiv> runOps (\<lambda>(i, cmd). Apply i cmd)"

interpretation rep: replica "\<lambda>(i, cmd). Apply i cmd" sm_eq
  by unfold_locales (auto dest: sm_eq_Apply)

end
