(* ===== verification/State_Machine_Spec.thy ===== *)
theory State_Machine_Spec
  imports State_Machine
begin

text \<open>
  Exactly-once application, replica agreement, snapshots, and the effect of each command.
\<close>

section \<open>The clock and the sessions\<close>

lemma expire_keeps [simp]:
  "sm_data (expireSessions m) = sm_data m" "sm_now (expireSessions m) = sm_now m"
  "sm_sessionTTL (expireSessions m) = sm_sessionTTL m"
  by (simp_all add: expireSessions_def Let_def)

lemma clock_keeps [simp]:
  "sm_data (advanceClock cmd m) = sm_data m" "sm_sessions (advanceClock cmd m) = sm_sessions m"
  "sm_sessionTTL (advanceClock cmd m) = sm_sessionTTL m" "sm_now (advanceClock cmd m) = max (sm_now m) (Timestamp cmd)"
  by (auto simp: advanceClock_def)

lemma execute_keeps [simp]:
  "sm_sessions (snd (execute i cmd m)) = sm_sessions m" "sm_now (snd (execute i cmd m)) = sm_now m"
  "sm_sessionTTL (snd (execute i cmd m)) = sm_sessionTTL m"
  by (simp_all add: execute_def)

lemma record_keeps [simp]:
  "sm_data (recordOutcome cmd e m) = sm_data m" "sm_now (recordOutcome cmd e m) = sm_now m"
  "sm_sessionTTL (recordOutcome cmd e m) = sm_sessionTTL m"
  by (simp_all add: recordOutcome_def)

lemma Apply_clock: "sm_now (snd (Apply i cmd m)) = max (sm_now m) (Timestamp cmd)"
  "sm_sessionTTL (snd (Apply i cmd m)) = sm_sessionTTL m"
  by (auto simp: Apply_def Let_def split_beta split: option.splits)

lemma sm_wf_Apply: "sm_wf m \<Longrightarrow> sm_wf (snd (Apply i cmd m))"
  using sm_eq_Apply [of m m i cmd] by (auto simp: sm_eq_def)

text \<open>A session is kept while the clock is within the time-to-live of its last use.\<close>

lemma expire_keeps_session:
  assumes "sm_wf m" and "mget (sm_sessions m) c = Some s" and "sm_now m \<le> LastUsed s + sm_sessionTTL m"
    and "- (2 ^ 63) \<le> sm_now m - sm_sessionTTL m" and "sm_now m - sm_sessionTTL m < 2 ^ 63"
  shows "mget (sm_sessions (expireSessions m)) c = Some s"
  using assms by (simp add: expireSessions_def Let_def sm_wf_def mget_expired wrap64_id)

definition clock_ok :: "MemoryStateMachine \<Rightarrow> int \<Rightarrow> bool" where
  "clock_ok m u \<longleftrightarrow> sm_wf m \<and> u \<le> sm_now m \<and> sm_now m \<le> u + sm_sessionTTL m \<and> 0 \<le> u \<and>
     0 < sm_sessionTTL m \<and> u + sm_sessionTTL m < 2 ^ 63"

lemma clock_ok_Apply:
  "clock_ok m u \<Longrightarrow> Timestamp cmd \<le> u + sm_sessionTTL m \<Longrightarrow> clock_ok (snd (Apply i cmd m)) u"
  by (auto simp: clock_ok_def Apply_clock sm_wf_Apply)

text \<open>The machine remembers that command \<open>q\<close> of client \<open>c\<close>, used at \<open>u\<close> or later, had outcome \<open>e\<close>.\<close>

definition remembers :: "MemoryStateMachine \<Rightarrow> string \<Rightarrow> 64 word \<Rightarrow> string option \<Rightarrow> int \<Rightarrow> bool" where
  "remembers m c q e u \<longleftrightarrow> (\<exists>s. mget (sm_sessions m) c = Some s \<and> LastSeq s = q \<and>
     e = (if Err s = [] then None else Some (Err s)) \<and> u \<le> LastUsed s)"

lemma remembers_expire:
  assumes "remembers m c q e u" and "clock_ok m u" and "Timestamp cmd \<le> u + sm_sessionTTL m"
  shows "remembers (expireSessions (advanceClock cmd m)) c q e u"
proof -
  let ?m = "advanceClock cmd m"
  from assms(1) obtain s where s: "mget (sm_sessions m) c = Some s" "LastSeq s = q"
      "e = (if Err s = [] then None else Some (Err s))" "u \<le> LastUsed s" by (auto simp: remembers_def)
  have "sm_wf ?m" using assms(2) by (simp add: clock_ok_def sm_wf_def)
  moreover have "sm_now ?m \<le> LastUsed s + sm_sessionTTL ?m" "- (2 ^ 63) \<le> sm_now ?m - sm_sessionTTL ?m"
      "sm_now ?m - sm_sessionTTL ?m < 2 ^ 63"
    using assms(2,3) s(4) by (auto simp: clock_ok_def)
  ultimately have "mget (sm_sessions (expireSessions ?m)) c = Some s"
    using expire_keeps_session [of ?m c s] s(1) by simp
  with s show ?thesis by (auto simp: remembers_def)
qed

text \<open>A retransmission of it is answered from memory.\<close>

lemma remembers_replay:
  assumes "remembers m c q e u" and "c \<noteq> []" and "ClientID cmd = c" and "Seq cmd \<le> q"
  shows "replay cmd m = Some e"
  using assms by (auto simp: remembers_def replay_def)

lemma replay_Apply:
  "replay cmd (expireSessions (advanceClock cmd m)) = Some e \<Longrightarrow>
    Apply i cmd m = (e, expireSessions (advanceClock cmd m))"
  by (simp add: Apply_def Let_def)

lemma remembers_Apply:
  assumes "remembers m c q e u" and "clock_ok m u" and "Timestamp cmd \<le> u + sm_sessionTTL m"
    and "ClientID cmd = c \<Longrightarrow> Seq cmd \<le> q" and "c \<noteq> []"
  shows "remembers (snd (Apply i cmd m)) c q e u"
proof -
  let ?m = "expireSessions (advanceClock cmd m)"
  note r = remembers_expire [OF assms(1-3)]
  show ?thesis
  proof (cases "replay cmd ?m")
    case (Some o')
    then show ?thesis using r by (simp add: replay_Apply)
  next
    case None
    then have "ClientID cmd \<noteq> c" using remembers_replay [OF r assms(5)] assms(4) by auto
    then show ?thesis using r None
      by (simp add: Apply_def Let_def split_beta remembers_def recordOutcome_def gm.lookup_put)
  qed
qed

lemma remembers_run:
  assumes "c \<noteq> []"
  shows "remembers m c q e u \<Longrightarrow> clock_ok m u \<Longrightarrow>
    \<forall>(j, cmd) \<in> set cs. Timestamp cmd \<le> u + sm_sessionTTL m \<and> (ClientID cmd = c \<longrightarrow> Seq cmd \<le> q) \<Longrightarrow>
    remembers (snd (applyLog cs m)) c q e u \<and>
    clock_ok (snd (applyLog cs m)) u \<and>
    sm_sessionTTL (snd (applyLog cs m)) = sm_sessionTTL m"
proof (induction cs arbitrary: m)
  case (Cons x cs)
  obtain j cmd where x: "x = (j, cmd)" by (cases x)
  let ?m = "snd (Apply j cmd m)"
  have "remembers ?m c q e u" "clock_ok ?m u"
    using Cons.prems x remembers_Apply [OF Cons.prems(1,2) _ _ assms] clock_ok_Apply [OF Cons.prems(2)] by auto
  then show ?case using Cons.IH [of ?m] Cons.prems(3) x Apply_clock(2) [of j cmd m] by (simp add: split_beta)
qed simp

lemma execute_error: "fst (execute i cmd m) \<noteq> Some []"
  by (simp add: execute_def)

lemma Apply_fresh:
  assumes "replay cmd (expireSessions (advanceClock cmd m)) = None" and "Apply i cmd m = (e, m')"
    and "ClientID cmd \<noteq> []"
  shows "remembers m' (ClientID cmd) (Seq cmd) e (sm_now m')"
proof -
  let ?m = "expireSessions (advanceClock cmd m)"
  have "e = fst (execute i cmd ?m)" "m' = recordOutcome cmd e (snd (execute i cmd ?m))"
    using assms(1,2) by (auto simp: Apply_def Let_def split_beta)
  then show ?thesis using assms(3) execute_error [of i cmd ?m]
    by (auto simp: remembers_def recordOutcome_def gm.lookup_put split: option.splits)
qed

section \<open>Properties\<close>

definition demoCommand :: "CommandOp \<Rightarrow> string \<Rightarrow> string \<Rightarrow> 64 word \<Rightarrow> int \<Rightarrow> Command" where
  "demoCommand op v client q ts =
     \<lparr>Op = op, Key = ''k'', Value = v, ClientID = client, Seq = q, Timestamp = ts\<rparr>"



text \<open>C31. Replicas agree: two machines that hold the same state, in whatever order their maps
  iterate, give the same results along any log and answer every read alike at its end.\<close>

theorem replicas_agree:
  assumes "sm_eq a b"
  shows "fst (applyLog log a) = fst (applyLog log b) \<and>
    Get (snd (applyLog log a)) = Get (snd (applyLog log b))"
  using rep.run_agrees [OF assms, of log] by (auto simp: Get_def fun_eq_iff sm_eq_def)

theorem replicas_agree_witness:
  "Get (snd (applyLog [(1, demoCommand OpSet ''v'' [] 0 5)] (NewMemoryStateMachine\<lparr>sm_data := [(''a'', ''1''), (''b'', ''2'')]\<rparr>))) =
   Get (snd (applyLog [(1, demoCommand OpSet ''v'' [] 0 5)] (NewMemoryStateMachine\<lparr>sm_data := [(''b'', ''2''), (''a'', ''1'')]\<rparr>)))"
proof -
  have "sm_eq (NewMemoryStateMachine\<lparr>sm_data := [(''a'', ''1''), (''b'', ''2'')]\<rparr>)
      (NewMemoryStateMachine\<lparr>sm_data := [(''b'', ''2''), (''a'', ''1'')]\<rparr>)"
    by (auto simp: sm_eq_def sm_wf_def mwf_def NewMemoryStateMachine_def mget_def fun_eq_iff)
  from replicas_agree [OF this] show ?thesis by blast
qed

definition codecFor :: "machine_enc \<Rightarrow> machine_dec \<Rightarrow> machineState \<Rightarrow> bool" where
  "codecFor enc dec st \<longleftrightarrow> (\<exists>st'. dec (enc st) = Some st' \<and> mwf (Data st') \<and> mwf (Sessions st') \<and>
     mget (Data st') = mget (Data st) \<and> mget (Sessions st') = mget (Sessions st) \<and>
     Now st' = Now st \<and> AppliesSinceSweep st' = AppliesSinceSweep st)"

lemma restore_eq:
  assumes "sm_wf m" and "codecFor enc dec (machineStateOf m)" and "sm_sessionTTL m0 = sm_sessionTTL m"
  shows "\<exists>m'. Restore dec (Snapshot enc m) m0 = (True, m') \<and> sm_eq m m'"
  using assms by (auto simp: codecFor_def Restore_def Snapshot_def machineStateOf_def sm_eq_def sm_wf_def)

lemma sm_wf_run: "sm_wf m \<Longrightarrow> sm_wf (snd (applyLog cs m))"
  using rep.run_agrees [of m m cs] by (auto simp: sm_eq_def)

text \<open>C31. A snapshot stands for the log it covers: a replica with the same time-to-live that
  restores it, whatever it held before, and applies the rest of the log agrees with one that
  applied all of it, sessions and clock included.\<close>

theorem snapshot_stands_for_log:
  assumes "sm_wf a" and "codecFor enc dec (machineStateOf (snd (applyLog cs a)))"
    and "sm_sessionTTL b = sm_sessionTTL (snd (applyLog cs a))"
  shows "\<exists>b'. Restore dec (Snapshot enc (snd (applyLog cs a))) b = (True, b') \<and>
    sm_eq (snd (applyLog (cs @ ds) a)) (snd (applyLog ds b'))"
  using restore_eq [OF sm_wf_run [OF assms(1)] assms(2,3)] rep.catch_up by blast

theorem snapshot_stands_for_log_witness:
  "\<exists>b'. Restore (\<lambda>_. Some (machineStateOf NewMemoryStateMachine)) (Snapshot (\<lambda>_. []) NewMemoryStateMachine)
      (NewMemoryStateMachine\<lparr>sm_data := [(''x'', ''stale'')]\<rparr>) = (True, b') \<and>
    sm_eq (snd (applyLog [(1, demoCommand OpSet ''v'' [] 0 5)] NewMemoryStateMachine))
      (snd (applyLog [(1, demoCommand OpSet ''v'' [] 0 5)] b'))"
  using snapshot_stands_for_log [of NewMemoryStateMachine "\<lambda>_. []" "\<lambda>_. Some (machineStateOf NewMemoryStateMachine)" "[]"
      "NewMemoryStateMachine\<lparr>sm_data := [(''x'', ''stale'')]\<rparr>" "[(1, demoCommand OpSet ''v'' [] 0 5)]"]
  by (simp add: codecFor_def machineStateOf_def NewMemoryStateMachine_def sm_wf_def)

text \<open>The effect of a command that is not a retransmission, on what a read returns: a set
  with a key writes it, a delete with a key removes it, a no-op, an unknown operation and an
  empty key change nothing, and exactly the last two report an error.\<close>

theorem apply_fresh_effect:
  assumes "sm_wf m" and "replay cmd (expireSessions (advanceClock cmd m)) = None"
  shows "Get (snd (Apply i cmd m)) =
      (if Op cmd = OpSet \<and> Key cmd \<noteq> [] then (Get m)(Key cmd \<mapsto> Value cmd)
       else if Op cmd = OpDelete \<and> Key cmd \<noteq> [] then (Get m)(Key cmd := None) else Get m) \<and>
    (fst (Apply i cmd m) = None \<longleftrightarrow>
      Op cmd = OpNoop \<or> Op cmd \<in> {OpSet, OpDelete} \<and> Key cmd \<noteq> [])"
proof -
  have "Op cmd \<noteq> OpNoop" if "Op cmd \<in> {OpSet, OpDelete}" using that by (auto simp: OpSet_def OpDelete_def OpNoop_def)
  moreover have "OpDelete \<noteq> OpSet" by (simp add: OpSet_def OpDelete_def)
  ultimately show ?thesis using assms
    by (auto simp: Apply_def Let_def split_beta execute_def Get_def fun_eq_iff gm.lookup_put gm.lookup_del sm_wf_def)
qed

theorem apply_fresh_effect_witness:
  "Get (snd (Apply 1 (demoCommand OpSet ''v'' [] 0 5) NewMemoryStateMachine)) ''k'' = Some ''v''"
  using apply_fresh_effect [of NewMemoryStateMachine "demoCommand OpSet ''v'' [] 0 5" 1]
  by (simp add: replay_def demoCommand_def NewMemoryStateMachine_def sm_wf_def)

end
