(* ===== verification/Snapshot_Store.thy ===== *)
theory Snapshot_Store
  imports State_Machine_Spec Replicator
begin

text \<open>
  Snapshots on disk, \<^verbatim>\<open>internal/store/snapshot.go\<close>, and the startup sequence of
  \<^verbatim>\<open>cmd/crystal/main.go\<close> that restores from one.
\<close>

section \<open>Definitions\<close>

record SnapshotMeta =
  LastIncludedIndex :: int
  LastIncludedTerm :: int

record SnapshotFile =
  Meta :: SnapshotMeta
  State :: bytes

text \<open>
  The JSON codecs the components above the log are handed: for commands, for the state
  machine's snapshot, and for the snapshot file around it.
\<close>

record Codecs =
  encEntry :: marshal
  encCommand :: "Command \<Rightarrow> bytes option"
  decCommand :: "bytes \<Rightarrow> Command option"
  encMachine :: machine_enc
  decMachine :: machine_dec
  encSnapshot :: "SnapshotFile \<Rightarrow> bytes"
  decSnapshot :: "bytes \<Rightarrow> SnapshotFile option"

definition snapshotWrite :: "Codecs \<Rightarrow> SnapshotMeta \<Rightarrow> MemoryStateMachine \<Rightarrow> AtomicFile \<Rightarrow> bool \<times> AtomicFile" where
  "snapshotWrite cd meta sm f =
     (let raw = Snapshot (encMachine cd) sm;
          data = encSnapshot cd \<lparr>Meta = meta, State = raw\<rparr>
      in WriteFileAtomic data f)"

datatype snapshot_error = ReadSnapshot | ParseSnapshot | EmptySnapshot int | RestoreSnapshot

definition snapshotRead :: "Codecs \<Rightarrow> AtomicFile \<Rightarrow> (snapshot_error + SnapshotFile option) \<times> AtomicFile" where
  "snapshotRead cd f =
     (case visible f of
        None \<Rightarrow> (Inr None, f)
      | Some data \<Rightarrow>
          (case nextCall f of
             (False, f) \<Rightarrow> (Inl ReadSnapshot, f)
           | (True, f) \<Rightarrow>
               (case decSnapshot cd data of None \<Rightarrow> Inl ParseSnapshot | Some sf \<Rightarrow> Inr (Some sf), f)))"

definition EncodeState :: "SnapshotFile \<Rightarrow> snapshot_error + bytes" where
  "EncodeState sf = (if State sf = [] then Inl (EmptySnapshot (LastIncludedIndex (Meta sf))) else Inr (State sf))"

datatype startup_error = SnapshotProblem snapshot_error | LogReset

definition restoreFromSnapshot ::
  "Codecs \<Rightarrow> AtomicFile \<Rightarrow> MemoryStateMachine \<Rightarrow> RaftLog \<Rightarrow> RaftNode
     \<Rightarrow> startup_error + (MemoryStateMachine \<times> RaftLog \<times> RaftNode)" where
  "restoreFromSnapshot cd f sm rl rn =
     (case fst (snapshotRead cd f) of
        Inl e \<Rightarrow> Inl (SnapshotProblem e)
      | Inr None \<Rightarrow> Inr (sm, rl, rn)
      | Inr (Some snap) \<Rightarrow>
          (case EncodeState snap of
             Inl e \<Rightarrow> Inl (SnapshotProblem e)
           | Inr raw \<Rightarrow>
               (case Restore (decMachine cd) raw sm of
                  (False, sm) \<Rightarrow> Inl (SnapshotProblem RestoreSnapshot)
                | (True, sm) \<Rightarrow>
                    (case RestoreOffset (encEntry cd) (LastIncludedIndex (Meta snap)) (LastIncludedTerm (Meta snap)) rl of
                       (False, rl) \<Rightarrow> Inl LogReset
                     | (True, rl) \<Rightarrow> Inr (sm, rl, SeedFromSnapshot (LastIncludedIndex (Meta snap)) rn)))))"

end
