(* ===== verification/Engine.thy ===== *)
theory Engine
  imports Snapshot_Store
begin

text \<open>
  The engine, \<^verbatim>\<open>internal/engine\<close>: the control loop that owns proposals, elections, commitment,
  application, compaction and reads.  The fields only the control loop touches are one
  record; each handler of the loop is one definition on it, run to its end at one instant
  \<open>now\<close>.  What a handler sends to a client's channel is added to the replies, what it sends to a
  peer to the outbox; a channel is named by a number.  A fatal error stops the engine.
\<close>

section \<open>Definitions\<close>

definition tickInterval :: nanos where "tickInterval = 20 * 1000000"
definition proposalTimeout :: nanos where "proposalTimeout = 2 * 1000000000"
definition electionTimeoutMin :: nanos where "electionTimeoutMin = 300 * 1000000"
definition electionTimeoutMax :: nanos where "electionTimeoutMax = 600 * 1000000"
definition heartbeatInterval :: nanos where "heartbeatInterval = 100 * 1000000"
definition readTimeout :: nanos where "readTimeout = 2 * 1000000000"
definition quorumGrace :: nanos where "quorumGrace = electionTimeoutMax"

datatype engine_error =
    ErrNotLeader
  | ErrCommitTimeout
  | ErrReadTimeout
  | ErrTooStale
  | ErrMaxStalenessRequired
  | ErrEncode
  | ErrAppend

record waiter =
  w_index :: int
  w_term :: int
  w_resultCh :: nat
  w_deadline :: nanos

record peerAck =
  pa_startSeq :: "64 word"
  pa_at :: nanos

record readWaiter =
  r_readIndex :: int
  r_term :: int
  r_barrier :: "64 word"
  r_awaitApply :: bool
  r_deadline :: nanos
  r_resultCh :: nat

record applyWaiter =
  a_index :: int
  a_deadline :: nanos
  a_resultCh :: nat

record encodedSnapshot =
  es_index :: int
  es_term :: int
  es_data :: bytes

text \<open>What is sent to a client, and what to a peer.\<close>

datatype reply =
    ProposalDone nat "engine_error option"
  | ReadDone nat "engine_error + int"
  | ApplyDone nat "engine_error option"

datatype outbound =
    SendPreVote int string PreVoteRequest
  | SendVote int string RequestVoteRequest
  | Nudge int

record Engine =
  e_node :: RaftNode
  e_log :: RaftLog
  e_machine :: MemoryStateMachine
  e_snapshots :: AtomicFile
  e_electionTimeout :: nanos
  e_waiters :: "waiter list"
  e_replicators :: "(int, int) gomap"
  e_replicatorsTerm :: int
  e_preVoteTerm :: int
  e_preVotes :: "(int, bool) gomap"
  e_roundSeq :: "64 word"
  e_lastQuorumNanos :: int
  e_lastAck :: "(int, peerAck) gomap"
  e_reads :: "readWaiter list"
  e_applyWaiters :: "applyWaiter list"
  e_noopIndex :: int
  e_snapCache :: "encodedSnapshot option"
  e_replies :: "reply list"
  e_outbox :: "outbound list"
  e_halted :: bool
  e_done :: bool

subsection \<open>Helpers\<close>

definition currentPeers :: "Engine \<Rightarrow> (int, string) gomap" where
  "currentPeers e = node_Peers (e_node e)"

text \<open>\<open>rnd\<close> is the draw of \<^verbatim>\<open>rng.Int63n(span)\<close>, between 0 and the span.\<close>

definition resetElectionTimeout :: "int \<Rightarrow> Engine \<Rightarrow> Engine" where
  "resetElectionTimeout rnd e = e\<lparr>e_electionTimeout := electionTimeoutMin + rnd\<rparr>"

text \<open>
  \<^verbatim>\<open>NewWithTransport\<close>; \<open>rnd\<close> is the first draw of the engine's random generator.
\<close>

definition NewWithTransport ::
  "int \<Rightarrow> RaftNode \<Rightarrow> RaftLog \<Rightarrow> MemoryStateMachine \<Rightarrow> AtomicFile \<Rightarrow> Engine" where
  "NewWithTransport rnd rn rl sm f =
     resetElectionTimeout rnd
       \<lparr>e_node = SetMinElectionTimeout electionTimeoutMin rn, e_log = rl, e_machine = sm, e_snapshots = f,
        e_electionTimeout = 0, e_waiters = [], e_replicators = [], e_replicatorsTerm = 0,
        e_preVoteTerm = 0, e_preVotes = [], e_roundSeq = 0, e_lastQuorumNanos = 0, e_lastAck = [],
        e_reads = [], e_applyWaiters = [], e_noopIndex = 0, e_snapCache = None,
        e_replies = [], e_outbox = [], e_halted = False, e_done = False\<rparr>"

definition send_reply :: "reply \<Rightarrow> Engine \<Rightarrow> Engine" where
  "send_reply r e = e\<lparr>e_replies := e_replies e @ [r]\<rparr>"

definition send_peer :: "outbound \<Rightarrow> Engine \<Rightarrow> Engine" where
  "send_peer o' e = e\<lparr>e_outbox := e_outbox e @ [o']\<rparr>"

definition notifyReplicators :: "Engine \<Rightarrow> Engine" where
  "notifyReplicators e = fold (\<lambda>p. send_peer (Nudge p)) (mkeys (e_replicators e)) e"

subsection \<open>Waiters\<close>

definition fireCommittedWaiters :: "int \<Rightarrow> int \<Rightarrow> Engine \<Rightarrow> Engine" where
  "fireCommittedWaiters commitIndex currentTerm e =
     fold (\<lambda>w e.
         if w_term w \<noteq> currentTerm then send_reply (ProposalDone (w_resultCh w) (Some ErrNotLeader)) e
         else if w_index w \<le> commitIndex then send_reply (ProposalDone (w_resultCh w) None) e
         else e\<lparr>e_waiters := e_waiters e @ [w]\<rparr>)
       (e_waiters e) (e\<lparr>e_waiters := []\<rparr>)"

definition sweepExpiredWaiters :: "nanos \<Rightarrow> Engine \<Rightarrow> Engine" where
  "sweepExpiredWaiters now e =
     fold (\<lambda>w e.
         if w_deadline w < now then send_reply (ProposalDone (w_resultCh w) (Some ErrCommitTimeout)) e
         else e\<lparr>e_waiters := e_waiters e @ [w]\<rparr>)
       (e_waiters e) (e\<lparr>e_waiters := []\<rparr>)"

definition failAllWaiters :: "engine_error \<Rightarrow> Engine \<Rightarrow> Engine" where
  "failAllWaiters err e =
     (fold (\<lambda>w. send_reply (ProposalDone (w_resultCh w) (Some err))) (e_waiters e) e)\<lparr>e_waiters := []\<rparr>"

definition sweepExpiredReads :: "nanos \<Rightarrow> Engine \<Rightarrow> Engine" where
  "sweepExpiredReads now e =
     fold (\<lambda>w e.
         if r_deadline w < now then send_reply (ReadDone (r_resultCh w) (Inl ErrReadTimeout)) e
         else e\<lparr>e_reads := e_reads e @ [w]\<rparr>)
       (e_reads e) (e\<lparr>e_reads := []\<rparr>)"

definition failAllReads :: "engine_error \<Rightarrow> Engine \<Rightarrow> Engine" where
  "failAllReads err e =
     (fold (\<lambda>w. send_reply (ReadDone (r_resultCh w) (Inl err))) (e_reads e) e)\<lparr>e_reads := []\<rparr>"

definition sweepExpiredApplyWaiters :: "nanos \<Rightarrow> Engine \<Rightarrow> Engine" where
  "sweepExpiredApplyWaiters now e =
     fold (\<lambda>w e.
         if a_deadline w < now then send_reply (ApplyDone (a_resultCh w) (Some ErrReadTimeout)) e
         else e\<lparr>e_applyWaiters := e_applyWaiters e @ [w]\<rparr>)
       (e_applyWaiters e) (e\<lparr>e_applyWaiters := []\<rparr>)"

definition failAllApplyWaiters :: "engine_error \<Rightarrow> Engine \<Rightarrow> Engine" where
  "failAllApplyWaiters err e =
     (fold (\<lambda>w. send_reply (ApplyDone (a_resultCh w) (Some err))) (e_applyWaiters e) e)\<lparr>e_applyWaiters := []\<rparr>"

definition handleApplyWait :: "applyWaiter \<Rightarrow> Engine \<Rightarrow> Engine" where
  "handleApplyWait w e =
     (let (_, applied) = CommitAndApplyBoundary (e_node e) in
      if a_index w \<le> applied then send_reply (ApplyDone (a_resultCh w) None) e
      else e\<lparr>e_applyWaiters := e_applyWaiters e @ [w]\<rparr>)"

definition fireApplyWaiters :: "Engine \<Rightarrow> Engine" where
  "fireApplyWaiters e =
     (let (_, applied) = CommitAndApplyBoundary (e_node e) in
      fold (\<lambda>w e.
          if a_index w \<le> applied then send_reply (ApplyDone (a_resultCh w) None) e
          else e\<lparr>e_applyWaiters := e_applyWaiters e @ [w]\<rparr>)
        (e_applyWaiters e) (e\<lparr>e_applyWaiters := []\<rparr>))"

subsection \<open>Replicators\<close>

definition stopReplicators :: "Engine \<Rightarrow> Engine" where
  "stopReplicators e =
     (if length (e_replicators e) = 0 then e else e\<lparr>e_replicators := [], e_replicatorsTerm := 0\<rparr>)"

definition startReplicators :: "Engine \<Rightarrow> Engine" where
  "startReplicators e =
     (let term = node_CurrentTerm (e_node e) in
      if length (e_replicators e) > 0 \<and> e_replicatorsTerm e = term then e
      else
        (let e = (if length (e_replicators e) > 0 then stopReplicators e else e)
         in e\<lparr>e_replicators := fold (\<lambda>p. mput p term) (mkeys (currentPeers e)) (e_replicators e),
              e_replicatorsTerm := term\<rparr>))"

definition reconcileLeadership :: "Engine \<Rightarrow> Engine" where
  "reconcileLeadership e =
     (let (role, term) = node_State (e_node e) in
      if role \<noteq> Leader then
        (let e = (if length (e_replicators e) > 0 then failAllWaiters ErrNotLeader (stopReplicators e) else e)
         in failAllReads ErrNotLeader e)
      else if length (e_replicators e) = 0 \<or> e_replicatorsTerm e \<noteq> term then startReplicators e
      else e)"

definition handleStepDown :: "int \<Rightarrow> Engine \<Rightarrow> Engine" where
  "handleStepDown higherTerm e =
     (if higherTerm \<le> node_CurrentTerm (e_node e) then e
      else
        (case BecomeFollower higherTerm 0 (e_node e) of
           (_, rn) \<Rightarrow>
             failAllReads ErrNotLeader (failAllWaiters ErrNotLeader (stopReplicators (e\<lparr>e_node := rn\<rparr>)))))"

subsection \<open>Proposals\<close>

definition handleProposal :: "Codecs \<Rightarrow> nanos \<Rightarrow> Command \<Rightarrow> nat \<Rightarrow> Engine \<Rightarrow> Engine" where
  "handleProposal cd now cmd ch e =
     (if \<not> IsLeader (e_node e) then send_reply (ProposalDone ch (Some ErrNotLeader)) e
      else
        (let cmd = cmd\<lparr>Timestamp := now\<rparr> in
         case encCommand cd cmd of
           None \<Rightarrow> send_reply (ProposalDone ch (Some ErrEncode)) e
         | Some cmdBytes \<Rightarrow>
             (let term = node_CurrentTerm (e_node e) in
              case AppendLeader (encEntry cd) cmdBytes term (e_log e) of
                (None, rl) \<Rightarrow> send_reply (ProposalDone ch (Some ErrAppend)) (e\<lparr>e_log := rl\<rparr>)
              | (Some entry, rl) \<Rightarrow>
                  notifyReplicators
                    (e\<lparr>e_log := rl,
                       e_waiters := e_waiters e @ [\<lparr>w_index = Index entry, w_term = term, w_resultCh = ch,
                                                   w_deadline = now + proposalTimeout\<rparr>]\<rparr>))))"

subsection \<open>Applying and compacting\<close>

text \<open>One turn of the loop of \<^verbatim>\<open>applyCommitted\<close>: the entry \<open>idx\<close> is read, decoded and applied.\<close>

definition applyOne :: "Codecs \<Rightarrow> int \<Rightarrow> Engine \<Rightarrow> bool \<times> Engine" where
  "applyOne cd idx e =
     (case GetEntry (e_log e) idx of
        None \<Rightarrow> (False, e\<lparr>e_halted := True\<rparr>)
      | Some entry \<Rightarrow>
          (case decCommand cd (Command entry) of
             None \<Rightarrow> (False, e\<lparr>e_halted := True\<rparr>)
           | Some cmd \<Rightarrow>
               (case Apply idx cmd (e_machine e) of
                  (Some err, sm) \<Rightarrow> (False, e\<lparr>e_machine := sm, e_halted := True\<rparr>)
                | (None, sm) \<Rightarrow> (True, e\<lparr>e_machine := sm\<rparr>))))"

lemma applyOne_node: "applyOne cd idx e = (b, e') \<Longrightarrow> e_node e' = e_node e"
  by (auto simp: applyOne_def split: option.splits prod.splits)

function applyLoop :: "Codecs \<Rightarrow> int \<Rightarrow> int \<Rightarrow> Engine \<Rightarrow> Engine" where
  "applyLoop cd commitIndex lastApplied e =
     (if lastApplied < commitIndex then
        (case applyOne cd (lastApplied + 1) e of
           (False, e) \<Rightarrow> e
         | (True, e) \<Rightarrow>
             (case AdvanceLastApplied (e_node e) of
                (applied, rn) \<Rightarrow> applyLoop cd commitIndex applied (e\<lparr>e_node := rn\<rparr>)))
      else e)"
  by pat_completeness auto

termination
  by (relation "measure (\<lambda>(cd, ci, la, e).
        2 * nat (ci - LastApplied (e_node e)) + (if la < ci then 1 else 0))")
     (auto simp: AdvanceLastApplied_def dest!: applyOne_node [OF sym])

declare applyLoop.simps [simp del]

definition applyCommitted :: "Codecs \<Rightarrow> Engine \<Rightarrow> Engine" where
  "applyCommitted cd e =
     (let (commitIndex, lastApplied) = CommitAndApplyBoundary (e_node e) in applyLoop cd commitIndex lastApplied e)"

definition compact :: "Codecs \<Rightarrow> int \<Rightarrow> Engine \<Rightarrow> Engine" where
  "compact cd snapshotIndex e =
     (let term = TermAt (e_log e) snapshotIndex in
      if term = 0 then e
      else
        (case snapshotWrite cd \<lparr>LastIncludedIndex = snapshotIndex, LastIncludedTerm = term\<rparr> (e_machine e) (e_snapshots e) of
           (False, f) \<Rightarrow> e\<lparr>e_snapshots := f\<rparr>
         | (True, f) \<Rightarrow>
             (case TruncateBeforeIndex (encEntry cd) snapshotIndex term (e_log e) of
                (_, rl) \<Rightarrow> e\<lparr>e_snapshots := f, e_log := rl\<rparr>)))"

definition maybeCompact :: "Codecs \<Rightarrow> Engine \<Rightarrow> Engine" where
  "maybeCompact cd e =
     (let (_, lastApplied) = CommitAndApplyBoundary (e_node e) in
      if NeedsCompaction (e_log e) lastApplied then compact cd lastApplied e else e)"

subsection \<open>Elections\<close>

definition resetLeadershipEvidence :: "nanos \<Rightarrow> Engine \<Rightarrow> Engine" where
  "resetLeadershipEvidence now e =
     e\<lparr>e_lastAck := fold (\<lambda>p. mput p \<lparr>pa_startSeq = 0, pa_at = now\<rparr>) (mkeys (currentPeers e)) []\<rparr>"

definition engine_becomeLeader :: "Codecs \<Rightarrow> nanos \<Rightarrow> int \<Rightarrow> int \<Rightarrow> Engine \<Rightarrow> Engine" where
  "engine_becomeLeader cd now electionTerm lastLogIndex e =
     (case BecomeLeader electionTerm lastLogIndex (e_node e) of
        (False, rn) \<Rightarrow> e\<lparr>e_node := rn\<rparr>
      | (True, rn) \<Rightarrow>
          (let e = resetLeadershipEvidence now (e\<lparr>e_node := rn\<rparr>);
               e = e\<lparr>e_noopIndex := 0\<rparr>;
               noop = \<lparr>Op = OpNoop, Key = [], Value = [], ClientID = [], Seq = 0, Timestamp = now\<rparr>;
               e = (case encCommand cd noop of
                      None \<Rightarrow> e
                    | Some b \<Rightarrow>
                        (case AppendLeader (encEntry cd) b electionTerm (e_log e) of
                           (None, rl) \<Rightarrow> e\<lparr>e_log := rl\<rparr>
                         | (Some entry, rl) \<Rightarrow> e\<lparr>e_log := rl, e_noopIndex := Index entry\<rparr>))
           in startReplicators e))"

definition runElection :: "Codecs \<Rightarrow> int \<Rightarrow> nanos \<Rightarrow> Engine \<Rightarrow> Engine" where
  "runElection cd rnd now e =
     (case BecomeCandidate now (e_node e) of
        (None, rn) \<Rightarrow> resetElectionTimeout rnd (e\<lparr>e_node := rn\<rparr>)
      | (Some term, rn) \<Rightarrow>
          (let e = resetElectionTimeout rnd (e\<lparr>e_node := rn\<rparr>);
               (lastLogIndex, lastLogTerm) = LastLogState (e_log e);
               req = \<lparr>rv_Term = term, rv_CandidateID = NodeID (e_node e), rv_LastLogIndex = lastLogIndex,
                      rv_LastLogTerm = lastLogTerm\<rparr>
           in if length (currentPeers e) = 0 then engine_becomeLeader cd now term lastLogIndex e
              else fold (\<lambda>(p, addr). send_peer (SendVote p addr req)) (currentPeers e) e))"

definition startPreVote :: "Codecs \<Rightarrow> int \<Rightarrow> int \<Rightarrow> nanos \<Rightarrow> Engine \<Rightarrow> Engine" where
  "startPreVote cd rnd rnd' now e =
     (let e = resetElectionTimeout rnd e;
          term = node_CurrentTerm (e_node e);
          (lastLogIndex, lastLogTerm) = LastLogState (e_log e)
      in if length (currentPeers e) = 0 then runElection cd rnd' now e
         else
           (let e = e\<lparr>e_preVoteTerm := term + 1, e_preVotes := mput (NodeID (e_node e)) True []\<rparr>;
                req = \<lparr>pv_Term = e_preVoteTerm e, pv_CandidateID = NodeID (e_node e),
                       pv_LastLogIndex = lastLogIndex, pv_LastLogTerm = lastLogTerm\<rparr>
            in fold (\<lambda>(p, addr). send_peer (SendPreVote p addr req)) (currentPeers e) e))"

definition handlePreVoteResult ::
  "Codecs \<Rightarrow> int \<Rightarrow> nanos \<Rightarrow> int \<Rightarrow> int \<Rightarrow> PreVoteResponse \<Rightarrow> Engine \<Rightarrow> Engine" where
  "handlePreVoteResult cd rnd now pollTerm voterID resp e =
     (if pollTerm \<noteq> e_preVoteTerm e then e
      else
        (let (role, term) = node_State (e_node e) in
         if role = Leader \<or> pollTerm \<le> term then e
         else if term < pvr_Term resp then
           (case BecomeFollower (pvr_Term resp) 0 (e_node e) of
              (_, rn) \<Rightarrow> e\<lparr>e_node := rn, e_preVoteTerm := 0\<rparr>)
         else if \<not> pvr_VoteGranted resp then e
         else
           (let e = e\<lparr>e_preVotes := mput voterID True (e_preVotes e)\<rparr>
            in if node_HasQuorum (e_node e) (e_preVotes e)
               then runElection cd rnd now (e\<lparr>e_preVoteTerm := 0\<rparr>) else e)))"

definition handleVoteResult :: "Codecs \<Rightarrow> nanos \<Rightarrow> int \<Rightarrow> int \<Rightarrow> RequestVoteResponse \<Rightarrow> Engine \<Rightarrow> Engine" where
  "handleVoteResult cd now electionTerm voterID resp e =
     (let (role, term) = node_State (e_node e) in
      if term \<noteq> electionTerm \<or> role \<noteq> Candidate then e
      else if term < rvr_Term resp then
        (case BecomeFollower (rvr_Term resp) 0 (e_node e) of (_, rn) \<Rightarrow> e\<lparr>e_node := rn\<rparr>)
      else if \<not> rvr_VoteGranted resp then e
      else
        (case RecordVoteAndCheckMajority voterID electionTerm (e_node e) of
           (won, rn) \<Rightarrow>
             (let e = e\<lparr>e_node := rn\<rparr> in
              if won then engine_becomeLeader cd now electionTerm (LatestIndex (e_log e)) e else e)))"

subsection \<open>Reads\<close>

definition readSatisfied :: "readWaiter \<Rightarrow> NodeRole \<Rightarrow> int \<Rightarrow> int \<Rightarrow> int \<Rightarrow> Engine \<Rightarrow> bool" where
  "readSatisfied w role term commitIndex lastApplied e =
     (if role \<noteq> Leader \<or> term \<noteq> r_term w then False
      else if commitIndex < e_noopIndex e then False
      else if r_awaitApply w \<and> lastApplied < r_readIndex w then False
      else
        (let confirmed = 1 + int (length (filter (\<lambda>(_, ack). r_barrier w < pa_startSeq ack) (e_lastAck e)))
         in ClusterSize (e_node e) div 2 < confirmed))"

definition fireReadWaiters :: "Engine \<Rightarrow> Engine" where
  "fireReadWaiters e =
     (let (role, term) = node_State (e_node e);
          (commitIndex, lastApplied) = CommitAndApplyBoundary (e_node e)
      in fold (\<lambda>w e.
           if role \<noteq> Leader \<or> term \<noteq> r_term w then send_reply (ReadDone (r_resultCh w) (Inl ErrNotLeader)) e
           else if readSatisfied w role term commitIndex lastApplied e
             then send_reply (ReadDone (r_resultCh w) (Inr (r_readIndex w))) e
           else e\<lparr>e_reads := e_reads e @ [w]\<rparr>)
         (e_reads e) (e\<lparr>e_reads := []\<rparr>))"

definition handleRead :: "nanos \<Rightarrow> nat \<Rightarrow> bool \<Rightarrow> Engine \<Rightarrow> Engine" where
  "handleRead now ch awaitApply e =
     (let (role, term) = node_State (e_node e) in
      if role \<noteq> Leader then send_reply (ReadDone ch (Inl ErrNotLeader)) e
      else
        (let (commitIndex, _) = CommitAndApplyBoundary (e_node e);
             readIndex = (if commitIndex < e_noopIndex e then e_noopIndex e else commitIndex);
             w = \<lparr>r_readIndex = readIndex, r_term = term, r_barrier = e_roundSeq e, r_awaitApply = awaitApply,
                  r_deadline = now + readTimeout, r_resultCh = ch\<rparr>
         in fireReadWaiters (notifyReplicators (e\<lparr>e_reads := e_reads e @ [w]\<rparr>))))"

definition nextRoundSeq :: "Engine \<Rightarrow> 64 word \<times> Engine" where
  "nextRoundSeq e = (e_roundSeq e + 1, e\<lparr>e_roundSeq := e_roundSeq e + 1\<rparr>)"

definition handleAck :: "nanos \<Rightarrow> int \<Rightarrow> 64 word \<Rightarrow> Engine \<Rightarrow> Engine" where
  "handleAck now peerID startSeq e =
     (let prev = mget0 \<lparr>pa_startSeq = 0, pa_at = 0\<rparr> (e_lastAck e) peerID;
          prev = (if pa_startSeq prev < startSeq then prev\<lparr>pa_startSeq := startSeq\<rparr> else prev);
          prev = prev\<lparr>pa_at := now\<rparr>
      in fireReadWaiters (e\<lparr>e_lastAck := mput peerID prev (e_lastAck e)\<rparr>))"

definition noteQuorumConfirmed :: "nanos \<Rightarrow> Engine \<Rightarrow> Engine" where
  "noteQuorumConfirmed now e = e\<lparr>e_lastQuorumNanos := now\<rparr>"

definition checkQuorum :: "nanos \<Rightarrow> Engine \<Rightarrow> Engine" where
  "checkQuorum now e =
     (if length (currentPeers e) = 0 then e
      else
        (let cutoff = now - quorumGrace;
             reachable = 1 + int (length (filter (\<lambda>(_, ack). cutoff < pa_at ack) (e_lastAck e)))
         in if ClusterSize (e_node e) div 2 < reachable then noteQuorumConfirmed now e
            else
              (case BecomeFollower (node_CurrentTerm (e_node e)) 0 (e_node e) of
                 (False, rn) \<Rightarrow> e\<lparr>e_node := rn\<rparr>
               | (True, rn) \<Rightarrow>
                   failAllReads ErrNotLeader (failAllWaiters ErrNotLeader (stopReplicators (e\<lparr>e_node := rn\<rparr>))))))"

text \<open>\<^verbatim>\<open>time.Duration(math.MaxInt64)\<close> for a leader that has confirmed nothing yet.\<close>

definition staleness :: "nanos \<Rightarrow> Engine \<Rightarrow> nanos" where
  "staleness now e =
     (if length (currentPeers e) = 0 then 0
      else if \<not> IsLeader (e_node e) then TimeSinceContact now (e_node e)
      else if e_lastQuorumNanos e = 0 then 2 ^ 63 - 1
      else now - e_lastQuorumNanos e)"

text \<open>
  The calls of a client or of another node wait for a channel: the wait ends with a value, with
  the timer, or with the end of the control loop.
\<close>

datatype 'a wait = Got 'a | TimedOut | Closed

definition leaderRead :: "unit wait \<Rightarrow> (engine_error + int) wait \<Rightarrow> engine_error option" where
  "leaderRead admitted result =
     (case admitted of
        TimedOut \<Rightarrow> Some ErrReadTimeout
      | Closed \<Rightarrow> Some ErrNotLeader
      | Got _ \<Rightarrow>
          (case result of
             Got (Inl err) \<Rightarrow> Some err
           | Got (Inr _) \<Rightarrow> None
           | _ \<Rightarrow> Some ErrReadTimeout))"

definition awaitApplied :: "int \<Rightarrow> unit wait \<Rightarrow> engine_error option wait \<Rightarrow> Engine \<Rightarrow> engine_error option" where
  "awaitApplied index admitted result e =
     (if index \<le> snd (CommitAndApplyBoundary (e_node e)) then None
      else
        (case admitted of
           TimedOut \<Rightarrow> Some ErrReadTimeout
         | Closed \<Rightarrow> Some ErrReadTimeout
         | Got _ \<Rightarrow> (case result of Got err \<Rightarrow> err | _ \<Rightarrow> Some ErrReadTimeout)))"

text \<open>A follower asks the leader for an index and waits for it; \<open>e'\<close> is the engine when the answer is here.\<close>

definition followerRead ::
  "(string \<Rightarrow> ReadIndexRequest \<Rightarrow> ReadIndexResponse option) \<Rightarrow> unit wait \<Rightarrow> engine_error option wait
     \<Rightarrow> Engine \<Rightarrow> Engine \<Rightarrow> engine_error option" where
  "followerRead send admitted result e e' =
     (let leaderID = CurrentLeader (e_node e) in
      if leaderID = 0 then Some ErrNotLeader
      else
        (case mget (currentPeers e) leaderID of
           None \<Rightarrow> Some ErrNotLeader
         | Some addr \<Rightarrow>
             (case ReadIndexFrom (send addr) \<lparr>ri_FromNodeID = NodeID (e_node e)\<rparr> of
                None \<Rightarrow> Some ErrNotLeader
              | Some resp \<Rightarrow>
                  (if \<not> rir_Success resp then Some ErrNotLeader
                   else awaitApplied (rir_ReadIndex resp) admitted result e'))))"

definition LinearizableRead ::
  "(string \<Rightarrow> ReadIndexRequest \<Rightarrow> ReadIndexResponse option) \<Rightarrow> unit wait \<Rightarrow> (engine_error + int) wait
     \<Rightarrow> unit wait \<Rightarrow> engine_error option wait \<Rightarrow> Engine \<Rightarrow> Engine \<Rightarrow> engine_error option" where
  "LinearizableRead send admitted result admitted' result' e e' =
     (if IsLeader (e_node e) then leaderRead admitted result
      else followerRead send admitted' result' e e')"

text \<open>The leader's answer to a follower; \<open>e\<close> is the engine when the answer is composed.\<close>

definition HandleReadIndex :: "unit wait \<Rightarrow> (engine_error + int) wait \<Rightarrow> Engine \<Rightarrow> ReadIndexResponse" where
  "HandleReadIndex admitted result e =
     (let failed = \<lparr>rir_Term = node_CurrentTerm (e_node e), rir_ReadIndex = 0, rir_Success = False\<rparr> in
      case admitted of
        Got _ \<Rightarrow>
          (case result of
             Got (Inr idx) \<Rightarrow> \<lparr>rir_Term = node_CurrentTerm (e_node e), rir_ReadIndex = idx, rir_Success = True\<rparr>
           | _ \<Rightarrow> failed)
      | _ \<Rightarrow> failed)"

definition boundedRead ::
  "nanos \<Rightarrow> nanos \<Rightarrow> unit wait \<Rightarrow> engine_error option wait \<Rightarrow> Engine \<Rightarrow> engine_error option" where
  "boundedRead now maxStaleness admitted result e =
     (if maxStaleness \<le> 0 then Some ErrMaxStalenessRequired
      else if maxStaleness < staleness now e then Some ErrTooStale
      else
        (let (commitIndex, _) = CommitAndApplyBoundary (e_node e) in
         case awaitApplied commitIndex admitted result e of
           Some _ \<Rightarrow> Some ErrTooStale
         | None \<Rightarrow> None))"

datatype Consistency = Linearizable | BoundedStale

record ReadOptions =
  ro_Consistency :: Consistency
  ro_MaxStaleness :: nanos

text \<open>\<open>linearizable\<close> and \<open>bounded\<close> are the outcomes of the two calls at the time they are made.\<close>

definition engine_Read :: "engine_error option \<Rightarrow> (nanos \<Rightarrow> engine_error option) \<Rightarrow> ReadOptions \<Rightarrow> engine_error option" where
  "engine_Read linearizable bounded opts =
     (case ro_Consistency opts of
        BoundedStale \<Rightarrow> bounded (ro_MaxStaleness opts)
      | Linearizable \<Rightarrow> linearizable)"

subsection \<open>The tick\<close>

definition onTick :: "Codecs \<Rightarrow> int \<Rightarrow> int \<Rightarrow> nanos \<Rightarrow> Engine \<Rightarrow> Engine" where
  "onTick cd rnd rnd' now e =
     (let e = reconcileLeadership e;
          (role, term) = node_State (e_node e);
          e = (if role = Leader then
                 (let rn = snd (AdvanceCommitIndex (LatestIndex (e_log e)) (TermAt (e_log e)) term (e_node e));
                      e = e\<lparr>e_node := rn\<rparr>;
                      (commitIndex, _) = CommitAndApplyBoundary (e_node e)
                  in fireCommittedWaiters commitIndex term e)
               else if e_electionTimeout e \<le> TimeSinceContact now (e_node e) then startPreVote cd rnd rnd' now e
               else e);
          e = applyCommitted cd e
      in if e_halted e then e
         else
           (let e = maybeCompact cd e;
                e = fireReadWaiters e;
                e = fireApplyWaiters e;
                e = (if IsLeader (e_node e) then checkQuorum now e else e)
            in sweepExpiredApplyWaiters now (sweepExpiredReads now (sweepExpiredWaiters now e))))"

subsection \<open>The control loop\<close>

datatype event =
    EvProposal Command nat
  | EvStepDown int
  | EvPreVote int int PreVoteResponse
  | EvVote int int RequestVoteResponse
  | EvAck int "64 word"
  | EvRead nat bool
  | EvApply applyWaiter
  | EvTick
  | EvDone

text \<open>One turn of the \<^verbatim>\<open>select\<close> in \<^verbatim>\<open>Run\<close>; after a fatal error or the end of the loop there is none.\<close>

definition runTurn :: "Codecs \<Rightarrow> int \<Rightarrow> int \<Rightarrow> nanos \<Rightarrow> event \<Rightarrow> Engine \<Rightarrow> Engine" where
  "runTurn cd rnd rnd' now ev e =
     (if e_halted e \<or> e_done e then e
      else
        (case ev of
           EvProposal cmd ch \<Rightarrow> handleProposal cd now cmd ch e
         | EvStepDown higherTerm \<Rightarrow> handleStepDown higherTerm e
         | EvPreVote pollTerm voterID resp \<Rightarrow> handlePreVoteResult cd rnd now pollTerm voterID resp e
         | EvVote electionTerm voterID resp \<Rightarrow> handleVoteResult cd now electionTerm voterID resp e
         | EvAck peerID startSeq \<Rightarrow> handleAck now peerID startSeq e
         | EvRead ch awaitApply \<Rightarrow> handleRead now ch awaitApply e
         | EvApply w \<Rightarrow> handleApplyWait w e
         | EvTick \<Rightarrow> onTick cd rnd rnd' now e
         | EvDone \<Rightarrow>
             stopReplicators
               ((failAllApplyWaiters ErrReadTimeout (failAllReads ErrNotLeader (failAllWaiters ErrNotLeader e)))
                  \<lparr>e_done := True\<rparr>)))"

subsection \<open>Inbound calls\<close>

definition engine_HandleAppendEntries ::
  "Codecs \<Rightarrow> nanos \<Rightarrow> AppendEntriesRequest \<Rightarrow> Engine \<Rightarrow> AppendEntriesResponse \<times> Engine" where
  "engine_HandleAppendEntries cd now req e =
     (case HandleAppendEntries (encEntry cd) now req (e_log e) (e_node e) of
        (resp, rl, rn) \<Rightarrow> (resp, e\<lparr>e_log := rl, e_node := rn\<rparr>))"

definition engine_HandlePreVote :: "nanos \<Rightarrow> PreVoteRequest \<Rightarrow> Engine \<Rightarrow> PreVoteResponse" where
  "engine_HandlePreVote now req e = HandlePreVote now req (LastLogState (e_log e)) (e_node e)"

definition engine_HandleRequestVote ::
  "nanos \<Rightarrow> RequestVoteRequest \<Rightarrow> Engine \<Rightarrow> RequestVoteResponse \<times> Engine" where
  "engine_HandleRequestVote now req e =
     (case HandleRequestVote now req (LastLogState (e_log e)) (e_node e) of
        (resp, rn) \<Rightarrow> (resp, e\<lparr>e_node := rn\<rparr>))"

definition engine_HandleInstallSnapshot ::
  "Codecs \<Rightarrow> nanos \<Rightarrow> InstallSnapshotRequest \<Rightarrow> Engine \<Rightarrow> InstallSnapshotResponse \<times> Engine" where
  "engine_HandleInstallSnapshot cd now req e =
     (let restore = (\<lambda>b (sm, f). (case Restore (decMachine cd) b sm of (fin, sm) \<Rightarrow> (fin, (sm, f))));
          persist = (\<lambda>(sm, f).
            (case snapshotWrite cd \<lparr>LastIncludedIndex = is_LastIncludedIndex req, LastIncludedTerm = is_LastIncludedTerm req\<rparr> sm f of
               (fin, f) \<Rightarrow> (fin, (sm, f))))
      in case HandleInstallSnapshot (encEntry cd) restore persist now req (e_log e) (e_machine e, e_snapshots e) (e_node e) of
           (resp, rl, (sm, f), rn) \<Rightarrow> (resp, e\<lparr>e_log := rl, e_machine := sm, e_snapshots := f, e_node := rn\<rparr>))"

definition buildSnapshotRequest :: "Codecs \<Rightarrow> Engine \<Rightarrow> InstallSnapshotRequest option \<times> Engine" where
  "buildSnapshotRequest cd e =
     (case snapshotRead cd (e_snapshots e) of
        (Inr (Some snap), f) \<Rightarrow>
          (let e = e\<lparr>e_snapshots := f\<rparr>;
               req = (\<lambda>i t b. \<lparr>is_Term = node_CurrentTerm (e_node e), is_LeaderID = NodeID (e_node e),
                              is_LastIncludedIndex = i, is_LastIncludedTerm = t, is_Data = b\<rparr>);
               fresh = (case EncodeState snap of
                          Inl _ \<Rightarrow> (None, e)
                        | Inr b \<Rightarrow>
                            (Some (req (LastIncludedIndex (Meta snap)) (LastIncludedTerm (Meta snap)) b),
                             e\<lparr>e_snapCache := Some \<lparr>es_index = LastIncludedIndex (Meta snap),
                                es_term = LastIncludedTerm (Meta snap), es_data = b\<rparr>\<rparr>))
           in case e_snapCache e of
                Some cached \<Rightarrow>
                  (if es_index cached = LastIncludedIndex (Meta snap) \<and> es_term cached = LastIncludedTerm (Meta snap)
                   then (Some (req (es_index cached) (es_term cached) (es_data cached)), e) else fresh)
              | None \<Rightarrow> fresh)
      | (_, f) \<Rightarrow> (None, e\<lparr>e_snapshots := f\<rparr>))"

text \<open>
  One round of a peer's replicator; \<open>sendA\<close> and \<open>sendS\<close> are the transport to the peer, \<open>term\<close>
  the term the replicator was started for.  The result says what is reported to the control
  loop: a higher term, or an acknowledgement of the round.
\<close>

datatype report = HigherTerm int | Ack "64 word" | NoReport

definition replicateOnce ::
  "Codecs \<Rightarrow> (AppendEntriesRequest \<Rightarrow> AppendEntriesResponse option) \<Rightarrow>
     (InstallSnapshotRequest \<Rightarrow> InstallSnapshotResponse option) \<Rightarrow> int \<Rightarrow> int \<Rightarrow> Engine \<Rightarrow> report \<times> Engine" where
  "replicateOnce cd sendA sendS peerID term e =
     (if \<not> IsLeader (e_node e) then (NoReport, e)
      else
        (let (startSeq, e) = nextRoundSeq e;
             nextIdx = NextIndexFor (e_node e) peerID;
             (followerTerm, e) =
               (if nextIdx < FirstIndex (e_log e) then
                  (case buildSnapshotRequest cd e of
                     (None, e) \<Rightarrow> (case ReplicateTo sendA (e_log e) peerID (e_node e) of (t, rn) \<Rightarrow> (t, e\<lparr>e_node := rn\<rparr>))
                   | (Some req, e) \<Rightarrow> (case InstallSnapshotTo sendS peerID req (e_node e) of (t, rn) \<Rightarrow> (t, e\<lparr>e_node := rn\<rparr>)))
                else (case ReplicateTo sendA (e_log e) peerID (e_node e) of (t, rn) \<Rightarrow> (t, e\<lparr>e_node := rn\<rparr>)))
         in (if term < followerTerm then HigherTerm followerTerm
             else if followerTerm = term then Ack startSeq else NoReport, e)))"

subsection \<open>Interleaving\<close>

text \<open>
  What may happen to an engine, in any order: a turn of the control loop, a call from a peer,
  a round of a replicator.  Each runs to its end before the next; after a fatal error nothing
  happens any more.
\<close>

datatype action =
    Turn int int nanos event
  | CallAppend nanos AppendEntriesRequest
  | CallVote nanos RequestVoteRequest
  | CallSnapshot nanos InstallSnapshotRequest
  | Round "AppendEntriesRequest \<Rightarrow> AppendEntriesResponse option"
      "InstallSnapshotRequest \<Rightarrow> InstallSnapshotResponse option" int int

definition engineStep :: "Codecs \<Rightarrow> action \<Rightarrow> Engine \<Rightarrow> Engine" where
  "engineStep cd a e =
     (if e_halted e then e
      else
        (case a of
           Turn rnd rnd' now ev \<Rightarrow> runTurn cd rnd rnd' now ev e
         | CallAppend now req \<Rightarrow> snd (engine_HandleAppendEntries cd now req e)
         | CallVote now req \<Rightarrow> snd (engine_HandleRequestVote now req e)
         | CallSnapshot now req \<Rightarrow> snd (engine_HandleInstallSnapshot cd now req e)
         | Round sendA sendS peerID term \<Rightarrow> snd (replicateOnce cd sendA sendS peerID term e)))"

end
