(* ===== verification/Engine_Frames.thy ===== *)
theory Engine_Frames
  imports Engine
begin

text \<open>
  What the parts of the engine leave alone.  A view of the engine that does not show some of its
  fields is not changed by the operations that only write these; the locales say which
  fields, and every view a proof needs is an interpretation.
\<close>

lemma fold_frame: "(\<And>w e. f (g w e) = f e) \<Longrightarrow> f (fold g ws e) = f e"
  by (induction ws arbitrary: e) auto

section \<open>Clients\<close>

locale unwaited =
  fixes f :: "Engine \<Rightarrow> 'a"
  assumes waiters: "f (e\<lparr>e_waiters := ws\<rparr>) = f e"
    and reads: "f (e\<lparr>e_reads := rs\<rparr>) = f e"
    and applyWaiters: "f (e\<lparr>e_applyWaiters := aws\<rparr>) = f e"
    and replies: "f (e\<lparr>e_replies := xs\<rparr>) = f e"
begin

lemma reply: "f (send_reply r e) = f e"
  by (simp add: send_reply_def replies)

lemma sweeps:
  "f (fireCommittedWaiters ci ct e) = f e" "f (sweepExpiredWaiters now e) = f e" "f (failAllWaiters err e) = f e"
  "f (sweepExpiredReads now e) = f e" "f (failAllReads err e) = f e" "f (sweepExpiredApplyWaiters now e) = f e"
  "f (failAllApplyWaiters err e) = f e" "f (fireApplyWaiters e) = f e" "f (fireReadWaiters e) = f e"
  by (simp_all add: fireCommittedWaiters_def sweepExpiredWaiters_def failAllWaiters_def sweepExpiredReads_def failAllReads_def
      sweepExpiredApplyWaiters_def failAllApplyWaiters_def fireApplyWaiters_def fireReadWaiters_def Let_def
      waiters reads applyWaiters reply fold_frame [where f = f] split: prod.split)

lemma apply_wait: "f (handleApplyWait w e) = f e"
  by (simp add: handleApplyWait_def applyWaiters reply split: prod.split)

end

section \<open>Replicators and messages\<close>

locale uncrewed = unwaited +
  assumes replicators: "f (e\<lparr>e_replicators := ps, e_replicatorsTerm := t\<rparr>) = f e"
    and ended: "f (e\<lparr>e_done := d\<rparr>) = f e"
begin

lemma crews: "f (stopReplicators e) = f e" "f (startReplicators e) = f e" "f (reconcileLeadership e) = f e"
proof -
  show s: "f (stopReplicators e) = f e" "f (startReplicators e) = f e" for e
    by (simp_all add: stopReplicators_def startReplicators_def Let_def replicators)
  show "f (reconcileLeadership e) = f e" by (simp add: reconcileLeadership_def Let_def sweeps s split: prod.split)
qed

lemma stops: "f (stopReplicators ((failAllApplyWaiters err (failAllReads err' (failAllWaiters err'' e)))\<lparr>e_done := True\<rparr>)) = f e"
  by (simp add: crews sweeps ended)

end

locale unsent = unwaited +
  assumes outbox: "f (e\<lparr>e_outbox := ob\<rparr>) = f e"
begin

lemma sends:
  "f (send_peer m e) = f e" "f (notifyReplicators e) = f e" "f (fold (\<lambda>(p, addr). send_peer (g p addr)) nodes e) = f e"
  by (simp_all add: send_peer_def notifyReplicators_def outbox fold_frame [where f = f] split_beta)

lemma read: "f (handleRead now ch b e) = f e"
  by (simp add: handleRead_def Let_def sends sweeps reads reply split: prod.split)

end

locale aside = uncrewed f + unsent f for f :: "Engine \<Rightarrow> 'a"

section \<open>Application\<close>

locale unapplied =
  fixes f :: "Engine \<Rightarrow> 'a"
  assumes node: "f (e\<lparr>e_node := rn\<rparr>) = f e"
    and log: "f (e\<lparr>e_log := rl\<rparr>) = f e"
    and machine: "f (e\<lparr>e_machine := sm\<rparr>) = f e"
    and snapshots: "f (e\<lparr>e_snapshots := af\<rparr>) = f e"
    and halted: "f (e\<lparr>e_halted := h\<rparr>) = f e"
begin

lemma apply_loop: "f (applyLoop cd ci la e) = f e"
proof (induction cd ci la e rule: applyLoop.induct)
  case (1 cd ci la e)
  have "f (snd (applyOne cd (la + 1) e)) = f e"
    by (auto simp: applyOne_def machine halted split: option.split prod.split)
  with 1 show ?case by (subst applyLoop.simps) (auto simp: node split: prod.split bool.split)
qed

lemma applies: "f (applyCommitted cd e) = f e" "f (maybeCompact cd e) = f e"
proof -
  show "f (applyCommitted cd e) = f e" by (simp add: applyCommitted_def apply_loop split: prod.split)
  show "f (maybeCompact cd e) = f e"
    by (simp add: maybeCompact_def compact_def Let_def log snapshots split: prod.split bool.split)
qed

end

section \<open>The node and the log\<close>

interpretation nod: aside e_node
  by unfold_locales simp_all

interpretation lgv: aside e_log
  by unfold_locales simp_all

end
