(* ===== verification/Engine_Clients.thy ===== *)
theory Engine_Clients
  imports Engine_Frames "HOL-Library.Multiset"
begin

text \<open>
  The clients of the engine: every proposal, read and apply wait handed to the control loop
  is either still waiting or has been answered, once.
\<close>

section \<open>Definitions\<close>

datatype client = Writer nat | Reader nat | Waiter nat

primrec clientOf :: "reply \<Rightarrow> client" where
  "clientOf (ProposalDone ch _) = Writer ch"
| "clientOf (ReadDone ch _) = Reader ch"
| "clientOf (ApplyDone ch _) = Waiter ch"

definition pending :: "Engine \<Rightarrow> client multiset" where
  "pending e = mset (map (\<lambda>w. Writer (w_resultCh w)) (e_waiters e)) +
     mset (map (\<lambda>w. Reader (r_resultCh w)) (e_reads e)) +
     mset (map (\<lambda>w. Waiter (a_resultCh w)) (e_applyWaiters e))"

definition answered :: "Engine \<Rightarrow> client multiset" where
  "answered e = mset (map clientOf (e_replies e))"

definition clients :: "Engine \<Rightarrow> client multiset" where
  "clients e = pending e + answered e"

primrec arriving :: "event \<Rightarrow> client multiset" where
  "arriving (EvProposal cmd ch) = {#Writer ch#}"
| "arriving (EvStepDown t) = {#}"
| "arriving (EvPreVote t v r) = {#}"
| "arriving (EvVote t v r) = {#}"
| "arriving (EvAck p s) = {#}"
| "arriving (EvRead ch b) = {#Reader ch#}"
| "arriving (EvApply w) = {#Waiter (a_resultCh w)#}"
| "arriving EvTick = {#}"
| "arriving EvDone = {#}"

section \<open>The handlers keep the clients\<close>

lemmas client_defs = clients_def pending_def answered_def

lemma clients_update [simp]:
  "clients (e\<lparr>e_node := x1\<rparr>) = clients e" "clients (e\<lparr>e_log := x2\<rparr>) = clients e"
  "clients (e\<lparr>e_machine := x3\<rparr>) = clients e" "clients (e\<lparr>e_snapshots := x4\<rparr>) = clients e"
  "clients (e\<lparr>e_electionTimeout := x5\<rparr>) = clients e" "clients (e\<lparr>e_replicators := x6\<rparr>) = clients e"
  "clients (e\<lparr>e_replicatorsTerm := x7\<rparr>) = clients e" "clients (e\<lparr>e_preVoteTerm := x8\<rparr>) = clients e"
  "clients (e\<lparr>e_preVotes := x9\<rparr>) = clients e" "clients (e\<lparr>e_roundSeq := x10\<rparr>) = clients e"
  "clients (e\<lparr>e_lastQuorumNanos := x11\<rparr>) = clients e" "clients (e\<lparr>e_lastAck := x12\<rparr>) = clients e"
  "clients (e\<lparr>e_noopIndex := x13\<rparr>) = clients e" "clients (e\<lparr>e_outbox := x14\<rparr>) = clients e"
  "clients (e\<lparr>e_halted := x15\<rparr>) = clients e" "clients (e\<lparr>e_done := x16\<rparr>) = clients e"
  "clients (e\<lparr>e_snapCache := x17\<rparr>) = clients e"
  by (simp_all add: client_defs)

lemma clients_reply [simp]: "clients (send_reply r e) = clients e + {#clientOf r#}"
  by (simp add: client_defs send_reply_def)

lemma clients_peer [simp]: "clients (send_peer p e) = clients e"
  by (simp add: send_peer_def)

lemma clients_wait:
  "clients (e\<lparr>e_waiters := e_waiters e @ [w]\<rparr>) = clients e + {#Writer (w_resultCh w)#}"
  "clients (e\<lparr>e_reads := e_reads e @ [r]\<rparr>) = clients e + {#Reader (r_resultCh r)#}"
  "clients (e\<lparr>e_applyWaiters := e_applyWaiters e @ [a]\<rparr>) = clients e + {#Waiter (a_resultCh a)#}"
  "clients (e\<lparr>e_log := l, e_waiters := e_waiters e @ [w]\<rparr>) = clients e + {#Writer (w_resultCh w)#}"
  by (simp_all add: client_defs)

lemma clients_take:
  "clients (e\<lparr>e_waiters := []\<rparr>) + mset (map (\<lambda>w. Writer (w_resultCh w)) (e_waiters e)) = clients e"
  "clients (e\<lparr>e_reads := []\<rparr>) + mset (map (\<lambda>w. Reader (r_resultCh w)) (e_reads e)) = clients e"
  "clients (e\<lparr>e_applyWaiters := []\<rparr>) + mset (map (\<lambda>w. Waiter (a_resultCh w)) (e_applyWaiters e)) = clients e"
  by (simp_all add: client_defs)

lemma clients_fold:
  assumes "\<And>w e. clients (f w e) = clients e + {#c w#}"
  shows "clients (fold f ws e) = clients e + mset (map c ws)"
  by (induction ws arbitrary: e) (simp_all add: assms)

lemma fold_replies:
  "fold (\<lambda>w. send_reply (g w)) ws e = e\<lparr>e_replies := e_replies e @ map g ws\<rparr>"
  by (induction ws arbitrary: e) (simp_all add: send_reply_def)

lemma clients_sweeps [simp]:
  "clients (fireCommittedWaiters ci t e) = clients e"
  "clients (sweepExpiredWaiters now e) = clients e"
  "clients (sweepExpiredReads now e) = clients e"
  "clients (sweepExpiredApplyWaiters now e) = clients e"
  "clients (fireApplyWaiters e) = clients e"
  "clients (fireReadWaiters e) = clients e"
  unfolding fireCommittedWaiters_def sweepExpiredWaiters_def sweepExpiredReads_def
    sweepExpiredApplyWaiters_def fireApplyWaiters_def fireReadWaiters_def Let_def case_prod_unfold
  by (subst clients_fold [where c = "\<lambda>w. Writer (w_resultCh w)"], simp add: clients_wait, rule clients_take
    | subst clients_fold [where c = "\<lambda>w. Reader (r_resultCh w)"], simp add: clients_wait, rule clients_take
    | subst clients_fold [where c = "\<lambda>w. Waiter (a_resultCh w)"], simp add: clients_wait, rule clients_take)+

lemma clients_fail [simp]:
  "clients (failAllWaiters err e) = clients e"
  "clients (failAllReads err e) = clients e"
  "clients (failAllApplyWaiters err e) = clients e"
  by (simp_all add: failAllWaiters_def failAllReads_def failAllApplyWaiters_def fold_replies client_defs comp_def)

lemma clients_replicators [simp]:
  "clients (stopReplicators e) = clients e"
  "clients (startReplicators e) = clients e"
  "clients (notifyReplicators e) = clients e"
  by (simp_all add: stopReplicators_def startReplicators_def notifyReplicators_def Let_def fold_frame [where f = clients])

interpretation cli: unapplied clients
  by unfold_locales simp_all

lemma clients_roles [simp]:
  "clients (engine_becomeLeader cd now t i e) = clients e"
  "clients (runElection cd rnd now e) = clients e"
  "clients (startPreVote cd rnd rnd' now e) = clients e"
  "clients (reconcileLeadership e) = clients e"
  "clients (checkQuorum now e) = clients e"
proof -
  show lead: "clients (engine_becomeLeader cd now t i e) = clients e" for cd now t i e
    by (simp add: engine_becomeLeader_def resetLeadershipEvidence_def Let_def split: prod.splits bool.splits option.splits)
  show elect: "clients (runElection cd rnd now e) = clients e" for rnd now e
    by (simp add: runElection_def resetElectionTimeout_def Let_def lead fold_frame [where f = clients] split: prod.splits option.splits)
  show "clients (startPreVote cd rnd rnd' now e) = clients e"
    by (simp add: startPreVote_def resetElectionTimeout_def Let_def elect fold_frame [where f = clients] split: prod.splits)
qed (simp_all add: reconcileLeadership_def checkQuorum_def noteQuorumConfirmed_def Let_def split: prod.splits bool.splits)

lemma clients_handlers:
  "clients (handleProposal cd now cmd ch e) = clients e + {#Writer ch#}"
  "clients (handleStepDown t e) = clients e"
  "clients (handlePreVoteResult cd rnd now t v pr e) = clients e"
  "clients (handleVoteResult cd now t v vr e) = clients e"
  "clients (handleAck now p s e) = clients e"
  "clients (handleRead now ch b e) = clients e + {#Reader ch#}"
  "clients (handleApplyWait w e) = clients e + {#Waiter (a_resultCh w)#}"
  "clients (onTick cd rnd rnd' now e) = clients e"
  by (simp_all add: handleProposal_def handleStepDown_def handlePreVoteResult_def handleVoteResult_def
       handleAck_def handleRead_def handleApplyWait_def onTick_def Let_def clients_wait cli.applies
       split: prod.splits bool.splits option.splits)

lemma clients_turn:
  "\<not> e_halted e \<Longrightarrow> \<not> e_done e \<Longrightarrow> clients (runTurn cd rnd rnd' now ev e) = clients e + arriving ev"
  by (cases ev) (simp_all add: runTurn_def clients_handlers)

lemma clients_calls [simp]:
  "clients (snd (engine_HandleAppendEntries cd now areq e)) = clients e"
  "clients (snd (engine_HandleRequestVote now vreq e)) = clients e"
  "clients (snd (engine_HandleInstallSnapshot cd now sreq e)) = clients e"
  "clients (snd (buildSnapshotRequest cd e)) = clients e"
  by (simp_all add: engine_HandleAppendEntries_def engine_HandleRequestVote_def engine_HandleInstallSnapshot_def
      buildSnapshotRequest_def Let_def split: prod.splits sum.splits option.splits)

lemma clients_round [simp]: "clients (snd (replicateOnce cd sendA sendS p t e)) = clients e"
proof -
  have "clients e' = clients e" if "buildSnapshotRequest cd (e\<lparr>e_roundSeq := s\<rparr>) = (r, e')" for s r e'
    using clients_calls(4) [of cd "e\<lparr>e_roundSeq := s\<rparr>"] that by simp
  then show ?thesis
    by (auto simp: replicateOnce_def nextRoundSeq_def Let_def split: prod.splits option.splits)
qed

text \<open>Whether the loop still takes work, and who arrived while it did.\<close>

definition serving :: "Engine \<Rightarrow> bool" where
  "serving e \<longleftrightarrow> \<not> e_halted e \<and> \<not> e_done e"

primrec arrivals :: "Codecs \<Rightarrow> action list \<Rightarrow> Engine \<Rightarrow> client multiset" where
  "arrivals cd [] e = {#}"
| "arrivals cd (a # as) e =
     (case a of Turn rnd rnd' now ev \<Rightarrow> if serving e then arriving ev else {#} | _ \<Rightarrow> {#}) +
     arrivals cd as (engineStep cd a e)"

lemma clients_step:
  "clients (engineStep cd a e) =
     clients e + (case a of Turn rnd rnd' now ev \<Rightarrow> if serving e then arriving ev else {#} | _ \<Rightarrow> {#})"
proof (cases a)
  case (Turn rnd rnd' now ev)
  then show ?thesis
    using clients_turn [of e cd rnd rnd' now ev] by (auto simp: engineStep_def serving_def runTurn_def)
qed (simp_all add: engineStep_def)

lemma clients_run: "clients (fold (engineStep cd) as e) = clients e + arrivals cd as e"
  by (induction as arbitrary: e) (simp_all add: clients_step)

lemma pending_done: "serving e \<Longrightarrow> pending (engineStep cd (Turn rnd rnd' now EvDone) e) = {#}"
  by (simp add: engineStep_def runTurn_def serving_def stopReplicators_def pending_def
      failAllWaiters_def failAllReads_def failAllApplyWaiters_def fold_replies)

lemma clients_new: "clients (NewWithTransport rnd rn rl sm f) = {#}"
  by (simp add: client_defs NewWithTransport_def resetElectionTimeout_def)

text \<open>C15. Every client is answered at most once and none is forgotten: along any run of the
  engine, the clients answered and those still waiting are together exactly those it took
  work from, each as often as it asked; and when the loop ends, nobody is left waiting.\<close>

theorem clients_answered_once:
  assumes "e = fold (engineStep cd) as (NewWithTransport rnd rn rl sm f)"
  shows "answered e + pending e = arrivals cd as (NewWithTransport rnd rn rl sm f) \<and>
    (serving e \<longrightarrow> answered (engineStep cd (Turn r r' now EvDone) e) =
       arrivals cd as (NewWithTransport rnd rn rl sm f))"
proof -
  have eq: "answered e + pending e = arrivals cd as (NewWithTransport rnd rn rl sm f)"
    using clients_run [of cd as "NewWithTransport rnd rn rl sm f"]
    by (simp add: assms clients_new) (simp add: clients_def add.commute)
  moreover have "answered (engineStep cd (Turn r r' now EvDone) e) = answered e + pending e" if "serving e"
    using clients_step [of cd "Turn r r' now EvDone" e] pending_done [OF that, of cd r r' now] that
    by (simp add: clients_def add.commute)
  ultimately show ?thesis by simp
qed

end
