(* ===== verification/Engine_Apply.thy ===== *)
theory Engine_Apply
  imports Engine
begin

text \<open>
  Applying committed entries: the loop feeds the state machine exactly the entries after the
  last one applied, in order, up to the commit index, or stops the node at the first entry
  that is missing, unreadable or refused.
\<close>

section \<open>Definitions\<close>

definition readCommand :: "Codecs \<Rightarrow> RaftLog \<Rightarrow> int \<Rightarrow> Command option" where
  "readCommand cd rl i = Option.bind (GetEntry rl i) (\<lambda>en. decCommand cd (Command en))"

text \<open>The commands the log holds right after index \<open>la\<close>, each with its index.\<close>

fun holdsAfter :: "Codecs \<Rightarrow> RaftLog \<Rightarrow> int \<Rightarrow> (int \<times> Command) list \<Rightarrow> bool" where
  "holdsAfter cd rl la [] \<longleftrightarrow> True"
| "holdsAfter cd rl la ((i, cmd) # cs) \<longleftrightarrow> i = la + 1 \<and> readCommand cd rl i = Some cmd \<and> holdsAfter cd rl i cs"

text \<open>Why the loop stopped the node at entry \<open>i\<close> with the machine at \<open>m\<close>.\<close>

definition unappliable :: "Codecs \<Rightarrow> RaftLog \<Rightarrow> int \<Rightarrow> MemoryStateMachine \<Rightarrow> bool" where
  "unappliable cd rl i m \<longleftrightarrow>
     (case readCommand cd rl i of None \<Rightarrow> True | Some cmd \<Rightarrow> fst (Apply i cmd m) \<noteq> None)"

section \<open>One turn of the loop\<close>

lemma applyOne_cases:
  assumes "applyOne cd i e = (fin, e')"
  obtains (Applied) cmd m where "fin" "readCommand cd (e_log e) i = Some cmd" "Apply i cmd (e_machine e) = (None, m)"
      "e' = e\<lparr>e_machine := m\<rparr>"
  | (Stopped) m where "\<not> fin" "unappliable cd (e_log e) i (e_machine e)" "e' = e\<lparr>e_machine := m, e_halted := True\<rparr>"
proof (cases "readCommand cd (e_log e) i")
  case None
  then have "applyOne cd i e = (False, e\<lparr>e_machine := e_machine e, e_halted := True\<rparr>)"
    by (auto simp: applyOne_def readCommand_def split: option.splits)
  with None assms show thesis by (intro Stopped [of "e_machine e"]) (auto simp: unappliable_def)
next
  case (Some cmd)
  then obtain en where en: "GetEntry (e_log e) i = Some en" "decCommand cd (Command en) = Some cmd"
    by (auto simp: readCommand_def split: Option.bind_splits)
  obtain r m where a: "Apply i cmd (e_machine e) = (r, m)" by force
  show thesis
  proof (cases r)
    case None
    with assms en a Some show thesis by (intro Applied) (auto simp: applyOne_def)
  next
    case (Some err)
    with assms en a \<open>readCommand cd (e_log e) i = Some cmd\<close> show thesis
      by (intro Stopped) (auto simp: applyOne_def unappliable_def)
  qed
qed

section \<open>The loop\<close>

definition appliedRun :: "Codecs \<Rightarrow> int \<Rightarrow> Engine \<Rightarrow> Engine \<Rightarrow> (int \<times> Command) list \<Rightarrow> MemoryStateMachine \<Rightarrow> bool" where
  "appliedRun cd ci e e' cs m \<longleftrightarrow>
     holdsAfter cd (e_log e) (LastApplied (e_node e)) cs \<and>
     applyLog cs (e_machine e) = (map (\<lambda>_. None) cs, m) \<and>
     (let la = LastApplied (e_node e) + int (length cs); rn = (e_node e)\<lparr>LastApplied := la\<rparr> in
      la = max (LastApplied (e_node e)) ci \<and> e' = e\<lparr>e_node := rn, e_machine := m\<rparr> \<or>
      la < ci \<and> unappliable cd (e_log e) (la + 1) m \<and>
        (\<exists>m'. e' = e\<lparr>e_node := rn, e_machine := m', e_halted := True\<rparr>))"

lemma applyLoop_run:
  "la = LastApplied (e_node e) \<Longrightarrow> \<exists>cs m. appliedRun cd ci e (applyLoop cd ci la e) cs m"
proof (induction cd ci la e rule: applyLoop.induct)
  case (1 cd ci la e)
  show ?case
  proof (cases "la < ci")
    case False
    then have "appliedRun cd ci e (applyLoop cd ci la e) [] (e_machine e)"
      using 1(2) by (subst applyLoop.simps) (simp add: appliedRun_def)
    then show ?thesis by blast
  next
    case True
    obtain fin e1 where a: "applyOne cd (la + 1) e = (fin, e1)" by force
    from a show ?thesis
    proof (cases rule: applyOne_cases)
      case (Stopped m')
      then have "applyLoop cd ci la e = e\<lparr>e_machine := m', e_halted := True\<rparr>"
        using a True by (subst applyLoop.simps) simp
      then have "appliedRun cd ci e (applyLoop cd ci la e) [] (e_machine e)"
        using Stopped(2) True unfolding appliedRun_def Let_def
        by (intro conjI disjI2 exI [of _ m']) (simp_all add: 1(2))
      then show ?thesis by blast
    next
      case (Applied cmd m1)
      let ?e2 = "e\<lparr>e_node := (e_node e)\<lparr>LastApplied := la + 1\<rparr>, e_machine := m1\<rparr>"
      have n: "AdvanceLastApplied (e_node e1) = (la + 1, (e_node e)\<lparr>LastApplied := la + 1\<rparr>)"
        using Applied(4) 1(2) by (simp add: AdvanceLastApplied_def)
      have a': "applyOne cd (la + 1) e = (True, e1)" using a Applied(1) by simp
      have e2: "e1\<lparr>e_node := (e_node e)\<lparr>LastApplied := la + 1\<rparr>\<rparr> = ?e2" using Applied(4) by simp
      have l: "applyLoop cd ci la e = applyLoop cd ci (la + 1) ?e2"
        using True by (subst applyLoop.simps) (simp only: a' n e2 if_True prod.case bool.case)
      have ih: "\<exists>cs m. appliedRun cd ci ?e2 (applyLoop cd ci (la + 1) ?e2) cs m"
        using 1(1) [OF True a' [symmetric] refl n [symmetric]] unfolding e2 by simp
      then obtain cs m where r: "appliedRun cd ci ?e2 (applyLoop cd ci (la + 1) ?e2) cs m" by blast
      have "appliedRun cd ci e (applyLoop cd ci la e) ((la + 1, cmd) # cs) m"
        using r 1(2) Applied(2,3) True unfolding l appliedRun_def
        by (auto simp: Let_def algebra_simps)
      then show ?thesis by blast
    qed
  qed
qed

section \<open>Properties\<close>

text \<open>C16. Committed entries are applied in order, each once, none skipped: a pass of the loop
  feeds the state machine the commands of the log right after the last applied index, and
  either reaches the commit index or stops the node at the first entry that is missing,
  does not decode or is refused, with everything before it applied and counted; the log,
  the commit index and the waiting clients are untouched.\<close>

theorem committed_applied_in_order:
  assumes "\<not> e_halted e"
  shows "\<exists>cs m. holdsAfter cd (e_log e) (LastApplied (e_node e)) cs \<and>
    applyLog cs (e_machine e) = (map (\<lambda>_. None) cs, m) \<and>
    (let e' = applyCommitted cd e; la = LastApplied (e_node e) + int (length cs) in
     e_node e' = (e_node e)\<lparr>LastApplied := la\<rparr> \<and> e_log e' = e_log e \<and> e_waiters e' = e_waiters e \<and>
     e_replies e' = e_replies e \<and>
     (if e_halted e' then la < CommitIndex (e_node e) \<and> unappliable cd (e_log e) (la + 1) m
      else la = max (LastApplied (e_node e)) (CommitIndex (e_node e)) \<and> e_machine e' = m))"
proof -
  obtain cs m where r: "appliedRun cd (CommitIndex (e_node e)) e (applyCommitted cd e) cs m"
    using applyLoop_run by (fastforce simp: applyCommitted_def CommitAndApplyBoundary_def)
  then show ?thesis
    unfolding appliedRun_def Let_def using assms by (intro exI [of _ cs] exI [of _ m]) auto
qed

end
