(* ===== verification/Engine_Acks.thy ===== *)
theory Engine_Acks
  imports Engine_Clients Engine_Apply
begin

text \<open>
  The invariant behind honest acknowledgements: while a node leads, the entry of every
  waiter of its term is in its log, and no handler but the tick answers a proposal with
  success.
\<close>

section \<open>Definitions\<close>

definition acks :: "Engine \<Rightarrow> nat set" where
  "acks e = {ch. ProposalDone ch None \<in> set (e_replies e)}"

text \<open>The entry of a waiter: the proposed command under the waiter's index and term.\<close>

definition ownEntry :: "Codecs \<Rightarrow> (nat \<Rightarrow> Command) \<Rightarrow> RaftLog \<Rightarrow> nat \<Rightarrow> int \<Rightarrow> int \<Rightarrow> bool" where
  "ownEntry cd sub rl ch i t \<longleftrightarrow> (\<exists>en now. GetEntry rl i = Some en \<and> Term en = t \<and>
     encCommand cd ((sub ch)\<lparr>Timestamp := now\<rparr>) = Some (Command en))"

definition ackInv :: "Codecs \<Rightarrow> (nat \<Rightarrow> Command) \<Rightarrow> Engine \<Rightarrow> bool" where
  "ackInv cd sub e \<longleftrightarrow>
     LastApplied (e_node e) \<le> CommitIndex (e_node e) \<and>
     (\<forall>w \<in> set (e_waiters e). w_term w \<le> CurrentTerm (persistent (e_node e)) \<and>
        (Role (e_node e) = Candidate \<longrightarrow> w_term w < CurrentTerm (persistent (e_node e))) \<and>
        (Role (e_node e) = Leader \<longrightarrow> w_term w = CurrentTerm (persistent (e_node e)) \<longrightarrow>
           ownEntry cd sub (e_log e) (w_resultCh w) (w_index w) (w_term w)))"

text \<open>A channel carries one command.\<close>

definition carries :: "(nat \<Rightarrow> Command) \<Rightarrow> action \<Rightarrow> bool" where
  "carries sub a \<longleftrightarrow> (case a of Turn _ _ _ (EvProposal cmd ch) \<Rightarrow> cmd = sub ch | _ \<Rightarrow> True)"

text \<open>A history of the engine in which its log is well formed and each channel carries one command.\<close>

inductive engineRun :: "Codecs \<Rightarrow> (nat \<Rightarrow> Command) \<Rightarrow> Engine \<Rightarrow> bool" for cd sub where
  start: "log_wf rl \<Longrightarrow> LastApplied rn \<le> CommitIndex rn \<Longrightarrow> engineRun cd sub (NewWithTransport rnd rn rl sm f)"
| step: "engineRun cd sub e \<Longrightarrow> carries sub a \<Longrightarrow>
    log_wf (e_log (engineStep cd a e)) \<Longrightarrow> engineRun cd sub (engineStep cd a e)"

section \<open>What the handlers leave alone\<close>

text \<open>A change that touches neither the node nor the log and at most drops waiters.\<close>

definition calm :: "Engine \<Rightarrow> Engine \<Rightarrow> bool" where
  "calm e e' \<longleftrightarrow> e_node e' = e_node e \<and> e_log e' = e_log e \<and> set (e_waiters e') \<subseteq> set (e_waiters e) \<and> acks e' \<subseteq> acks e"

lemma calm_refl [simp]: "calm e e"
  by (simp add: calm_def)

lemma calm_trans [trans]: "calm e1 e2 \<Longrightarrow> calm e2 e3 \<Longrightarrow> calm e1 e3"
  by (auto simp: calm_def)

lemma calm_fold: "(\<And>w e. calm e (f w e)) \<Longrightarrow> calm e (fold f ws e)"
  by (induction ws arbitrary: e) (auto intro: calm_trans)

lemma ackInv_calm: "ackInv cd sub e \<Longrightarrow> calm e e' \<Longrightarrow> ackInv cd sub e'"
  by (auto simp: ackInv_def calm_def subset_iff)

text \<open>The closed form of the loops that answer some waiters and keep the others.\<close>

lemma fold_answer_waiters:
  "fold (\<lambda>w e. if P w then send_reply (g w) e else e\<lparr>e_waiters := e_waiters e @ [w]\<rparr>) ws e =
     e\<lparr>e_waiters := e_waiters e @ filter (\<lambda>w. \<not> P w) ws, e_replies := e_replies e @ map g (filter P ws)\<rparr>"
  by (induction ws arbitrary: e) (simp_all add: send_reply_def)

lemma fireCommittedWaiters_eq:
  "fireCommittedWaiters ci t e = e\<lparr>e_waiters := filter (\<lambda>w. w_term w = t \<and> ci < w_index w) (e_waiters e),
     e_replies := e_replies e @
       map (\<lambda>w. ProposalDone (w_resultCh w) (if w_term w \<noteq> t then Some ErrNotLeader else None))
         (filter (\<lambda>w. w_term w \<noteq> t \<or> w_index w \<le> ci) (e_waiters e))\<rparr>"
proof -
  have "(\<lambda>w e. if w_term w \<noteq> t then send_reply (ProposalDone (w_resultCh w) (Some ErrNotLeader)) e
         else if w_index w \<le> ci then send_reply (ProposalDone (w_resultCh w) None) e
         else e\<lparr>e_waiters := e_waiters e @ [w]\<rparr>) =
      (\<lambda>w e. if w_term w \<noteq> t \<or> w_index w \<le> ci
        then send_reply (ProposalDone (w_resultCh w) (if w_term w \<noteq> t then Some ErrNotLeader else None)) e
        else e\<lparr>e_waiters := e_waiters e @ [w]\<rparr>)"
    by (simp add: fun_eq_iff)
  then show ?thesis unfolding fireCommittedWaiters_def
    by (simp add: fold_answer_waiters not_le conj_commute cong: filter_cong)
qed

lemma fire_committed:
  "e_node (fireCommittedWaiters ci t e) = e_node e" "e_log (fireCommittedWaiters ci t e) = e_log e"
  "set (e_waiters (fireCommittedWaiters ci t e)) = {w \<in> set (e_waiters e). w_term w = t \<and> ci < w_index w}"
  "acks (fireCommittedWaiters ci t e) =
     acks e \<union> w_resultCh ` {w \<in> set (e_waiters e). w_term w = t \<and> w_index w \<le> ci}"
  by (auto simp: fireCommittedWaiters_eq acks_def split: if_splits)

lemma calm_reply: "(\<And>ch. r \<noteq> ProposalDone ch None) \<Longrightarrow> calm e (send_reply r e)"
  by (auto simp: calm_def send_reply_def acks_def)

lemma calm_sweep_waiters: "calm e (sweepExpiredWaiters now e)"
  by (auto simp: sweepExpiredWaiters_def fold_answer_waiters calm_def acks_def)

lemma calm_fail_waiters: "calm e (failAllWaiters err e)"
  by (auto simp: failAllWaiters_def fold_replies calm_def acks_def)

text \<open>Reads and apply waits are answered on channels of their own.\<close>

lemma calm_update [simp]:
  "calm e (e\<lparr>e_reads := x1\<rparr>)" "calm e (e\<lparr>e_applyWaiters := x2\<rparr>)" "calm e (e\<lparr>e_lastAck := x3\<rparr>)"
  "calm e (e\<lparr>e_replicators := x4\<rparr>)" "calm e (e\<lparr>e_replicatorsTerm := x5\<rparr>)" "calm e (e\<lparr>e_halted := x6\<rparr>)"
  "calm e (e\<lparr>e_machine := x7\<rparr>)" "calm e (e\<lparr>e_snapshots := x8\<rparr>)" "calm e (e\<lparr>e_noopIndex := x9\<rparr>)"
  "calm e (e\<lparr>e_electionTimeout := x10\<rparr>)" "calm e (e\<lparr>e_preVoteTerm := x11\<rparr>)" "calm e (e\<lparr>e_preVotes := x12\<rparr>)"
  "calm e (e\<lparr>e_lastQuorumNanos := x13\<rparr>)" "calm e (e\<lparr>e_outbox := x14\<rparr>)" "calm e (e\<lparr>e_roundSeq := x15\<rparr>)"
  "calm e (e\<lparr>e_snapCache := x16\<rparr>)" "calm e (e\<lparr>e_done := x17\<rparr>)"
  by (simp_all add: calm_def acks_def)

lemma calm_other_sweeps:
  "calm e (sweepExpiredReads now e)" "calm e (sweepExpiredApplyWaiters now e)" "calm e (fireApplyWaiters e)"
  "calm e (fireReadWaiters e)" "calm e (failAllReads err e)" "calm e (failAllApplyWaiters err e)"
  unfolding sweepExpiredReads_def sweepExpiredApplyWaiters_def fireApplyWaiters_def fireReadWaiters_def
    failAllReads_def failAllApplyWaiters_def Let_def case_prod_unfold
  by (rule calm_trans [OF calm_update(1) calm_fold], simp add: calm_reply
    | rule calm_trans [OF calm_update(2) calm_fold], simp add: calm_reply
    | rule calm_trans [OF calm_fold calm_update(1)], simp add: calm_reply
    | rule calm_trans [OF calm_fold calm_update(2)], simp add: calm_reply)+

lemma calm_replicators:
  "calm e (stopReplicators e)" "calm e (startReplicators e)" "calm e (notifyReplicators e)"
proof -
  show "calm e (stopReplicators e)"
    by (simp add: stopReplicators_def calm_def acks_def)
  show "calm e (startReplicators e)"
    by (simp add: startReplicators_def stopReplicators_def Let_def calm_def acks_def)
  show "calm e (notifyReplicators e)"
    by (simp add: notifyReplicators_def send_peer_def calm_fold)
qed

section \<open>Changes of the node and of the log\<close>

definition steady :: "Codecs \<Rightarrow> (nat \<Rightarrow> Command) \<Rightarrow> Engine \<Rightarrow> Engine \<Rightarrow> bool" where
  "steady cd sub e e' \<longleftrightarrow> acks e' \<subseteq> acks e \<and>
     (log_wf (e_log e) \<and> ackInv cd sub e \<longrightarrow> log_wf (e_log e') \<and> ackInv cd sub e')"

lemma steady_trans [trans]: "steady cd sub e1 e2 \<Longrightarrow> steady cd sub e2 e3 \<Longrightarrow> steady cd sub e1 e3"
  by (auto simp: steady_def)

lemma steady_calm: "calm e e' \<Longrightarrow> steady cd sub e e'"
  using ackInv_calm by (auto simp: steady_def calm_def)

lemma steady_then_calm: "steady cd sub e1 e2 \<Longrightarrow> calm e2 e3 \<Longrightarrow> steady cd sub e1 e3"
  using steady_trans steady_calm by blast

lemma quiet_term: "quiet rn rn' \<Longrightarrow> CurrentTerm (persistent rn) \<le> CurrentTerm (persistent rn') \<and>
    (Role rn' = Follower \<or> Role rn' = Role rn \<and> CurrentTerm (persistent rn') = CurrentTerm (persistent rn))"
  by (auto simp: quiet_def keeps_def ps_le_def)

lemma ackInv_node:
  assumes "ackInv cd sub e" and "quiet (e_node e) rn" and "LastApplied rn \<le> CommitIndex rn"
    and "Role rn = Leader \<Longrightarrow> l = e_log e" and "e_node e' = rn" and "e_log e' = l" and "e_waiters e' = e_waiters e"
  shows "ackInv cd sub e'"
  using assms quiet_term [OF assms(2)] by (fastforce simp: ackInv_def)

lemma steady_node:
  assumes "quiet (e_node e) rn" and "LastApplied (e_node e) \<le> CommitIndex (e_node e) \<Longrightarrow> LastApplied rn \<le> CommitIndex rn"
  shows "steady cd sub e (e\<lparr>e_node := rn\<rparr>)"
  using assms ackInv_node [of cd sub e rn "e_log e" "e\<lparr>e_node := rn\<rparr>"]
  by (auto simp: steady_def acks_def ackInv_def)

lemma GetEntry_append:
  assumes "log_wf rl" and "AppendLeader m cmd t rl = (r, rl')"
  shows "GetEntry rl i = Some en \<Longrightarrow> GetEntry rl' i = Some en"
    and "r = Some x \<Longrightarrow> GetEntry rl' (nextIndex rl) = Some x"
    and "r = Some x \<Longrightarrow> x = \<lparr>Index = nextIndex rl, Term = t, Command = cmd\<rparr>"
proof -
  note wf = log_wfD [OF assms(1)]
  show "GetEntry rl i = Some en \<Longrightarrow> GetEntry rl' i = Some en"
  proof (cases r)
    case None
    then show "GetEntry rl i = Some en \<Longrightarrow> GetEntry rl' i = Some en"
      using assms(2) AppendLeader_fail [of m cmd t rl rl'] by (auto simp: GetEntry_def getEntryLocked_def Let_def)
  next
    case (Some e)
    with AppendLeader_ok(2) [of m cmd t rl e rl'] assms(2) show "GetEntry rl i = Some en \<Longrightarrow> GetEntry rl' i = Some en"
      by (auto simp: GetEntry_def getEntryLocked_def Let_def nth_append split: if_splits)
  qed
  assume r: "r = Some x"
  with assms(2) have a: "AppendLeader m cmd t rl = (Some x, rl')" by simp
  show "x = \<lparr>Index = nextIndex rl, Term = t, Command = cmd\<rparr>" by (rule AppendLeader_ok(1) [OF a])
  show "GetEntry rl' (nextIndex rl) = Some x"
    using AppendLeader_ok(2) [OF a] wf by (auto simp: GetEntry_def getEntryLocked_def nth_append)
qed

lemma ownEntry_append:
  "log_wf rl \<Longrightarrow> AppendLeader m cmd t rl = (r, rl') \<Longrightarrow> ownEntry cd sub rl ch i t' \<Longrightarrow> ownEntry cd sub rl' ch i t'"
  using GetEntry_append(1) unfolding ownEntry_def by blast

lemma ackInv_append:
  assumes "ackInv cd sub e" and "log_wf (e_log e)" and "AppendLeader m cmd t (e_log e) = (r, rl)"
    and "e_log e' = rl" and "e_node e' = e_node e" and "e_waiters e' = e_waiters e"
  shows "ackInv cd sub e'"
  using assms(1,4-6) ownEntry_append [OF assms(2,3)] unfolding ackInv_def by simp

lemma steady_append:
  assumes "AppendLeader m cmd t (e_log e) = (r, rl)"
  shows "steady cd sub e (e\<lparr>e_log := rl\<rparr>)"
  using AppendLeader_wf [OF _ assms] ackInv_append [OF _ _ assms, of cd sub "e\<lparr>e_log := rl\<rparr>"]
  by (auto simp: steady_def acks_def)

section \<open>The handlers\<close>

lemma boundary_steps:
  "BecomeFollower t l rn = (fin, rn') \<Longrightarrow> LastApplied rn' = LastApplied rn \<and> CommitIndex rn' = CommitIndex rn \<and> quiet rn rn'"
  "BecomeCandidate now rn = (c, rn') \<Longrightarrow> LastApplied rn' = LastApplied rn \<and> CommitIndex rn' = CommitIndex rn"
  "RecordVoteAndCheckMajority v t rn = (won, rn') \<Longrightarrow> LastApplied rn' = LastApplied rn \<and> CommitIndex rn' = CommitIndex rn"
  "BecomeLeader t i rn = (won, rn') \<Longrightarrow> LastApplied rn' = LastApplied rn \<and> CommitIndex rn' = CommitIndex rn"
proof -
  show "BecomeFollower t l rn = (fin, rn') \<Longrightarrow> LastApplied rn' = LastApplied rn \<and> CommitIndex rn' = CommitIndex rn \<and> quiet rn rn'"
    using becomeFollower_steps(7,8) [of t l rn fin rn'] becomeFollower_quiet by (auto simp: BecomeFollower_def)
  show "BecomeCandidate now rn = (c, rn') \<Longrightarrow> LastApplied rn' = LastApplied rn \<and> CommitIndex rn' = CommitIndex rn"
    by (auto simp: BecomeCandidate_def Let_def dest!: commit_fields split: prod.splits bool.splits)
qed (auto simp: RecordVoteAndCheckMajority_def BecomeLeader_def Let_def split: if_splits)

lemma steady_follow: "BecomeFollower t l (e_node e) = (fin, rn) \<Longrightarrow> steady cd sub e (e\<lparr>e_node := rn\<rparr>)"
  using boundary_steps(1) by (intro steady_node) auto

lemma steady_stepdown:
  "BecomeFollower t l (e_node e) = (fin, rn) \<Longrightarrow>
    steady cd sub e (failAllReads err (failAllWaiters err' (stopReplicators (e\<lparr>e_node := rn\<rparr>))))"
  by (rule steady_then_calm [OF steady_then_calm [OF steady_then_calm [OF steady_follow calm_replicators(1)]
        calm_fail_waiters] calm_other_sweeps(5)])

lemma steady_candidate:
  assumes "BecomeCandidate now (e_node e) = (c, rn)"
  shows "steady cd sub e (e\<lparr>e_node := rn\<rparr>)"
proof (cases c)
  case None
  with assms candidate_steps(2) boundary_steps(2) show ?thesis by (intro steady_node) auto
next
  case (Some t)
  then show ?thesis
    using candidate_steps(3) [OF assms, of t] boundary_steps(2) [OF assms]
    by (fastforce simp: steady_def acks_def ackInv_def)
qed

lemma steady_lead:
  assumes "BecomeLeader t i (e_node e) = (won, rn)"
  shows "steady cd sub e (e\<lparr>e_node := rn\<rparr>)"
proof (cases won)
  case True
  then show ?thesis
    using leader_steps(2,4) [OF assms] boundary_steps(4) [OF assms]
    by (fastforce simp: steady_def acks_def ackInv_def)
next
  case False
  with leader_steps(5) [OF assms] show ?thesis by (simp add: steady_def)
qed

lemma steady_noop:
  "steady cd sub e (case encCommand cd cmd of None \<Rightarrow> e
     | Some b \<Rightarrow> (case AppendLeader (encEntry cd) b t (e_log e) of
         (None, rl) \<Rightarrow> e\<lparr>e_log := rl\<rparr> | (Some entry, rl) \<Rightarrow> e\<lparr>e_log := rl, e_noopIndex := Index entry\<rparr>))"
proof (cases "encCommand cd cmd")
  case None
  then show ?thesis by (simp add: steady_calm)
next
  case (Some b)
  obtain r rl where a: "AppendLeader (encEntry cd) b t (e_log e) = (r, rl)" by force
  note app = steady_append [OF a, of cd sub]
  show ?thesis
    unfolding Some using a app steady_then_calm [OF app calm_update(9)] by (simp split: option.splits)
qed

lemma steady_becomeLeader: "steady cd sub e (engine_becomeLeader cd now t i e)"
proof -
  obtain won rn where b: "BecomeLeader t i (e_node e) = (won, rn)" by force
  note lead = steady_lead [OF b, of cd sub]
  let ?e = "(resetLeadershipEvidence now (e\<lparr>e_node := rn\<rparr>))\<lparr>e_noopIndex := 0\<rparr>"
  have c: "calm (e\<lparr>e_node := rn\<rparr>) ?e"
    unfolding resetLeadershipEvidence_def by (rule calm_trans [OF calm_update(3) calm_update(9)])
  show ?thesis
  proof (cases won)
    case False
    with b lead show ?thesis by (simp add: engine_becomeLeader_def)
  next
    case True
    with b show ?thesis unfolding engine_becomeLeader_def Let_def
      by simp (rule steady_then_calm [OF steady_trans [OF steady_then_calm [OF lead c] steady_noop] calm_replicators(2)])
  qed
qed

lemma steady_runElection: "steady cd sub e (runElection cd rnd now e)"
proof -
  obtain c rn where b: "BecomeCandidate now (e_node e) = (c, rn)" by force
  note cand = steady_then_calm [OF steady_candidate [OF b, of cd sub] calm_update(10)]
  have send: "calm e (fold (\<lambda>(p, addr). send_peer (SendVote p addr req)) ps e)" for ps e req
    by (rule calm_fold) (auto simp: send_peer_def)
  show ?thesis
    using b cand steady_then_calm [OF cand send] steady_trans [OF cand steady_becomeLeader]
    by (simp add: runElection_def resetElectionTimeout_def Let_def split: option.splits prod.splits)
qed

lemma steady_startPreVote: "steady cd sub e (startPreVote cd rnd rnd' now e)"
proof -
  have send: "calm e (fold (\<lambda>(p, addr). send_peer (SendPreVote p addr req)) ps e)" for ps e req
    by (rule calm_fold) (auto simp: send_peer_def)
  note t = steady_calm [OF calm_update(10), of cd sub e]
  note p = steady_then_calm [OF steady_then_calm [OF t calm_update(11)] calm_update(12)]
  show ?thesis
    using steady_trans [OF t steady_runElection] steady_then_calm [OF p send]
    by (simp add: startPreVote_def resetElectionTimeout_def Let_def split: prod.splits)
qed

lemma reconcile_calm: "calm e (reconcileLeadership e)"
  using calm_trans [OF calm_trans [OF calm_replicators(1) calm_fail_waiters] calm_other_sweeps(5)]
  by (simp add: reconcileLeadership_def Let_def calm_other_sweeps calm_replicators split: prod.splits)

lemma checkQuorum_commit: "CommitIndex (e_node (checkQuorum now e)) = CommitIndex (e_node e)"
proof -
  have "e_node (failAllReads err (failAllWaiters err' (stopReplicators x))) = e_node x" for err err' x
    using calm_trans [OF calm_trans [OF calm_replicators(1) calm_fail_waiters] calm_other_sweeps(5)]
    by (simp add: calm_def)
  then show ?thesis
    using boundary_steps(1) [of _ 0 "e_node e"]
    by (auto simp: checkQuorum_def noteQuorumConfirmed_def Let_def split: prod.splits bool.splits)
qed

lemma steady_handlers:
  "steady cd sub e (handleStepDown t e)"
  "steady cd sub e (handlePreVoteResult cd rnd now t v pr e)"
  "steady cd sub e (handleVoteResult cd now t v vr e)"
  "steady cd sub e (handleAck now p s e)"
  "steady cd sub e (handleRead now ch b e)"
  "steady cd sub e (handleApplyWait w e)"
  "steady cd sub e (reconcileLeadership e)"
  "steady cd sub e (checkQuorum now e)"
proof -
  show "steady cd sub e (handleStepDown t e)"
    using steady_stepdown [of t 0 e] by (simp add: handleStepDown_def steady_calm split: prod.splits)
  show "steady cd sub e (handlePreVoteResult cd rnd now t v pr e)"
    using steady_then_calm [OF steady_follow calm_update(11)]
      steady_trans [OF steady_calm [OF calm_update(12)] steady_trans [OF steady_calm [OF calm_update(11)] steady_runElection]]
    by (simp add: handlePreVoteResult_def Let_def steady_calm split: prod.splits)
  show "steady cd sub e (handleVoteResult cd now t v vr e)"
  proof -
    obtain won rn where r: "RecordVoteAndCheckMajority v t (e_node e) = (won, rn)" by force
    have "steady cd sub e (e\<lparr>e_node := rn\<rparr>)"
      using record_vote_steps(2,3) [OF r] boundary_steps(3) [OF r] by (simp add: steady_def acks_def ackInv_def)
    then show ?thesis
      using r steady_follow steady_trans [OF _ steady_becomeLeader]
      by (simp add: handleVoteResult_def Let_def steady_calm split: prod.splits)
  qed
  show "steady cd sub e (handleAck now p s e)"
    using steady_calm [OF calm_trans [OF calm_update(3) calm_other_sweeps(4)]] by (simp add: handleAck_def Let_def)
  show "steady cd sub e (handleRead now ch b e)"
    using steady_calm [OF calm_trans [OF calm_trans [OF calm_update(1) calm_replicators(3)] calm_other_sweeps(4)]]
    by (simp add: handleRead_def Let_def steady_calm calm_reply split: prod.splits)
  show "steady cd sub e (handleApplyWait w e)"
    by (simp add: handleApplyWait_def steady_calm calm_reply split: prod.splits)
  show "steady cd sub e (reconcileLeadership e)"
    by (rule steady_calm [OF reconcile_calm])
  show "steady cd sub e (checkQuorum now e)"
    using steady_stepdown [of _ 0 e] steady_follow [of _ 0 e]
    by (simp add: checkQuorum_def noteQuorumConfirmed_def Let_def steady_calm split: prod.splits bool.splits)
qed

lemma steady_proposal:
  assumes "cmd = sub ch"
  shows "steady cd sub e (handleProposal cd now cmd ch e)"
proof (cases "IsLeader (e_node e)")
  case False
  then show ?thesis by (simp add: handleProposal_def steady_calm calm_reply)
next
  case lead: True
  show ?thesis
  proof (cases "encCommand cd (cmd\<lparr>Timestamp := now\<rparr>)")
    case None
    with lead show ?thesis by (simp add: handleProposal_def steady_calm calm_reply)
  next
    case (Some b)
    obtain r rl where a: "AppendLeader (encEntry cd) b (node_CurrentTerm (e_node e)) (e_log e) = (r, rl)" by force
    show ?thesis
    proof (cases r)
      case None
      with lead Some a show ?thesis
        using steady_then_calm [OF steady_append [OF a] calm_reply] by (simp add: handleProposal_def)
    next
      case entry: (Some en)
      let ?e = "e\<lparr>e_log := rl, e_waiters := e_waiters e @ [\<lparr>w_index = Index en, w_term = node_CurrentTerm (e_node e),
        w_resultCh = ch, w_deadline = now + proposalTimeout\<rparr>]\<rparr>"
      have "ackInv cd sub ?e" if wf: "log_wf (e_log e)" and inv: "ackInv cd sub e"
      proof -
        note g = GetEntry_append(2,3) [OF wf a entry]
        have "ownEntry cd sub rl ch (Index en) (node_CurrentTerm (e_node e))"
          unfolding ownEntry_def using g Some assms by auto
        with ackInv_append [OF inv wf a, of "e\<lparr>e_log := rl\<rparr>"] lead show ?thesis
          by (auto simp: ackInv_def IsLeader_def node_CurrentTerm_def)
      qed
      then have "steady cd sub e ?e"
        using AppendLeader_wf [OF _ a] by (simp add: steady_def acks_def)
      from steady_then_calm [OF this calm_replicators(3)] lead Some a entry show ?thesis
        by (simp add: handleProposal_def)
    qed
  qed
qed

lemma steady_apply: "steady cd sub e (applyCommitted cd e)"
proof -
  obtain cs m where r: "appliedRun cd (CommitIndex (e_node e)) e (applyCommitted cd e) cs m"
    using applyLoop_run by (fastforce simp: applyCommitted_def CommitAndApplyBoundary_def)
  let ?rn = "(e_node e)\<lparr>LastApplied := LastApplied (e_node e) + int (length cs)\<rparr>"
  have "quiet (e_node e) ?rn" by (rule quiet_update) simp_all
  moreover have "LastApplied ?rn \<le> CommitIndex ?rn" if "LastApplied (e_node e) \<le> CommitIndex (e_node e)"
    using r that by (auto simp: appliedRun_def Let_def)
  ultimately have n: "steady cd sub e (e\<lparr>e_node := ?rn\<rparr>)" by (rule steady_node)
  have "calm (e\<lparr>e_node := ?rn\<rparr>) (applyCommitted cd e)"
    using r by (auto simp: appliedRun_def Let_def calm_def acks_def)
  with n show ?thesis by (rule steady_then_calm)
qed

lemma truncate_GetEntry:
  assumes "log_wf rl" and "TermAt rl s \<noteq> 0" and "TruncateBeforeIndex m s t rl = (b, rl')"
  shows "log_wf rl'" and "s < i \<Longrightarrow> GetEntry rl' i = GetEntry rl i"
proof -
  have "log_wf rl' \<and> (\<forall>i > s. GetEntry rl' i = GetEntry rl i)"
  proof (cases "s < firstIndex rl")
    case True
    with assms show ?thesis by (simp add: TruncateBeforeIndex_def)
  next
    case False
    note wf = log_wfD [OF assms(1)]
    have s: "firstIndex rl \<le> s" "s < nextIndex rl"
      using False assms(2) wf by (auto simp: TermAt_def getEntryLocked_iff split: if_splits option.splits)
    note t = truncate_ok [OF assms(1) s assms(3)]
    have "GetEntry rl' i = GetEntry rl i" if "s < i" for i
      using that t(3,4) log_wfD(2) [OF t(1)] s wf
      by (auto simp: GetEntry_def getEntryLocked_def Let_def nat_diff_distrib' nat_add_distrib
          intro!: arg_cong [of _ _ "\<lambda>n. cache rl ! n"])
    with t(1) show ?thesis by blast
  qed
  then show "log_wf rl'" "s < i \<Longrightarrow> GetEntry rl' i = GetEntry rl i" by blast+
qed

text \<open>Compaction keeps every waiter's entry: none of them is applied yet.\<close>

definition unapplied :: "Engine \<Rightarrow> bool" where
  "unapplied e \<longleftrightarrow> Role (e_node e) = Leader \<longrightarrow> (\<forall>w \<in> set (e_waiters e). w_term w = CurrentTerm (persistent (e_node e)) \<longrightarrow>
     LastApplied (e_node e) < w_index w)"

lemma compact_keeps:
  assumes "log_wf (e_log e)" and "ackInv cd sub e" and "unapplied e"
  shows "log_wf (e_log (maybeCompact cd e))" "ackInv cd sub (maybeCompact cd e)" "acks (maybeCompact cd e) = acks e"
    "e_node (maybeCompact cd e) = e_node e" "e_waiters (maybeCompact cd e) = e_waiters e"
proof -
  let ?s = "LastApplied (e_node e)"
  obtain rl f where c: "maybeCompact cd e = e\<lparr>e_log := rl, e_snapshots := f\<rparr>"
      "log_wf rl \<and> (\<forall>i > ?s. GetEntry rl i = GetEntry (e_log e) i)"
  proof (cases "NeedsCompaction (e_log e) ?s \<and> TermAt (e_log e) ?s \<noteq> 0")
    case False
    then have "maybeCompact cd e = e\<lparr>e_log := e_log e, e_snapshots := e_snapshots e\<rparr>"
      by (auto simp: maybeCompact_def compact_def CommitAndApplyBoundary_def)
    with assms(1) show thesis by (intro that [of "e_snapshots e" "e_log e"]) auto
  next
    case True
    let ?t = "TermAt (e_log e) ?s"
    obtain fin f where w: "snapshotWrite cd \<lparr>LastIncludedIndex = ?s, LastIncludedTerm = ?t\<rparr> (e_machine e) (e_snapshots e) = (fin, f)"
      by force
    obtain b rl where t: "TruncateBeforeIndex (encEntry cd) ?s ?t (e_log e) = (b, rl)" by force
    have "maybeCompact cd e = e\<lparr>e_log := if fin then rl else e_log e, e_snapshots := f\<rparr>"
      using True w t by (cases fin) (simp_all add: maybeCompact_def compact_def CommitAndApplyBoundary_def)
    with truncate_GetEntry [OF assms(1) _ t] True assms(1) show thesis by (intro that) auto
  qed
  show "acks (maybeCompact cd e) = acks e" "e_node (maybeCompact cd e) = e_node e"
    "e_waiters (maybeCompact cd e) = e_waiters e" "log_wf (e_log (maybeCompact cd e))"
    using c by (simp_all add: acks_def)
  show "ackInv cd sub (maybeCompact cd e)"
    using c assms(2,3) by (auto simp: ackInv_def unapplied_def ownEntry_def)
qed

end
