(* ===== verification/Engine_Honest.thy ===== *)
theory Engine_Honest
  imports Engine_Acks
begin

text \<open>
  Honest acknowledgements: a proposal is answered with success only by the leader that
  appended it, in the same term, while the entry is in its log and committed.
\<close>

section \<open>The tick\<close>

text \<open>A node that was not the leader leads after a campaign only in a new term.\<close>

lemma noop_fields:
  "e_waiters (case encCommand cd cmd of None \<Rightarrow> e
     | Some b \<Rightarrow> (case AppendLeader (encEntry cd) b t (e_log e) of
         (None, rl) \<Rightarrow> e\<lparr>e_log := rl\<rparr> | (Some entry, rl) \<Rightarrow> e\<lparr>e_log := rl, e_noopIndex := Index entry\<rparr>)) = e_waiters e"
  "e_node (case encCommand cd cmd of None \<Rightarrow> e
     | Some b \<Rightarrow> (case AppendLeader (encEntry cd) b t (e_log e) of
         (None, rl) \<Rightarrow> e\<lparr>e_log := rl\<rparr> | (Some entry, rl) \<Rightarrow> e\<lparr>e_log := rl, e_noopIndex := Index entry\<rparr>)) = e_node e"
  by (simp_all split: option.splits prod.splits)

lemma becomeLeader_fields:
  "set (e_waiters (engine_becomeLeader cd now t i e)) \<subseteq> set (e_waiters e)"
  "persistent (e_node (engine_becomeLeader cd now t i e)) = persistent (e_node e)"
proof -
  obtain won rn where b: "BecomeLeader t i (e_node e) = (won, rn)" by force
  have c: "set (e_waiters (startReplicators x)) \<subseteq> set (e_waiters x)" "e_node (startReplicators x) = e_node x" for x
    using calm_replicators(2) [of x] by (simp_all add: calm_def)
  show "set (e_waiters (engine_becomeLeader cd now t i e)) \<subseteq> set (e_waiters e)"
    using b subset_trans [OF c(1)] by (cases won) (simp_all add: engine_becomeLeader_def Let_def noop_fields resetLeadershipEvidence_def)
  show "persistent (e_node (engine_becomeLeader cd now t i e)) = persistent (e_node e)"
    using b leader_steps(2) [OF b] by (cases won) (simp_all add: engine_becomeLeader_def Let_def c(2) noop_fields resetLeadershipEvidence_def)
qed

lemma fold_send_fields:
  "e_waiters (fold (\<lambda>(p, addr). send_peer (g p addr)) ps e) = e_waiters e \<and>
   e_node (fold (\<lambda>(p, addr). send_peer (g p addr)) ps e) = e_node e"
  by (induction ps arbitrary: e) (auto simp: send_peer_def)

lemma election_new_term:
  assumes "Role (e_node e) \<noteq> Leader"
  shows "set (e_waiters (runElection cd rnd now e)) \<subseteq> set (e_waiters e) \<and>
    (Role (e_node (runElection cd rnd now e)) = Leader \<longrightarrow>
      CurrentTerm (persistent (e_node (runElection cd rnd now e))) = CurrentTerm (persistent (e_node e)) + 1)"
proof -
  obtain c rn where b: "BecomeCandidate now (e_node e) = (c, rn)" by force
  show ?thesis
  proof (cases c)
    case None
    with b candidate_steps(2) [OF b] quiet_term [of "e_node e" rn] assms show ?thesis
      by (auto simp: runElection_def resetElectionTimeout_def)
  next
    case (Some t)
    let ?e = "e\<lparr>e_node := rn, e_electionTimeout := electionTimeoutMin + rnd\<rparr>"
    have p: "CurrentTerm (persistent rn) = CurrentTerm (persistent (e_node e)) + 1"
      using candidate_steps(3) [OF b, of t] Some by simp
    have w: "set (e_waiters (engine_becomeLeader cd now t i ?e)) \<subseteq> set (e_waiters e)" for i
      using becomeLeader_fields(1) [of cd now t i ?e] by simp
    show ?thesis
      using b Some p w by (simp add: runElection_def resetElectionTimeout_def Let_def split_beta becomeLeader_fields(2)
          fold_send_fields)
  qed
qed

lemma preVote_new_term:
  assumes "Role (e_node e) \<noteq> Leader"
  shows "set (e_waiters (startPreVote cd rnd rnd' now e)) \<subseteq> set (e_waiters e) \<and>
    (Role (e_node (startPreVote cd rnd rnd' now e)) = Leader \<longrightarrow>
      CurrentTerm (persistent (e_node (startPreVote cd rnd rnd' now e))) = CurrentTerm (persistent (e_node e)) + 1)"
  using assms election_new_term [of "e\<lparr>e_electionTimeout := electionTimeoutMin + rnd\<rparr>" cd rnd' now]
  by (simp add: startPreVote_def resetElectionTimeout_def Let_def fold_send_fields split: prod.splits)

text \<open>The first half of a tick: commitment or campaign, then application.\<close>

definition tickFront :: "Codecs \<Rightarrow> int \<Rightarrow> int \<Rightarrow> nanos \<Rightarrow> Engine \<Rightarrow> Engine" where
  "tickFront cd rnd rnd' now e =
     (let (role, term) = node_State (e_node e) in
      if role = Leader then
        (let e = e\<lparr>e_node := snd (AdvanceCommitIndex (LatestIndex (e_log e)) (TermAt (e_log e)) term (e_node e))\<rparr>
         in fireCommittedWaiters (CommitIndex (e_node e)) term e)
      else if e_electionTimeout e \<le> TimeSinceContact now (e_node e) then startPreVote cd rnd rnd' now e
      else e)"

lemma onTick_eq:
  "onTick cd rnd rnd' now e =
     (let e = applyCommitted cd (tickFront cd rnd rnd' now (reconcileLeadership e)) in
      if e_halted e then e
      else
        (let e = fireApplyWaiters (fireReadWaiters (maybeCompact cd e));
             e = (if IsLeader (e_node e) then checkQuorum now e else e)
         in sweepExpiredApplyWaiters now (sweepExpiredReads now (sweepExpiredWaiters now e))))"
  by (simp add: onTick_def tickFront_def CommitAndApplyBoundary_def Let_def split_beta)

text \<open>An acknowledgement given while going from \<open>e\<close> to \<open>e'\<close> is honest.\<close>

definition honest :: "Codecs \<Rightarrow> (nat \<Rightarrow> Command) \<Rightarrow> Engine \<Rightarrow> Engine \<Rightarrow> nat \<Rightarrow> bool" where
  "honest cd sub e e' ch \<longleftrightarrow> IsLeader (e_node e) \<and>
     (\<exists>i \<le> CommitIndex (e_node e'). ownEntry cd sub (e_log e) ch i (CurrentTerm (persistent (e_node e))))"

lemma tickFront_ok:
  assumes "log_wf (e_log e)" and "ackInv cd sub e" and "e' = tickFront cd rnd rnd' now e"
  shows "log_wf (e_log e') \<and> ackInv cd sub e' \<and> acks e' \<subseteq> acks e \<union> {ch. honest cd sub e e' ch} \<and>
    (Role (e_node e') = Leader \<longrightarrow> (\<forall>w \<in> set (e_waiters e'). w_term w = CurrentTerm (persistent (e_node e')) \<longrightarrow>
       CommitIndex (e_node e') < w_index w))"
proof (cases "Role (e_node e) = Leader")
  case True
  let ?t = "CurrentTerm (persistent (e_node e))"
  let ?rn = "snd (AdvanceCommitIndex (LatestIndex (e_log e)) (TermAt (e_log e)) ?t (e_node e))"
  have e': "e' = fireCommittedWaiters (CommitIndex ?rn) ?t (e\<lparr>e_node := ?rn\<rparr>)"
    using True by (simp add: assms(3) tickFront_def node_State_def)
  have c: "CommitIndex (e_node e) \<le> CommitIndex ?rn" "LastApplied ?rn = LastApplied (e_node e)"
      "CurrentTerm (persistent ?rn) = ?t" "Role ?rn = Leader"
    using True by (auto simp: AdvanceCommitIndex_def Let_def)
  have "steady cd sub e (e\<lparr>e_node := ?rn\<rparr>)" by (rule steady_node) (use c in auto)
  with assms(1,2) have inv: "ackInv cd sub (e\<lparr>e_node := ?rn\<rparr>)" by (simp add: steady_def)
  have own: "ownEntry cd sub (e_log e) (w_resultCh w) (w_index w) ?t" if "w \<in> set (e_waiters e)" "w_term w = ?t" for w
    using that assms(2) True by (auto simp: ackInv_def)
  have "ackInv cd sub e'" using inv by (auto simp: ackInv_def e' fire_committed)
  moreover have "acks e' \<subseteq> acks e \<union> {ch. honest cd sub e e' ch}"
    unfolding e' fire_committed(4) using own True
    by (auto simp: fire_committed(1) honest_def IsLeader_def acks_def)
  ultimately show ?thesis using assms(1) c by (simp add: e' fire_committed)
next
  case False
  have s: "steady cd sub e e'"
    using False steady_startPreVote steady_calm [of e e] by (simp add: assms(3) tickFront_def node_State_def Let_def)
  have "Role (e_node e') = Leader \<longrightarrow> (\<forall>w \<in> set (e_waiters e'). w_term w < CurrentTerm (persistent (e_node e')))"
    using False preVote_new_term [OF False, of cd rnd rnd' now] assms(2)
    by (auto simp: assms(3) tickFront_def node_State_def ackInv_def)
  with s assms(1,2) show ?thesis by (fastforce simp: steady_def)
qed

lemma tick_ok:
  assumes "log_wf (e_log e)" and "ackInv cd sub e" and "e' = onTick cd rnd rnd' now e"
  shows "log_wf (e_log e') \<and> ackInv cd sub e' \<and> acks e' \<subseteq> acks e \<union> {ch. honest cd sub e e' ch}"
proof -
  define e1 where "e1 = reconcileLeadership e"
  define e2 where "e2 = tickFront cd rnd rnd' now e1"
  define e3 where "e3 = applyCommitted cd e2"
  have calm1: "e_node e1 = e_node e" "e_log e1 = e_log e" "acks e1 \<subseteq> acks e"
    using reconcile_calm [of e] by (simp_all add: e1_def calm_def)
  have 1: "log_wf (e_log e1)" "ackInv cd sub e1"
    using steady_handlers(7) [of cd sub e] assms(1,2) by (auto simp: e1_def steady_def)
  note 2 = tickFront_ok [OF 1 e2_def]
  have 3: "log_wf (e_log e3)" "ackInv cd sub e3" "acks e3 \<subseteq> acks e2"
    using steady_apply [of cd sub e2] 2 by (auto simp: e3_def steady_def)
  obtain cs m where r: "appliedRun cd (CommitIndex (e_node e2)) e2 e3 cs m"
    using applyLoop_run by (fastforce simp: e3_def applyCommitted_def CommitAndApplyBoundary_def)
  then have same: "CommitIndex (e_node e3) = CommitIndex (e_node e2)" "Role (e_node e3) = Role (e_node e2)"
      "persistent (e_node e3) = persistent (e_node e2)" "e_waiters e3 = e_waiters e2"
    by (auto simp: appliedRun_def Let_def)
  have "unapplied e3" using 2 3(2) same by (fastforce simp: unapplied_def ackInv_def)
  note c = compact_keeps [OF 3(1,2) this]
  show ?thesis
  proof (cases "e_halted e3")
    case True
    then have "e' = e3" by (simp add: assms(3) onTick_eq e1_def e2_def e3_def)
    with 2 3 same calm1 show ?thesis by (auto simp: honest_def)
  next
    case False
    define e4 where "e4 = fireApplyWaiters (fireReadWaiters (maybeCompact cd e3))"
    define e5 where "e5 = (if IsLeader (e_node e4) then checkQuorum now e4 else e4)"
    have e': "e' = sweepExpiredApplyWaiters now (sweepExpiredReads now (sweepExpiredWaiters now e5))"
      using False by (simp add: assms(3) onTick_eq e1_def e2_def e3_def e4_def e5_def Let_def)
    have k4: "calm (maybeCompact cd e3) e4" unfolding e4_def
      by (rule calm_trans [OF calm_other_sweeps(4,3)])
    have k5: "calm e5 e'" unfolding e'
      by (rule calm_trans [OF calm_trans [OF calm_sweep_waiters calm_other_sweeps(1)] calm_other_sweeps(2)])
    have s5: "steady cd sub e4 e5" using steady_handlers(8) by (simp add: e5_def steady_calm)
    have s: "steady cd sub (maybeCompact cd e3) e'"
      using steady_trans [OF steady_calm [OF k4] steady_then_calm [OF s5 k5]] .
    have "CommitIndex (e_node e') = CommitIndex (e_node e3)"
      using k4 k5 checkQuorum_commit [of now e4] c(4) by (auto simp: calm_def e5_def)
    then have h: "honest cd sub e e' ch = honest cd sub e1 e2 ch" for ch using same(1) calm1 by (simp add: honest_def)
    have "acks e' \<subseteq> acks e \<union> {ch. honest cd sub e1 e2 ch}"
    proof -
      have "acks e' \<subseteq> acks e2" using s c(3) 3(3) by (auto simp: steady_def)
      with 2 calm1(3) show ?thesis by blast
    qed
    with s c(1,2) show ?thesis by (simp add: steady_def h)
  qed
qed

section \<open>The engine\<close>

lemma append_call:
  assumes "HandleAppendEntries m now req rl rn = (resp, rl', rn')"
  shows "Role rn' = Leader \<Longrightarrow> rl' = rl" and "LastApplied rn' = LastApplied rn" and "CommitIndex rn \<le> CommitIndex rn'"
proof -
  have "(Role rn' = Leader \<longrightarrow> rl' = rl) \<and> LastApplied rn' = LastApplied rn \<and> CommitIndex rn \<le> CommitIndex rn'"
    using assms
  proof (cases rule: append_entries_branches)
    case Unsaved
    then show ?thesis using acceptLeader_steps(3,4) [OF Unsaved(2,1)] by simp
  next
    case (Refused r rn1)
    then show ?thesis using acceptLeader_steps(2-4) [OF Refused(2,1)] by simp
  next
    case (Spliced r rn1)
    then show ?thesis using acceptLeader_steps(2-4) [OF Spliced(2,1)]
      by (simp add: setFollowerCommitIndexLocked_def Let_def)
  qed simp
  then show "Role rn' = Leader \<Longrightarrow> rl' = rl" "LastApplied rn' = LastApplied rn" "CommitIndex rn \<le> CommitIndex rn'"
    by blast+
qed

lemma snapshot_call:
  assumes "HandleInstallSnapshot m restore persist now req rl w rn = (resp, rl', w', rn')"
  shows "(Role rn' = Leader \<longrightarrow> rl' = rl) \<and> (LastApplied rn \<le> CommitIndex rn \<longrightarrow> LastApplied rn' \<le> CommitIndex rn')"
proof (cases "is_Term req < CurrentTerm (persistent rn)")
  case True
  with assms show ?thesis by (simp add: HandleInstallSnapshot_def Let_def)
next
  case False
  obtain fin rn1 where a: "acceptLeader (is_Term req) (is_LeaderID req) rn = (fin, rn1)" by force
  have "CommitIndex rn1 = CommitIndex rn" "LastApplied rn1 = LastApplied rn" "fin \<Longrightarrow> Role rn1 = Follower"
    using acceptLeader_steps(2-4) [OF a] False by simp_all
  with assms False a show ?thesis
    by (auto simp: HandleInstallSnapshot_def Let_def seedFromSnapshotLocked_def
        split: prod.splits bool.splits if_splits)
qed

lemma build_calm: "calm e (snd (buildSnapshotRequest cd e)) \<and> e_waiters (snd (buildSnapshotRequest cd e)) = e_waiters e"
  by (simp add: buildSnapshotRequest_def Let_def calm_def acks_def split: prod.splits sum.splits option.splits)

lemma progress_steps:
  "quiet rn (snd (ReplicateTo send rl p rn)) \<and> LastApplied (snd (ReplicateTo send rl p rn)) = LastApplied rn \<and>
    CommitIndex (snd (ReplicateTo send rl p rn)) = CommitIndex rn"
  "quiet rn (snd (InstallSnapshotTo send' p req rn)) \<and> LastApplied (snd (InstallSnapshotTo send' p req rn)) = LastApplied rn \<and>
    CommitIndex (snd (InstallSnapshotTo send' p req rn)) = CommitIndex rn"
  by (auto simp: ReplicateTo_def appendReply_def InstallSnapshotTo_def UpdatePeerProgress_def BacktrackNextIndex_def Let_def
      intro!: quiet_update split: option.splits prod.splits)

lemma steady_round: "steady cd sub e (snd (replicateOnce cd sendA sendS p t e))"
proof -
  let ?e = "e\<lparr>e_roundSeq := e_roundSeq e + 1\<rparr>"
  have r: "steady cd sub x (x\<lparr>e_node := rn\<rparr>)" if "ReplicateTo sendA rl p (e_node x) = (v, rn)" for x rl v rn
    using progress_steps(1) [of "e_node x" sendA rl p] that by (intro steady_node) auto
  have i: "steady cd sub x (x\<lparr>e_node := rn\<rparr>)" if "InstallSnapshotTo sendS p req (e_node x) = (v, rn)" for x req v rn
    using progress_steps(2) [of "e_node x" sendS p req] that by (intro steady_node) auto
  have b: "steady cd sub ?e x" if "buildSnapshotRequest cd ?e = (q, x)" for q x
    using build_calm [of ?e cd] that by (auto intro: steady_calm)
  have s: "steady cd sub e x" if "steady cd sub ?e x" for x
    using steady_trans [OF steady_calm [OF calm_update(15)] that] .
  show ?thesis
    using r i s steady_trans [OF b r] steady_trans [OF b i]
    by (auto simp: replicateOnce_def nextRoundSeq_def Let_def steady_calm split: prod.splits option.splits)
qed

lemma ackInv_calls:
  assumes "ackInv cd sub e"
  shows "ackInv cd sub (snd (engine_HandleAppendEntries cd now areq e))"
    and "ackInv cd sub (snd (engine_HandleRequestVote now vreq e))"
    and "ackInv cd sub (snd (engine_HandleInstallSnapshot cd now sreq e))"
proof -
  have la: "LastApplied (e_node e) \<le> CommitIndex (e_node e)" using assms by (simp add: ackInv_def)
  show "ackInv cd sub (snd (engine_HandleAppendEntries cd now areq e))"
  proof -
    obtain resp rl rn where h: "HandleAppendEntries (encEntry cd) now areq (e_log e) (e_node e) = (resp, rl, rn)"
      by (metis prod_cases3)
    show ?thesis
      using ackInv_node [OF assms append_entries_quiet [OF h], of rl] append_call [OF h] la h
      by (simp add: engine_HandleAppendEntries_def)
  qed
  show "ackInv cd sub (snd (engine_HandleRequestVote now vreq e))"
  proof -
    obtain resp rn where h: "HandleRequestVote now vreq (LastLogState (e_log e)) (e_node e) = (resp, rn)" by force
    have "LastApplied rn = LastApplied (e_node e) \<and> CommitIndex rn = CommitIndex (e_node e)"
      using h by (cases rule: request_vote_branches) (auto dest!: commit_fields)
    then show ?thesis
      using ackInv_node [OF assms request_vote_quiet [OF h], of "e_log e"] la h by (simp add: engine_HandleRequestVote_def)
  qed
  show "ackInv cd sub (snd (engine_HandleInstallSnapshot cd now sreq e))"
  proof -
    have "ackInv cd sub (e\<lparr>e_log := rl, e_machine := sm, e_snapshots := f, e_node := rn\<rparr>)"
      if "HandleInstallSnapshot (encEntry cd) restore persist now sreq (e_log e) w (e_node e) = (resp, rl, w', rn)"
      for restore persist resp rl rn sm f and w w' :: "MemoryStateMachine \<times> AtomicFile"
      using ackInv_node [OF assms install_snapshot_quiet [OF that], of rl] snapshot_call [OF that] la by simp
    then show ?thesis unfolding engine_HandleInstallSnapshot_def Let_def by (auto split: prod.splits)
  qed
qed

lemma acks_calls:
  "acks (snd (engine_HandleAppendEntries cd now areq e)) = acks e"
  "acks (snd (engine_HandleRequestVote now vreq e)) = acks e"
  "acks (snd (engine_HandleInstallSnapshot cd now sreq e)) = acks e"
  by (simp_all add: engine_HandleAppendEntries_def engine_HandleRequestVote_def engine_HandleInstallSnapshot_def
      acks_def Let_def split: prod.splits)

lemma turn_ok:
  assumes "log_wf (e_log e)" and "ackInv cd sub e" and "\<And>cmd ch. ev = EvProposal cmd ch \<Longrightarrow> cmd = sub ch"
  shows "ackInv cd sub (runTurn cd rnd rnd' now ev e) \<and>
    acks (runTurn cd rnd rnd' now ev e) \<subseteq> acks e \<union> {ch. honest cd sub e (runTurn cd rnd rnd' now ev e) ch}"
proof -
  have s: ?thesis if "steady cd sub e (runTurn cd rnd rnd' now ev e)"
    using that assms(1,2) by (auto simp: steady_def)
  have finish: "calm e (stopReplicators
      ((failAllApplyWaiters ErrReadTimeout (failAllReads ErrNotLeader (failAllWaiters ErrNotLeader e)))\<lparr>e_done := True\<rparr>))"
    by (rule calm_trans [OF calm_trans [OF calm_trans [OF calm_trans [OF calm_fail_waiters calm_other_sweeps(5)]
            calm_other_sweeps(6)] calm_update(17)] calm_replicators(1)])
  show ?thesis
  proof (cases "e_halted e \<or> e_done e")
    case True
    then show ?thesis using s by (simp add: runTurn_def steady_calm)
  next
    case False
    show ?thesis
    proof (cases ev)
      case (EvProposal cmd ch)
      with False s steady_proposal [of cmd sub ch cd e now] assms(3) show ?thesis by (simp add: runTurn_def)
    next
      case EvTick
      with False tick_ok [OF assms(1,2) refl, of rnd rnd' now] show ?thesis by (simp add: runTurn_def)
    qed (use False s steady_handlers steady_calm [OF finish] in \<open>simp_all add: runTurn_def\<close>)
  qed
qed

lemma step_ok:
  assumes "log_wf (e_log e)" and "ackInv cd sub e" and "carries sub a"
  shows "ackInv cd sub (engineStep cd a e) \<and>
    acks (engineStep cd a e) \<subseteq> acks e \<union> {ch. honest cd sub e (engineStep cd a e) ch}"
proof (cases "e_halted e")
  case True
  with assms(2) show ?thesis by (simp add: engineStep_def)
next
  case False
  show ?thesis
  proof (cases a)
    case (Turn rnd rnd' now ev)
    have "cmd = sub ch" if "ev = EvProposal cmd ch" for cmd ch
      using assms(3) Turn that by (simp add: carries_def)
    with Turn False turn_ok [OF assms(1,2), of ev rnd rnd' now] show ?thesis by (simp add: engineStep_def)
  next
    case (Round sendA sendS p t)
    with False steady_round [of cd sub e sendA sendS p t] assms(1,2) show ?thesis
      by (auto simp: engineStep_def steady_def)
  qed (use False assms(2) in \<open>simp_all add: engineStep_def ackInv_calls acks_calls\<close>)
qed

lemma engineRun_inv:
  assumes "engineRun cd sub e"
  shows "log_wf (e_log e)" and "ackInv cd sub e"
proof -
  have "log_wf (e_log e) \<and> ackInv cd sub e" using assms
  proof induction
    case (start rl rn rnd sm f)
    then show ?case
      by (simp add: NewWithTransport_def resetElectionTimeout_def ackInv_def SetMinElectionTimeout_def)
  next
    case (step e a)
    then show ?case using step_ok [of e cd sub a] by blast
  qed
  then show "log_wf (e_log e)" "ackInv cd sub e" by blast+
qed

section \<open>A run of a single node\<close>

definition demoCodecs :: Codecs where
  "demoCodecs = \<lparr>encEntry = demoMarshal, encCommand = (\<lambda>c. Some (Key c)),
     decCommand = (\<lambda>b. Some \<lparr>Op = OpSet, Key = b, Value = ''v'', ClientID = [], Seq = 0, Timestamp = 0\<rparr>),
     encMachine = (\<lambda>st. []), decMachine = (\<lambda>b. None), encSnapshot = State, decSnapshot = (\<lambda>b. None)\<rparr>"

definition soloLeader :: RaftNode where
  "soloLeader = (demoNode 1)\<lparr>config := NewConfiguration [(1, ''a'')], Role := Leader,
     persistent := \<lparr>CurrentTerm = 3, VotedFor = 1\<rparr>\<rparr>"

definition soloEngine :: Engine where
  "soloEngine = NewWithTransport 0 soloLeader (demoWhole []) NewMemoryStateMachine
     \<lparr>visible = None, survivors = [None], calls = []\<rparr>"

definition soloCommand :: Command where
  "soloCommand = \<lparr>Op = OpSet, Key = ''k'', Value = ''v'', ClientID = [], Seq = 0, Timestamp = 0\<rparr>"

definition soloEntry :: LogEntry where
  "soloEntry = \<lparr>Index = 1, Term = 3, Command = ''k''\<rparr>"

lemma demoWhole_append:
  "AppendLeader demoMarshal b t (demoWhole es) =
     (Some \<lparr>Index = 1 + int (length es), Term = t, Command = b\<rparr>,
      demoWhole (es @ [\<lparr>Index = 1 + int (length es), Term = t, Command = b\<rparr>]))"
  by (simp add: AppendLeader_def writeEntryToDisk_def writeEntryTo_no_faults file_no_faults demoWhole_def Let_def)

lemma solo_proposed:
  "engineStep demoCodecs (Turn 0 0 5 (EvProposal soloCommand 7)) soloEngine =
     soloEngine\<lparr>e_log := demoWhole [soloEntry],
       e_waiters := [\<lparr>w_index = 1, w_term = 3, w_resultCh = 7, w_deadline = 5 + proposalTimeout\<rparr>]\<rparr>"
  by (simp add: engineStep_def runTurn_def handleProposal_def soloEngine_def NewWithTransport_def resetElectionTimeout_def
      soloLeader_def demoNode_def SetMinElectionTimeout_def electionTimeoutMin_def IsLeader_def node_CurrentTerm_def
      demoCodecs_def soloCommand_def demoWhole_append soloEntry_def notifyReplicators_def mkeys_def)

lemma solo_config: "NewConfiguration [(1, ''a'')] = \<lparr>Voters = [(1, ''a'')], OldVoters = [], Learners = []\<rparr>"
  by (simp add: NewConfiguration_def copyMembers_def mput_def)

lemma solo_peers: "Peers \<lparr>Voters = [(1, ''a'')], OldVoters = [], Learners = []\<rparr> 1 = []"
  by (simp add: Peers_def Members_def mput_def mdel_def)

lemma solo_quorum_index: "QuorumIndex \<lparr>Voters = [(1, ''a'')], OldVoters = [], Learners = []\<rparr> [(1, i)] = i"
  by (simp add: demo_config_simps)

lemma solo_acked:
  "e_replies (engineStep demoCodecs (Turn 0 0 6 EvTick)
     (soloEngine\<lparr>e_log := demoWhole [soloEntry],
       e_waiters := [\<lparr>w_index = 1, w_term = 3, w_resultCh = 7, w_deadline = 5 + proposalTimeout\<rparr>]\<rparr>)) = [ProposalDone 7 None]"
proof -
  have l: "LatestIndex (demoWhole [soloEntry]) = 1" "TermAt (demoWhole [soloEntry]) 1 = 3"
      "GetEntry (demoWhole [soloEntry]) 1 = Some soloEntry" "\<not> NeedsCompaction (demoWhole [soloEntry]) 1"
      "LogEntry.Command soloEntry = ''k''"
    by (simp_all add: LatestIndex_def lastIndexLocked_def soloEntry_def TermAt_def getEntryLocked_def GetEntry_def
        NeedsCompaction_def demoWhole_def Let_def)
  show ?thesis
    by (simp add: engineStep_def runTurn_def onTick_def soloEngine_def NewWithTransport_def resetElectionTimeout_def
      soloLeader_def demoNode_def SetMinElectionTimeout_def electionTimeoutMin_def IsLeader_def node_CurrentTerm_def
      node_State_def reconcileLeadership_def startReplicators_def currentPeers_def node_Peers_def solo_config solo_peers
      AdvanceCommitIndex_def mput_def solo_quorum_index l CommitAndApplyBoundary_def mkeys_def fireCommittedWaiters_eq
      applyCommitted_def applyLoop.simps applyOne_def demoCodecs_def Apply_def Let_def AdvanceLastApplied_def
      maybeCompact_def fireReadWaiters_def fireApplyWaiters_def checkQuorum_def sweepExpiredWaiters_def sweepExpiredReads_def
      sweepExpiredApplyWaiters_def advanceClock_def expireSessions_def NewMemoryStateMachine_def replay_def execute_def
      recordOutcome_def sweepInterval_def)
qed

section \<open>Properties\<close>



theorem clients_answered_once_witness:
  "answered (engineStep demoCodecs (Turn 0 0 6 EvDone)
      (engineStep demoCodecs (Turn 0 0 5 (EvProposal soloCommand 7)) soloEngine)) = {#Writer 7#}"
proof -
  have f: "\<not> e_halted soloEngine" "\<not> e_done soloEngine"
    by (simp_all add: soloEngine_def NewWithTransport_def resetElectionTimeout_def)
  then have "serving (engineStep demoCodecs (Turn 0 0 5 (EvProposal soloCommand 7)) soloEngine)"
    by (simp add: solo_proposed serving_def)
  moreover have "fold (engineStep demoCodecs) [Turn 0 0 5 (EvProposal soloCommand 7)] soloEngine =
      engineStep demoCodecs (Turn 0 0 5 (EvProposal soloCommand 7)) soloEngine" by simp
  ultimately show ?thesis
    using clients_answered_once [OF refl, of demoCodecs "[Turn 0 0 5 (EvProposal soloCommand 7)]" 0 soloLeader "demoWhole []"
        NewMemoryStateMachine "\<lparr>visible = None, survivors = [None], calls = []\<rparr>" 0 0 6] f
    unfolding soloEngine_def [symmetric] by (simp add: serving_def)
qed

theorem committed_applied_in_order_witness:
  "let e = soloEngine\<lparr>e_log := demoWhole [soloEntry], e_node := soloLeader\<lparr>CommitIndex := 1\<rparr>\<rparr>;
       e' = applyCommitted demoCodecs e in
   \<not> e_halted e' \<and> LastApplied (e_node e') = 1 \<and>
   (\<exists>cs. holdsAfter demoCodecs (e_log e) 0 cs \<and> length cs = 1 \<and> e_machine e' = snd (applyLog cs NewMemoryStateMachine))"
proof -
  let ?e = "soloEngine\<lparr>e_log := demoWhole [soloEntry], e_node := soloLeader\<lparr>CommitIndex := 1\<rparr>\<rparr>"
  have e: "\<not> e_halted ?e" "e_machine ?e = NewMemoryStateMachine" "LastApplied (e_node ?e) = 0" "CommitIndex (e_node ?e) = 1"
    by (simp_all add: soloEngine_def NewWithTransport_def resetElectionTimeout_def soloLeader_def demoNode_def)
  have g: "GetEntry (demoWhole [soloEntry]) 1 = Some soloEntry" "LogEntry.Command soloEntry = ''k''"
    by (simp_all add: GetEntry_def getEntryLocked_def demoWhole_def soloEntry_def Let_def)
  have h: "\<not> e_halted (applyCommitted demoCodecs ?e)"
    using e by (simp add: applyCommitted_def CommitAndApplyBoundary_def applyLoop.simps applyOne_def g demoCodecs_def
        Apply_def AdvanceLastApplied_def advanceClock_def expireSessions_def NewMemoryStateMachine_def replay_def
        execute_def sweepInterval_def Let_def)
  obtain cs m where c: "holdsAfter demoCodecs (e_log ?e) (LastApplied (e_node ?e)) cs"
      "applyLog cs (e_machine ?e) = (map (\<lambda>_. None) cs, m)"
      "LastApplied (e_node (applyCommitted demoCodecs ?e)) = LastApplied (e_node ?e) + int (length cs)"
      "LastApplied (e_node ?e) + int (length cs) = max (LastApplied (e_node ?e)) (CommitIndex (e_node ?e))"
      "e_machine (applyCommitted demoCodecs ?e) = m"
    using committed_applied_in_order [OF e(1), of demoCodecs] h by (auto simp: Let_def)
  with e h show ?thesis by (simp add: Let_def) (metis snd_conv)
qed

end
