(* ===== verification/Engine_Reads.thy ===== *)
theory Engine_Reads
  imports Engine_Honest
begin

text \<open>
  Linearizable reads: a read is released only at an index that covers everything the leader
  knew committed when it took the read, in the same term, after a majority has acknowledged
  rounds that began later.
\<close>

section \<open>Definitions\<close>

definition served :: "Engine \<Rightarrow> (nat \<times> int) set" where
  "served e = {(ch, idx). ReadDone ch (Inr idx) \<in> set (e_replies e)}"

text \<open>The waiter the leader makes of a read.\<close>

definition admittedRead :: "nanos \<Rightarrow> nat \<Rightarrow> bool \<Rightarrow> Engine \<Rightarrow> readWaiter" where
  "admittedRead now ch awaitApply e =
     \<lparr>r_readIndex = max (CommitIndex (e_node e)) (e_noopIndex e), r_term = CurrentTerm (persistent (e_node e)),
      r_barrier = e_roundSeq e, r_awaitApply = awaitApply, r_deadline = now + readTimeout, r_resultCh = ch\<rparr>"

text \<open>What holds in \<open>e\<close> when the read \<open>w\<close> is released.\<close>

definition released :: "readWaiter \<Rightarrow> Engine \<Rightarrow> bool" where
  "released w e \<longleftrightarrow> CurrentTerm (persistent (e_node e)) = r_term w \<and> e_noopIndex e \<le> CommitIndex (e_node e) \<and>
     (r_awaitApply w \<longrightarrow> r_readIndex w \<le> LastApplied (e_node e)) \<and>
     ClusterSize (e_node e) div 2 < 1 + int (length (filter (\<lambda>(_, ack). r_barrier w < pa_startSeq ack) (e_lastAck e)))"

section \<open>What leaves reads alone\<close>

definition hush :: "Engine \<Rightarrow> Engine \<Rightarrow> bool" where
  "hush e e' \<longleftrightarrow> set (e_reads e') \<subseteq> set (e_reads e) \<and> served e' \<subseteq> served e"

lemma hush_refl [simp]: "hush e e"
  by (simp add: hush_def)

lemma hush_trans [trans]: "hush e1 e2 \<Longrightarrow> hush e2 e3 \<Longrightarrow> hush e1 e3"
  by (auto simp: hush_def)

lemma hush_fold: "(\<And>w e. hush e (f w e)) \<Longrightarrow> hush e (fold f ws e)"
  by (induction ws arbitrary: e) (auto intro: hush_trans)

lemma hush_same: "e_reads e' = e_reads e \<Longrightarrow> e_replies e' = e_replies e \<Longrightarrow> hush e e'"
  by (simp add: hush_def served_def)

lemma hush_reply: "(\<And>ch idx. r \<noteq> ReadDone ch (Inr idx)) \<Longrightarrow> hush e (send_reply r e)"
  by (auto simp: hush_def send_reply_def served_def)

lemma hush_sweeps:
  "hush e (fireCommittedWaiters ci t e)" "hush e (sweepExpiredWaiters now e)" "hush e (failAllWaiters err e)"
  "hush e (sweepExpiredReads now e)" "hush e (failAllReads err e)"
  "hush e (sweepExpiredApplyWaiters now e)" "hush e (fireApplyWaiters e)" "hush e (failAllApplyWaiters err e)"
proof -
  have keep: "hush e (e\<lparr>e_waiters := x\<rparr>)" "hush e (e\<lparr>e_applyWaiters := y\<rparr>)" for e x y
    by (rule hush_same; simp)+
  show "hush e (fireCommittedWaiters ci t e)" "hush e (sweepExpiredWaiters now e)"
    "hush e (sweepExpiredApplyWaiters now e)" "hush e (fireApplyWaiters e)"
    unfolding fireCommittedWaiters_def sweepExpiredWaiters_def sweepExpiredApplyWaiters_def fireApplyWaiters_def
      Let_def case_prod_unfold
    by (rule hush_trans [OF keep(1) hush_fold], simp add: hush_reply keep
      | rule hush_trans [OF keep(2) hush_fold], simp add: hush_reply keep)+
  show "hush e (failAllWaiters err e)" "hush e (failAllApplyWaiters err e)" "hush e (failAllReads err e)"
    by (auto simp: failAllWaiters_def failAllApplyWaiters_def failAllReads_def fold_replies hush_def served_def)
  have "fold (\<lambda>w e. if P w then send_reply (g w) e else e\<lparr>e_reads := e_reads e @ [w]\<rparr>) ws x =
      x\<lparr>e_reads := e_reads x @ filter (\<lambda>w. \<not> P w) ws, e_replies := e_replies x @ map g (filter P ws)\<rparr>" for P g ws x
    by (induction ws arbitrary: x) (simp_all add: send_reply_def)
  then show "hush e (sweepExpiredReads now e)"
    by (auto simp: sweepExpiredReads_def hush_def served_def)
qed

lemma hush_replicators:
  "hush e (stopReplicators e)" "hush e (startReplicators e)" "hush e (notifyReplicators e)"
  by (simp_all add: stopReplicators_def startReplicators_def notifyReplicators_def send_peer_def Let_def
      hush_fold hush_same)

lemma hush_stepdown:
  "hush e (failAllReads err (failAllWaiters err' (stopReplicators (e\<lparr>e_node := rn\<rparr>))))"
  by (rule hush_trans [OF hush_trans [OF hush_trans [OF _ hush_replicators(1)] hush_sweeps(3)] hush_sweeps(5)])
     (simp add: hush_same)

lemma hush_apply: "hush e (applyCommitted cd e)"
proof -
  obtain cs m where "appliedRun cd (CommitIndex (e_node e)) e (applyCommitted cd e) cs m"
    using applyLoop_run by (fastforce simp: applyCommitted_def CommitAndApplyBoundary_def)
  then show ?thesis by (intro hush_same) (auto simp: appliedRun_def Let_def)
qed

lemma hush_compact: "hush e (maybeCompact cd e)"
  by (intro hush_same) (simp_all add: maybeCompact_def compact_def Let_def split: prod.splits bool.splits)

lemma hush_noop:
  "hush e (case encCommand cd cmd of None \<Rightarrow> e
     | Some b \<Rightarrow> (case AppendLeader (encEntry cd) b t (e_log e) of
         (None, rl) \<Rightarrow> e\<lparr>e_log := rl\<rparr> | (Some entry, rl) \<Rightarrow> e\<lparr>e_log := rl, e_noopIndex := Index entry\<rparr>))"
  by (intro hush_same) (simp_all split: option.splits prod.splits)

lemma hush_becomeLeader: "hush e (engine_becomeLeader cd now t i e)"
proof -
  obtain won rn where b: "BecomeLeader t i (e_node e) = (won, rn)" by force
  have "hush e ((resetLeadershipEvidence now (e\<lparr>e_node := rn\<rparr>))\<lparr>e_noopIndex := 0\<rparr>)"
    by (rule hush_same) (simp_all add: resetLeadershipEvidence_def)
  note h = hush_trans [OF hush_trans [OF this hush_noop] hush_replicators(2)]
  show ?thesis
  proof (cases won)
    case True
    then show ?thesis using b h unfolding engine_becomeLeader_def Let_def by simp
  next
    case False
    then show ?thesis using b by (simp add: engine_becomeLeader_def hush_same)
  qed
qed

lemma hush_send:
  "hush e (fold (\<lambda>(p, addr). send_peer (SendVote p addr req)) ps e)"
  "hush e (fold (\<lambda>(p, addr). send_peer (SendPreVote p addr req')) ps e)"
  by (rule hush_fold; auto simp: send_peer_def hush_same)+

lemma hush_runElection: "hush e (runElection cd rnd now e)"
proof -
  obtain c rn where b: "BecomeCandidate now (e_node e) = (c, rn)" by force
  have "hush e (e\<lparr>e_node := rn, e_electionTimeout := t\<rparr>)" for t by (simp add: hush_same)
  note h = this hush_trans [OF this hush_send(1)] hush_trans [OF this hush_becomeLeader]
  show ?thesis
    using b h by (simp add: runElection_def resetElectionTimeout_def Let_def split: option.splits prod.splits)
qed

lemma hush_startPreVote: "hush e (startPreVote cd rnd rnd' now e)"
proof -
  have "hush e (e\<lparr>e_electionTimeout := t\<rparr>)" "hush e (e\<lparr>e_electionTimeout := t, e_preVoteTerm := p, e_preVotes := v\<rparr>)" for t p v
    by (simp_all add: hush_same)
  note h = hush_trans [OF this(1) hush_runElection] hush_trans [OF this(2) hush_send(2)]
  show ?thesis using h by (simp add: startPreVote_def resetElectionTimeout_def Let_def split: prod.splits)
qed

lemma hush_checkQuorum: "hush e (checkQuorum now e)"
  using hush_stepdown [of e]
  by (simp add: checkQuorum_def noteQuorumConfirmed_def Let_def hush_same split: prod.splits bool.splits)

lemma hush_reconcile: "hush e (reconcileLeadership e)"
  using hush_trans [OF hush_trans [OF hush_replicators(1) hush_sweeps(3)] hush_sweeps(5)]
  by (simp add: reconcileLeadership_def Let_def hush_sweeps hush_replicators split: prod.splits)

lemma hush_tickFront: "hush e (tickFront cd rnd rnd' now e)"
proof -
  have "hush e (e\<lparr>e_node := rn\<rparr>)" for rn by (simp add: hush_same)
  from hush_trans [OF this hush_sweeps(1)] show ?thesis
    by (simp add: tickFront_def Let_def hush_startPreVote split: prod.splits)
qed

lemma hush_handlers:
  "hush e (handleProposal cd now cmd ch e)"
  "hush e (handleStepDown t e)"
  "hush e (handlePreVoteResult cd rnd now t v pr e)"
  "hush e (handleVoteResult cd now t v vr e)"
  "hush e (handleApplyWait w e)"
proof -
  have n: "hush e (e\<lparr>e_node := rn\<rparr>)" for rn by (simp add: hush_same)
  show "hush e (handleProposal cd now cmd ch e)"
  proof -
    have "hush e (notifyReplicators (e\<lparr>e_log := l, e_waiters := x\<rparr>))" "hush e (send_reply (ProposalDone ch r) (e\<lparr>e_log := l\<rparr>))" for l x r
      by (rule hush_trans [OF _ hush_replicators(3)], simp add: hush_same)
         (rule hush_trans [OF _ hush_reply], simp_all add: hush_same)
    then show ?thesis by (simp add: handleProposal_def Let_def hush_reply split: option.splits prod.splits)
  qed
  show "hush e (handleStepDown t e)" using hush_stepdown [of e] by (simp add: handleStepDown_def split: prod.splits)
  have "hush e (e\<lparr>e_preVotes := v, e_preVoteTerm := p\<rparr>)" for v p by (simp add: hush_same)
  note p = hush_trans [OF this hush_runElection]
  show "hush e (handlePreVoteResult cd rnd now t v pr e)"
    using p by (simp add: handlePreVoteResult_def Let_def hush_same split: prod.splits)
  show "hush e (handleVoteResult cd now t v vr e)"
    using hush_trans [OF n hush_becomeLeader] by (simp add: handleVoteResult_def Let_def hush_same split: prod.splits)
  show "hush e (handleApplyWait w e)"
    by (simp add: handleApplyWait_def hush_same hush_reply split: prod.splits)
qed

lemma hush_calls:
  "hush e (snd (engine_HandleAppendEntries cd now areq e))"
  "hush e (snd (engine_HandleRequestVote now vreq e))"
  "hush e (snd (engine_HandleInstallSnapshot cd now sreq e))"
  "hush e (snd (replicateOnce cd sendA sendS p t e))"
proof -
  show "hush e (snd (engine_HandleAppendEntries cd now areq e))" "hush e (snd (engine_HandleRequestVote now vreq e))"
    "hush e (snd (engine_HandleInstallSnapshot cd now sreq e))"
    by (simp_all add: engine_HandleAppendEntries_def engine_HandleRequestVote_def engine_HandleInstallSnapshot_def
        Let_def hush_same split: prod.splits)
  have b: "hush e x" if "buildSnapshotRequest cd (e\<lparr>e_roundSeq := s\<rparr>) = (q, x)" for q x s
    using that by (intro hush_same)
      (auto simp: buildSnapshotRequest_def Let_def split: prod.splits sum.splits option.splits if_splits)
  have n: "hush x (x\<lparr>e_node := rn\<rparr>)" for x rn by (simp add: hush_same)
  show "hush e (snd (replicateOnce cd sendA sendS p t e))"
    using hush_trans [OF b n]
    by (auto simp: replicateOnce_def nextRoundSeq_def Let_def hush_same split: prod.splits option.splits)
qed

section \<open>Releasing\<close>

lemma readSatisfied_reads [simp]:
  "readSatisfied w role t ci la (e\<lparr>e_reads := x\<rparr>) = readSatisfied w role t ci la e"
  "readSatisfied w role t ci la (send_reply r e) = readSatisfied w role t ci la e"
  by (simp_all add: readSatisfied_def send_reply_def)

definition answerOf :: "Engine \<Rightarrow> readWaiter \<Rightarrow> reply option" where
  "answerOf e w =
     (let (role, term) = node_State (e_node e); (ci, la) = CommitAndApplyBoundary (e_node e) in
      if role \<noteq> Leader \<or> term \<noteq> r_term w then Some (ReadDone (r_resultCh w) (Inl ErrNotLeader))
      else if readSatisfied w role term ci la e then Some (ReadDone (r_resultCh w) (Inr (r_readIndex w)))
      else None)"

lemma fold_answers:
  assumes "I x"
    and body: "\<And>w x. I x \<Longrightarrow> f w x = (case g w of Some r \<Rightarrow> send_reply r x | None \<Rightarrow> x\<lparr>e_reads := e_reads x @ [w]\<rparr>)"
    and keep: "\<And>x r. I x \<Longrightarrow> I (send_reply r x)" "\<And>x y. I x \<Longrightarrow> I (x\<lparr>e_reads := y\<rparr>)"
  shows "fold f ws x = x\<lparr>e_reads := e_reads x @ filter (\<lambda>w. g w = None) ws,
    e_replies := e_replies x @ List.map_filter g ws\<rparr>"
  using assms(1)
proof (induction ws arbitrary: x)
  case Nil
  then show ?case by (simp add: List.map_filter_def)
next
  case (Cons w ws)
  then show ?case
    by (cases "g w") (simp_all add: body keep List.map_filter_simps, simp_all add: send_reply_def)
qed

lemma fireReadWaiters_eq:
  "fireReadWaiters e = e\<lparr>e_reads := filter (\<lambda>w. answerOf e w = None) (e_reads e),
     e_replies := e_replies e @ List.map_filter (answerOf e) (e_reads e)\<rparr>"
proof -
  obtain role t where s: "node_State (e_node e) = (role, t)" by force
  obtain ci la where b: "CommitAndApplyBoundary (e_node e) = (ci, la)" by force
  let ?I = "\<lambda>x. \<forall>w. readSatisfied w role t ci la x = readSatisfied w role t ci la e"
  let ?f = "\<lambda>w e. if role \<noteq> Leader \<or> t \<noteq> r_term w then send_reply (ReadDone (r_resultCh w) (Inl ErrNotLeader)) e
      else if readSatisfied w role t ci la e then send_reply (ReadDone (r_resultCh w) (Inr (r_readIndex w))) e
      else e\<lparr>e_reads := e_reads e @ [w]\<rparr>"
  have "fold ?f (e_reads e) (e\<lparr>e_reads := []\<rparr>) = e\<lparr>e_reads := filter (\<lambda>w. answerOf e w = None) (e_reads e),
      e_replies := e_replies e @ List.map_filter (answerOf e) (e_reads e)\<rparr>"
    by (subst fold_answers [where I = ?I and g = "answerOf e"]) (auto simp: answerOf_def s b)
  then show ?thesis using s b by (simp add: fireReadWaiters_def)
qed

lemma fire_reads:
  "set (e_reads (fireReadWaiters e)) \<subseteq> set (e_reads e)"
  "(ch, idx) \<in> served (fireReadWaiters e) \<Longrightarrow> (ch, idx) \<in> served e \<or>
     (\<exists>w \<in> set (e_reads e). r_resultCh w = ch \<and> r_readIndex w = idx \<and> released w e)"
proof -
  show "set (e_reads (fireReadWaiters e)) \<subseteq> set (e_reads e)" by (auto simp: fireReadWaiters_eq)
  have "released w e" if "answerOf e w = Some (ReadDone ch (Inr idx))" for w
    using that by (auto simp: answerOf_def released_def readSatisfied_def node_State_def CommitAndApplyBoundary_def Let_def
        split: if_splits)
  then show "(ch, idx) \<in> served (fireReadWaiters e) \<Longrightarrow> (ch, idx) \<in> served e \<or>
     (\<exists>w \<in> set (e_reads e). r_resultCh w = ch \<and> r_readIndex w = idx \<and> released w e)"
    by (fastforce simp: fireReadWaiters_eq served_def List.map_filter_def answerOf_def Let_def split: if_splits prod.splits)
qed

text \<open>What the release of a read looks at, and what leaves it alone.\<close>

definition gauge :: "Engine \<Rightarrow> int \<times> int \<times> int \<times> Configuration \<times> int \<times> (int, peerAck) gomap" where
  "gauge e = (CurrentTerm (persistent (e_node e)), CommitIndex (e_node e), LastApplied (e_node e), config (e_node e),
     e_noopIndex e, e_lastAck e)"

lemma released_gauge: "gauge e' = gauge e \<Longrightarrow> released w e' = released w e"
  by (simp add: gauge_def released_def ClusterSize_def)

interpretation gau: aside gauge
  by unfold_locales (simp_all add: gauge_def)

lemma gauge_quorum [simp]: "gauge (e\<lparr>e_lastQuorumNanos := q\<rparr>) = gauge e"
  by (simp add: gauge_def)

lemmas gauge_sweeps = gau.sweeps gau.crews

lemma gauge_checkQuorum: "gauge (checkQuorum now e) = gauge e"
proof -
  have "gauge (e\<lparr>e_node := rn\<rparr>) = gauge e" if "BecomeFollower (node_CurrentTerm (e_node e)) 0 (e_node e) = (fin, rn)" for fin rn
    using that by (auto simp: BecomeFollower_def becomeFollowerLocked_def commitPersistentLocked_def node_CurrentTerm_def
        gauge_def Let_def split: prod.splits bool.splits if_splits)
  then show ?thesis
    by (simp add: checkQuorum_def noteQuorumConfirmed_def Let_def gauge_sweeps split: prod.splits bool.splits)
qed

text \<open>What a step may do to the reads: only waiting ones are answered, and those only when released.\<close>

definition releasing :: "Engine \<Rightarrow> Engine \<Rightarrow> bool" where
  "releasing e e' \<longleftrightarrow> set (e_reads e') \<subseteq> set (e_reads e) \<and>
     (\<forall>ch idx. (ch, idx) \<in> served e' \<longrightarrow> (ch, idx) \<in> served e \<or>
        (\<exists>w \<in> set (e_reads e). r_resultCh w = ch \<and> r_readIndex w = idx \<and> released w e'))"

lemma hush_releasing: "hush e e' \<Longrightarrow> releasing e e'"
  by (auto simp: hush_def releasing_def)

lemma fire_releasing:
  assumes "hush e e1" and "hush (fireReadWaiters e1) e'" and "gauge e' = gauge e1"
  shows "releasing e e'"
  using assms fire_reads(1) [of e1] fire_reads(2) [where e = e1] released_gauge [OF assms(3)] unfolding releasing_def hush_def by blast

lemma releasing_tick: "releasing e (onTick cd rnd rnd' now e)"
proof -
  define e1 where "e1 = applyCommitted cd (tickFront cd rnd rnd' now (reconcileLeadership e))"
  have h: "hush e e1"
    unfolding e1_def by (rule hush_trans [OF hush_trans [OF hush_reconcile hush_tickFront] hush_apply])
  define e2 where "e2 = fireReadWaiters (maybeCompact cd e1)"
  define e3 where "e3 = (if IsLeader (e_node (fireApplyWaiters e2)) then checkQuorum now (fireApplyWaiters e2)
    else fireApplyWaiters e2)"
  define e4 where "e4 = sweepExpiredApplyWaiters now (sweepExpiredReads now (sweepExpiredWaiters now e3))"
  have "hush e2 e3" unfolding e3_def using hush_trans [OF hush_sweeps(7) hush_checkQuorum] by (simp add: hush_sweeps)
  then have "hush e2 e4"
    unfolding e4_def by (rule hush_trans [OF hush_trans [OF hush_trans [OF _ hush_sweeps(2)] hush_sweeps(4)] hush_sweeps(6)])
  moreover have "gauge e4 = gauge (maybeCompact cd e1)"
    by (simp add: e4_def e3_def e2_def gauge_sweeps gauge_checkQuorum gau.sweeps(9))
  ultimately have "releasing e e4"
    unfolding e2_def by (rule fire_releasing [OF hush_trans [OF h hush_compact]])
  moreover have "onTick cd rnd rnd' now e = (if e_halted e1 then e1 else e4)"
    by (simp add: onTick_eq e1_def e2_def e3_def e4_def Let_def)
  ultimately show ?thesis using hush_releasing [OF h] by simp
qed

lemma releasing_ack: "releasing e (handleAck now p s e)"
  unfolding handleAck_def Let_def by (rule fire_releasing) (simp_all add: hush_same gau.sweeps(9))

lemma releasing_read:
  "releasing (if IsLeader (e_node e) then e\<lparr>e_reads := e_reads e @ [admittedRead now ch b e]\<rparr> else e) (handleRead now ch b e)"
proof (cases "IsLeader (e_node e)")
  case True
  let ?e = "e\<lparr>e_reads := e_reads e @ [admittedRead now ch b e]\<rparr>"
  have "handleRead now ch b e = fireReadWaiters (notifyReplicators ?e)"
    using True by (simp add: handleRead_def admittedRead_def node_State_def CommitAndApplyBoundary_def IsLeader_def max_def Let_def)
  then show ?thesis using True by (simp add: fire_releasing [OF hush_replicators(3) hush_refl gau.sweeps(9)])
next
  case False
  then have "handleRead now ch b e = send_reply (ReadDone ch (Inl ErrNotLeader)) e"
    by (simp add: handleRead_def node_State_def IsLeader_def)
  then show ?thesis using False by (simp add: hush_releasing hush_reply)
qed

text \<open>The reads that wait after an action: those before it, and the one it brings.\<close>

definition taken :: "action \<Rightarrow> Engine \<Rightarrow> readWaiter \<Rightarrow> bool" where
  "taken a e w \<longleftrightarrow> (\<exists>r r' now ch b. a = Turn r r' now (EvRead ch b) \<and> IsLeader (e_node e) \<and> w = admittedRead now ch b e)"

lemma step_reads:
  shows "set (e_reads (engineStep cd a e)) \<subseteq> set (e_reads e) \<union> Collect (taken a e)"
    and "(ch, idx) \<in> served (engineStep cd a e) \<Longrightarrow> (ch, idx) \<notin> served e \<Longrightarrow>
      \<exists>w. (w \<in> set (e_reads e) \<or> taken a e w) \<and> r_resultCh w = ch \<and> r_readIndex w = idx \<and> released w (engineStep cd a e)"
proof -
  have "\<exists>x. releasing x (engineStep cd a e) \<and> set (e_reads x) \<subseteq> set (e_reads e) \<union> Collect (taken a e) \<and> served x = served e"
  proof (cases "\<exists>r r' now c b. a = Turn r r' now (EvRead c b) \<and> \<not> e_halted e \<and> \<not> e_done e")
    case True
    then obtain r r' now c b where a: "a = Turn r r' now (EvRead c b)" "\<not> e_halted e" "\<not> e_done e" by blast
    let ?x = "if IsLeader (e_node e) then e\<lparr>e_reads := e_reads e @ [admittedRead now c b e]\<rparr> else e"
    have "set (e_reads ?x) \<subseteq> set (e_reads e) \<union> Collect (taken a e)" "served ?x = served e"
      using a by (auto simp: taken_def served_def)
    then show ?thesis using a releasing_read [of e now c b] by (intro exI [of _ ?x]) (simp add: engineStep_def runTurn_def)
  next
    case False
    have "hush e (stopReplicators ((failAllApplyWaiters er (failAllReads er' (failAllWaiters er'' e)))\<lparr>e_done := True\<rparr>))" for er er' er''
      by (rule hush_trans [OF hush_trans [OF hush_trans [OF hush_trans [OF hush_sweeps(3) hush_sweeps(5)] hush_sweeps(8)] hush_same]
            hush_replicators(1)]) simp_all
    then have "releasing e (engineStep cd a e)"
      using False by (auto simp: engineStep_def runTurn_def hush_releasing releasing_tick releasing_ack hush_handlers hush_calls
          split: action.splits event.splits)
    then show ?thesis by blast
  qed
  then obtain x where x: "releasing x (engineStep cd a e)" "set (e_reads x) \<subseteq> set (e_reads e) \<union> Collect (taken a e)"
    "served x = served e" by blast
  then show "set (e_reads (engineStep cd a e)) \<subseteq> set (e_reads e) \<union> Collect (taken a e)"
    by (auto simp: releasing_def)
  show "\<exists>w. (w \<in> set (e_reads e) \<or> taken a e w) \<and> r_resultCh w = ch \<and> r_readIndex w = idx \<and> released w (engineStep cd a e)"
    if "(ch, idx) \<in> served (engineStep cd a e)" "(ch, idx) \<notin> served e"
    using x that unfolding releasing_def by blast
qed

text \<open>Every waiting read was taken by the leader at an earlier point of the run.\<close>

lemma reads_taken:
  assumes "w \<in> set (e_reads (fold (engineStep cd) as e))" and "e_reads e = []"
  shows "\<exists>as1 a as2. as = as1 @ a # as2 \<and> taken a (fold (engineStep cd) as1 e) w"
  using assms(1)
proof (induction as rule: rev_induct)
  case Nil
  then show ?case using assms(2) by simp
next
  case (snoc a as)
  let ?e = "fold (engineStep cd) as e"
  from snoc.prems step_reads(1) [of cd a ?e] have "w \<in> set (e_reads ?e) \<or> taken a ?e w" by auto
  then show ?case
  proof
    assume "w \<in> set (e_reads ?e)"
    then obtain as1 b as2 where "as = as1 @ b # as2" "taken b (fold (engineStep cd) as1 e) w" using snoc.IH by blast
    then show ?thesis by (intro exI [of _ as1] exI [of _ b] exI [of _ "as2 @ [a]"]) simp
  next
    assume "taken a ?e w"
    then show ?thesis by (intro exI [of _ as] exI [of _ a] exI [of _ "[]"]) simp
  qed
qed

section \<open>Properties\<close>

text \<open>A linearizable read is answered with an index only when it is safe: the engine took
  the read as leader at an earlier point of the run, the index is at least what it knew committed then
  and its own first entry of the term, and when the answer goes out the node is still in the term of that
  point, that first entry is committed, the machine has applied the index if the caller asked for it,
  and a majority of the voters, the node included, has acknowledged rounds that began after
  the read was taken.\<close>

theorem linearizable_read:
  assumes "e = fold (engineStep cd) as (NewWithTransport rnd rn rl sm f)"
    and "e' = engineStep cd a e"
    and "ReadDone ch (Inr idx) \<in> set (e_replies e')" and "ReadDone ch (Inr idx) \<notin> set (e_replies e)"
  shows "\<exists>as1 r r' now awaitApply as2 e0. as @ [a] = as1 @ Turn r r' now (EvRead ch awaitApply) # as2 \<and>
    e0 = fold (engineStep cd) as1 (NewWithTransport rnd rn rl sm f) \<and>
    IsLeader (e_node e0) \<and> idx = max (CommitIndex (e_node e0)) (e_noopIndex e0) \<and>
    node_CurrentTerm (e_node e') = node_CurrentTerm (e_node e0) \<and>
    e_noopIndex e' \<le> CommitIndex (e_node e') \<and> (awaitApply \<longrightarrow> idx \<le> LastApplied (e_node e')) \<and>
    ClusterSize (e_node e') div 2 <
      1 + int (length (filter (\<lambda>(_, ack). e_roundSeq e0 < pa_startSeq ack) (e_lastAck e')))"
proof -
  let ?e = "NewWithTransport rnd rn rl sm f"
  obtain w where w: "w \<in> set (e_reads e) \<or> taken a e w" "r_resultCh w = ch" "r_readIndex w = idx" "released w e'"
    using step_reads(2) [of ch idx cd a e] assms by (auto simp: served_def)
  have "e_reads ?e = []" by (simp add: NewWithTransport_def resetElectionTimeout_def)
  then have "\<exists>as1 b as2. as @ [a] = as1 @ b # as2 \<and> taken b (fold (engineStep cd) as1 ?e) w"
    using w(1) reads_taken [of w cd as ?e] assms(1) by (metis append_Cons append_assoc)
  then obtain as1 b as2 where b: "as @ [a] = as1 @ b # as2" "taken b (fold (engineStep cd) as1 ?e) w" by blast
  then obtain r r' now c aw where t: "b = Turn r r' now (EvRead c aw)" "IsLeader (e_node (fold (engineStep cd) as1 ?e))"
    "w = admittedRead now c aw (fold (engineStep cd) as1 ?e)" by (auto simp: taken_def)
  from w(2-4) t(3) have "c = ch" by (simp add: admittedRead_def)
  with b(1) t w(2-4) show ?thesis
    by (intro exI [of _ as1] exI [of _ r] exI [of _ r'] exI [of _ now] exI [of _ aw] exI [of _ as2]
          exI [of _ "fold (engineStep cd) as1 ?e"])
       (simp add: admittedRead_def released_def node_CurrentTerm_def)
qed

lemma solo_read:
  "e_replies (engineStep demoCodecs (Turn 0 0 5 (EvRead 9 True)) soloEngine) = [ReadDone 9 (Inr 0)]"
  by (simp add: engineStep_def runTurn_def handleRead_def soloEngine_def NewWithTransport_def resetElectionTimeout_def
      soloLeader_def demoNode_def SetMinElectionTimeout_def electionTimeoutMin_def node_State_def CommitAndApplyBoundary_def
      notifyReplicators_def mkeys_def fireReadWaiters_def readSatisfied_def ClusterSize_def send_reply_def solo_config)

theorem linearizable_read_witness:
  "ClusterSize (e_node (engineStep demoCodecs (Turn 0 0 5 (EvRead 9 True)) soloEngine)) div 2 <
    1 + int (length (e_lastAck (engineStep demoCodecs (Turn 0 0 5 (EvRead 9 True)) soloEngine)))"
proof -
  let ?a = "Turn 0 0 5 (EvRead 9 True)"
  have "ReadDone 9 (Inr 0) \<in> set (e_replies (engineStep demoCodecs ?a soloEngine))"
      "ReadDone 9 (Inr 0) \<notin> set (e_replies soloEngine)"
    by (simp_all add: solo_read) (simp add: soloEngine_def NewWithTransport_def resetElectionTimeout_def)
  note answered = this
  have "soloEngine = fold (engineStep demoCodecs) [] (NewWithTransport 0 soloLeader (demoWhole []) NewMemoryStateMachine
      \<lparr>visible = None, survivors = [None], calls = []\<rparr>)" by (simp add: soloEngine_def)
  from linearizable_read [OF this refl answered]
  have "\<exists>e0 :: Engine. ClusterSize (e_node (engineStep demoCodecs ?a soloEngine)) div 2 <
      1 + int (length (filter (\<lambda>(_, ack). e_roundSeq e0 < pa_startSeq ack) (e_lastAck (engineStep demoCodecs ?a soloEngine))))"
    by (elim exE conjE) (rule exI, assumption)
  then obtain e0 :: Engine where "ClusterSize (e_node (engineStep demoCodecs ?a soloEngine)) div 2 <
      1 + int (length (filter (\<lambda>(_, ack). e_roundSeq e0 < pa_startSeq ack) (e_lastAck (engineStep demoCodecs ?a soloEngine))))" ..
  also have "\<dots> \<le> 1 + int (length (e_lastAck (engineStep demoCodecs ?a soloEngine)))" by simp
  finally show ?thesis .
qed

end
