(* ===== verification/Engine_Node.thy ===== *)
theory Engine_Node
  imports Engine_Honest
begin

text \<open>
  What an engine may do to its node: whatever its actions are, the node changes only by the
  transitions of \<^verbatim>\<open>node.go\<close>, in compositions the engine is built from.  The interface is a
  locale: a relation between nodes that every transition respects is respected by every
  action of the engine.  Two instances are here, the well-formedness of the node and the
  monotony of its term and boundaries; the cluster of engines gives a third.
\<close>

section \<open>What leaves the node alone\<close>

lemma becomeLeader_node: "e_node (engine_becomeLeader cd now t i e) = snd (BecomeLeader t i (e_node e))"
proof -
  have "e_node (startReplicators x) = e_node x" for x using calm_replicators(2) [of x] by (simp add: calm_def)
  then show ?thesis
    by (simp add: engine_becomeLeader_def resetLeadershipEvidence_def Let_def noop_fields split: prod.split bool.split)
qed

lemma stopped_node:
  "e_node (failAllReads err (failAllWaiters err' (stopReplicators x))) = e_node x"
  using calm_trans [OF calm_trans [OF calm_replicators(1) calm_fail_waiters] calm_other_sweeps(5)] by (simp add: calm_def)

lemma compact_node: "e_node (maybeCompact cd e) = e_node e"
  by (simp add: maybeCompact_def compact_def Let_def split: prod.split bool.split)

lemma proposal_node: "e_node (handleProposal cd now cmd ch e) = e_node e"
proof -
  have "e_node (notifyReplicators x) = e_node x" for x using calm_replicators(3) [of x] by (simp add: calm_def)
  then show ?thesis by (simp add: handleProposal_def send_reply_def Let_def split: option.split prod.split)
qed

lemma other_events_node:
  "e_node (handleAck now p q e) = e_node e" "e_node (handleRead now ch b e) = e_node e" "e_node (handleApplyWait w e) = e_node e"
  "e_node (stopReplicators ((failAllApplyWaiters err (failAllReads err' (failAllWaiters err'' e)))\<lparr>e_done := True\<rparr>)) = e_node e"
proof -
  have c: "e_node (fireReadWaiters x) = e_node x" "e_node (stopReplicators x) = e_node x" "e_node (notifyReplicators x) = e_node x"
      "e_node (failAllApplyWaiters err x) = e_node x" "e_node (failAllReads err' x) = e_node x"
      "e_node (failAllWaiters err'' x) = e_node x" for x
    using calm_other_sweeps(4-6) calm_replicators(1,3) calm_fail_waiters by (simp_all add: calm_def)
  show "e_node (handleAck now p q e) = e_node e" "e_node (handleRead now ch b e) = e_node e" "e_node (handleApplyWait w e) = e_node e"
    by (simp_all add: handleAck_def handleRead_def handleApplyWait_def c send_reply_def Let_def split: prod.split)
  show "e_node (stopReplicators ((failAllApplyWaiters err (failAllReads err' (failAllWaiters err'' e)))\<lparr>e_done := True\<rparr>)) = e_node e"
    by (simp add: c)
qed

section \<open>The interface\<close>

text \<open>An action may be taken when the vote it counts, if it counts one, may be counted.\<close>

definition countable_vote :: "(int \<Rightarrow> int \<Rightarrow> bool) \<Rightarrow> action \<Rightarrow> bool" where
  "countable_vote ok a \<longleftrightarrow>
     (case a of Turn _ _ _ (EvVote t p resp) \<Rightarrow> rvr_VoteGranted resp \<longrightarrow> ok p t | _ \<Rightarrow> True)"

text \<open>
  \<open>R rn rn'\<close> relates a node to what a transition makes of it, and \<open>voteOk p t\<close> says which
  granted votes of server \<open>p\<close> in term \<open>t\<close> may be counted.  A majority and the promotion it leads
  to are one composition, as is the candidacy of a server without peers.
\<close>

locale node_steps =
  fixes R :: "RaftNode \<Rightarrow> RaftNode \<Rightarrow> bool"
    and voteOk :: "int \<Rightarrow> int \<Rightarrow> bool"
  assumes refl: "R rn rn"
    and trans: "R rn rn1 \<Longrightarrow> R rn1 rn2 \<Longrightarrow> R rn rn2"
    and follow: "BecomeFollower t l rn = (b, rn') \<Longrightarrow> R rn rn'"
    and commit: "AdvanceCommitIndex li ta ct rn = (r, rn') \<Longrightarrow> R rn rn'"
    and applied: "LastApplied rn \<le> la \<Longrightarrow> la \<le> max (LastApplied rn) (CommitIndex rn) \<Longrightarrow> R rn (rn\<lparr>LastApplied := la\<rparr>)"
    and append: "HandleAppendEntries m now req rl rn = (resp, rl', rn') \<Longrightarrow> R rn rn'"
    and install: "HandleInstallSnapshot m restore persist now sreq rl (w :: MemoryStateMachine \<times> AtomicFile) rn =
      (sresp, rl', w', rn') \<Longrightarrow> R rn rn'"
    and request_vote: "HandleRequestVote now vreq lastLog rn = (vresp, rn') \<Longrightarrow> R rn rn'"
    and update: "R rn (UpdatePeerProgress p i rn)"
    and backtrack: "R rn (BacktrackNextIndex p i rn)"
    and campaign: "BecomeCandidate now rn = (rt, rn') \<Longrightarrow> R rn rn'"
    and lone_lead: "BecomeCandidate now rn = (Some t, rn1) \<Longrightarrow> node_Peers rn1 = [] \<Longrightarrow> BecomeLeader t i rn1 = (b, rn2) \<Longrightarrow> R rn rn2"
    and tally: "voteOk p t \<Longrightarrow> RecordVoteAndCheckMajority p t rn = (won, rn') \<Longrightarrow> R rn rn'"
    and win: "voteOk p t \<Longrightarrow> RecordVoteAndCheckMajority p t rn = (True, rn1) \<Longrightarrow> BecomeLeader t i rn1 = (b, rn2) \<Longrightarrow> R rn rn2"
begin

lemma replicate: "R rn (snd (ReplicateTo send rl p rn))" "R rn (snd (InstallSnapshotTo send' p req rn))"
  by (auto simp: ReplicateTo_def appendReply_def InstallSnapshotTo_def Let_def refl update backtrack split: option.split prod.split)

lemma run_election: "R (e_node e) (e_node (runElection cd rnd now e))"
proof -
  obtain r rn where c: "BecomeCandidate now (e_node e) = (r, rn)" by force
  have f: "e_node (fold (\<lambda>(p, addr). send_peer (g p addr)) ps x) = e_node x" for g ps x using fold_send_fields by blast
  show ?thesis
  proof (cases r)
    case None
    then show ?thesis using c campaign [OF c] by (simp add: runElection_def resetElectionTimeout_def)
  next
    case (Some t)
    obtain i lt where l: "LastLogState (e_log e) = (i, lt)" by force
    have "e_node (runElection cd rnd now e) = (if node_Peers rn = [] then snd (BecomeLeader t i rn) else rn)"
      using c Some l by (simp add: runElection_def resetElectionTimeout_def currentPeers_def becomeLeader_node f)
    then show ?thesis using campaign [OF c] lone_lead [OF c [unfolded Some]] by (simp add: prod_eq_iff)
  qed
qed

lemma pre_vote: "R (e_node e) (e_node (startPreVote cd rnd rnd' now e))"
proof -
  have f: "e_node (fold (\<lambda>(p, addr). send_peer (g p addr)) ps x) = e_node x" for g ps x using fold_send_fields by blast
  show ?thesis
    using run_election [of "resetElectionTimeout rnd e"]
    by (simp add: startPreVote_def Let_def f refl split: prod.split) (simp add: resetElectionTimeout_def refl)
qed

lemma step_down: "R (e_node e) (e_node (handleStepDown t e))"
  using follow [of t 0 "e_node e"] by (auto simp: handleStepDown_def stopped_node refl split: prod.splits)

lemma check_quorum: "R (e_node e) (e_node (checkQuorum now e))"
  using follow [of "node_CurrentTerm (e_node e)" 0 "e_node e"]
  by (auto simp: checkQuorum_def stopped_node noteQuorumConfirmed_def Let_def refl split: prod.splits bool.splits)

lemma apply_committed: "R (e_node e) (e_node (applyCommitted cd e))"
proof -
  obtain cs m where r: "appliedRun cd (CommitIndex (e_node e)) e (applyCommitted cd e) cs m"
    using applyLoop_run by (fastforce simp: applyCommitted_def CommitAndApplyBoundary_def)
  then have "\<exists>la. e_node (applyCommitted cd e) = (e_node e)\<lparr>LastApplied := la\<rparr> \<and> LastApplied (e_node e) \<le> la \<and>
      la \<le> max (LastApplied (e_node e)) (CommitIndex (e_node e))" by (auto simp: appliedRun_def Let_def)
  then show ?thesis using applied by auto
qed

lemma vote_result:
  assumes "rvr_VoteGranted resp \<longrightarrow> voteOk p t"
  shows "R (e_node e) (e_node (handleVoteResult cd now t p resp e))"
proof -
  obtain won rn where r: "RecordVoteAndCheckMajority p t (e_node e) = (won, rn)" by force
  have f: "R (e_node e) (e_node (case BecomeFollower t' 0 (e_node e) of (_, rn) \<Rightarrow> e\<lparr>e_node := rn\<rparr>))" for t'
    using follow [of t' 0 "e_node e"] by (auto split: prod.split)
  show ?thesis
    using tally [OF _ r] win [of p t "e_node e" rn] assms f r
    by (cases won) (auto simp: handleVoteResult_def becomeLeader_node Let_def prod_eq_iff refl split: prod.split)
qed

lemma pre_vote_result: "R (e_node e) (e_node (handlePreVoteResult cd rnd now t p resp e))"
proof -
  have "R (e_node e) (e_node (case BecomeFollower t' 0 (e_node e) of (_, rn) \<Rightarrow> e\<lparr>e_node := rn, e_preVoteTerm := 0\<rparr>))" for t'
    using follow [of t' 0 "e_node e"] by (auto split: prod.split)
  then show ?thesis
    using run_election [of "e\<lparr>e_preVotes := mput p True (e_preVotes e), e_preVoteTerm := 0\<rparr>"]
    by (simp add: handlePreVoteResult_def Let_def refl split: prod.split)
qed

lemma tick: "R (e_node e) (e_node (onTick cd rnd rnd' now e))"
proof -
  let ?e1 = "tickFront cd rnd rnd' now (reconcileLeadership e)"
  let ?e2 = "applyCommitted cd ?e1"
  let ?e3 = "fireApplyWaiters (fireReadWaiters (maybeCompact cd ?e2))"
  have n: "e_node (reconcileLeadership e) = e_node e" "e_node ?e3 = e_node ?e2"
    using reconcile_calm [of e] calm_other_sweeps(3,4) by (simp_all add: calm_def compact_node)
  have "R rn (snd (AdvanceCommitIndex li ta ct rn))" for li ta ct rn by (rule commit [OF prod.collapse [symmetric]])
  then have "R (e_node e) (e_node ?e1)"
    using pre_vote [of "reconcileLeadership e" cd rnd rnd' now]
    by (simp add: tickFront_def n fire_committed Let_def refl split: prod.split)
  from trans [OF this apply_committed] have q: "R (e_node e) (e_node ?e2)" .
  have "R (e_node e) (e_node (if IsLeader (e_node ?e3) then checkQuorum now ?e3 else ?e3))"
    using trans [OF q check_quorum [of ?e3, unfolded n]] q by (simp add: n)
  moreover have "e_node (sweepExpiredApplyWaiters now (sweepExpiredReads now (sweepExpiredWaiters now x))) = e_node x" for x
    using calm_trans [OF calm_trans [OF calm_sweep_waiters calm_other_sweeps(1)] calm_other_sweeps(2)] by (simp add: calm_def)
  ultimately show ?thesis using q unfolding onTick_eq Let_def by simp
qed

lemma round: "R (e_node e) (e_node (snd (replicateOnce cd sendA sendS p t e)))"
proof -
  let ?e = "e\<lparr>e_roundSeq := e_roundSeq e + 1\<rparr>"
  obtain q e1 where b: "buildSnapshotRequest cd ?e = (q, e1)" by force
  have n: "e_node e1 = e_node e" using build_calm [of ?e cd] b by (simp add: calm_def)
  have "e_node (snd (replicateOnce cd sendA sendS p t e)) \<in>
      {e_node e, snd (ReplicateTo sendA (e_log e) p (e_node e)), snd (ReplicateTo sendA (e_log e1) p (e_node e)),
       snd (InstallSnapshotTo sendS p (the q) (e_node e))}"
    using b n by (cases q) (simp_all add: replicateOnce_def nextRoundSeq_def Let_def split_beta)
  then show ?thesis using replicate refl by auto
qed

lemma calls:
  "R (e_node e) (e_node (snd (engine_HandleAppendEntries cd now req e)))"
  "R (e_node e) (e_node (snd (engine_HandleInstallSnapshot cd now sreq e)))"
  "R (e_node e) (e_node (snd (engine_HandleRequestVote now vreq e)))"
proof -
  show "R (e_node e) (e_node (snd (engine_HandleAppendEntries cd now req e)))"
    using append [of "encEntry cd" now req "e_log e" "e_node e"]
    by (simp add: engine_HandleAppendEntries_def split: prod.split)
  show "R (e_node e) (e_node (snd (engine_HandleRequestVote now vreq e)))"
    using request_vote [of now vreq "LastLogState (e_log e)" "e_node e"]
    by (simp add: engine_HandleRequestVote_def split: prod.split)
  show "R (e_node e) (e_node (snd (engine_HandleInstallSnapshot cd now sreq e)))"
    unfolding engine_HandleInstallSnapshot_def Let_def
    by (auto split: prod.split dest: install)
qed

lemma step:
  assumes "countable_vote voteOk a"
  shows "R (e_node e) (e_node (engineStep cd a e))"
proof (cases a)
  case (Turn rnd rnd' now ev)
  have v: "R (e_node e) (e_node (handleVoteResult cd now t p resp e))" if "ev = EvVote t p resp" for t p resp
    using assms that Turn by (intro vote_result) (auto simp: countable_vote_def)
  show ?thesis
    using v step_down pre_vote_result tick
    by (cases ev) (auto simp: engineStep_def runTurn_def Turn proposal_node other_events_node refl)
qed (use calls round in \<open>auto simp: engineStep_def refl\<close>)

lemma run:
  assumes "\<forall>a \<in> set as. countable_vote voteOk a"
  shows "R (e_node e) (e_node (fold (engineStep cd) as e))"
  using assms
proof (induction as arbitrary: e)
  case (Cons a as)
  then show ?case using trans [OF step [of a e cd] Cons.IH [of "engineStep cd a e"]] by simp
qed (simp add: refl)

end

section \<open>The shape of a node\<close>

text \<open>
  What the fields of a running node always satisfy, and what no transition takes back: the
  term, the commit index and the applied index only grow, and the identity and the
  membership stay.
\<close>

abbreviation applied_ok :: "RaftNode \<Rightarrow> bool" where
  "applied_ok rn \<equiv> 0 \<le> LastApplied rn \<and> LastApplied rn \<le> CommitIndex rn"

definition node_ok :: "RaftNode \<Rightarrow> bool" where
  "node_ok rn \<longleftrightarrow> mwf (NextIndex rn) \<and> mwf (MatchIndex rn) \<and>
     (\<forall>p n. mget (MatchIndex rn) p = Some n \<longrightarrow> 0 \<le> n) \<and>
     0 < nodeID rn \<and> applied_ok rn \<and>
     (Role rn \<noteq> Follower \<longrightarrow> VotedFor (persistent rn) = nodeID rn) \<and>
     (Role rn = Candidate \<longrightarrow> (\<exists>vs. votesFrom rn = Some vs \<and> mget vs (nodeID rn) = Some True)) \<and>
     (Role rn = Leader \<longrightarrow> LeaderID rn = nodeID rn)"

definition onward :: "RaftNode \<Rightarrow> RaftNode \<Rightarrow> bool" where
  "onward rn rn' \<longleftrightarrow> CurrentTerm (persistent rn) \<le> CurrentTerm (persistent rn') \<and> CommitIndex rn \<le> CommitIndex rn' \<and>
     LastApplied rn \<le> LastApplied rn' \<and> nodeID rn' = nodeID rn \<and> config rn' = config rn"

definition orderly :: "RaftNode \<Rightarrow> RaftNode \<Rightarrow> bool" where
  "orderly rn rn' \<longleftrightarrow> onward rn rn' \<and> (applied_ok rn \<longrightarrow> applied_ok rn') \<and> (node_ok rn \<longrightarrow> node_ok rn')"

lemma orderly_refl [simp]: "orderly rn rn"
  by (simp add: orderly_def onward_def)

lemma orderly_trans: "orderly rn rn1 \<Longrightarrow> orderly rn1 rn2 \<Longrightarrow> orderly rn rn2"
  by (auto simp: orderly_def onward_def)

lemma orderly_updates [simp]:
  "orderly rn (rn\<lparr>lastContact := now\<rparr>)" "Role rn \<noteq> Leader \<Longrightarrow> orderly rn (rn\<lparr>LeaderID := l\<rparr>)"
  "orderly rn (setFollowerCommitIndexLocked lc li rn)" "orderly rn (seedFromSnapshotLocked idx rn)"
  by (auto simp: orderly_def onward_def node_ok_def setFollowerCommitIndexLocked_def seedFromSnapshotLocked_def Let_def)

lemma orderly_follow: "becomeFollowerLocked t l rn = (b, rn') \<Longrightarrow> orderly rn rn'"
  by (auto simp: becomeFollowerLocked_def Let_def orderly_def onward_def node_ok_def dest!: commit_fields
      split: prod.splits bool.splits if_splits)

lemma orderly_accept: "acceptLeader t l rn = (b, rn') \<Longrightarrow> orderly rn rn'"
  using orderly_follow by (auto simp: acceptLeader_def split: if_splits)

lemma orderly_append:
  assumes "HandleAppendEntries m now req rl rn = (resp, rl', rn')"
  shows "orderly rn rn'"
proof -
  obtain b rn1 where a: "acceptLeader (ae_Term req) (ae_LeaderID req) rn = (b, rn1)" by force
  have "orderly rn (rn1\<lparr>lastContact := now\<rparr>)"
    by (rule orderly_trans [OF orderly_accept [OF a] orderly_updates(1)])
  moreover have "\<exists>lc li. rn' \<in> {rn, rn1, rn1\<lparr>lastContact := now\<rparr>, setFollowerCommitIndexLocked lc li (rn1\<lparr>lastContact := now\<rparr>)}"
    using assms a by (cases rule: append_entries_branches) auto
  ultimately show ?thesis using orderly_accept [OF a] orderly_trans [OF _ orderly_updates(3)] by auto
qed

lemma orderly_install:
  assumes "HandleInstallSnapshot m restore persist now req rl w rn = (resp, rl', w', rn')"
  shows "orderly rn rn'"
proof -
  obtain b rn1 where a: "acceptLeader (is_Term req) (is_LeaderID req) rn = (b, rn1)" by force
  have "rn' \<in> {rn, rn1, rn1\<lparr>lastContact := now\<rparr>, seedFromSnapshotLocked (is_LastIncludedIndex req) (rn1\<lparr>lastContact := now\<rparr>)}"
    using assms a by (auto simp: HandleInstallSnapshot_def Let_def split: prod.splits bool.splits if_splits)
  then show ?thesis using orderly_accept [OF a] orderly_trans orderly_updates by (metis insertE orderly_refl singletonD)
qed

lemma orderly_vote:
  assumes "HandleRequestVote now req lastLog rn = (resp, rn')"
  shows "orderly rn rn'"
  using assms
proof (cases rule: request_vote_branches)
  case Unsaved
  then show ?thesis using commit_fields_sel [OF Unsaved(1)] by (simp add: orderly_def onward_def node_ok_def)
next
  case (Saved rn1 g)
  note f = commit_fields_sel [OF Saved(1)]
  have "CurrentTerm (persistent rn) \<le> CurrentTerm (persistent rn1)" using f(1) Saved(5) by (simp add: voteState_def Let_def)
  moreover have "VotedFor (persistent rn1) = nodeID rn"
    if "\<not> CurrentTerm (persistent rn) < rv_Term req" "VotedFor (persistent rn) = nodeID rn" "0 < nodeID rn"
    using f(1) that by (auto simp: voteState_def Let_def)
  ultimately show ?thesis unfolding Saved(2) orderly_def onward_def node_ok_def using f by auto
qed simp

lemma orderly_campaign: "BecomeCandidate now rn = (r, rn') \<Longrightarrow> orderly rn rn'"
  by (auto simp: BecomeCandidate_def Let_def orderly_def onward_def node_ok_def mput_def mget_def dest!: commit_fields
      split: prod.splits bool.splits)

lemma orderly_tally: "RecordVoteAndCheckMajority p t rn = (won, rn') \<Longrightarrow> orderly rn rn'"
  by (auto simp: RecordVoteAndCheckMajority_def Let_def orderly_def onward_def node_ok_def gm.lookup_put split: if_splits)

lemma orderly_lead: "BecomeLeader t i rn = (b, rn') \<Longrightarrow> orderly rn rn'"
  by (auto simp: BecomeLeader_def Let_def orderly_def onward_def node_ok_def fold_mput_const mget_def [of "[]"] mwf_def [of "[]"]
      split: if_splits)

lemma mget0_Some: "mget m k = Some v \<Longrightarrow> mget0 z m k = v"
  by (simp add: mget0_def mget_def)

lemma orderly_progress: "orderly rn (UpdatePeerProgress p i rn)" "orderly rn (BacktrackNextIndex p i rn)"
proof -
  show "orderly rn (UpdatePeerProgress p i rn)"
    by (auto simp: UpdatePeerProgress_def Let_def orderly_def onward_def node_ok_def gm.lookup_put gm.wf_put mget0_Some split: if_splits)
       (fastforce)+
  show "orderly rn (BacktrackNextIndex p i rn)"
    by (auto simp: BacktrackNextIndex_def Let_def orderly_def onward_def node_ok_def gm.wf_put)
qed

lemma orderly_commit: "AdvanceCommitIndex li ta ct rn = (r, rn') \<Longrightarrow> orderly rn rn'"
  by (auto simp: AdvanceCommitIndex_def Let_def orderly_def onward_def node_ok_def split: if_splits)

interpretation ord: node_steps orderly "\<lambda>_ _. True"
proof unfold_locales
  fix rn :: RaftNode and la assume "LastApplied rn \<le> la" "la \<le> max (LastApplied rn) (CommitIndex rn)"
  then show "orderly rn (rn\<lparr>LastApplied := la\<rparr>)" by (auto simp: orderly_def onward_def node_ok_def)
next
  fix t l rn b rn' assume "BecomeFollower t l rn = (b, rn')"
  then show "orderly rn rn'" by (simp add: BecomeFollower_def orderly_follow)
qed (blast intro: orderly_refl orderly_trans orderly_commit orderly_append orderly_install orderly_vote orderly_progress
  orderly_campaign orderly_tally orderly_lead)+

section \<open>Properties\<close>

text \<open>C26. A node a start made stays well formed and never goes back: after any sequence of
  actions of its engine, its progress maps are maps with no negative match index, it has
  applied no more than it committed, a candidate or leader has its own vote, a candidate
  counts itself, a leader knows itself as leader; its identity and membership are those it
  started with, and its term, commit index and applied index are at least what they were at
  any earlier point.\<close>

theorem node_well_formed:
  assumes "NewRaftNode now i cfg st Follower = Inr rn" and "0 < i"
    and "e = NewWithTransport rnd rn rl sm f" and "e1 = fold (engineStep cd) as e" and "e2 = fold (engineStep cd) bs e1"
  shows "node_ok (e_node e1) \<and> nodeID (e_node e1) = i \<and> config (e_node e1) = Clone cfg \<and> onward (e_node e1) (e_node e2)"
proof -
  have n: "node_ok (e_node e)" "nodeID (e_node e) = i" "config (e_node e) = Clone cfg"
    using assms(1,2) unfolding assms(3)
    by (auto simp: NewRaftNode_def loadPersistentState_def NewWithTransport_def resetElectionTimeout_def SetMinElectionTimeout_def
        node_ok_def fold_mput_const mget_def [of "[]"] mwf_def [of "[]"] Let_def split: option.splits sum.splits prod.splits if_splits)
  have "countable_vote (\<lambda>_ _. True) a" for a by (simp add: countable_vote_def split: action.split event.split)
  then have "orderly (e_node e) (e_node e1)" "orderly (e_node e1) (e_node e2)"
    unfolding assms(4,5) by (auto intro: ord.run)
  with n show ?thesis by (auto simp: orderly_def onward_def)
qed

theorem node_well_formed_witness:
  "\<exists>rn. NewRaftNode 0 1 (NewConfiguration [(1, ''a'')]) \<lparr>holds = None, mayHold = [], saves = [], loadErr = None\<rparr> Follower = Inr rn \<and>
    node_ok (e_node (engineStep demoCodecs (Turn 0 0 1000000000 EvTick)
      (NewWithTransport 0 rn (demoWhole []) NewMemoryStateMachine \<lparr>visible = None, survivors = [None], calls = []\<rparr>)))"
proof -
  obtain rn where r: "NewRaftNode 0 1 (NewConfiguration [(1, ''a'')]) \<lparr>holds = None, mayHold = [], saves = [], loadErr = None\<rparr> Follower = Inr rn"
    by (simp add: NewRaftNode_def solo_config Validate_def loadPersistentState_def Load_def Save_def Let_def mkeys_def)
  let ?e = "NewWithTransport 0 rn (demoWhole []) NewMemoryStateMachine \<lparr>visible = None, survivors = [None], calls = []\<rparr>"
  from node_well_formed [OF r _ refl, of "fold (engineStep demoCodecs) [Turn 0 0 1000000000 EvTick] ?e" demoCodecs
      "[Turn 0 0 1000000000 EvTick]" 0 _ _ _ "fold (engineStep demoCodecs) [] (fold (engineStep demoCodecs) [Turn 0 0 1000000000 EvTick] ?e)" "[]"] r
  show ?thesis by auto
qed

end
