(* ===== verification/Engine_Timing.thy ===== *)
theory Engine_Timing
  imports Engine_Node
begin

text \<open>
  The timing of elections: how long an engine waits without contact before it polls its peers.
  Every draw of the random generator lies below the span of the two constants, so the
  timeout always lies between them, and a tick asks for pre-votes only after the shorter
  and surely after the longer.
\<close>

section \<open>What leaves the timer and the outbox alone\<close>

definition clock :: "Engine \<Rightarrow> nanos \<times> int \<times> outbound list" where
  "clock e = (e_electionTimeout e, e_preVoteTerm e, e_outbox e)"

lemma clock_update [simp]:
  "clock (e\<lparr>e_node := a\<rparr>) = clock e" "clock (e\<lparr>e_log := b\<rparr>) = clock e" "clock (e\<lparr>e_machine := c\<rparr>) = clock e"
  "clock (e\<lparr>e_snapshots := d\<rparr>) = clock e" "clock (e\<lparr>e_waiters := w\<rparr>) = clock e" "clock (e\<lparr>e_reads := r\<rparr>) = clock e"
  "clock (e\<lparr>e_applyWaiters := aw\<rparr>) = clock e" "clock (e\<lparr>e_replicators := rs\<rparr>) = clock e" "clock (e\<lparr>e_replicatorsTerm := t\<rparr>) = clock e"
  "clock (e\<lparr>e_halted := h\<rparr>) = clock e" "clock (e\<lparr>e_done := h\<rparr>) = clock e" "clock (e\<lparr>e_lastAck := la\<rparr>) = clock e"
  "clock (e\<lparr>e_lastQuorumNanos := q\<rparr>) = clock e" "clock (e\<lparr>e_noopIndex := n\<rparr>) = clock e" "clock (e\<lparr>e_roundSeq := sq\<rparr>) = clock e"
  "clock (e\<lparr>e_snapCache := sc\<rparr>) = clock e" "clock (e\<lparr>e_preVotes := pv\<rparr>) = clock e" "clock (send_reply x e) = clock e"
  by (simp_all add: clock_def send_reply_def)

interpretation clk: uncrewed clock
  by unfold_locales (simp_all add: clock_def)

interpretation clka: unapplied clock
  by unfold_locales simp_all

lemmas clock_waiters [simp] = clk.sweeps

lemma clock_parts [simp]:
  "clock (stopReplicators e) = clock e" "clock (startReplicators e) = clock e" "clock (reconcileLeadership e) = clock e"
  "clock (applyCommitted cd e) = clock e" "clock (maybeCompact cd e) = clock e" "clock (checkQuorum now e) = clock e"
  "clock (engine_becomeLeader cd now t i e) = clock e" "clock (handleApplyWait w e) = clock e" "clock (handleStepDown t e) = clock e"
  "clock (handleVoteResult cd now t p resp e) = clock e" "clock (handleAck now p q e) = clock e"
  by (simp_all add: clk.crews clk.apply_wait clka.applies checkQuorum_def noteQuorumConfirmed_def engine_becomeLeader_def resetLeadershipEvidence_def handleStepDown_def
      handleVoteResult_def handleAck_def Let_def split: prod.split option.split bool.split)

text \<open>What leaves the timer alone.\<close>

lemma timer_clock: "clock e' = clock e \<Longrightarrow> e_electionTimeout e' = e_electionTimeout e"
  by (simp add: clock_def)

lemmas timer_frames [simp] = clock_waiters [THEN timer_clock] clock_parts [THEN timer_clock] clock_update(18) [THEN timer_clock]

lemma timer_sends [simp]:
  "e_electionTimeout (fold (\<lambda>(p, addr). send_peer (g p addr)) ps e) = e_electionTimeout e"
  "e_electionTimeout (notifyReplicators e) = e_electionTimeout e"
  by (auto simp: notifyReplicators_def send_peer_def intro!: fold_frame [where f = e_electionTimeout])

lemma timer_events [simp]:
  "e_electionTimeout (handleProposal cd now cmd ch e) = e_electionTimeout e"
  "e_electionTimeout (handleRead now ch b e) = e_electionTimeout e"
  "e_electionTimeout (snd (replicateOnce cd sendA sendS p t e)) = e_electionTimeout e"
proof -
  show "e_electionTimeout (handleProposal cd now cmd ch e) = e_electionTimeout e"
    "e_electionTimeout (handleRead now ch b e) = e_electionTimeout e"
    by (simp_all add: handleProposal_def handleRead_def Let_def split: prod.split option.split)
  show "e_electionTimeout (snd (replicateOnce cd sendA sendS p t e)) = e_electionTimeout e"
    by (auto simp: replicateOnce_def nextRoundSeq_def buildSnapshotRequest_def Let_def split: prod.splits option.splits sum.splits if_splits)
qed

section \<open>The draws\<close>

definition drawOk :: "int \<Rightarrow> bool" where
  "drawOk rnd \<longleftrightarrow> 0 \<le> rnd \<and> rnd < electionTimeoutMax - electionTimeoutMin"

text \<open>The contract of \<^verbatim>\<open>rand.Int63n\<close> for the draws of a turn.\<close>

definition drawsOk :: "action \<Rightarrow> bool" where
  "drawsOk a \<longleftrightarrow> (case a of Turn rnd rnd' _ _ \<Rightarrow> drawOk rnd \<and> drawOk rnd' | _ \<Rightarrow> True)"

definition timerOk :: "Engine \<Rightarrow> bool" where
  "timerOk e \<longleftrightarrow> electionTimeoutMin \<le> e_electionTimeout e \<and> e_electionTimeout e < electionTimeoutMax"

lemma timerOk_clock: "clock e' = clock e \<Longrightarrow> timerOk e' = timerOk e"
  using timer_clock [of e' e] by (simp add: timerOk_def)

lemmas timerOk_frames [simp] = clock_waiters [THEN timerOk_clock] clock_parts [THEN timerOk_clock]

lemma timerOk_reset: "drawOk rnd \<Longrightarrow> timerOk (resetElectionTimeout rnd e)"
  by (simp add: timerOk_def drawOk_def resetElectionTimeout_def)

lemma timerOk_election: "drawOk rnd \<Longrightarrow> timerOk (runElection cd rnd now e)"
proof -
  assume d: "drawOk rnd"
  have "e_electionTimeout (runElection cd rnd now e) = electionTimeoutMin + rnd"
    by (auto simp: runElection_def resetElectionTimeout_def Let_def split: prod.split option.split)
  then show ?thesis using d by (simp add: timerOk_def drawOk_def)
qed

lemma timerOk_poll: "drawOk rnd \<Longrightarrow> drawOk rnd' \<Longrightarrow> timerOk (startPreVote cd rnd rnd' now e)"
  using timerOk_election [of rnd'] timerOk_reset [of rnd e]
  by (simp add: startPreVote_def timerOk_def Let_def split: prod.split)

lemma timerOk_preVote: "drawOk rnd \<Longrightarrow> timerOk e \<Longrightarrow> timerOk (handlePreVoteResult cd rnd now t p resp e)"
  using timerOk_election [of rnd] by (auto simp: handlePreVoteResult_def timerOk_def Let_def split: prod.split)

text \<open>The tick, with its election part apart from the rest, which leaves the clock alone.\<close>

definition tickElection :: "Codecs \<Rightarrow> int \<Rightarrow> int \<Rightarrow> nanos \<Rightarrow> Engine \<Rightarrow> Engine" where
  "tickElection cd rnd rnd' now e =
     (if Role (e_node e) = Leader then e
      else if e_electionTimeout e \<le> TimeSinceContact now (e_node e) then startPreVote cd rnd rnd' now e
      else e)"

lemma tick_clock: "clock (onTick cd rnd rnd' now e) = clock (tickElection cd rnd rnd' now (reconcileLeadership e))"
  by (simp add: onTick_def tickElection_def node_State_def Let_def split: prod.split)

lemma timerOk_tick: "drawOk rnd \<Longrightarrow> drawOk rnd' \<Longrightarrow> timerOk e \<Longrightarrow> timerOk (onTick cd rnd rnd' now e)"
  using timerOk_clock [OF tick_clock [of cd rnd rnd' now e]] timerOk_poll
  by (simp add: tickElection_def)

lemma timerOk_step:
  assumes "drawsOk a" and "timerOk e"
  shows "timerOk (engineStep cd a e)"
proof (cases a)
  case (Turn rnd rnd' now ev)
  have d: "drawOk rnd" "drawOk rnd'" using assms(1) Turn by (simp_all add: drawsOk_def)
  have s: "timerOk (handleProposal cd now cmd ch e)" "timerOk (handleRead now ch b e)" for cmd ch b
    using assms(2) by (simp_all add: timerOk_def)
  show ?thesis using assms(2) s timerOk_tick [OF d] timerOk_preVote [OF d(1)]
    by (cases ev) (auto simp: engineStep_def runTurn_def Turn, simp add: timerOk_def)
next
  case (Round sendA sendS p t)
  then show ?thesis using assms(2) timer_events(3) [of cd sendA sendS p t e] by (simp add: engineStep_def timerOk_def)
qed (use assms(2) in \<open>auto simp: engineStep_def timerOk_def engine_HandleAppendEntries_def engine_HandleRequestVote_def
    engine_HandleInstallSnapshot_def Let_def split: prod.split\<close>)

lemma timerOk_run:
  assumes "\<forall>a \<in> set as. drawsOk a" and "timerOk e"
  shows "timerOk (fold (engineStep cd) as e)"
  using assms by (induction as arbitrary: e) (auto simp: timerOk_step)

section \<open>The stickiness window\<close>

text \<open>The window in which a node refuses the polls of others is set once and stays.\<close>

definition sameWindow :: "RaftNode \<Rightarrow> RaftNode \<Rightarrow> bool" where
  "sameWindow rn rn' \<longleftrightarrow> minElectionTimeout rn' = minElectionTimeout rn"

lemma window_follow: "becomeFollowerLocked t l rn = (b, rn') \<Longrightarrow> sameWindow rn rn'"
  by (auto simp: becomeFollowerLocked_def sameWindow_def Let_def dest!: commit_fields split: prod.splits bool.splits if_splits)

lemma window_accept: "acceptLeader t l rn = (b, rn') \<Longrightarrow> sameWindow rn rn'"
  using window_follow by (auto simp: acceptLeader_def sameWindow_def split: if_splits)

lemma window_calls:
  "HandleAppendEntries m now req rl rn = (resp, rl', rn') \<Longrightarrow> sameWindow rn rn'"
  "HandleInstallSnapshot m restore persist now sreq rl w rn = (sresp, rl'', w', rn'') \<Longrightarrow> sameWindow rn rn''"
  "HandleRequestVote now vreq lastLog rn = (vresp, rn3) \<Longrightarrow> sameWindow rn rn3"
  by (auto simp: HandleAppendEntries_def HandleInstallSnapshot_def HandleRequestVote_def sameWindow_def setFollowerCommitIndexLocked_def
      seedFromSnapshotLocked_def Let_def dest!: commit_fields window_accept split: prod.splits bool.splits if_splits)

lemma window_moves:
  "BecomeCandidate now rn = (r, rn1) \<Longrightarrow> sameWindow rn rn1" "BecomeLeader t i rn = (b, rn2) \<Longrightarrow> sameWindow rn rn2"
  "RecordVoteAndCheckMajority p t rn = (won, rn3) \<Longrightarrow> sameWindow rn rn3" "AdvanceCommitIndex li ta ct rn = (x, rn4) \<Longrightarrow> sameWindow rn rn4"
  "sameWindow rn (UpdatePeerProgress p i rn)" "sameWindow rn (BacktrackNextIndex p i rn)"
  by (auto simp: BecomeCandidate_def BecomeLeader_def RecordVoteAndCheckMajority_def AdvanceCommitIndex_def UpdatePeerProgress_def
      BacktrackNextIndex_def sameWindow_def Let_def dest!: commit_fields split: prod.splits bool.splits if_splits)

interpretation win: node_steps sameWindow "\<lambda>_ _. True"
proof unfold_locales
  fix rn rn1 rn2 assume "sameWindow rn rn1" "sameWindow rn1 rn2"
  then show "sameWindow rn rn2" by (simp add: sameWindow_def)
next
  fix now rn t rn1 i b rn2 assume "BecomeCandidate now rn = (Some t, rn1)" "BecomeLeader t i rn1 = (b, rn2)"
  then show "sameWindow rn rn2" using window_moves(1,2) by (metis sameWindow_def)
next
  fix p t rn rn1 i b rn2 assume "RecordVoteAndCheckMajority p t rn = (True, rn1)" "BecomeLeader t i rn1 = (b, rn2)"
  then show "sameWindow rn rn2" using window_moves(2,3) by (metis sameWindow_def)
next
  fix t l rn b rn' assume "BecomeFollower t l rn = (b, rn')"
  then show "sameWindow rn rn'" by (simp add: BecomeFollower_def window_follow)
qed (use window_moves window_calls in \<open>auto simp: sameWindow_def\<close>)

section \<open>Polling\<close>

lemma fold_sends: "e_outbox (fold (\<lambda>(p, addr). send_peer (g p addr)) ps e) = e_outbox e @ map (\<lambda>(p, addr). g p addr) ps"
  by (induction ps arbitrary: e) (auto simp: send_peer_def)

lemma poll_sends:
  assumes "currentPeers e \<noteq> []"
  shows "e_outbox (startPreVote cd rnd rnd' now e) = e_outbox e @ map (\<lambda>(p, addr). SendPreVote p addr
    \<lparr>pv_Term = node_CurrentTerm (e_node e) + 1, pv_CandidateID = NodeID (e_node e),
     pv_LastLogIndex = fst (LastLogState (e_log e)), pv_LastLogTerm = snd (LastLogState (e_log e))\<rparr>) (currentPeers e)"
  using assms by (simp add: startPreVote_def resetElectionTimeout_def currentPeers_def fold_sends Let_def split: prod.split)

lemma reconcile_same: "e_node (reconcileLeadership e) = e_node e" "e_log (reconcileLeadership e) = e_log e"
  using reconcile_calm [of e] by (simp_all add: calm_def)

section \<open>Properties\<close>

text \<open>C25. Election timing.  However an engine runs, its election timeout lies from 300 to below 600
  milliseconds and is never shorter than the window in which its node refuses the polls of
  others.  A server with peers that does not lead asks nobody for a pre-vote at a tick before
  300 milliseconds without contact, and asks every peer at the first tick from 600 on.\<close>

theorem election_timing:
  assumes "drawOk rnd" and "\<forall>a \<in> set as. drawsOk a" and "e = fold (engineStep cd) as (NewWithTransport rnd rn rl sm f)"
  shows "electionTimeoutMin \<le> e_electionTimeout e \<and> e_electionTimeout e < electionTimeoutMax \<and>
    minElectionTimeout (e_node e) \<le> e_electionTimeout e \<and>
    (\<not> e_halted e \<and> \<not> e_done e \<and> \<not> IsLeader (e_node e) \<and> currentPeers e \<noteq> [] \<longrightarrow>
      (TimeSinceContact now (e_node e) < electionTimeoutMin \<longrightarrow> e_outbox (engineStep cd (Turn r r' now EvTick) e) = e_outbox e) \<and>
      (electionTimeoutMax \<le> TimeSinceContact now (e_node e) \<longrightarrow>
        e_outbox (engineStep cd (Turn r r' now EvTick) e) = e_outbox e @ map (\<lambda>(p, addr). SendPreVote p addr
          \<lparr>pv_Term = node_CurrentTerm (e_node e) + 1, pv_CandidateID = NodeID (e_node e),
           pv_LastLogIndex = fst (LastLogState (e_log e)), pv_LastLogTerm = snd (LastLogState (e_log e))\<rparr>) (currentPeers e)))"
proof -
  let ?e0 = "NewWithTransport rnd rn rl sm f"
  have t: "timerOk e" unfolding assms(3)
    using assms(1) by (intro timerOk_run [OF assms(2)]) (simp add: NewWithTransport_def timerOk_reset)
  have "sameWindow (e_node ?e0) (e_node e)" unfolding assms(3)
    by (rule win.run) (simp add: countable_vote_def split: action.split event.split)
  then have w: "minElectionTimeout (e_node e) = electionTimeoutMin"
    by (simp add: sameWindow_def NewWithTransport_def resetElectionTimeout_def SetMinElectionTimeout_def electionTimeoutMin_def)
  have o: "e_outbox (engineStep cd (Turn r r' now EvTick) e) =
      (if e_electionTimeout e \<le> TimeSinceContact now (e_node e) then e_outbox (startPreVote cd r r' now (reconcileLeadership e)) else e_outbox e)"
    if "\<not> e_halted e" "\<not> e_done e" "\<not> IsLeader (e_node e)"
    using tick_clock [of cd r r' now e] clock_parts(3) [of e] that
    by (auto simp: engineStep_def runTurn_def tickElection_def reconcile_same IsLeader_def clock_def)
  have c: "currentPeers (reconcileLeadership e) = currentPeers e" by (simp add: currentPeers_def reconcile_same)
  have b: "e_outbox (reconcileLeadership e) = e_outbox e" using clock_parts(3) [of e] by (simp add: clock_def)
  show ?thesis using t w o poll_sends [of "reconcileLeadership e" cd r r' now] by (auto simp: timerOk_def c b reconcile_same)
qed

theorem election_timing_witness:
  "\<exists>e :: Engine. currentPeers e \<noteq> [] \<and> \<not> IsLeader (e_node e) \<and> 300000000 \<le> e_electionTimeout e \<and> e_electionTimeout e < 600000000 \<and>
     e_outbox (engineStep demoCodecs (Turn 7 0 200000000 EvTick) e) = e_outbox e \<and>
     e_outbox (engineStep demoCodecs (Turn 7 0 900000000 EvTick) e) \<noteq> e_outbox e"
proof -
  let ?e = "fold (engineStep demoCodecs) [] (NewWithTransport 5 (demoNode 1) (demoWhole []) NewMemoryStateMachine \<lparr>visible = None, survivors = [None], calls = []\<rparr>)"
  have d: "drawOk 5" by (simp add: drawOk_def electionTimeoutMin_def electionTimeoutMax_def)
  have "currentPeers ?e \<noteq> []" by code_simp
  moreover have "\<not> IsLeader (e_node ?e)" "\<not> e_halted ?e" "\<not> e_done ?e" "lastContact (e_node ?e) = 0"
    by (simp_all add: NewWithTransport_def resetElectionTimeout_def SetMinElectionTimeout_def demoNode_def IsLeader_def)
  ultimately show ?thesis
    using election_timing [OF d _ refl, of "[]" demoCodecs "demoNode 1" "demoWhole []" NewMemoryStateMachine "\<lparr>visible = None, survivors = [None], calls = []\<rparr>" 200000000 7 0]
      election_timing [OF d _ refl, of "[]" demoCodecs "demoNode 1" "demoWhole []" NewMemoryStateMachine "\<lparr>visible = None, survivors = [None], calls = []\<rparr>" 900000000 7 0]
    by (intro exI [of _ ?e]) (auto simp: TimeSinceContact_def electionTimeoutMin_def electionTimeoutMax_def)
qed

end
