(* ===== verification/Http_Server.thy ===== *)
theory Http_Server
  imports Engine_Honest
begin

text \<open>
  The HTTP server, \<^verbatim>\<open>internal/transport/http.go\<close>, and the client half of the peer protocol,
  \<^verbatim>\<open>internal/raft/transport.go\<close>.  A handler is a function from the request, the node as the
  handler sees it and the ends of its waits to the response.  The JSON decoders of the
  request bodies and \<^verbatim>\<open>time.ParseDuration\<close> are arguments; a decoder returns its error text.
\<close>

section \<open>Definitions\<close>

record HttpRequest =
  hq_Method :: string
  hq_Query :: "(string, string) gomap"
  hq_Body :: bytes

record HttpResponse =
  hr_Status :: int
  hr_Headers :: "(string, string) gomap"
  hr_Body :: bytes

definition StatusOK :: int where "StatusOK = 200"
definition StatusBadRequest :: int where "StatusBadRequest = 400"
definition StatusNotFound :: int where "StatusNotFound = 404"
definition StatusMethodNotAllowed :: int where "StatusMethodNotAllowed = 405"
definition StatusMisdirectedRequest :: int where "StatusMisdirectedRequest = 421"
definition StatusInternalServerError :: int where "StatusInternalServerError = 500"
definition StatusServiceUnavailable :: int where "StatusServiceUnavailable = 503"

definition newline :: bytes where "newline = [CHR 0x0A]"

text \<open>\<^verbatim>\<open>http.Error\<close>, on the headers set before it.\<close>

definition httpError :: "(string, string) gomap \<Rightarrow> string \<Rightarrow> int \<Rightarrow> HttpResponse" where
  "httpError headers msg code =
     \<lparr>hr_Status = code,
      hr_Headers = mput ''X-Content-Type-Options'' ''nosniff'' (mput ''Content-Type'' ''text/plain; charset=utf-8'' headers),
      hr_Body = msg @ newline\<rparr>"

definition jsonOK :: "(string, string) gomap \<Rightarrow> bytes \<Rightarrow> HttpResponse" where
  "jsonOK headers body =
     \<lparr>hr_Status = StatusOK, hr_Headers = mput ''Content-Type'' ''application/json'' headers, hr_Body = body @ newline\<rparr>"

definition leaderHintHeader :: string where "leaderHintHeader = ''X-Raft-Leader''"
definition stalenessHeader :: string where "stalenessHeader = ''X-Raft-Staleness''"

text \<open>
  The server: the node it asks for its role, the state machine it reads, the peers it knows,
  the text of the present staleness and of an error that is none of the engine's own.
\<close>

record Server =
  srv_node :: RaftNode
  srv_machine :: MemoryStateMachine
  srv_peers :: "(int, string) gomap"
  srv_staleness :: string
  srv_detail :: string

definition errorText :: "Server \<Rightarrow> engine_error \<Rightarrow> string" where
  "errorText s err =
     (case err of
        ErrNotLeader \<Rightarrow> ''not the leader''
      | ErrCommitTimeout \<Rightarrow> ''commit timeout: not committed within the deadline (the entry may still commit)''
      | ErrReadTimeout \<Rightarrow> ''read timeout: could not confirm leadership with a quorum''
      | ErrTooStale \<Rightarrow> ''read too stale: this node has not confirmed currency with a leader recently enough''
      | ErrMaxStalenessRequired \<Rightarrow> ''bounded reads require a positive max staleness''
      | _ \<Rightarrow> srv_detail s)"

definition redirectToLeader :: "Server \<Rightarrow> HttpResponse" where
  "redirectToLeader s =
     (let leaderID = CurrentLeader (srv_node s) in
      if leaderID = 0 then httpError [] ''not the leader; no known leader, retry shortly'' StatusMisdirectedRequest
      else
        (case mget (srv_peers s) leaderID of
           None \<Rightarrow> httpError [] (''not the leader; leader is node '' @ int_dec leaderID) StatusMisdirectedRequest
         | Some addr \<Rightarrow>
             httpError (mput leaderHintHeader addr [])
               (''not the leader; leader is node '' @ int_dec leaderID @ '' at '' @ addr) StatusMisdirectedRequest))"

definition validateClientTag :: "string \<Rightarrow> 64 word \<Rightarrow> string option" where
  "validateClientTag clientID seq =
     (if clientID = [] \<and> seq = 0 then None
      else if clientID = [] then
        Some ''seq given without client_id: a sequence number needs a client to be a sequence of''
      else if seq = 0 then
        Some ''client_id given without seq: exactly-once needs a per-client sequence number, starting at 1''
      else None)"

definition submitAndRespond :: "Server \<Rightarrow> unit wait \<Rightarrow> engine_error option wait \<Rightarrow> HttpResponse" where
  "submitAndRespond s queued result =
     (case queued of
        Got _ \<Rightarrow>
          (case result of
             Got None \<Rightarrow> \<lparr>hr_Status = StatusOK, hr_Headers = [], hr_Body = ''OK'' @ newline\<rparr>
           | Got (Some err) \<Rightarrow>
               (if err = ErrNotLeader then redirectToLeader s
                else if err = ErrCommitTimeout then httpError [] (errorText s err) StatusServiceUnavailable
                else httpError [] (errorText s err) StatusInternalServerError)
           | _ \<Rightarrow> httpError [] ''engine response timeout'' StatusServiceUnavailable)
      | _ \<Rightarrow> httpError [] ''proposal queue full'' StatusServiceUnavailable)"

subsection \<open>Writes\<close>

record setRequest =
  sq_Key :: string
  sq_Value :: string
  sq_ClientID :: string
  sq_Seq :: "64 word"

record deleteRequest =
  dq_Key :: string
  dq_ClientID :: string
  dq_Seq :: "64 word"

text \<open>
  A write handler answers at once or hands a command to \<^const>\<open>submitAndRespond\<close>.
\<close>

definition handleSet :: "(bytes \<Rightarrow> string + setRequest) \<Rightarrow> Server \<Rightarrow> HttpRequest \<Rightarrow> HttpResponse + Command" where
  "handleSet decode s r =
     (if hq_Method r \<noteq> ''POST'' then Inl (httpError [] ''POST required'' StatusMethodNotAllowed)
      else if \<not> IsLeader (srv_node s) then Inl (redirectToLeader s)
      else
        (case decode (hq_Body r) of
           Inl msg \<Rightarrow> Inl (httpError [] msg StatusBadRequest)
         | Inr req \<Rightarrow>
             (if sq_Key req = [] then Inl (httpError [] ''key cannot be empty'' StatusBadRequest)
              else
                (case validateClientTag (sq_ClientID req) (sq_Seq req) of
                   Some msg \<Rightarrow> Inl (httpError [] msg StatusBadRequest)
                 | None \<Rightarrow> Inr \<lparr>Op = OpSet, Key = sq_Key req, Value = sq_Value req, ClientID = sq_ClientID req,
                                 Seq = sq_Seq req, Timestamp = 0\<rparr>))))"

definition handleDelete :: "(bytes \<Rightarrow> string + deleteRequest) \<Rightarrow> Server \<Rightarrow> HttpRequest \<Rightarrow> HttpResponse + Command" where
  "handleDelete decode s r =
     (if hq_Method r \<noteq> ''POST'' then Inl (httpError [] ''POST required'' StatusMethodNotAllowed)
      else if \<not> IsLeader (srv_node s) then Inl (redirectToLeader s)
      else
        (case decode (hq_Body r) of
           Inl msg \<Rightarrow> Inl (httpError [] msg StatusBadRequest)
         | Inr req \<Rightarrow>
             (if dq_Key req = [] then Inl (httpError [] ''key cannot be empty'' StatusBadRequest)
              else
                (case validateClientTag (dq_ClientID req) (dq_Seq req) of
                   Some msg \<Rightarrow> Inl (httpError [] msg StatusBadRequest)
                 | None \<Rightarrow> Inr \<lparr>Op = OpDelete, Key = dq_Key req, Value = [], ClientID = dq_ClientID req,
                                 Seq = dq_Seq req, Timestamp = 0\<rparr>))))"

text \<open>The answer to a write: at once, or after the wait for the engine.\<close>

definition respondWrite ::
  "Server \<Rightarrow> unit wait \<Rightarrow> engine_error option wait \<Rightarrow> HttpResponse + Command \<Rightarrow> HttpResponse" where
  "respondWrite s queued result x = (case x of Inl resp \<Rightarrow> resp | Inr _ \<Rightarrow> submitAndRespond s queued result)"

subsection \<open>Reads\<close>

definition queryGet :: "HttpRequest \<Rightarrow> string \<Rightarrow> string" where
  "queryGet r k = mget0 [] (hq_Query r) k"

definition parseMaxStaleness :: "(string \<Rightarrow> string + nanos) \<Rightarrow> (nanos \<Rightarrow> string) \<Rightarrow> HttpRequest \<Rightarrow> string + nanos" where
  "parseMaxStaleness parseDuration showDuration r =
     (let raw = queryGet r ''max_staleness'' in
      if raw = [] then Inl ''consistency=bounded requires max_staleness (e.g. max_staleness=2s)''
      else
        (case parseDuration raw of
           Inl msg \<Rightarrow> Inl (''invalid max_staleness '' @ goQuote raw @ '': '' @ msg)
         | Inr d \<Rightarrow>
             (if d \<le> 0 then Inl (''max_staleness must be positive, got '' @ showDuration d) else Inr d)))"

text \<open>\<^const>\<open>None\<close> where the read may go on.\<close>

definition serveRead :: "Server \<Rightarrow> engine_error option \<Rightarrow> HttpResponse option" where
  "serveRead s err =
     (case err of
        None \<Rightarrow> None
      | Some err \<Rightarrow>
          Some (if err = ErrNotLeader then redirectToLeader s
                else if err = ErrTooStale then
                  httpError (mput stalenessHeader (srv_staleness s) []) (errorText s err) StatusServiceUnavailable
                else if err = ErrMaxStalenessRequired then httpError [] (errorText s err) StatusBadRequest
                else if err = ErrReadTimeout then httpError [] (errorText s err) StatusServiceUnavailable
                else httpError [] (errorText s err) StatusInternalServerError))"

definition handleGet ::
  "(string \<Rightarrow> string + nanos) \<Rightarrow> (nanos \<Rightarrow> string) \<Rightarrow> (string \<Rightarrow> bytes) \<Rightarrow> (ReadOptions \<Rightarrow> engine_error option) \<Rightarrow>
     Server \<Rightarrow> HttpRequest \<Rightarrow> HttpResponse" where
  "handleGet parseDuration showDuration encodeValue read s r =
     (if hq_Method r \<noteq> ''GET'' then httpError [] ''GET required'' StatusMethodNotAllowed
      else
        (let key = queryGet r ''key'' in
         if key = [] then httpError [] ''missing key parameter'' StatusBadRequest
         else
           (let consistency = queryGet r ''consistency'';
                refused =
                  (if consistency = [] \<or> consistency = ''linearizable'' then
                     serveRead s (read \<lparr>ro_Consistency = Linearizable, ro_MaxStaleness = 0\<rparr>)
                   else if consistency = ''bounded'' then
                     (case parseMaxStaleness parseDuration showDuration r of
                        Inl msg \<Rightarrow> Some (httpError [] msg StatusBadRequest)
                      | Inr d \<Rightarrow> serveRead s (read \<lparr>ro_Consistency = BoundedStale, ro_MaxStaleness = d\<rparr>))
                   else if consistency = ''local'' then None
                   else Some (httpError []
                     (''unknown consistency '' @ goQuote consistency @ '': want linearizable, bounded or local'')
                     StatusBadRequest))
            in case refused of
                 Some resp \<Rightarrow> resp
               | None \<Rightarrow>
                   (case Get (srv_machine s) key of
                      None \<Rightarrow> httpError [] ''key not found'' StatusNotFound
                    | Some val \<Rightarrow> jsonOK (mput stalenessHeader (srv_staleness s) []) (encodeValue val)))))"

subsection \<open>Calls from peers\<close>

text \<open>The five receivers share their text; \<open>handle\<close> is the engine's handler.\<close>

definition serveCall ::
  "(bytes \<Rightarrow> string + 'req) \<Rightarrow> ('resp \<Rightarrow> bytes) \<Rightarrow> ('req \<Rightarrow> 's \<Rightarrow> 'resp \<times> 's) \<Rightarrow> HttpRequest \<Rightarrow> 's \<Rightarrow> HttpResponse \<times> 's" where
  "serveCall decode encode handle r e =
     (if hq_Method r \<noteq> ''POST'' then (httpError [] ''POST required'' StatusMethodNotAllowed, e)
      else
        (case decode (hq_Body r) of
           Inl msg \<Rightarrow> (httpError [] msg StatusBadRequest, e)
         | Inr req \<Rightarrow> (case handle req e of (resp, e) \<Rightarrow> (jsonOK [] (encode resp), e))))"

definition handleInternalAppend ::
  "(bytes \<Rightarrow> string + AppendEntriesRequest) \<Rightarrow> (AppendEntriesResponse \<Rightarrow> bytes) \<Rightarrow> Codecs \<Rightarrow> nanos \<Rightarrow> HttpRequest \<Rightarrow> Engine
     \<Rightarrow> HttpResponse \<times> Engine" where
  "handleInternalAppend decode encode cd now = serveCall decode encode (engine_HandleAppendEntries cd now)"

definition handleInternalPreVote ::
  "(bytes \<Rightarrow> string + PreVoteRequest) \<Rightarrow> (PreVoteResponse \<Rightarrow> bytes) \<Rightarrow> nanos \<Rightarrow> HttpRequest \<Rightarrow> Engine \<Rightarrow> HttpResponse \<times> Engine" where
  "handleInternalPreVote decode encode now = serveCall decode encode (\<lambda>req e. (engine_HandlePreVote now req e, e))"

definition handleInternalReadIndex ::
  "(bytes \<Rightarrow> string + ReadIndexRequest) \<Rightarrow> (ReadIndexResponse \<Rightarrow> bytes) \<Rightarrow> unit wait \<Rightarrow> (engine_error + int) wait \<Rightarrow>
     HttpRequest \<Rightarrow> Engine \<Rightarrow> HttpResponse \<times> Engine" where
  "handleInternalReadIndex decode encode admitted result =
     serveCall decode encode (\<lambda>req e. (HandleReadIndex admitted result e, e))"

definition handleInternalVote ::
  "(bytes \<Rightarrow> string + RequestVoteRequest) \<Rightarrow> (RequestVoteResponse \<Rightarrow> bytes) \<Rightarrow> nanos \<Rightarrow> HttpRequest \<Rightarrow> Engine
     \<Rightarrow> HttpResponse \<times> Engine" where
  "handleInternalVote decode encode now = serveCall decode encode (engine_HandleRequestVote now)"

definition handleInternalSnapshot ::
  "(bytes \<Rightarrow> string + InstallSnapshotRequest) \<Rightarrow> (InstallSnapshotResponse \<Rightarrow> bytes) \<Rightarrow> Codecs \<Rightarrow> nanos \<Rightarrow> HttpRequest \<Rightarrow> Engine
     \<Rightarrow> HttpResponse \<times> Engine" where
  "handleInternalSnapshot decode encode cd now = serveCall decode encode (engine_HandleInstallSnapshot cd now)"

datatype route =
    SetRoute | GetRoute | DeleteRoute | AppendRoute | PreVoteRoute | ReadIndexRoute | VoteRoute | SnapshotRoute

definition RegisterRoutes :: "(string, route) gomap" where
  "RegisterRoutes =
     [(''/set'', SetRoute), (''/get'', GetRoute), (''/delete'', DeleteRoute), (''/internal/append'', AppendRoute),
      (''/internal/prevote'', PreVoteRoute), (''/internal/readindex'', ReadIndexRoute), (''/internal/vote'', VoteRoute),
      (''/internal/snapshot'', SnapshotRoute)]"

subsection \<open>The client half\<close>

datatype rpc_error = MarshalFailed | PostFailed | PeerStatus int | DecodeFailed

text \<open>\<open>post\<close> is the HTTP exchange: a URL and a body to a response, or none when it fails.\<close>

definition postJSON ::
  "('req \<Rightarrow> bytes option) \<Rightarrow> (bytes \<Rightarrow> string + 'resp) \<Rightarrow> (string \<Rightarrow> bytes \<Rightarrow> HttpResponse option) \<Rightarrow> string \<Rightarrow> string \<Rightarrow> 'req
     \<Rightarrow> rpc_error + 'resp" where
  "postJSON encode decode post addr path req =
     (case encode req of
        None \<Rightarrow> Inl MarshalFailed
      | Some payload \<Rightarrow>
          (case post (''http://'' @ addr @ ''/'' @ path) payload of
             None \<Rightarrow> Inl PostFailed
           | Some resp \<Rightarrow>
               (if hr_Status resp \<noteq> StatusOK then Inl (PeerStatus (hr_Status resp))
                else (case decode (hr_Body resp) of Inl _ \<Rightarrow> Inl DecodeFailed | Inr v \<Rightarrow> Inr v))))"

definition HTTP_AppendEntries where
  "HTTP_AppendEntries encode decode post addr (req :: AppendEntriesRequest) =
     (postJSON encode decode post addr ''internal/append'' req :: rpc_error + AppendEntriesResponse)"

definition HTTP_PreVote where
  "HTTP_PreVote encode decode post addr (req :: PreVoteRequest) =
     (postJSON encode decode post addr ''internal/prevote'' req :: rpc_error + PreVoteResponse)"

definition HTTP_RequestVote where
  "HTTP_RequestVote encode decode post addr (req :: RequestVoteRequest) =
     (postJSON encode decode post addr ''internal/vote'' req :: rpc_error + RequestVoteResponse)"

definition HTTP_ReadIndex where
  "HTTP_ReadIndex encode decode post addr (req :: ReadIndexRequest) =
     (postJSON encode decode post addr ''internal/readindex'' req :: rpc_error + ReadIndexResponse)"

definition HTTP_InstallSnapshot where
  "HTTP_InstallSnapshot encode decode post addr (req :: InstallSnapshotRequest) =
     (postJSON encode decode post addr ''internal/snapshot'' req :: rpc_error + InstallSnapshotResponse)"

section \<open>Writes a client can make are applied\<close>

text \<open>A command that executes without an error, and sessions that record none.\<close>

definition executable :: "Command \<Rightarrow> bool" where
  "executable cmd \<longleftrightarrow> Op cmd = OpNoop \<or> (Op cmd = OpSet \<or> Op cmd = OpDelete) \<and> Key cmd \<noteq> []"

definition cleanSessions :: "MemoryStateMachine \<Rightarrow> bool" where
  "cleanSessions m \<longleftrightarrow> (\<forall>c s. mget (sm_sessions m) c = Some s \<longrightarrow> Err s = [])"

lemma clean_expire: "sm_wf m \<Longrightarrow> cleanSessions m \<Longrightarrow> cleanSessions (expireSessions (advanceClock cmd m))"
  by (auto simp: cleanSessions_def expireSessions_def advanceClock_def Let_def sm_wf_def gm.lookup_del_all
      restrict_map_def split: if_splits)

lemma clean_execute:
  assumes "executable cmd"
  shows "fst (execute i cmd m) = None" and "sm_sessions (snd (execute i cmd m)) = sm_sessions m"
  using assms by (auto simp: executable_def execute_def OpSet_def OpDelete_def OpNoop_def)

lemma clean_Apply:
  assumes "sm_wf m" and "cleanSessions m" and "executable cmd"
  shows "fst (Apply i cmd m) = None" and "cleanSessions (snd (Apply i cmd m))"
proof -
  let ?m = "expireSessions (advanceClock cmd m)"
  have c: "cleanSessions ?m" by (rule clean_expire [OF assms(1,2)])
  obtain err m' where x: "execute i cmd ?m = (err, m')" by force
  note e = clean_execute [OF assms(3), of i ?m]
  have r: "replay cmd ?m = Some outcome \<Longrightarrow> outcome = None" for outcome
    using c by (auto simp: replay_def cleanSessions_def split: if_splits option.splits)
  show "fst (Apply i cmd m) = None" using r e x by (auto simp: Apply_def Let_def split: option.splits)
  show "cleanSessions (snd (Apply i cmd m))" using c e x
    by (auto simp: Apply_def Let_def recordOutcome_def cleanSessions_def gm.lookup_put split: option.splits)
qed

lemma clean_run:
  assumes "holdsAfter cd rl la cs" and "sm_wf m" and "cleanSessions m"
    and "\<And>i cmd. la < i \<Longrightarrow> i \<le> la + int (length cs) \<Longrightarrow> readCommand cd rl i = Some cmd \<Longrightarrow> executable cmd"
  shows "sm_wf (snd (applyLog cs m)) \<and> cleanSessions (snd (applyLog cs m))"
  using assms
proof (induction cs arbitrary: la m)
  case (Cons c cs)
  obtain i cmd where c: "c = (i, cmd)" by force
  have x: "executable cmd" using Cons.prems(1) Cons.prems(4) [of i cmd] by (auto simp: c)
  have "sm_wf (snd (Apply i cmd m))" using sm_wf_Apply [OF Cons.prems(2)] by simp
  moreover have "cleanSessions (snd (Apply i cmd m))" using clean_Apply(2) [OF Cons.prems(2,3) x] .
  ultimately have "sm_wf (snd (applyLog cs (snd (Apply i cmd m)))) \<and> cleanSessions (snd (applyLog cs (snd (Apply i cmd m))))"
  proof (intro Cons.IH [of i])
    show "holdsAfter cd rl i cs" using Cons.prems(1) by (auto simp: c)
    show "executable cmd'" if "i < j" "j \<le> i + int (length cs)" "readCommand cd rl j = Some cmd'" for j cmd'
      using Cons.prems(1) Cons.prems(4) [of j cmd'] that by (auto simp: c)
  qed
  then show ?case by (auto simp: c split: prod.splits)
qed simp

text \<open>The commands the write handlers submit, as the engine stamps them.\<close>

definition submitted :: "Command \<Rightarrow> bool" where
  "submitted cmd \<longleftrightarrow> (\<exists>decode decode' s r c ts. cmd = c\<lparr>Timestamp := ts\<rparr> \<and>
     (handleSet decode s r = Inr c \<or> handleDelete decode' s r = Inr c))"

lemma submitted_executable: "submitted cmd \<Longrightarrow> executable cmd"
  by (auto simp: submitted_def handleSet_def handleDelete_def executable_def split: if_splits sum.splits option.splits)

section \<open>Statuses\<close>

lemmas status_defs = StatusOK_def StatusBadRequest_def StatusNotFound_def StatusMethodNotAllowed_def
  StatusMisdirectedRequest_def StatusInternalServerError_def StatusServiceUnavailable_def

lemma status_simps [simp]:
  "hr_Status (httpError hs msg code) = code" "hr_Status (redirectToLeader s) = StatusMisdirectedRequest"
  "hr_Status (jsonOK hs b) = StatusOK"
  by (simp_all add: httpError_def redirectToLeader_def jsonOK_def Let_def split: option.splits)

lemma submit_status:
  "hr_Status (submitAndRespond s queued result) = StatusOK \<longleftrightarrow> queued = Got () \<and> result = Got None"
  "hr_Status (submitAndRespond s queued result) = StatusMisdirectedRequest \<longleftrightarrow>
     queued = Got () \<and> result = Got (Some ErrNotLeader)"
  by (auto simp: submitAndRespond_def status_defs split: wait.splits option.splits)

text \<open>The guards the two write handlers share.\<close>

definition writeGuard :: "Server \<Rightarrow> HttpRequest \<Rightarrow> Command \<Rightarrow> bool" where
  "writeGuard s r c \<longleftrightarrow> hq_Method r = ''POST'' \<and> IsLeader (srv_node s) \<and> Key c \<noteq> [] \<and>
     (ClientID c = [] \<longleftrightarrow> Seq c = 0) \<and> Timestamp c = 0"

definition earlyRefusal :: "Server \<Rightarrow> HttpRequest \<Rightarrow> HttpResponse \<Rightarrow> bool" where
  "earlyRefusal s r resp \<longleftrightarrow> hr_Status resp \<noteq> StatusOK \<and>
     (hr_Status resp = StatusMisdirectedRequest \<longleftrightarrow> hq_Method r = ''POST'' \<and> \<not> IsLeader (srv_node s))"

lemma validate_None: "validateClientTag c q = None \<longleftrightarrow> (c = [] \<longleftrightarrow> q = 0)"
  by (auto simp: validateClientTag_def)

lemma handleSet_cases:
  "case handleSet decode s r of Inl resp \<Rightarrow> earlyRefusal s r resp | Inr c \<Rightarrow> writeGuard s r c \<and> Op c = OpSet"
  by (auto simp: handleSet_def earlyRefusal_def writeGuard_def status_defs validate_None [symmetric]
      split: sum.splits option.splits)

lemma handleDelete_cases:
  "case handleDelete decode s r of Inl resp \<Rightarrow> earlyRefusal s r resp | Inr c \<Rightarrow> writeGuard s r c \<and> Op c = OpDelete"
  by (auto simp: handleDelete_def earlyRefusal_def writeGuard_def status_defs validate_None [symmetric]
      split: sum.splits option.splits)

lemma respond_status:
  assumes "case x of Inl resp \<Rightarrow> earlyRefusal s r resp | Inr c \<Rightarrow> writeGuard s r c"
  shows "(hr_Status (respondWrite s queued result x) = StatusOK \<longleftrightarrow>
      (\<exists>c. x = Inr c) \<and> queued = Got () \<and> result = Got None) \<and>
    (hr_Status (respondWrite s queued result x) = StatusMisdirectedRequest \<longleftrightarrow> hq_Method r = ''POST'' \<and>
      (\<not> IsLeader (srv_node s) \<or> (\<exists>c. x = Inr c) \<and> queued = Got () \<and> result = Got (Some ErrNotLeader)))"
proof (cases x)
  case (Inl resp)
  with assms show ?thesis by (simp add: respondWrite_def earlyRefusal_def)
next
  case (Inr c)
  with assms show ?thesis by (simp add: respondWrite_def writeGuard_def submit_status)
qed

section \<open>Properties\<close>

text \<open>C39. No client can stop a node: when every entry up to the commit index is there and decodes
  to a leader's no-op or to a command one of the write handlers accepted, stamped by the
  engine, the apply loop reaches the commit index without stopping the node, and the machine
  stays one that records no errors.\<close>

theorem client_writes_never_halt:
  assumes "\<not> e_halted e" and "sm_wf (e_machine e)" and "cleanSessions (e_machine e)"
    and "LastApplied (e_node e) \<le> CommitIndex (e_node e)"
    and "\<And>i. LastApplied (e_node e) < i \<Longrightarrow> i \<le> CommitIndex (e_node e) \<Longrightarrow>
      \<exists>cmd. readCommand cd (e_log e) i = Some cmd \<and> (Op cmd = OpNoop \<or> submitted cmd)"
  shows "\<not> e_halted (applyCommitted cd e) \<and> LastApplied (e_node (applyCommitted cd e)) = CommitIndex (e_node e) \<and>
    cleanSessions (e_machine (applyCommitted cd e))"
proof -
  let ?la = "LastApplied (e_node e)" and ?ci = "CommitIndex (e_node e)"
  obtain cs m where r: "appliedRun cd ?ci e (applyCommitted cd e) cs m"
    using applyLoop_run by (fastforce simp: applyCommitted_def CommitAndApplyBoundary_def)
  have x: "executable cmd" if "?la < i" "i \<le> ?ci" "readCommand cd (e_log e) i = Some cmd" for i cmd
    using assms(5) [OF that(1,2)] that(3) submitted_executable by (auto simp: executable_def)
  have h: "holdsAfter cd (e_log e) ?la cs" and a: "applyLog cs (e_machine e) = (map (\<lambda>_. None) cs, m)"
    using r by (simp_all add: appliedRun_def)
  have len: "?la + int (length cs) \<le> ?ci" using r assms(4) by (auto simp: appliedRun_def Let_def)
  have clean: "sm_wf m" "cleanSessions m"
    using clean_run [OF h assms(2,3)] x len a by auto
  have "\<not> unappliable cd (e_log e) (?la + int (length cs) + 1) m" if lt: "?la + int (length cs) < ?ci"
  proof -
    let ?i = "?la + int (length cs) + 1"
    obtain cmd where c: "readCommand cd (e_log e) ?i = Some cmd" using assms(5) [of ?i] lt by auto
    with x [of ?i cmd] lt have "executable cmd" by simp
    with c clean_Apply(1) [OF clean] show ?thesis by (simp add: unappliable_def)
  qed
  with r assms(1,4) clean(2) show ?thesis by (auto simp: appliedRun_def Let_def)
qed

theorem client_writes_never_halt_witness:
  "let e = soloEngine\<lparr>e_log := demoWhole [soloEntry], e_node := soloLeader\<lparr>CommitIndex := 1\<rparr>\<rparr>;
       e' = applyCommitted demoCodecs e in \<not> e_halted e' \<and> LastApplied (e_node e') = 1"
proof -
  let ?e = "soloEngine\<lparr>e_log := demoWhole [soloEntry], e_node := soloLeader\<lparr>CommitIndex := 1\<rparr>\<rparr>"
  let ?s = "\<lparr>srv_node = soloLeader, srv_machine = NewMemoryStateMachine, srv_peers = [], srv_staleness = [], srv_detail = []\<rparr>"
  let ?r = "\<lparr>hq_Method = ''POST'', hq_Query = [], hq_Body = []\<rparr>"
  let ?q = "\<lparr>sq_Key = ''k'', sq_Value = ''v'', sq_ClientID = [], sq_Seq = 0\<rparr>"
  let ?c = "\<lparr>Op = OpSet, Key = ''k'', Value = ''v'', ClientID = [], Seq = 0, Timestamp = 0\<rparr> :: Command"
  have e: "\<not> e_halted ?e" "e_machine ?e = NewMemoryStateMachine" "LastApplied (e_node ?e) = 0" "CommitIndex (e_node ?e) = 1"
    by (simp_all add: soloEngine_def NewWithTransport_def resetElectionTimeout_def soloLeader_def demoNode_def)
  have "handleSet (\<lambda>_. Inr ?q) ?s ?r = Inr ?c"
    by (simp add: handleSet_def IsLeader_def soloLeader_def validateClientTag_def)
  then have s: "submitted ?c" unfolding submitted_def by (intro exI [of _ 0] exI [of _ ?c] exI) auto
  have "readCommand demoCodecs (demoWhole [soloEntry]) 1 = Some ?c"
    by (simp add: readCommand_def GetEntry_def getEntryLocked_def demoWhole_def soloEntry_def demoCodecs_def Let_def)
  with s have "\<exists>cmd. readCommand demoCodecs (e_log ?e) i = Some cmd \<and> (Op cmd = OpNoop \<or> submitted cmd)"
    if "LastApplied (e_node ?e) < i" "i \<le> CommitIndex (e_node ?e)" for i
  proof -
    from that e have "i = 1" by linarith
    with s \<open>readCommand demoCodecs (demoWhole [soloEntry]) 1 = Some ?c\<close> show ?thesis by auto
  qed
  with e client_writes_never_halt [of ?e demoCodecs] show ?thesis
    by (simp add: Let_def NewMemoryStateMachine_def sm_wf_def cleanSessions_def)
qed

text \<open>What a status tells a writer, of a set and of a delete: success is sent exactly when
  the request was accepted, the queue took it and the engine answered that it is committed; a
  redirect exactly when this node, or the engine after taking it, does not lead; and what is
  accepted is a POST at the leader with a key and with a sequence number if and only if it
  names its client.\<close>

theorem write_status:
  assumes "x = handleSet decode s r \<or> x = handleDelete decode' s r" and "resp = respondWrite s queued result x"
  shows "(hr_Status resp = StatusOK \<longleftrightarrow> (\<exists>c. x = Inr c) \<and> queued = Got () \<and> result = Got None) \<and>
    (hr_Status resp = StatusMisdirectedRequest \<longleftrightarrow> hq_Method r = ''POST'' \<and>
       (\<not> IsLeader (srv_node s) \<or> (\<exists>c. x = Inr c) \<and> queued = Got () \<and> result = Got (Some ErrNotLeader))) \<and>
    (\<forall>c. x = Inr c \<longrightarrow> writeGuard s r c \<and> (Op c = OpSet \<or> Op c = OpDelete))"
proof -
  have c: "case x of Inl resp \<Rightarrow> earlyRefusal s r resp | Inr c \<Rightarrow> writeGuard s r c \<and> (Op c = OpSet \<or> Op c = OpDelete)"
    using assms(1) handleSet_cases [of s r decode] handleDelete_cases [of s r decode'] by (auto split: sum.splits)
  then have "case x of Inl resp \<Rightarrow> earlyRefusal s r resp | Inr c \<Rightarrow> writeGuard s r c" by (auto split: sum.splits)
  from respond_status [OF this, of queued result] c show ?thesis unfolding assms(2) by auto
qed

theorem write_status_witness:
  "let s = \<lparr>srv_node = soloLeader, srv_machine = NewMemoryStateMachine, srv_peers = [], srv_staleness = [], srv_detail = []\<rparr>;
       r = \<lparr>hq_Method = ''POST'', hq_Query = [], hq_Body = []\<rparr>;
       q = \<lparr>sq_Key = ''k'', sq_Value = ''v'', sq_ClientID = [], sq_Seq = 0\<rparr> in
   hr_Status (respondWrite s (Got ()) (Got None) (handleSet (\<lambda>_. Inr q) s r)) = 200 \<and>
   hr_Status (respondWrite s (Got ()) (Got (Some ErrNotLeader)) (handleSet (\<lambda>_. Inr q) s r)) = 421"
proof -
  let ?s = "\<lparr>srv_node = soloLeader, srv_machine = NewMemoryStateMachine, srv_peers = [], srv_staleness = [], srv_detail = []\<rparr>"
  let ?r = "\<lparr>hq_Method = ''POST'', hq_Query = [], hq_Body = []\<rparr>"
  let ?q = "\<lparr>sq_Key = ''k'', sq_Value = ''v'', sq_ClientID = [], sq_Seq = 0\<rparr>"
  have "\<exists>c. handleSet (\<lambda>_. Inr ?q) ?s ?r = Inr c"
    by (simp add: handleSet_def IsLeader_def soloLeader_def validateClientTag_def)
  then show ?thesis
    using write_status [of _ "\<lambda>_. Inr ?q" ?s ?r, OF disjI1 [OF refl] refl, of "Got ()" "Got None"]
      write_status [of _ "\<lambda>_. Inr ?q" ?s ?r, OF disjI1 [OF refl] refl, of "Got ()" "Got (Some ErrNotLeader)"]
    by (simp add: Let_def StatusOK_def StatusMisdirectedRequest_def)
qed

end
