(* ===== verification/Fake_Net.thy ===== *)
theory Fake_Net
  imports Complex_Main Engine
begin

text \<open>
  The in-process network of the test harness, \<^verbatim>\<open>internal/testcluster/fakenet.go\<close>: directed cuts,
  random loss, delays, and the delivery of one call, whose reply leg is checked after the
  receiver has run.  The lemmas say exactly which links every operation cuts and heals and
  what a call comes to.
\<close>

section \<open>Definitions\<close>

text \<open>
  A handler is the number of the server whose engine listens at the address; the engines are
  the state a call acts on.  Probabilities are the rationals that floating-point numbers
  denote, and the random generator is the sequence of its draws to come.
\<close>

record fakeNet =
  fn_handlers :: "(string, int) gomap"
  fn_cut :: "(string, bool) gomap"
  fn_dropRate :: rat
  fn_delay :: nanos
  fn_blackholeDelay :: nanos
  fn_rng :: "nat \<Rightarrow> rat"

definition newFakeNet :: "(nat \<Rightarrow> rat) \<Rightarrow> fakeNet" where
  "newFakeNet rng = \<lparr>fn_handlers = [], fn_cut = [], fn_dropRate = 0, fn_delay = 0, fn_blackholeDelay = 0, fn_rng = rng\<rparr>"

definition register :: "string \<Rightarrow> int \<Rightarrow> fakeNet \<Rightarrow> fakeNet" where
  "register addr h n = n\<lparr>fn_handlers := mput addr h (fn_handlers n)\<rparr>"

text \<open>The arrow between the two addresses, in UTF-8.\<close>

definition linkKey :: "string \<Rightarrow> string \<Rightarrow> string" where
  "linkKey src dst = src @ [CHR 0xE2, CHR 0x86, CHR 0x92] @ dst"

definition cutLink :: "string \<Rightarrow> string \<Rightarrow> fakeNet \<Rightarrow> fakeNet" where
  "cutLink src dst n = n\<lparr>fn_cut := mput (linkKey src dst) True (fn_cut n)\<rparr>"

definition healLink :: "string \<Rightarrow> string \<Rightarrow> fakeNet \<Rightarrow> fakeNet" where
  "healLink src dst n = n\<lparr>fn_cut := mdel (linkKey src dst) (fn_cut n)\<rparr>"

definition isolate :: "string \<Rightarrow> fakeNet \<Rightarrow> fakeNet" where
  "isolate addr n =
     fold (\<lambda>other n. if other = addr then n
         else n\<lparr>fn_cut := mput (linkKey other addr) True (mput (linkKey addr other) True (fn_cut n))\<rparr>)
       (mkeys (fn_handlers n)) n"

definition heal :: "string \<Rightarrow> fakeNet \<Rightarrow> fakeNet" where
  "heal addr n =
     fold (\<lambda>other n. n\<lparr>fn_cut := mdel (linkKey other addr) (mdel (linkKey addr other) (fn_cut n))\<rparr>)
       (mkeys (fn_handlers n)) n"

definition healAll :: "fakeNet \<Rightarrow> fakeNet" where
  "healAll n = n\<lparr>fn_cut := []\<rparr>"

definition setDropRate :: "rat \<Rightarrow> fakeNet \<Rightarrow> fakeNet" where
  "setDropRate p n = n\<lparr>fn_dropRate := p\<rparr>"

definition setBlackholeDelay :: "nanos \<Rightarrow> fakeNet \<Rightarrow> fakeNet" where
  "setBlackholeDelay d n = n\<lparr>fn_blackholeDelay := d\<rparr>"

definition setDelay :: "nanos \<Rightarrow> fakeNet \<Rightarrow> fakeNet" where
  "setDelay d n = n\<lparr>fn_delay := d\<rparr>"

datatype net_error =
    LinkCut string
  | PacketDropped string string
  | NoListener string
  | ResponseCut string string

text \<open>
  The handler or the error, and how long the caller sleeps before it goes on.  A draw is made
  only on a link that is open and lossy.
\<close>

definition fakeNet_route :: "string \<Rightarrow> string \<Rightarrow> fakeNet \<Rightarrow> (nanos \<times> (net_error + int)) \<times> fakeNet" where
  "fakeNet_route src dst n =
     (if mget0 False (fn_cut n) (linkKey src dst) then ((fn_blackholeDelay n, Inl (LinkCut (linkKey src dst))), n)
      else
        (let (draw, n') = (if 0 < fn_dropRate n then (fn_rng n 0, n\<lparr>fn_rng := \<lambda>k. fn_rng n (Suc k)\<rparr>) else (1, n)) in
         if 0 < fn_dropRate n \<and> draw < fn_dropRate n then ((0, Inl (PacketDropped src dst)), n')
         else case mget (fn_handlers n') dst of
                None \<Rightarrow> ((0, Inl (NoListener dst)), n')
              | Some h \<Rightarrow> ((fn_delay n', Inr h), n')))"

definition responseBlocked :: "string \<Rightarrow> string \<Rightarrow> fakeNet \<Rightarrow> bool" where
  "responseBlocked src dst n = mget0 False (fn_cut n) (linkKey dst src)"

text \<open>
  One call: the request leg, the receiver, the reply leg.  The test may change the network
  while the receiver runs, which is \<open>meanwhile\<close>.  The result is the time slept, the reply or
  the error, the engines the receiver left and the network.
\<close>

type_synonym servers = "int \<Rightarrow> Engine"

definition deliver ::
  "(fakeNet \<Rightarrow> fakeNet) \<Rightarrow> string \<Rightarrow> string \<Rightarrow> 'req \<Rightarrow> (int \<Rightarrow> 'req \<Rightarrow> 's \<Rightarrow> 'resp \<times> 's) \<Rightarrow> 's \<Rightarrow> fakeNet \<Rightarrow>
     nanos \<times> (net_error + 'resp) \<times> 's \<times> fakeNet" where
  "deliver meanwhile src dst req call s n =
     (case fakeNet_route src dst n of
        ((delay, Inl err), n) \<Rightarrow> (delay, Inl err, s, n)
      | ((delay, Inr h), n) \<Rightarrow>
          (case call h req s of
             (resp, s) \<Rightarrow>
               (let n = meanwhile n in
                (delay, if responseBlocked src dst n then Inl (ResponseCut dst src) else Inr resp, s, n))))"

text \<open>
  The five calls of a node's transport, from the address \<open>src\<close>.  A read waits in the leader's
  control loop; its admission and its result are arguments, as for \<^const>\<open>HandleReadIndex\<close>.
\<close>

definition transport_AppendEntries ::
  "Codecs \<Rightarrow> nanos \<Rightarrow> (fakeNet \<Rightarrow> fakeNet) \<Rightarrow> string \<Rightarrow> string \<Rightarrow> AppendEntriesRequest \<Rightarrow> servers \<Rightarrow> fakeNet \<Rightarrow>
     nanos \<times> (net_error + AppendEntriesResponse) \<times> servers \<times> fakeNet" where
  "transport_AppendEntries cd now meanwhile src addr req =
     deliver meanwhile src addr req
       (\<lambda>h r es. case engine_HandleAppendEntries cd now r (es h) of (resp, e) \<Rightarrow> (resp, es(h := e)))"

definition transport_PreVote ::
  "nanos \<Rightarrow> (fakeNet \<Rightarrow> fakeNet) \<Rightarrow> string \<Rightarrow> string \<Rightarrow> PreVoteRequest \<Rightarrow> servers \<Rightarrow> fakeNet \<Rightarrow>
     nanos \<times> (net_error + PreVoteResponse) \<times> servers \<times> fakeNet" where
  "transport_PreVote now meanwhile src addr req =
     deliver meanwhile src addr req (\<lambda>h r es. (engine_HandlePreVote now r (es h), es))"

definition transport_RequestVote ::
  "nanos \<Rightarrow> (fakeNet \<Rightarrow> fakeNet) \<Rightarrow> string \<Rightarrow> string \<Rightarrow> RequestVoteRequest \<Rightarrow> servers \<Rightarrow> fakeNet \<Rightarrow>
     nanos \<times> (net_error + RequestVoteResponse) \<times> servers \<times> fakeNet" where
  "transport_RequestVote now meanwhile src addr req =
     deliver meanwhile src addr req
       (\<lambda>h r es. case engine_HandleRequestVote now r (es h) of (resp, e) \<Rightarrow> (resp, es(h := e)))"

definition transport_ReadIndex ::
  "unit wait \<Rightarrow> (engine_error + int) wait \<Rightarrow> (fakeNet \<Rightarrow> fakeNet) \<Rightarrow> string \<Rightarrow> string \<Rightarrow> ReadIndexRequest \<Rightarrow> servers \<Rightarrow> fakeNet \<Rightarrow>
     nanos \<times> (net_error + ReadIndexResponse) \<times> servers \<times> fakeNet" where
  "transport_ReadIndex admitted result meanwhile src addr req =
     deliver meanwhile src addr req (\<lambda>h r es. (HandleReadIndex admitted result (es h), es))"

definition transport_InstallSnapshot ::
  "Codecs \<Rightarrow> nanos \<Rightarrow> (fakeNet \<Rightarrow> fakeNet) \<Rightarrow> string \<Rightarrow> string \<Rightarrow> InstallSnapshotRequest \<Rightarrow> servers \<Rightarrow> fakeNet \<Rightarrow>
     nanos \<times> (net_error + InstallSnapshotResponse) \<times> servers \<times> fakeNet" where
  "transport_InstallSnapshot cd now meanwhile src addr req =
     deliver meanwhile src addr req
       (\<lambda>h r es. case engine_HandleInstallSnapshot cd now r (es h) of (resp, e) \<Rightarrow> (resp, es(h := e)))"

section \<open>Links\<close>

text \<open>Addresses without the first byte of the arrow, as all of the harness's are.\<close>

definition plainAddr :: "string \<Rightarrow> bool" where
  "plainAddr a \<longleftrightarrow> CHR 0xE2 \<notin> set a"

lemma linkKey_inj: "plainAddr a \<Longrightarrow> plainAddr c \<Longrightarrow> linkKey a b = linkKey c d \<longleftrightarrow> a = c \<and> b = d"
proof -
  have t: "takeWhile (\<lambda>x. x \<noteq> CHR 0xE2) (linkKey u v) = u" if "plainAddr u" for u v
    using that by (simp add: linkKey_def plainAddr_def takeWhile_append takeWhile_eq_all_conv)
  assume "plainAddr a" "plainAddr c"
  with t [of a b] t [of c d] show ?thesis by (auto simp: linkKey_def)
qed

definition blocked :: "fakeNet \<Rightarrow> string \<Rightarrow> string \<Rightarrow> bool" where
  "blocked n src dst = mget0 False (fn_cut n) (linkKey src dst)"

definition net_ok :: "fakeNet \<Rightarrow> bool" where
  "net_ok n \<longleftrightarrow> mwf (fn_cut n) \<and> mwf (fn_handlers n) \<and> (\<forall>a \<in> set (mkeys (fn_handlers n)). plainAddr a)"

lemma mget0_mdel: "mwf m \<Longrightarrow> mget0 z (mdel k m) x = (if x = k then z else mget0 z m x)"
  by (simp add: mget0_mget gm.lookup_del)

lemma cutLink_blocked:
  "plainAddr a \<Longrightarrow> plainAddr x \<Longrightarrow> blocked (cutLink a b n) x y \<longleftrightarrow> blocked n x y \<or> x = a \<and> y = b"
  "plainAddr a \<Longrightarrow> plainAddr x \<Longrightarrow> net_ok n \<Longrightarrow> blocked (healLink a b n) x y \<longleftrightarrow> blocked n x y \<and> \<not> (x = a \<and> y = b)"
  by (auto simp: blocked_def cutLink_def healLink_def linkKey_inj mget0_mdel net_ok_def)

lemma healAll_blocked: "\<not> blocked (healAll n) x y"
  by (simp add: blocked_def healAll_def)

lemma isolate_fold:
  assumes "plainAddr a" and "\<forall>o' \<in> set os. plainAddr o'" and "plainAddr x"
  shows "blocked (fold (\<lambda>other n. if other = a then n
      else n\<lparr>fn_cut := mput (linkKey other a) True (mput (linkKey a other) True (fn_cut n))\<rparr>) os n) x y \<longleftrightarrow>
    blocked n x y \<or> x = a \<and> y \<noteq> a \<and> y \<in> set os \<or> y = a \<and> x \<noteq> a \<and> x \<in> set os"
  using assms(2)
proof (induction os arbitrary: n)
  case (Cons o' os)
  then show ?case using assms(1,3) by (auto simp: blocked_def linkKey_inj)
qed simp

lemma heal_fold:
  assumes "plainAddr a" and "\<forall>o' \<in> set os. plainAddr o'" and "plainAddr x" and "mwf (fn_cut n)"
  shows "blocked (fold (\<lambda>other n. n\<lparr>fn_cut := mdel (linkKey other a) (mdel (linkKey a other) (fn_cut n))\<rparr>) os n) x y \<longleftrightarrow>
    blocked n x y \<and> \<not> (x = a \<and> y \<in> set os \<or> y = a \<and> x \<in> set os)"
  using assms(2,4)
proof (induction os arbitrary: n)
  case (Cons o' os)
  then show ?case using assms(1,3) by (auto simp: blocked_def linkKey_inj mget0_mdel gm.wf_del)
qed simp

section \<open>Properties\<close>

text \<open>What a partition is.  Cutting a link blocks that direction and no other link; isolating
  a server blocks both directions between it and every other registered server, and leaves
  the links among the others; healing it opens every link between it and a registered server
  and no other.\<close>

theorem partition_semantics:
  assumes "net_ok n" and "plainAddr a" and "plainAddr x"
  shows "(blocked (cutLink a b n) x y \<longleftrightarrow> blocked n x y \<or> x = a \<and> y = b) \<and>
    (blocked (healLink a b n) x y \<longleftrightarrow> blocked n x y \<and> \<not> (x = a \<and> y = b)) \<and>
    (blocked (isolate a n) x y \<longleftrightarrow> blocked n x y \<or>
      (x = a \<and> y \<noteq> a \<and> y \<in> set (mkeys (fn_handlers n)) \<or> y = a \<and> x \<noteq> a \<and> x \<in> set (mkeys (fn_handlers n)))) \<and>
    (blocked (heal a n) x y \<longleftrightarrow> blocked n x y \<and>
      \<not> (x = a \<and> y \<in> set (mkeys (fn_handlers n)) \<or> y = a \<and> x \<in> set (mkeys (fn_handlers n)))) \<and>
    \<not> blocked (healAll n) x y"
proof -
  have "mwf (fn_cut n)" "\<forall>o' \<in> set (mkeys (fn_handlers n)). plainAddr o'"
    using assms(1) by (simp_all add: net_ok_def)
  with assms(2,3) show ?thesis
    by (intro conjI cutLink_blocked healAll_blocked assms
        isolate_fold [of a "mkeys (fn_handlers n)" x n y, folded isolate_def]
        heal_fold [of a "mkeys (fn_handlers n)" x n y, folded heal_def])
qed

definition pairNet :: fakeNet where
  "pairNet = register ''node-2'' 2 (register ''node-1'' 1 (newFakeNet (\<lambda>k. 0)))"

theorem partition_semantics_witness:
  "net_ok pairNet \<and> blocked (isolate ''node-1'' pairNet) ''node-2'' ''node-1'' \<and>
   \<not> blocked (heal ''node-1'' (isolate ''node-1'' pairNet)) ''node-2'' ''node-1''"
proof -
  have h: "fn_handlers pairNet = [(''node-1'', 1), (''node-2'', 2)]" "fn_cut pairNet = []"
    by (simp_all add: pairNet_def register_def newFakeNet_def mput_def)
  have ok: "net_ok pairNet" using h by (simp add: net_ok_def plainAddr_def mwf_def mkeys_def)
  have p: "plainAddr ''node-1''" "plainAddr ''node-2''" by (simp_all add: plainAddr_def)
  have i: "fn_handlers (isolate ''node-1'' pairNet) = fn_handlers pairNet" "mwf (fn_cut (isolate ''node-1'' pairNet))"
    by (simp_all add: isolate_def h mkeys_def gm.wf_put)
  then have ok': "net_ok (isolate ''node-1'' pairNet)" using ok by (simp add: net_ok_def)
  from partition_semantics [OF ok p] partition_semantics [OF ok' p] h(1) i(1) ok show ?thesis by (simp add: mkeys_def)
qed

text \<open>C0. One call over the network.  When the request cannot be delivered, the caller learns an
  error, the receiver never runs and its state is untouched; otherwise the receiver runs
  exactly once on the request, and the caller learns its reply exactly when the reverse link
  is open once it has run: a request whose reply is lost has taken effect and looks to the
  caller like any other failure.\<close>

theorem call_semantics:
  assumes "deliver meanwhile src dst req call s n = (delay, res, s', n')"
  shows "(case mget (fn_handlers n) dst of
      Some h \<Rightarrow>
        (if blocked n src dst \<or> 0 < fn_dropRate n \<and> fn_rng n 0 < fn_dropRate n then s' = s \<and> (\<exists>e. res = Inl e)
         else s' = snd (call h req s) \<and>
           res = (if blocked n' dst src then Inl (ResponseCut dst src) else Inr (fst (call h req s))))
    | None \<Rightarrow> s' = s \<and> (\<exists>e. res = Inl e))"
  using assms
  by (auto simp: deliver_def fakeNet_route_def responseBlocked_def blocked_def Let_def
      split: option.splits prod.splits if_splits sum.splits)

theorem call_semantics_witness:
  "\<exists>delay n'. deliver (cutLink ''node-2'' ''node-1'') ''node-1'' ''node-2'' (7 :: int) (\<lambda>h r s. (s, r # s)) [] pairNet =
     (delay, Inl (ResponseCut ''node-2'' ''node-1''), [7], n')"
proof -
  have h: "fn_handlers pairNet = [(''node-1'', 1), (''node-2'', 2)]" "fn_cut pairNet = []" "fn_dropRate pairNet = 0"
    by (simp_all add: pairNet_def register_def newFakeNet_def mput_def)
  have h': "mget (fn_handlers pairNet) ''node-2'' = Some 2" "\<not> blocked pairNet ''node-1'' ''node-2''"
    by (simp_all add: h mget_def blocked_def)
  let ?d = "deliver (cutLink ''node-2'' ''node-1'') ''node-1'' ''node-2'' (7 :: int) (\<lambda>h r s. (s, r # s)) [] pairNet"
  obtain d r s n' where x: "?d = (d, r, s, n')" by (cases ?d) auto
  moreover from x have "n' = cutLink ''node-2'' ''node-1'' pairNet"
    using h' by (simp add: deliver_def fakeNet_route_def blocked_def h(3) Let_def split: if_splits)
  then have "blocked n' ''node-2'' ''node-1''" by (simp add: blocked_def cutLink_def)
  with call_semantics [OF x] h' h(3) have "s = [7] \<and> r = Inl (ResponseCut ''node-2'' ''node-1'')" by simp
  ultimately show ?thesis by blast
qed

end
