(* ===== verification/Engine_Cluster.thy ===== *)
theory Engine_Cluster
  imports Engine_Node
begin

text \<open>
  A cluster of whole engines: control loops, replicators and inbound calls of every server
  interleave in any order, messages are lost, delayed, duplicated and, except for granted
  votes, made up; any server may crash and start again.  The elections of such a cluster
  are elections of the cluster of nodes, so at most one engine leads in a term.
\<close>

section \<open>Definitions\<close>

text \<open>
  The history keeps the votes granted (voter, term, candidate) and the engines that were
  seen to lead (server, term).
\<close>

record Fleet =
  engines :: "int \<Rightarrow> Engine"
  granted :: "(int \<times> int \<times> int) set"
  led :: "(int \<times> int) set"

definition leading :: "Fleet \<Rightarrow> (int \<times> int) set" where
  "leading s = {(i, t). IsLeader (e_node (engines s i)) \<and> t = node_CurrentTerm (e_node (engines s i))}"

definition observe :: "Fleet \<Rightarrow> Fleet" where
  "observe s = s\<lparr>led := led s \<union> leading s\<rparr>"

text \<open>
  The vote results an engine's control loop receives come from the calls its election made:
  one that is granted was granted by that server to this candidate in that term.
\<close>

definition sincere :: "int \<Rightarrow> Fleet \<Rightarrow> action \<Rightarrow> bool" where
  "sincere i s a \<longleftrightarrow>
     (case a of
        Turn _ _ _ (EvVote t v resp) \<Rightarrow> rvr_VoteGranted resp \<longrightarrow> (v, t, i) \<in> granted s
      | CallVote _ _ \<Rightarrow> False
      | _ \<Rightarrow> True)"

inductive fleet_step :: "Codecs \<Rightarrow> Fleet \<Rightarrow> Fleet \<Rightarrow> bool" for cd where
  act: "0 < i \<Longrightarrow> sincere i s a \<Longrightarrow>
    fleet_step cd s (observe (s\<lparr>engines := (engines s)(i := engineStep cd a (engines s i))\<rparr>))"
| vote: "\<not> e_halted (engines s v) \<Longrightarrow> rv_CandidateID req \<noteq> -1 \<Longrightarrow>
    engine_HandleRequestVote now req (engines s v) = (resp, e') \<Longrightarrow>
    fleet_step cd s (observe (s\<lparr>engines := (engines s)(v := e'),
      granted := (if rvr_VoteGranted resp then insert (v, rvr_Term resp, rv_CandidateID req) (granted s) else granted s)\<rparr>))"
| crash: "p \<in> set (mayHold (store (e_node (engines s v)))) \<Longrightarrow>
    restartNode now p os (e_node (engines s v)) = Inr rn \<Longrightarrow>
    fleet_step cd s (observe (s\<lparr>engines := (engines s)(v := NewWithTransport rnd (SeedFromSnapshot idx rn) rl sm f)\<rparr>))"

definition fleet_initial :: "Configuration \<Rightarrow> Fleet \<Rightarrow> bool" where
  "fleet_initial cfg s \<longleftrightarrow> granted s = {} \<and> led s = {} \<and>
     (\<forall>v. nodeID (e_node (engines s v)) = v \<and> config (e_node (engines s v)) = cfg \<and>
        Role (e_node (engines s v)) = Follower \<and> durable (e_node (engines s v)))"

inductive fleet_reachable :: "Codecs \<Rightarrow> Configuration \<Rightarrow> Fleet \<Rightarrow> bool" for cd cfg where
  start: "fleet_initial cfg s \<Longrightarrow> fleet_reachable cd cfg s"
| step: "fleet_reachable cd cfg s \<Longrightarrow> fleet_step cd s s' \<Longrightarrow> fleet_reachable cd cfg s'"

section \<open>Histories of one node\<close>

text \<open>
  The node of server \<open>v\<close> evolves from \<open>rn\<close> to \<open>rn'\<close>: in every cluster that is in the election
  invariant and has granted the votes \<open>L\<close>, the change extends its history.
\<close>

definition grows :: "Configuration \<Rightarrow> int \<Rightarrow> Cluster \<Rightarrow> RaftNode \<Rightarrow> bool" where
  "grows cfg v c rn \<longleftrightarrow> (\<exists>c'. election_inv cfg c' \<and> node c' = (node c)(v := rn) \<and> ledger c \<subseteq> ledger c' \<and>
     ledger c' \<subseteq> ledger c \<union> range (\<lambda>t. (v, t, v)) \<and> leaders c \<subseteq> leaders c')"

definition evolves :: "Configuration \<Rightarrow> (int \<times> int \<times> int) set \<Rightarrow> int \<Rightarrow> RaftNode \<Rightarrow> RaftNode \<Rightarrow> bool" where
  "evolves cfg L v rn rn' \<longleftrightarrow> (\<forall>c. election_inv cfg c \<and> node c v = rn \<and> L \<subseteq> ledger c \<longrightarrow> grows cfg v c rn')"

lemma evolves_trans:
  assumes "evolves cfg L v a b" and "evolves cfg L v b c"
  shows "evolves cfg L v a c"
  unfolding evolves_def
proof (intro allI impI)
  fix s assume s: "election_inv cfg s \<and> node s v = a \<and> L \<subseteq> ledger s"
  then obtain s1 where s1: "election_inv cfg s1" "node s1 = (node s)(v := b)" "ledger s \<subseteq> ledger s1"
      "ledger s1 \<subseteq> ledger s \<union> range (\<lambda>t. (v, t, v))" "leaders s \<subseteq> leaders s1"
    using assms(1) by (auto simp: evolves_def grows_def)
  then have "node s1 v = b" "L \<subseteq> ledger s1" using s by auto
  with assms(2) s1(1) have "grows cfg v s1 c" by (simp add: evolves_def)
  then obtain s2 where "election_inv cfg s2" "node s2 = (node s1)(v := c)" "ledger s1 \<subseteq> ledger s2"
      "ledger s2 \<subseteq> ledger s1 \<union> range (\<lambda>t. (v, t, v))" "leaders s1 \<subseteq> leaders s2"
    unfolding grows_def by blast
  with s1 show "grows cfg v s c" unfolding grows_def by (intro exI [of _ s2]) auto
qed

lemma evolves_quiet: "quiet rn rn' \<Longrightarrow> evolves cfg L v rn rn'"
  unfolding evolves_def grows_def by (auto intro!: quiet_inv exI [of _ "_\<lparr>node := _\<rparr>"])

lemma evolves_refl [simp]: "evolves cfg L v rn rn"
  by (rule evolves_quiet) simp

text \<open>A candidacy, a counted vote, and the promotion that may follow either.\<close>

lemma evolves_campaign:
  assumes "cfg_ok cfg" and "v \<noteq> -1" and "BecomeCandidate now rn = (r, rn')"
  shows "evolves cfg L v rn rn'"
proof (cases r)
  case None
  then show ?thesis using candidate_steps(2) [OF assms(3)] evolves_quiet by blast
next
  case (Some t)
  show ?thesis unfolding evolves_def
  proof (intro allI impI)
    fix s assume s: "election_inv cfg s \<and> node s v = rn \<and> L \<subseteq> ledger s"
    with assms Some have "election_inv cfg (s\<lparr>node := (node s)(v := rn'), ledger := insert (v, t, v) (ledger s),
        majorities := (if node_Peers rn' = [] then insert (v, t) (majorities s) else majorities s)\<rparr>)"
      by (intro campaign_inv) auto
    then show "grows cfg v s rn'" unfolding grows_def by (intro exI conjI, assumption) auto
  qed
qed

lemma evolves_lone_lead:
  assumes "cfg_ok cfg" and "v \<noteq> -1" and "BecomeCandidate now rn = (Some t, rn1)" and "node_Peers rn1 = []"
    and "BecomeLeader t i rn1 = (b, rn2)"
  shows "evolves cfg L v rn rn2"
  unfolding evolves_def
proof (intro allI impI)
  fix s assume s: "election_inv cfg s \<and> node s v = rn \<and> L \<subseteq> ledger s"
  let ?s = "s\<lparr>node := (node s)(v := rn1), ledger := insert (v, t, v) (ledger s), majorities := insert (v, t) (majorities s)\<rparr>"
  have i: "election_inv cfg ?s" using campaign_inv [of cfg s now v t rn1] s assms by simp
  have "election_inv cfg (?s\<lparr>node := (node ?s)(v := rn2), leaders := (if b then insert (v, t) (leaders ?s) else leaders ?s)\<rparr>)"
    by (rule promote_inv [OF i, of v t i]) (use assms(5) in simp_all)
  then show "grows cfg v s rn2" unfolding grows_def by (intro exI conjI, assumption) auto
qed

lemma evolves_tally:
  assumes "cfg_ok cfg" and "(p, t, v) \<in> L" and "RecordVoteAndCheckMajority p t rn = (won, rn1)"
  shows "evolves cfg L v rn rn1"
  unfolding evolves_def
proof (intro allI impI)
  fix s assume s: "election_inv cfg s \<and> node s v = rn \<and> L \<subseteq> ledger s"
  with assms have "election_inv cfg (s\<lparr>node := (node s)(v := rn1),
      majorities := (if won then insert (v, t) (majorities s) else majorities s)\<rparr>)"
    by (intro tally_inv) auto
  then show "grows cfg v s rn1" unfolding grows_def by (intro exI conjI, assumption) auto
qed

lemma evolves_win:
  assumes "cfg_ok cfg" and "(p, t, v) \<in> L" and "RecordVoteAndCheckMajority p t rn = (True, rn1)"
    and "BecomeLeader t i rn1 = (b, rn2)"
  shows "evolves cfg L v rn rn2"
  unfolding evolves_def
proof (intro allI impI)
  fix s assume s: "election_inv cfg s \<and> node s v = rn \<and> L \<subseteq> ledger s"
  let ?s = "s\<lparr>node := (node s)(v := rn1), majorities := insert (v, t) (majorities s)\<rparr>"
  have i: "election_inv cfg ?s" using tally_inv [of cfg s p t v True rn1] s assms by auto
  have "election_inv cfg (?s\<lparr>node := (node ?s)(v := rn2), leaders := (if b then insert (v, t) (leaders ?s) else leaders ?s)\<rparr>)"
    by (rule promote_inv [OF i, of v t i]) (use assms(4) in simp_all)
  then show "grows cfg v s rn2" unfolding grows_def by (intro exI conjI, assumption) auto
qed

text \<open>Every transition the engine makes its node take is one of these, so the whole engine evolves its node.\<close>

interpretation ev: node_steps "\<lambda>rn rn'. cfg_ok cfg \<and> v \<noteq> -1 \<longrightarrow> evolves cfg L v rn rn'" "\<lambda>p t. (p, t, v) \<in> L" for cfg L v
proof unfold_locales
  fix t l rn b rn' assume "BecomeFollower t l rn = (b, rn')"
  then show "cfg_ok cfg \<and> v \<noteq> -1 \<longrightarrow> evolves cfg L v rn rn'"
    using becomeFollower_quiet evolves_quiet by (auto simp: BecomeFollower_def)
next
  fix li ta ct rn r rn' assume "AdvanceCommitIndex li ta ct rn = (r, rn')"
  then show "cfg_ok cfg \<and> v \<noteq> -1 \<longrightarrow> evolves cfg L v rn rn'"
    using evolves_quiet [OF quiet_steps(10), of cfg L v rn li ta ct] by simp
next
  fix rn :: RaftNode and la
  have "quiet rn (rn\<lparr>LastApplied := la\<rparr>)" by (rule quiet_update) simp_all
  then show "cfg_ok cfg \<and> v \<noteq> -1 \<longrightarrow> evolves cfg L v rn (rn\<lparr>LastApplied := la\<rparr>)" using evolves_quiet by blast
qed (blast intro: evolves_refl evolves_trans evolves_campaign evolves_lone_lead evolves_tally evolves_win
  evolves_quiet [OF append_entries_quiet] evolves_quiet [OF install_snapshot_quiet] evolves_quiet [OF request_vote_quiet]
  evolves_quiet [OF quiet_steps(3)] evolves_quiet [OF quiet_steps(4)])+

section \<open>The invariant\<close>

definition represents :: "Configuration \<Rightarrow> Fleet \<Rightarrow> Cluster \<Rightarrow> bool" where
  "represents cfg s c \<longleftrightarrow> election_inv cfg c \<and> node c = (\<lambda>i. e_node (engines s i)) \<and> granted s \<subseteq> ledger c \<and>
     ledger c \<subseteq> granted s \<union> {(v, t, v) |v t. True} \<and> led s \<subseteq> leaders c"

lemma represents_observe: "represents cfg s c \<Longrightarrow> represents cfg (observe s) c"
  by (auto simp: represents_def observe_def leading_def election_inv_def leads_ok_def IsLeader_def node_CurrentTerm_def)

lemma represents_evolve:
  assumes "represents cfg s c" and "evolves cfg (granted s) i (e_node (engines s i)) (e_node e')"
  shows "\<exists>c'. represents cfg (s\<lparr>engines := (engines s)(i := e')\<rparr>) c'"
proof -
  have "grows cfg i c (e_node e')" using assms by (auto simp: represents_def evolves_def)
  then obtain c' where "election_inv cfg c'" "node c' = (node c)(i := e_node e')" "ledger c \<subseteq> ledger c'"
      "ledger c' \<subseteq> ledger c \<union> range (\<lambda>t. (i, t, i))" "leaders c \<subseteq> leaders c'"
    by (auto simp: grows_def)
  with assms(1) have "represents cfg (s\<lparr>engines := (engines s)(i := e')\<rparr>) c'" by (auto simp: represents_def fun_eq_iff)
  then show ?thesis ..
qed

lemma represents_step:
  assumes "cfg_ok cfg" and "fleet_step cd s s'" and "\<exists>c. represents cfg s c"
  shows "\<exists>c. represents cfg s' c"
  using assms(2,3)
proof (induction rule: fleet_step.induct)
  case (act i s a)
  then obtain c where "represents cfg s c" by blast
  have "countable_vote (\<lambda>p t. (p, t, i) \<in> granted s) a"
    using act(2) by (auto simp: countable_vote_def sincere_def split: action.split event.split)
  then have "evolves cfg (granted s) i (e_node (engines s i)) (e_node (engineStep cd a (engines s i)))"
    using ev.step [of i "granted s" a cfg] assms(1) act(1) by simp
  from represents_evolve [OF \<open>represents cfg s c\<close> this] represents_observe show ?case by blast
next
  case (vote s v req now resp e')
  then obtain c where c: "represents cfg s c" by blast
  obtain rn where h: "HandleRequestVote now req (LastLogState (e_log (engines s v))) (node c v) = (resp, rn)" "e_node e' = rn"
    using vote(3) c by (auto simp: engine_HandleRequestVote_def represents_def split: prod.splits)
  have "election_inv cfg (c\<lparr>node := (node c)(v := rn),
      ledger := (if rvr_VoteGranted resp then insert (v, rvr_Term resp, rv_CandidateID req) (ledger c) else ledger c)\<rparr>)"
    using c vote(2) by (intro vote_inv [OF _ h(1)]) (auto simp: represents_def)
  then have "represents cfg (s\<lparr>engines := (engines s)(v := e'),
      granted := (if rvr_VoteGranted resp then insert (v, rvr_Term resp, rv_CandidateID req) (granted s) else granted s)\<rparr>)
      (c\<lparr>node := (node c)(v := rn),
      ledger := (if rvr_VoteGranted resp then insert (v, rvr_Term resp, rv_CandidateID req) (ledger c) else ledger c)\<rparr>)"
    using c h(2) by (auto simp: represents_def fun_eq_iff)
  then show ?case using represents_observe by blast
next
  case (crash p s v now os rn rnd idx rl sm f)
  then obtain c where c: "represents cfg s c" by blast
  let ?e = "NewWithTransport rnd (SeedFromSnapshot idx rn) rl sm f"
  have d: "durable (e_node (engines s v))" "cfg_wf (config (e_node (engines s v)))"
    using c assms(1) by (auto simp: represents_def inv_defs cfg_ok_def)
  note r = restart_steps [OF crash(2,1) d]
  have "quiet (e_node (engines s v)) rn" using r by (simp add: quiet_def keeps_def)
  then have "quiet (e_node (engines s v)) (e_node ?e)"
    using quiet_trans [OF _ quiet_trans [OF quiet_steps(9) quiet_steps(1)]] by (simp add: NewWithTransport_def resetElectionTimeout_def)
  from represents_evolve [OF c evolves_quiet [OF this]] represents_observe show ?case by blast
qed

lemma represents_reachable:
  assumes "cfg_ok cfg" and "fleet_reachable cd cfg s"
  shows "\<exists>c. represents cfg s c"
  using assms(2)
proof (induction rule: fleet_reachable.induct)
  case (start s)
  then have "represents cfg s \<lparr>node = (\<lambda>i. e_node (engines s i)), ledger = {}, majorities = {}, leaders = {}\<rparr>"
    using initial_inv [of cfg "\<lparr>node = (\<lambda>i. e_node (engines s i)), ledger = {}, majorities = {}, leaders = {}\<rparr>"]
    by (simp add: represents_def fleet_initial_def initial_def)
  then show ?case ..
qed (use represents_step [OF assms(1)] in blast)

lemma fleet_one_leader:
  assumes "cfg_ok cfg" and "fleet_reachable cd cfg s" and "(i, t) \<in> led s \<union> leading s" and "(j, t) \<in> led s \<union> leading s"
  shows "i = j"
proof -
  obtain c where c: "represents cfg (observe s) c"
    using represents_reachable [OF assms(1,2)] represents_observe by blast
  have "(i, t) \<in> leaders c" "(j, t) \<in> leaders c" using c assms(3,4) by (auto simp: represents_def observe_def)
  then show ?thesis using one_leader [OF assms(1)] c by (auto simp: represents_def)
qed

text \<open>A leader was voted for by a quorum: itself and servers that granted it their vote in its term.\<close>

lemma leader_voters:
  assumes "cfg_ok cfg" and "fleet_reachable cd cfg s" and "(i, t) \<in> led s \<union> leading s"
  shows "quorum_of cfg (insert i {v. (v, t, i) \<in> granted s})"
proof -
  obtain c where c: "represents cfg (observe s) c"
    using represents_reachable [OF assms(1,2)] represents_observe by blast
  have "(i, t) \<in> leaders c" "ledger c \<subseteq> granted s \<union> {(v, t, v) |v t. True}"
    using c assms(3) by (auto simp: represents_def observe_def)
  then have "quorum_of cfg (voters_of c t i)" "voters_of c t i \<subseteq> insert i {v. (v, t, i) \<in> granted s}"
    using c by (auto simp: represents_def election_inv_def wins_ok_def voters_of_def)
  then show ?thesis by (rule cq.quorum_mono)
qed

section \<open>Winning\<close>

definition grantTurn :: "nanos \<Rightarrow> int \<Rightarrow> int \<Rightarrow> action" where
  "grantTurn now t p = Turn 0 0 now (EvVote t p \<lparr>rvr_Term = t, rvr_VoteGranted = True\<rparr>)"

definition campaigning :: "Engine \<Rightarrow> int \<Rightarrow> (int, bool) gomap \<Rightarrow> bool" where
  "campaigning e t vs \<longleftrightarrow> \<not> e_halted e \<and> \<not> e_done e \<and> Role (e_node e) = Candidate \<and> node_CurrentTerm (e_node e) = t \<and>
     votesFrom (e_node e) = Some vs \<and> e_replicatorsTerm e \<noteq> t"

definition elected :: "Engine \<Rightarrow> int \<Rightarrow> bool" where
  "elected e t \<longleftrightarrow> IsLeader (e_node e) \<and> node_CurrentTerm (e_node e) = t \<and> e_replicatorsTerm e = t \<and>
     set (mkeys (e_replicators e)) = set (mkeys (currentPeers e))"

lemma keys_fold_mput: "set (mkeys (fold (\<lambda>p. mput p c) ps [])) = set ps"
  by (auto simp: gm.keys_dom fold_mput_const dom_def mget_def [of "[]"] split: if_splits)

lemma start_replicators:
  assumes "e_replicatorsTerm e \<noteq> node_CurrentTerm (e_node e)"
  shows "e_replicatorsTerm (startReplicators e) = node_CurrentTerm (e_node e)" "e_node (startReplicators e) = e_node e"
    and "set (mkeys (e_replicators (startReplicators e))) = set (mkeys (currentPeers e))"
  using assms by (simp_all add: startReplicators_def stopReplicators_def Let_def currentPeers_def keys_fold_mput)

lemma promoted:
  assumes "Role (e_node e) = Candidate" and "node_CurrentTerm (e_node e) = t" and "e_replicatorsTerm e \<noteq> t"
  shows "elected (engine_becomeLeader cd now t i e) t"
proof -
  obtain rn where b: "BecomeLeader t i (e_node e) = (True, rn)" "Role rn = Leader" "persistent rn = persistent (e_node e)"
    using assms(1,2) by (simp add: BecomeLeader_def node_CurrentTerm_def Let_def)
  obtain x where x: "engine_becomeLeader cd now t i e = startReplicators x" "e_node x = rn" "e_replicatorsTerm x = e_replicatorsTerm e"
    using b(1) by (simp add: engine_becomeLeader_def resetLeadershipEvidence_def Let_def noop_fields split: option.split prod.split)
  have "node_CurrentTerm (e_node x) = t" using x(2) b(3) assms(2) by (simp add: node_CurrentTerm_def)
  with start_replicators [of x] x b(2) assms(3) show ?thesis by (simp add: elected_def IsLeader_def currentPeers_def)
qed

lemma granted_vote:
  assumes "campaigning e t vs"
  shows "if HasQuorum (config (e_node e)) (mput p True vs) then elected (engineStep cd (grantTurn now t p) e) t
    else campaigning (engineStep cd (grantTurn now t p) e) t (mput p True vs) \<and>
      config (e_node (engineStep cd (grantTurn now t p) e)) = config (e_node e)"
proof -
  let ?rn = "(e_node e)\<lparr>votesFrom := Some (mput p True vs)\<rparr>"
  have r: "RecordVoteAndCheckMajority p t (e_node e) = (HasQuorum (config (e_node e)) (mput p True vs), ?rn)"
    using assms by (simp add: RecordVoteAndCheckMajority_def campaigning_def node_CurrentTerm_def Let_def)
  then have s: "engineStep cd (grantTurn now t p) e =
      (if HasQuorum (config (e_node e)) (mput p True vs)
       then engine_becomeLeader cd now t (LatestIndex (e_log e)) (e\<lparr>e_node := ?rn\<rparr>) else e\<lparr>e_node := ?rn\<rparr>)"
    using assms by (simp add: engineStep_def grantTurn_def runTurn_def handleVoteResult_def campaigning_def node_State_def
        node_CurrentTerm_def Let_def)
  have "elected (engine_becomeLeader cd now t (LatestIndex (e_log e)) (e\<lparr>e_node := ?rn\<rparr>)) t"
    using assms by (intro promoted) (simp_all add: campaigning_def node_CurrentTerm_def)
  then show ?thesis using assms unfolding s by (simp add: campaigning_def node_CurrentTerm_def)
qed

lemma elected_stays: "elected e t \<Longrightarrow> engineStep cd (grantTurn now t p) e = e"
  by (simp add: elected_def IsLeader_def engineStep_def grantTurn_def runTurn_def handleVoteResult_def node_State_def Let_def)

lemma votes_elect:
  assumes "campaigning e t vs" and "cfg_wf (config (e_node e))" and "ps \<noteq> []" and "quorum_of (config (e_node e)) (have_set vs \<union> set ps)"
  shows "elected (fold (\<lambda>p. engineStep cd (grantTurn now t p)) ps e) t"
  using assms
proof (induction ps arbitrary: e vs)
  case (Cons p ps)
  let ?e = "engineStep cd (grantTurn now t p) e"
  have stays: "fold (\<lambda>p. engineStep cd (grantTurn now t p)) qs x = x" if "elected x t" for qs x
    using that elected_stays [OF that] by (induction qs) simp_all
  show ?case
  proof (cases "HasQuorum (config (e_node e)) (mput p True vs)")
    case True
    then have "elected ?e t" using granted_vote [OF Cons.prems(1), of p cd now] by simp
    then show ?thesis using stays by simp
  next
    case False
    then have c: "campaigning ?e t (mput p True vs)" "config (e_node ?e) = config (e_node e)"
      using granted_vote [OF Cons.prems(1), of p cd now] by simp_all
    have "ps \<noteq> []" using False Cons.prems(2,4) by (auto simp: HasQuorum_iff have_set_mput)
    with Cons.IH [OF c(1)] c(2) Cons.prems(2,4) show ?thesis by (simp add: have_set_mput)
  qed
qed simp

section \<open>A run\<close>

text \<open>A cluster of one server: its election timeout passes, it campaigns alone and leads.\<close>

definition loneNode :: "int \<Rightarrow> RaftNode" where
  "loneNode v = (demoNode v)\<lparr>config := NewConfiguration [(1, ''a'')]\<rparr>"

definition loneFleet :: Fleet where
  "loneFleet = \<lparr>engines = (\<lambda>v. NewWithTransport 0 (loneNode v) (demoWhole []) NewMemoryStateMachine
     \<lparr>visible = None, survivors = [None], calls = []\<rparr>), granted = {}, led = {}\<rparr>"

definition loneTick :: action where
  "loneTick = Turn 0 0 1000000000 EvTick"

lemma lone_leads:
  "IsLeader (e_node (engineStep demoCodecs loneTick (engines loneFleet 1)))"
  "node_CurrentTerm (e_node (engineStep demoCodecs loneTick (engines loneFleet 1))) = 1"
proof -
  note l = demoWhole_append [of "[]" 1 "[]", simplified]
  have n: "LastLogState (demoWhole []) = (0, 0)" "\<not> NeedsCompaction x 0" for x
    by (simp_all add: LastLogState_def lastIndexLocked_def NeedsCompaction_def demoWhole_def Let_def)
  note evs = engineStep_def runTurn_def onTick_def loneTick_def loneFleet_def NewWithTransport_def resetElectionTimeout_def
      loneNode_def demoNode_def SetMinElectionTimeout_def electionTimeoutMin_def IsLeader_def node_CurrentTerm_def
      node_State_def reconcileLeadership_def failAllReads_def TimeSinceContact_def startPreVote_def runElection_def
      BecomeCandidate_def commitPersistentLocked_def Save_def engine_becomeLeader_def BecomeLeader_def
      resetLeadershipEvidence_def startReplicators_def currentPeers_def node_Peers_def solo_config solo_peers
      mput_def l n CommitAndApplyBoundary_def mkeys_def applyCommitted_def applyLoop.simps demoCodecs_def Let_def
      maybeCompact_def fireReadWaiters_def fireApplyWaiters_def checkQuorum_def sweepExpiredWaiters_def sweepExpiredReads_def
      sweepExpiredApplyWaiters_def
  show "IsLeader (e_node (engineStep demoCodecs loneTick (engines loneFleet 1)))"
    "node_CurrentTerm (e_node (engineStep demoCodecs loneTick (engines loneFleet 1))) = 1"
    by (simp_all add: evs)
qed

section \<open>Properties\<close>

text \<open>C6. Election safety of the whole program: in a cluster of engines, whatever their control
  loops, replicators, timers and inbound calls do in whatever order, whichever messages are
  lost, repeated or late, and whichever servers crash and come back, no two servers are ever
  seen to lead in the same term, at one time or at different times.\<close>

theorem engine_election_safety:
  assumes "cfg_ok cfg" and "fleet_reachable cd cfg s" and "(i, t) \<in> led s \<union> leading s" and "(j, t) \<in> led s \<union> leading s"
  shows "i = j"
  by (rule fleet_one_leader [OF assms])

theorem engine_election_safety_witness:
  "\<exists>s. fleet_reachable demoCodecs (NewConfiguration [(1, ''a'')]) s \<and> (1, 1) \<in> led s \<and> (\<forall>j. (j, 1) \<in> led s \<longrightarrow> j = 1)"
proof -
  let ?s = "observe (loneFleet\<lparr>engines := (engines loneFleet)(1 := engineStep demoCodecs loneTick (engines loneFleet 1))\<rparr>)"
  have i: "fleet_initial (NewConfiguration [(1, ''a'')]) loneFleet"
    by (simp add: fleet_initial_def loneFleet_def NewWithTransport_def resetElectionTimeout_def SetMinElectionTimeout_def
        loneNode_def demoNode_def durable_def)
  have r: "fleet_reachable demoCodecs (NewConfiguration [(1, ''a'')]) ?s"
    by (rule fleet_reachable.step [OF fleet_reachable.start [OF i] fleet_step.act]) (simp_all add: sincere_def loneTick_def)
  have l: "(1, 1) \<in> led ?s" using lone_leads by (simp add: observe_def leading_def)
  have "cfg_ok (NewConfiguration [(1, ''a'')])" by (simp add: cfg_ok_def cfg_wf_def mwf_def solo_config)
  from engine_election_safety [OF this r, of 1 1] r l show ?thesis by blast
qed

text \<open>C22. A quorum elects: when the grants of servers that make a quorum together with the votes
  already counted reach the control loop of a candidate in its term, in any order, the engine
  leads in that term at the latest with the last of them, with a replicator running for each
  of its peers.\<close>

theorem quorum_elects:
  assumes "campaigning e t vs" and "cfg_wf (config (e_node e))" and "ps \<noteq> []"
    and "quorum_of (config (e_node e)) (have_set vs \<union> set ps)"
  shows "elected (fold (engineStep cd) (map (grantTurn now t) ps) e) t"
  using votes_elect [OF assms, of cd now] by (simp add: fold_map comp_def)

definition demoCandidate :: Engine where
  "demoCandidate = NewWithTransport 0 ((demoSaved 1 \<lparr>CurrentTerm = 1, VotedFor = 1\<rparr>)\<lparr>Role := Candidate, votesFrom := Some [(1, True)]\<rparr>)
     (demoWhole []) NewMemoryStateMachine \<lparr>visible = None, survivors = [None], calls = []\<rparr>"

theorem quorum_elects_witness:
  "campaigning demoCandidate 1 [(1, True)] \<and> elected (fold (engineStep demoCodecs) (map (grantTurn 5 1) [3]) demoCandidate) 1"
proof -
  have c: "campaigning demoCandidate 1 [(1, True)]" "config (e_node demoCandidate) = demoConfig"
    by (simp_all add: campaigning_def demoCandidate_def NewWithTransport_def resetElectionTimeout_def SetMinElectionTimeout_def
        demoSaved_def demoNode_def node_CurrentTerm_def)
  have w: "cfg_wf demoConfig" using demoConfig_ok by (simp add: cfg_ok_def)
  have "have_set [(1, True), (3, True)] = {1, 3}" by (auto simp: have_set_def mget0_def split: if_splits)
  moreover have "have_set [(1, True)] = {1}" by (auto simp: have_set_def mget0_def split: if_splits)
  moreover have "HasQuorum demoConfig [(1, True), (3, True)]" by code_simp
  ultimately have "quorum_of demoConfig (have_set [(1, True)] \<union> set [3])" using HasQuorum_iff [OF w] by (auto simp: insert_commute)
  with c w quorum_elects [of demoCandidate 1 "[(1, True)]" "[3]" demoCodecs 5] show ?thesis by simp
qed

end
