(* ===== verification/Node_Config.thy ===== *)
theory Node_Config
  imports Raft_Config Json_Codec
begin

text \<open>
  The command line of a node, \<^verbatim>\<open>internal/config/config.go\<close>: the configuration record, the
  paths derived from its data directory, and the parsing and validation of the flags.
  What of \<^verbatim>\<open>strings\<close>, \<^verbatim>\<open>fmt\<close> and \<^verbatim>\<open>path/filepath\<close> (on Unix) the file uses is written out.  The
  lemmas show that a peer list parses back to the members it names, and that the
  configurations accepted on two nodes that name the same servers have meeting quorums.
\<close>

section \<open>Library routines\<close>

text \<open>\<^verbatim>\<open>strings.Split\<close> on a one-byte separator, and \<^verbatim>\<open>strings.SplitN\<close> with limit 2.\<close>

fun splitOn :: "char \<Rightarrow> string \<Rightarrow> string list" where
  "splitOn c [] = [[]]"
| "splitOn c (x # xs) =
     (if x = c then [] # splitOn c xs
      else case splitOn c xs of [] \<Rightarrow> [[x]] | w # ws \<Rightarrow> (x # w) # ws)"

definition splitOnce :: "char \<Rightarrow> string \<Rightarrow> string list" where
  "splitOnce c s =
     (if c \<in> set s then [takeWhile (\<lambda>x. x \<noteq> c) s, tl (dropWhile (\<lambda>x. x \<noteq> c) s)] else [s])"

text \<open>
  \<^verbatim>\<open>fmt.Sscanf\<close> skips white space first: the ASCII blanks and the UTF-8 forms of the other
  Unicode ones.  A newline is an error, the result \<^const>\<open>None\<close>.
\<close>

definition spaces1 :: "char list" where
  "spaces1 = [CHR 0x09, CHR 0x0B, CHR 0x0C, CHR 0x0D, CHR 0x20]"

definition spaces2 :: "bytes list" where
  "spaces2 = [[CHR 0xC2, CHR 0x85], [CHR 0xC2, CHR 0xA0]]"

definition spaces3 :: "bytes list" where
  "spaces3 = [CHR 0xE1, CHR 0x9A, CHR 0x80] # [CHR 0xE2, CHR 0x81, CHR 0x9F] # [CHR 0xE3, CHR 0x80, CHR 0x80]
     # map (\<lambda>c. [CHR 0xE2, CHR 0x80, c])
         [CHR 0x80, CHR 0x81, CHR 0x82, CHR 0x83, CHR 0x84, CHR 0x85, CHR 0x86, CHR 0x87, CHR 0x88, CHR 0x89,
          CHR 0x8A, CHR 0xA8, CHR 0xA9, CHR 0xAF]"

fun skipSpace :: "bytes \<Rightarrow> bytes option" where
  "skipSpace [] = Some []"
| "skipSpace (a # r) =
     (if a = CHR 0x0A then None
      else if a \<in> set spaces1 then skipSpace r
      else case r of
             [] \<Rightarrow> Some (a # r)
           | b # r' \<Rightarrow>
               (if [a, b] \<in> set spaces2 then skipSpace r'
                else case r' of
                       [] \<Rightarrow> Some (a # r)
                     | c # r'' \<Rightarrow> if [a, b, c] \<in> set spaces3 then skipSpace r'' else Some (a # r)))"

text \<open>
  \<^verbatim>\<open>fmt.Sscanf(s, "%d", &x)\<close> for a 64-bit \<^verbatim>\<open>int\<close>: an optional sign, digits, and whatever
  follows is left unread.
\<close>

definition sscanfInt :: "bytes \<Rightarrow> int option" where
  "sscanfInt s =
     (case skipSpace s of
        None \<Rightarrow> None
      | Some b \<Rightarrow>
          (let (neg, b) = (case b of c # r \<Rightarrow> if c = CHR ''-'' then (True, r) else if c = CHR ''+'' then (False, r) else (False, b)
                           | [] \<Rightarrow> (False, b));
               ds = takeWhile isDigit b;
               v = (if neg then - int (digitsValue ds) else int (digitsValue ds))
           in if ds = [] then None
              else if - (2 ^ 63) \<le> v \<and> v < 2 ^ 63 then Some v else None))"

text \<open>
  \<^verbatim>\<open>filepath.Clean\<close>: the elements of a path, with the empty ones and \<^verbatim>\<open>.\<close> dropped and every
  \<^verbatim>\<open>..\<close> taken together with the element before it; at the root it vanishes.
\<close>

definition cleanElem :: "bool \<Rightarrow> string \<Rightarrow> string list \<Rightarrow> string list" where
  "cleanElem rooted w out =
     (if w = [] \<or> w = ''.'' then out
      else if w = ''..'' then
        (if out \<noteq> [] \<and> last out \<noteq> ''..'' then butlast out
         else if rooted then out else out @ [w])
      else out @ [w])"

definition cleanElems :: "string \<Rightarrow> string list" where
  "cleanElems p = fold (cleanElem (take 1 p = ''/'')) (splitOn (CHR ''/'') p) []"

definition filepathClean :: "string \<Rightarrow> string" where
  "filepathClean p =
     (if p = [] then ''.''
      else let es = cleanElems p in
           if take 1 p = ''/'' then CHR ''/'' # joinStrings ''/'' es
           else if es = [] then ''.'' else joinStrings ''/'' es)"

definition filepathJoin :: "string \<Rightarrow> string \<Rightarrow> string" where
  "filepathJoin a b =
     (if a \<noteq> [] then filepathClean (joinStrings ''/'' [a, b])
      else if b \<noteq> [] then filepathClean b else [])"

section \<open>The configuration\<close>

record Config =
  cfg_NodeID :: int
  cfg_Port :: string
  cfg_DataDir :: string
  cfg_Peers :: "(int, string) gomap"
  cfg_CompactionThreshold :: int
  cfg_SessionTTL :: nanos

definition SelfAddr :: "Config \<Rightarrow> string" where
  "SelfAddr c = ''localhost'' @ cfg_Port c"

definition WALPath :: "Config \<Rightarrow> string" where
  "WALPath c = filepathJoin (cfg_DataDir c) ''raft.wal''"

definition MetadataPath :: "Config \<Rightarrow> string" where
  "MetadataPath c = filepathJoin (cfg_DataDir c) ''raft.meta''"

definition SnapshotPath :: "Config \<Rightarrow> string" where
  "SnapshotPath c = filepathJoin (cfg_DataDir c) ''snapshot.json''"

datatype flag_error =
    PeerEntry string
  | PeerID string
  | NodeIDNotPositive int
  | DataDirEmpty
  | SelfAmongPeers int string

text \<open>The map is updated in place; the entries before a bad one are in it.\<close>

fun parseEntries :: "string list \<Rightarrow> (int, string) gomap \<Rightarrow> flag_error option \<times> (int, string) gomap" where
  "parseEntries [] peers = (None, peers)"
| "parseEntries (entry # rest) peers =
     (case splitOnce (CHR '':'') entry of
        [p, addr] \<Rightarrow>
          (case sscanfInt p of
             None \<Rightarrow> (Some (PeerID entry), peers)
           | Some peerID \<Rightarrow> parseEntries rest (mput peerID addr peers))
      | _ \<Rightarrow> (Some (PeerEntry entry), peers))"

definition parsePeers :: "string \<Rightarrow> (int, string) gomap \<Rightarrow> flag_error option \<times> (int, string) gomap" where
  "parsePeers raw peers = (if raw = [] then (None, peers) else parseEntries (splitOn (CHR '','') raw) peers)"

definition validate :: "Config \<Rightarrow> flag_error option" where
  "validate c =
     (if cfg_NodeID c \<le> 0 then Some (NodeIDNotPositive (cfg_NodeID c))
      else if cfg_DataDir c = [] then Some DataDirEmpty
      else case mget (cfg_Peers c) (cfg_NodeID c) of
             Some addr \<Rightarrow> Some (SelfAmongPeers (cfg_NodeID c) addr)
           | None \<Rightarrow> None)"

text \<open>The values of the flags after \<^verbatim>\<open>flag.Parse\<close>, and those of a command line without any.\<close>

record Flags =
  idFlag :: int
  portFlag :: string
  dataDirFlag :: string
  peersFlag :: string
  compactionFlag :: int
  sessionTTLFlag :: nanos

definition defaultFlags :: Flags where
  "defaultFlags = \<lparr>idFlag = 1, portFlag = ''8080'', dataDirFlag = ''data'', peersFlag = [],
     compactionFlag = 0, sessionTTLFlag = 0\<rparr>"

definition ParseFlags :: "Flags \<Rightarrow> flag_error + Config" where
  "ParseFlags f =
     (let cfg = \<lparr>cfg_NodeID = idFlag f, cfg_Port = '':'' @ portFlag f, cfg_DataDir = dataDirFlag f,
                 cfg_Peers = [], cfg_CompactionThreshold = compactionFlag f, cfg_SessionTTL = sessionTTLFlag f\<rparr>
      in case parsePeers (peersFlag f) (cfg_Peers cfg) of
           (Some err, _) \<Rightarrow> Inl err
         | (None, peers) \<Rightarrow>
             (let cfg = cfg\<lparr>cfg_Peers := peers\<rparr> in
              case validate cfg of Some err \<Rightarrow> Inl err | None \<Rightarrow> Inr cfg))"

text \<open>The bootstrap membership \<^verbatim>\<open>main\<close> builds from it: the peers, and the node itself.\<close>

definition bootstrapVoters :: "Config \<Rightarrow> (int, string) gomap" where
  "bootstrapVoters cfg =
     mput (cfg_NodeID cfg) (SelfAddr cfg) (fold (\<lambda>(pid, addr). mput pid addr) (cfg_Peers cfg) [])"

section \<open>Splitting and joining\<close>

lemma splitOn_nonempty [simp]: "splitOn c s \<noteq> []"
  by (induction s) (auto split: list.splits)

lemma splitOn_none: "c \<notin> set s \<Longrightarrow> splitOn c s = [s]"
  by (induction s) auto

lemma splitOn_append: "splitOn c (s @ c # t) = splitOn c s @ splitOn c t"
  by (induction s) (auto split: list.splits simp: Cons_eq_append_conv)

lemma splitOn_join:
  assumes "ws \<noteq> []" and "\<forall>w \<in> set ws. c \<notin> set w"
  shows "splitOn c (joinStrings [c] ws) = ws"
  using assms by (induction "[c]" ws rule: joinStrings.induct) (auto simp: splitOn_none splitOn_append)

lemma splitOn_elem: "w \<in> set (splitOn c s) \<Longrightarrow> c \<notin> set w"
  by (induction s arbitrary: w) (auto split: list.splits if_splits)

lemma splitOnce_append: "c \<notin> set a \<Longrightarrow> splitOnce c (a @ c # b) = [a, b]"
  by (simp add: splitOnce_def takeWhile_append dropWhile_append)

section \<open>Numbers\<close>

lemma skipSpace_start:
  "a \<notin> set (CHR 0x0A # CHR 0xC2 # CHR 0xE1 # CHR 0xE2 # CHR 0xE3 # spaces1) \<Longrightarrow> skipSpace (a # r) = Some (a # r)"
  by (auto simp: spaces2_def spaces3_def split: list.splits)

lemma digit_start: "isDigit a \<Longrightarrow> skipSpace (a # r) = Some (a # r)"
  by (rule skipSpace_start) (auto simp: isDigit_def spaces1_def)

lemma sscanf_nat_dec: "n < 2 ^ 63 \<Longrightarrow> sscanfInt (nat_dec n) = Some (int n)"
proof -
  assume n: "n < 2 ^ 63"
  obtain c cs where c: "nat_dec n = c # cs" using nat_dec_Cons [of n] by (cases "nat_dec n") auto
  have d: "\<forall>x \<in> set (nat_dec n). isDigit x" by (rule nat_dec_digits)
  then have "isDigit c" "c \<noteq> CHR ''-''" "c \<noteq> CHR ''+''" by (auto simp: c isDigit_def)
  moreover have "takeWhile isDigit cs = cs" using d by (simp add: c)
  moreover have "int n < 2 ^ 63" using n by simp
  ultimately show ?thesis
    using nat_dec_Cons [of n] by (simp add: sscanfInt_def c digit_start nat_dec_value [of n, unfolded c] Let_def del: skipSpace.simps takeWhile_eq_all_conv)
qed

lemma sscanf_int_dec:
  assumes "- (2 ^ 63) \<le> i" and "i < 2 ^ 63"
  shows "sscanfInt (int_dec i) = Some i"
proof (cases "i < 0")
  case True
  have d: "takeWhile isDigit (nat_dec (nat (- i))) = nat_dec (nat (- i))" by (simp add: nat_dec_digits)
  have "skipSpace (CHR ''-'' # nat_dec (nat (- i))) = Some (CHR ''-'' # nat_dec (nat (- i)))"
    by (rule skipSpace_start) (simp add: spaces1_def)
  then show ?thesis using True assms
    by (simp add: sscanfInt_def int_dec_def nat_dec_value nat_dec_Cons d Let_def del: skipSpace.simps takeWhile_eq_all_conv)
next
  case False
  with assms have "nat i < 2 ^ 63" by (simp add: nat_less_iff)
  from sscanf_nat_dec [OF this] False show ?thesis by (simp add: int_dec_def)
qed

lemma int_dec_chars: "c \<in> set (int_dec i) \<Longrightarrow> isDigit c \<or> c = CHR ''-''"
  using nat_dec_digits by (auto simp: int_dec_def split: if_splits)

section \<open>Peer lists\<close>

text \<open>The documented form of a peer list, \<^verbatim>\<open>id:host:port,id:host:port\<close>.\<close>

definition renderPeers :: "(int \<times> string) list \<Rightarrow> string" where
  "renderPeers kvs = joinStrings '','' (map (\<lambda>(i, a). int_dec i @ '':'' @ a) kvs)"

definition listable :: "int \<times> string \<Rightarrow> bool" where
  "listable p \<longleftrightarrow> - (2 ^ 63) \<le> fst p \<and> fst p < 2 ^ 63 \<and> CHR '','' \<notin> set (snd p)"

lemma parse_rendered:
  assumes "\<forall>p \<in> set kvs. listable p"
  shows "parseEntries (map (\<lambda>(i, a). int_dec i @ '':'' @ a) kvs) peers = (None, fold (\<lambda>(i, a). mput i a) kvs peers)"
  using assms
proof (induction kvs arbitrary: peers)
  case (Cons p kvs)
  obtain i a where p: "p = (i, a)" by force
  have "CHR '':'' \<notin> set (int_dec i)" by (auto dest!: int_dec_chars simp: isDigit_def)
  then have "splitOnce (CHR '':'') (int_dec i @ CHR '':'' # a) = [int_dec i, a]" by (rule splitOnce_append)
  with Cons show ?case by (simp add: p listable_def sscanf_int_dec)
qed simp

lemma rendered_split:
  assumes "\<forall>p \<in> set kvs. listable p" and "kvs \<noteq> []"
  shows "renderPeers kvs \<noteq> []"
    and "splitOn (CHR '','') (renderPeers kvs) = map (\<lambda>(i, a). int_dec i @ '':'' @ a) kvs"
proof -
  have "CHR '','' \<notin> set (int_dec i)" for i by (auto dest!: int_dec_chars simp: isDigit_def)
  with assms(1) have "\<forall>w \<in> set (map (\<lambda>(i, a). int_dec i @ '':'' @ a) kvs). CHR '','' \<notin> set w"
    by (auto simp: listable_def)
  with assms(2) show s: "splitOn (CHR '','') (renderPeers kvs) = map (\<lambda>(i, a). int_dec i @ '':'' @ a) kvs"
    unfolding renderPeers_def by (intro splitOn_join) auto
  show "renderPeers kvs \<noteq> []"
  proof
    assume "renderPeers kvs = []"
    with s assms(2) show False by (cases kvs) auto
  qed
qed

lemma parseEntries_mwf: "parseEntries ws m = (r, m') \<Longrightarrow> mwf m \<Longrightarrow> mwf m'"
  by (induction ws m rule: parseEntries.induct) (auto split: list.splits option.splits simp: gm.wf_put)

lemma ParseFlags_ok:
  assumes "ParseFlags f = Inr c"
  shows "cfg_NodeID c = idFlag f" "0 < cfg_NodeID c" "cfg_DataDir c = dataDirFlag f" "cfg_DataDir c \<noteq> []"
    and "mget (cfg_Peers c) (cfg_NodeID c) = None" "mwf (cfg_Peers c)" "parsePeers (peersFlag f) [] = (None, cfg_Peers c)"
proof -
  obtain peers where p: "parsePeers (peersFlag f) [] = (None, peers)"
    and v: "validate c = None" and c: "cfg_NodeID c = idFlag f" "cfg_DataDir c = dataDirFlag f" "cfg_Peers c = peers"
    using assms by (auto simp: ParseFlags_def Let_def split: prod.splits option.splits)
  have "mwf ([] :: (int, string) gomap)" by (simp add: mwf_def)
  with p show "mwf (cfg_Peers c)" by (auto simp: c parsePeers_def split: if_splits elim: parseEntries_mwf)
  from v c p show "cfg_NodeID c = idFlag f" "0 < cfg_NodeID c" "cfg_DataDir c = dataDirFlag f" "cfg_DataDir c \<noteq> []"
    "mget (cfg_Peers c) (cfg_NodeID c) = None" "parsePeers (peersFlag f) [] = (None, cfg_Peers c)"
    by (auto simp: validate_def split: if_splits option.splits)
qed

section \<open>The bootstrap membership\<close>

lemma bootstrapVoters_get:
  "mwf (cfg_Peers c) \<Longrightarrow> mget (bootstrapVoters c) = (mget (cfg_Peers c))(cfg_NodeID c \<mapsto> SelfAddr c)"
  "mwf (cfg_Peers c) \<Longrightarrow> mwf (bootstrapVoters c)"
  by (simp_all add: bootstrapVoters_def gm.lookup_put gm.wf_put copyMembers_id [unfolded copyMembers_def])

lemma bootstrapVoters_size:
  assumes "mwf (cfg_Peers c)" and "mget (cfg_Peers c) (cfg_NodeID c) = None"
  shows "length (bootstrapVoters c) = Suc (length (cfg_Peers c))"
  using assms by (simp add: length_dom bootstrapVoters_get domIff)

lemma validateVoters_iff: "validateVoters vs = None \<longleftrightarrow> (\<forall>(i, a) \<in> set vs. 0 < i \<and> a \<noteq> [])"
  by (induction vs rule: validateVoters.induct) auto

lemma majority_same_dom:
  assumes "mwf m" and "mwf n" and "dom (mget m) = dom (mget n)"
  shows "majority_of m A = majority_of n A"
proof -
  have l: "length m = length n" using assms by (simp add: length_dom)
  then have "m = [] \<longleftrightarrow> n = []" by (metis length_0_conv)
  with l show ?thesis by (simp only: majority_of_def assms(3))
qed

section \<open>Paths\<close>

definition pathElem :: "string \<Rightarrow> bool" where
  "pathElem w \<longleftrightarrow> w \<noteq> [] \<and> w \<noteq> ''.'' \<and> CHR ''/'' \<notin> set w"

lemma cleanElem_elems:
  assumes "CHR ''/'' \<notin> set w" and "\<forall>v \<in> set out. pathElem v"
  shows "\<forall>v \<in> set (cleanElem r w out). pathElem v"
  using assms by (auto simp: cleanElem_def pathElem_def dest: in_set_butlastD)

lemma cleanElems_elems: "\<forall>w \<in> set (cleanElems p). pathElem w"
proof -
  have "\<forall>w \<in> set (fold (cleanElem r) ws out). pathElem w"
    if "\<forall>w \<in> set ws. CHR ''/'' \<notin> set w" "\<forall>v \<in> set out. pathElem v" for r ws out
    using that
  proof (induction ws arbitrary: out)
    case (Cons w ws)
    have "\<forall>v \<in> set (cleanElem r w out). pathElem v" using Cons.prems by (intro cleanElem_elems) auto
    with Cons show ?case by simp
  qed simp
  from this [of "splitOn (CHR ''/'') p" "[]"] show ?thesis unfolding cleanElems_def using splitOn_elem by auto
qed

text \<open>A plain file name in a directory is one more element of its path.\<close>

lemma cleanElems_join:
  assumes "d \<noteq> []" and "pathElem n" and "n \<noteq> ''..''"
  shows "cleanElems (d @ CHR ''/'' # n) = cleanElems d @ [n]"
proof -
  have "take 1 (d @ CHR ''/'' # n) = take 1 d" using assms(1) by (cases d) simp_all
  with assms(2,3) show ?thesis
    by (simp add: cleanElems_def splitOn_append splitOn_none pathElem_def cleanElem_def del: splitOn.simps)
qed

definition showPath :: "bool \<Rightarrow> string list \<Rightarrow> string" where
  "showPath rooted es = (if rooted then CHR ''/'' # joinStrings ''/'' es
     else if es = [] then ''.'' else joinStrings ''/'' es)"

lemma join_start:
  assumes "\<forall>w \<in> set ws. pathElem w"
  shows "take 1 (joinStrings ''/'' ws) \<noteq> ''/''"
proof (cases "(''/'', ws)" rule: joinStrings.cases)
  case (3 sep x y ys)
  with assms show ?thesis by (cases x) (auto simp: pathElem_def)
qed (use assms in \<open>auto simp: pathElem_def take_Suc neq_Nil_conv\<close>)

lemma join_inj:
  assumes "\<forall>w \<in> set vs. pathElem w" and "\<forall>w \<in> set ws. pathElem w"
    and "joinStrings ''/'' vs = joinStrings ''/'' ws"
  shows "vs = ws"
proof -
  have s: "us = filter (\<lambda>w. w \<noteq> []) (splitOn (CHR ''/'') (joinStrings ''/'' us))"
    if "\<forall>w \<in> set us. pathElem w" for us
  proof (cases "us = []")
    case False
    with that have "splitOn (CHR ''/'') (joinStrings ''/'' us) = us" by (intro splitOn_join) (auto simp: pathElem_def)
    moreover have "filter (\<lambda>w. w \<noteq> []) us = us" using that by (auto simp: pathElem_def)
    ultimately show ?thesis by simp
  qed simp
  show ?thesis using s [OF assms(1)] s [OF assms(2)] unfolding assms(3) by simp
qed

lemma showPath_inj:
  assumes "\<forall>w \<in> set vs. pathElem w" and "\<forall>w \<in> set ws. pathElem w" and "showPath a vs = showPath b ws"
  shows "a = b \<and> vs = ws"
proof -
  have dot: "joinStrings ''/'' us \<noteq> ''.''" if "\<forall>w \<in> set us. pathElem w" for us
    using that by (cases "(''/'', us)" rule: joinStrings.cases) (auto simp: pathElem_def append_eq_Cons_conv)
  have st: "take 1 (showPath r us) = ''/'' \<longleftrightarrow> r" if "\<forall>w \<in> set us. pathElem w" for r us
    using join_start [OF that] by (auto simp: showPath_def)
  have r: "a = b" using st [OF assms(1), of a] st [OF assms(2), of b] unfolding assms(3) by blast
  show ?thesis
  proof (cases "a \<or> vs \<noteq> [] \<and> ws \<noteq> []")
    case True
    with r assms(3) have "joinStrings ''/'' vs = joinStrings ''/'' ws" by (auto simp: showPath_def split: if_splits)
    from join_inj [OF assms(1,2) this] r show ?thesis by simp
  next
    case False
    with r assms(3) dot [OF assms(1)] dot [OF assms(2)] show ?thesis
      by (auto simp: showPath_def split: if_splits)
  qed
qed

lemma filepathClean_show: "d \<noteq> [] \<Longrightarrow> filepathClean d = showPath (take 1 d = ''/'') (cleanElems d)"
  by (simp add: filepathClean_def showPath_def Let_def)

lemma filepathJoin_show:
  assumes "d \<noteq> []" and "pathElem n" and "n \<noteq> ''..''"
  shows "filepathJoin d n = showPath (take 1 d = ''/'') (cleanElems d @ [n])"
proof -
  have "take 1 (d @ CHR ''/'' # n) = take 1 d" using assms(1) by (cases d) simp_all
  with cleanElems_join [OF assms] assms(1) show ?thesis
    by (simp add: filepathJoin_def filepathClean_show)
qed

lemma filepathJoin_inj:
  assumes "d \<noteq> []" "e \<noteq> []" and "pathElem m" "m \<noteq> ''..''" and "pathElem n" "n \<noteq> ''..''"
  shows "filepathJoin d m = filepathJoin e n \<longleftrightarrow> filepathClean d = filepathClean e \<and> m = n"
proof
  assume "filepathJoin d m = filepathJoin e n"
  then have "showPath (take 1 d = ''/'') (cleanElems d @ [m]) = showPath (take 1 e = ''/'') (cleanElems e @ [n])"
    using assms by (simp add: filepathJoin_show)
  then have "(take 1 d = ''/'') = (take 1 e = ''/'') \<and> cleanElems d @ [m] = cleanElems e @ [n]"
    by (rule showPath_inj [rotated 2]) (use cleanElems_elems assms(3,5) in auto)
  then show "filepathClean d = filepathClean e \<and> m = n" using assms(1,2) by (simp add: filepathClean_show)
next
  assume a: "filepathClean d = filepathClean e \<and> m = n"
  then have "(take 1 d = ''/'') = (take 1 e = ''/'') \<and> cleanElems d = cleanElems e"
    using assms(1,2) by (intro showPath_inj cleanElems_elems) (simp add: filepathClean_show)
  with a assms show "filepathJoin d m = filepathJoin e n" by (simp add: filepathJoin_show)
qed

lemma file_names:
  "pathElem ''raft.wal''" "pathElem ''raft.meta''" "pathElem ''snapshot.json''"
  by (simp_all add: pathElem_def)

section \<open>Properties\<close>

text \<open>A peer list in the documented form parses back to the peers it names, a later entry
  for a server replacing an earlier one; a list without repetition gives exactly itself.\<close>

theorem peers_round_trip:
  assumes "\<forall>p \<in> set kvs. listable p"
  shows "parsePeers (renderPeers kvs) [] = (None, fold (\<lambda>(i, a). mput i a) kvs []) \<and>
    (mwf kvs \<longrightarrow> parsePeers (renderPeers kvs) [] = (None, kvs))"
proof -
  have "parsePeers (renderPeers kvs) [] = (None, fold (\<lambda>(i, a). mput i a) kvs [])"
  proof (cases "kvs = []")
    case True
    then show ?thesis by (simp add: parsePeers_def renderPeers_def)
  next
    case False
    with rendered_split [OF assms] parse_rendered [OF assms] show ?thesis by (simp add: parsePeers_def)
  qed
  then show ?thesis using copyMembers_id [of kvs] by (simp add: copyMembers_def)
qed

theorem peers_round_trip_witness:
  "parsePeers ''2:db2:9002,-7:x'' [] = (None, [(2, ''db2:9002''), (-7, ''x'')])"
proof -
  let ?k = "[(2, ''db2:9002''), (-7, ''x'')] :: (int \<times> string) list"
  have "mwf ?k" "renderPeers ?k = ''2:db2:9002,-7:x''" by code_simp+
  moreover have "\<forall>p \<in> set ?k. listable p" by (simp add: listable_def)
  ultimately show ?thesis using peers_round_trip [of ?k] by metis
qed

text \<open>C40. The bootstrap membership of an accepted command line has the node itself and every
  listed peer under its address and nobody else, and the node's peers in it are the listed
  ones.  When two nodes are launched with command lines that name the same servers, any
  majority one of them counts and any majority the other counts share a server.\<close>

theorem bootstrap_quorums_meet:
  assumes "ParseFlags f = Inr c" and "ParseFlags g = Inr d"
    and "insert (idFlag f) (dom (mget (cfg_Peers c))) = insert (idFlag g) (dom (mget (cfg_Peers d)))"
    and "HasQuorum (NewConfiguration (bootstrapVoters c)) A" and "HasQuorum (NewConfiguration (bootstrapVoters d)) B"
  shows "length (bootstrapVoters c) = Suc (length (cfg_Peers c)) \<and>
    mget (bootstrapVoters c) = (mget (cfg_Peers c))(idFlag f \<mapsto> SelfAddr c) \<and>
    mget (Peers (NewConfiguration (bootstrapVoters c)) (idFlag f)) = mget (cfg_Peers c) \<and>
    (\<exists>i. mget0 False A i \<and> mget0 False B i)"
proof -
  note c = ParseFlags_ok [OF assms(1)] and d = ParseFlags_ok [OF assms(2)]
  note cb = bootstrapVoters_get [OF c(6)] and db = bootstrapVoters_get [OF d(6)]
  have ne: "bootstrapVoters d \<noteq> []" using bootstrapVoters_size [OF d(6,5)] by auto
  have "dom (mget (bootstrapVoters c)) = dom (mget (bootstrapVoters d))"
    using assms(3) c(1) d(1) by (simp add: cb db)
  note same = majority_same_dom [OF cb(2) db(2) this]
  have "majority_of (bootstrapVoters c) (have_set A)" "majority_of (bootstrapVoters d) (have_set B)"
    using assms(4,5) cb(2) db(2) by (simp_all add: HasQuorum_iff quorum_of_def NewConfiguration_def cfg_wf_def mwf_def)
  with same majority_meet [OF db(2) ne] have "have_set A \<inter> have_set B \<noteq> {}" by simp
  moreover have "mwf (Members (NewConfiguration (bootstrapVoters c)))"
    "mget (Members (NewConfiguration (bootstrapVoters c))) = mget (bootstrapVoters c)"
    using cb(2) copyMembers_id [OF cb(2)] by (simp_all add: Members_def NewConfiguration_def copyMembers_def)
  ultimately show ?thesis using bootstrapVoters_size [OF c(6,5)] cb(1) c(1,5)
    by (auto simp: have_set_def Peers_def gm.lookup_del fun_upd_idem)
qed

theorem bootstrap_quorums_meet_witness:
  "\<exists>c d :: Config. ParseFlags (defaultFlags\<lparr>peersFlag := ''2:b,3:c''\<rparr>) = Inr c \<and>
     ParseFlags (defaultFlags\<lparr>idFlag := 2, peersFlag := ''1:a,3:c''\<rparr>) = Inr d \<and> length (bootstrapVoters c) = 3 \<and>
     HasQuorum (NewConfiguration (bootstrapVoters c)) [(1, True), (3, True)] \<and>
     (\<exists>i :: int. mget0 False [(1, True), (3, True)] i \<and> mget0 False [(2, True), (3, True)] i)"
proof -
  let ?f = "defaultFlags\<lparr>peersFlag := ''2:b,3:c''\<rparr>" and ?g = "defaultFlags\<lparr>idFlag := 2, peersFlag := ''1:a,3:c''\<rparr>"
  let ?c = "\<lparr>cfg_NodeID = 1, cfg_Port = '':8080'', cfg_DataDir = ''data'', cfg_Peers = [(2, ''b''), (3, ''c'')],
    cfg_CompactionThreshold = 0, cfg_SessionTTL = 0\<rparr>"
  let ?d = "?c\<lparr>cfg_NodeID := 2, cfg_Peers := [(1, ''a''), (3, ''c'')]\<rparr>"
  have f: "ParseFlags ?f = Inr ?c" "ParseFlags ?g = Inr ?d" by code_simp+
  have q: "HasQuorum (NewConfiguration (bootstrapVoters ?c)) [(1, True), (3, True)]"
    "HasQuorum (NewConfiguration (bootstrapVoters ?d)) [(2, True), (3, True)]" by code_simp+
  have "insert (idFlag ?f) (dom (mget (cfg_Peers ?c))) = insert (idFlag ?g) (dom (mget (cfg_Peers ?d)))"
    by (auto simp: defaultFlags_def mget_def)
  from bootstrap_quorums_meet [OF f this q] f q(1) show ?thesis by auto
qed

text \<open>The three files of a node are different files, and two nodes share a file exactly
  when their data directories are the same path up to cleaning.\<close>

theorem data_files_isolated:
  assumes "ParseFlags f = Inr c" and "ParseFlags g = Inr d"
  shows "distinct [WALPath c, MetadataPath c, SnapshotPath c] \<and>
    ({WALPath c, MetadataPath c, SnapshotPath c} \<inter> {WALPath d, MetadataPath d, SnapshotPath d} \<noteq> {} \<longleftrightarrow>
     filepathClean (dataDirFlag f) = filepathClean (dataDirFlag g))"
proof -
  note n = ParseFlags_ok(3,4) [OF assms(1)] ParseFlags_ok(3,4) [OF assms(2)]
  show ?thesis
    using n(2,4) by (auto simp: WALPath_def MetadataPath_def SnapshotPath_def filepathJoin_inj file_names n(1,3))
qed

theorem data_files_isolated_witness:
  "\<exists>c d :: Config. ParseFlags (defaultFlags\<lparr>dataDirFlag := ''/var/db/./n1''\<rparr>) = Inr c \<and> WALPath c = ''/var/db/n1/raft.wal'' \<and>
     ParseFlags (defaultFlags\<lparr>dataDirFlag := ''/var/db/n2/../n1//''\<rparr>) = Inr d \<and>
     distinct [WALPath c, MetadataPath c, SnapshotPath c] \<and>
     {WALPath c, MetadataPath c, SnapshotPath c} \<inter> {WALPath d, MetadataPath d, SnapshotPath d} \<noteq> {}"
proof -
  let ?f = "defaultFlags\<lparr>dataDirFlag := ''/var/db/./n1''\<rparr>" and ?g = "defaultFlags\<lparr>dataDirFlag := ''/var/db/n2/../n1//''\<rparr>"
  let ?c = "\<lparr>cfg_NodeID = 1, cfg_Port = '':8080'', cfg_DataDir = ''/var/db/./n1'', cfg_Peers = [],
    cfg_CompactionThreshold = 0, cfg_SessionTTL = 0\<rparr>"
  let ?d = "?c\<lparr>cfg_DataDir := ''/var/db/n2/../n1//''\<rparr>"
  have f: "ParseFlags ?f = Inr ?c" "ParseFlags ?g = Inr ?d" by code_simp+
  have "filepathClean (dataDirFlag ?f) = filepathClean (dataDirFlag ?g)" "WALPath ?c = ''/var/db/n1/raft.wal''"
    by code_simp+
  with data_files_isolated [OF f] f show ?thesis by blast
qed

text \<open>What is accepted although no such list is documented: digits followed by anything, and
  a second address for a server.\<close>

theorem loose_peer_list:
  "parsePeers ''2x3:db:9002'' [] = (None, [(2, ''db:9002'')]) \<and>
   parsePeers ''2:db2:9002,2:db3:9003'' [] = (None, [(2, ''db3:9003'')])"
  by code_simp

end
