(* ===== verification/Json_Text.thy ===== *)
theory Json_Text
  imports Json_Codec "HOL-Library.List_Lexorder" "HOL-Library.Multiset"
begin

text \<open>
  JSON strings and objects as \<^verbatim>\<open>encoding/json\<close> writes them, with a reader of that text: UTF-8
  runes, the escapes of \<^verbatim>\<open>json.Marshal\<close> (quotes, control characters, the HTML characters and
  the two line separators; a byte that starts no rune becomes U+FFFD), and maps with their
  keys sorted.  Every valid UTF-8 string and every map of values that read back reads back.
\<close>

section \<open>UTF-8\<close>

definition runeSize :: "nat \<Rightarrow> nat" where
  "runeSize n = (if n < 0x80 then 1 else if n < 0xC2 then 0 else if n < 0xE0 then 2 else if n < 0xF0 then 3
     else if n < 0xF5 then 4 else 0)"

definition secondLow :: "nat \<Rightarrow> nat" where
  "secondLow n = (if n = 0xE0 then 0xA0 else if n = 0xF0 then 0x90 else 0x80)"

definition secondHigh :: "nat \<Rightarrow> nat" where
  "secondHigh n = (if n = 0xED then 0x9F else if n = 0xF4 then 0x8F else 0xBF)"

text \<open>The number of bytes of the rune the text begins with, 0 when it begins with none.\<close>

definition runeLen :: "bytes \<Rightarrow> nat" where
  "runeLen b =
     (case b of
        [] \<Rightarrow> 0
      | a # r \<Rightarrow>
          (let n = of_char a; k = runeSize n in
           if k \<le> 1 then k
           else case r of
                  [] \<Rightarrow> 0
                | c # r' \<Rightarrow>
                    (if secondLow n \<le> of_char c \<and> of_char c \<le> secondHigh n \<and> k - 2 \<le> length r' \<and>
                        list_all (\<lambda>x. 0x80 \<le> (of_char x :: nat) \<and> (of_char x :: nat) < 0xC0) (take (k - 2) r')
                     then k else 0)))"

definition replacement :: bytes where "replacement = [CHR 0xEF, CHR 0xBF, CHR 0xBD]"

text \<open>The texts that are runes throughout.\<close>

function utf8 :: "bytes \<Rightarrow> bool" where
  "utf8 b = (if b = [] then True else if runeLen b = 0 then False else utf8 (drop (runeLen b) b))"
  by auto
termination by (relation "measure length") auto

declare utf8.simps [simp del]

section \<open>Strings\<close>

definition hexChar :: "nat \<Rightarrow> char" where
  "hexChar n = ''0123456789abcdef'' ! (n mod 16)"

definition escapeByte :: "char \<Rightarrow> string" where
  "escapeByte c =
     (if c = CHR 0x22 then [CHR 0x5C, CHR 0x22] else if c = CHR 0x5C then [CHR 0x5C, CHR 0x5C]
      else if c = CHR 0x08 then [CHR 0x5C, CHR ''b''] else if c = CHR 0x0C then [CHR 0x5C, CHR ''f'']
      else if c = CHR 0x0A then [CHR 0x5C, CHR ''n''] else if c = CHR 0x0D then [CHR 0x5C, CHR ''r'']
      else if c = CHR 0x09 then [CHR 0x5C, CHR ''t'']
      else if (of_char c :: nat) < 0x20 \<or> c = CHR ''<'' \<or> c = CHR ''>'' \<or> c = CHR ''&''
        then CHR 0x5C # ''u00'' @ [hexChar (of_char c div 16), hexChar (of_char c)]
      else [c])"

definition escapeRune :: "bytes \<Rightarrow> string" where
  "escapeRune u =
     (if u = [CHR 0xE2, CHR 0x80, CHR 0xA8] then CHR 0x5C # ''u2028''
      else if u = [CHR 0xE2, CHR 0x80, CHR 0xA9] then CHR 0x5C # ''u2029''
      else if length u = 1 then escapeByte (hd u) else u)"

text \<open>A stray byte is written as an escape, unlike the rune U+FFFD itself.\<close>

function escape :: "bytes \<Rightarrow> string" where
  "escape b = (if b = [] then []
     else if runeLen b = 0 then (CHR 0x5C # ''ufffd'') @ escape (tl b)
     else escapeRune (take (runeLen b) b) @ escape (drop (runeLen b) b))"
  by auto
termination by (relation "measure length") auto

declare escape.simps [simp del]

definition jsonString :: "bytes \<Rightarrow> string" where
  "jsonString s = [CHR 0x22] @ escape s @ [CHR 0x22]"

definition hexValue :: "char \<Rightarrow> nat option" where
  "hexValue c =
     (let n = of_char c in
      if 48 \<le> n \<and> n \<le> 57 then Some (n - 48) else if 97 \<le> n \<and> n \<le> 102 then Some (n - 87)
      else if 65 \<le> n \<and> n \<le> 70 then Some (n - 55) else None)"

definition hex4 :: "bytes \<Rightarrow> nat option" where
  "hex4 b =
     (case map hexValue b of
        [Some p, Some q, Some r, Some s] \<Rightarrow> Some (p * 4096 + q * 256 + r * 16 + s)
      | _ \<Rightarrow> None)"

definition encodeRune :: "nat \<Rightarrow> bytes" where
  "encodeRune n =
     (if n < 0x80 then [char_of n]
      else if n < 0x800 then [char_of (0xC0 + n div 64), char_of (0x80 + n mod 64)]
      else if 0xD800 \<le> n \<and> n < 0xE000 then replacement
      else [char_of (0xE0 + n div 4096), char_of (0x80 + n div 64 mod 64), char_of (0x80 + n mod 64)])"

definition unescape :: "char \<Rightarrow> char option" where
  "unescape c =
     (if c = CHR 0x22 \<or> c = CHR 0x5C \<or> c = CHR ''/'' then Some c
      else if c = CHR ''b'' then Some (CHR 0x08) else if c = CHR ''f'' then Some (CHR 0x0C)
      else if c = CHR ''n'' then Some (CHR 0x0A) else if c = CHR ''r'' then Some (CHR 0x0D)
      else if c = CHR ''t'' then Some (CHR 0x09) else None)"

text \<open>The string a text continues with, after its opening quote, and what follows it.\<close>

definition consText :: "bytes \<Rightarrow> (bytes \<times> bytes) option \<Rightarrow> (bytes \<times> bytes) option" where
  "consText u r = map_option (\<lambda>(s, rest). (u @ s, rest)) r"

function readText :: "bytes \<Rightarrow> (bytes \<times> bytes) option" where
  "readText b =
     (case b of
        [] \<Rightarrow> None
      | c # r \<Rightarrow>
          (if c = CHR 0x22 then Some ([], r)
           else if c = CHR 0x5C then
             (case r of
                [] \<Rightarrow> None
              | e # r' \<Rightarrow>
                  (if e = CHR ''u'' then
                     (case hex4 (take 4 r') of None \<Rightarrow> None | Some n \<Rightarrow> consText (encodeRune n) (readText (drop 4 r')))
                   else (case unescape e of None \<Rightarrow> None | Some x \<Rightarrow> consText [x] (readText r'))))
           else if (of_char c :: nat) < 0x20 then None
           else consText [c] (readText r)))"
  by auto
termination by (relation "measure length") auto

declare readText.simps [simp del]

definition readString :: "bytes \<Rightarrow> (bytes \<times> bytes) option" where
  "readString b = Option.bind (expect [CHR 0x22] b) readText"

section \<open>Objects\<close>

text \<open>The members of a map, in the order of their keys.\<close>

definition sortKeys :: "(string \<times> 'v) list \<Rightarrow> (string \<times> 'v) list" where
  "sortKeys m = sort_key (\<lambda>p. map of_char (fst p) :: nat list) m"

fun jsonMembers :: "('v \<Rightarrow> string) \<Rightarrow> (string \<times> 'v) list \<Rightarrow> string" where
  "jsonMembers enc [] = []"
| "jsonMembers enc [(k, v)] = jsonString k @ '':'' @ enc v"
| "jsonMembers enc ((k, v) # r) = jsonString k @ '':'' @ enc v @ '','' @ jsonMembers enc r"

definition jsonMap :: "('v \<Rightarrow> string) \<Rightarrow> (string, 'v) gomap \<Rightarrow> string" where
  "jsonMap enc m = ''{'' @ jsonMembers enc (sortKeys m) @ ''}''"

text \<open>The reader of members; every one takes at least a byte, so the length of the text bounds the rounds.\<close>

fun readMembers :: "(bytes \<Rightarrow> ('v \<times> bytes) option) \<Rightarrow> nat \<Rightarrow> (string, 'v) gomap \<Rightarrow> bytes \<Rightarrow> ((string, 'v) gomap \<times> bytes) option" where
  "readMembers rd 0 acc b = None"
| "readMembers rd (Suc n) acc b =
     Option.bind (readString b) (\<lambda>(k, b). Option.bind (expect '':'' b) (\<lambda>b. Option.bind (rd b) (\<lambda>(v, b).
       let acc = mput k v acc in
       case b of
         c # r \<Rightarrow> if c = CHR '','' then readMembers rd n acc r else if c = CHR ''}'' then Some (acc, r) else None
       | [] \<Rightarrow> None)))"

definition readMap :: "(bytes \<Rightarrow> ('v \<times> bytes) option) \<Rightarrow> bytes \<Rightarrow> ((string, 'v) gomap \<times> bytes) option" where
  "readMap rd b =
     Option.bind (expect ''{'' b) (\<lambda>b.
       case expect ''}'' b of Some r \<Rightarrow> Some ([], r) | None \<Rightarrow> readMembers rd (length b) [] b)"

section \<open>Reading back a string\<close>

lemma consText_Some [simp]: "consText u (Some (s, r)) = Some (u @ s, r)"
  by (simp add: consText_def)

lemma consText_append: "consText u (consText v r) = consText (u @ v) r"
  by (cases r) (auto simp: consText_def)

lemma hex_table: "list_all (\<lambda>k. hexValue (hexChar k) = Some k) [0..<16]"
  by code_simp

lemma hexValue_hexChar [simp]: "hexValue (hexChar n) = Some (n mod 16)"
proof -
  have "n mod 16 \<in> set [0..<16]" by simp
  then have "hexValue (hexChar (n mod 16)) = Some (n mod 16)" using hex_table by (simp only: list_all_iff)
  then show ?thesis by (simp add: hexChar_def)
qed

lemma hex4_byte: "n < 256 \<Longrightarrow> hex4 [CHR ''0'', CHR ''0'', hexChar (n div 16), hexChar n] = Some n"
proof -
  assume "n < 256"
  then have "n div 16 mod 16 = n div 16" by simp
  moreover have "hexValue (CHR ''0'') = Some 0" by (simp add: hexValue_def)
  ultimately show ?thesis by (simp add: hex4_def)
qed

lemma readText_u:
  "readText (CHR 0x5C # CHR ''u'' # p # q # r # t # s) =
     (case hex4 [p, q, r, t] of None \<Rightarrow> None | Some n \<Rightarrow> consText (encodeRune n) (readText s))"
  by (subst readText.simps) (simp add: take_Cons' drop_Cons' split: option.split)

lemma readText_short:
  assumes "unescape e = Some x"
  shows "readText (CHR 0x5C # e # s) = consText [x] (readText s)"
proof -
  have "e \<noteq> CHR ''u''" using assms by (auto simp: unescape_def)
  with assms show ?thesis by (subst readText.simps) simp
qed

lemma readText_plain:
  "c \<noteq> CHR 0x22 \<Longrightarrow> c \<noteq> CHR 0x5C \<Longrightarrow> 0x20 \<le> (of_char c :: nat) \<Longrightarrow> readText (c # s) = consText [c] (readText s)"
  by (subst readText.simps) simp

lemma unescapes:
  "unescape (CHR 0x22) = Some (CHR 0x22)" "unescape (CHR 0x5C) = Some (CHR 0x5C)" "unescape (CHR ''b'') = Some (CHR 0x08)"
  "unescape (CHR ''f'') = Some (CHR 0x0C)" "unescape (CHR ''n'') = Some (CHR 0x0A)" "unescape (CHR ''r'') = Some (CHR 0x0D)"
  "unescape (CHR ''t'') = Some (CHR 0x09)"
  by (simp_all add: unescape_def)

lemma readText_byte:
  assumes "(of_char c :: nat) < 128"
  shows "readText (escapeByte c @ s) = consText [c] (readText s)"
proof -
  have "encodeRune (of_char c) = [c]" using assms by (simp add: encodeRune_def)
  moreover have "(of_char c :: nat) < 256" by simp
  ultimately show ?thesis
    by (simp add: escapeByte_def readText_u hex4_byte unescapes [THEN readText_short] readText_plain)
qed

lemma readText_high:
  "\<forall>c \<in> set u. 128 \<le> (of_char c :: nat) \<Longrightarrow> readText (u @ s) = consText u (readText s)"
proof (induction u)
  case Nil
  show ?case by (cases "readText s") (auto simp: consText_def)
next
  case (Cons c u)
  then have "c \<noteq> CHR 0x22" "c \<noteq> CHR 0x5C" "\<not> (of_char c :: nat) < 0x20" by auto
  then have "readText ((c # u) @ s) = consText [c] (readText (u @ s))" by (subst readText.simps) simp
  with Cons show ?case by (simp add: consText_append)
qed

text \<open>A rune is one ASCII byte, or high bytes only.\<close>

lemma runeLen_shape:
  assumes "0 < runeLen b"
  shows "runeLen b \<le> length b" and "runeLen b = 1 \<and> (of_char (hd b) :: nat) < 128 \<or>
    1 < runeLen b \<and> (\<forall>c \<in> set (take (runeLen b) b). 128 \<le> (of_char c :: nat))"
proof -
  obtain a r where b: "b = a # r" using assms by (cases b) (auto simp: runeLen_def)
  have lo: "0x80 \<le> secondLow n" for n by (simp add: secondLow_def)
  have "runeLen b \<le> length b \<and> (runeLen b = 1 \<and> (of_char a :: nat) < 128 \<or>
      1 < runeLen b \<and> (\<forall>c \<in> set (take (runeLen b) b). 128 \<le> (of_char c :: nat)))"
  proof (cases "runeSize (of_char a) \<le> 1")
    case True
    then show ?thesis using assms
      by (auto simp: b runeLen_def runeSize_def Let_def split: if_splits)
  next
    case False
    then obtain c r' where r: "r = c # r'" and c: "secondLow (of_char a) \<le> of_char c" "runeSize (of_char a) - 2 \<le> length r'"
        "list_all (\<lambda>x. 0x80 \<le> (of_char x :: nat) \<and> (of_char x :: nat) < 0xC0) (take (runeSize (of_char a) - 2) r')"
        "runeLen b = runeSize (of_char a)"
      using assms by (auto simp: b runeLen_def Let_def split: list.splits if_splits)
    obtain k where k: "runeSize (of_char a) = Suc (Suc k)" using False by (metis One_nat_def less_iff_Suc_add not_le add_Suc plus_1_eq_Suc)
    have "0x80 \<le> (of_char a :: nat)" using False by (auto simp: runeSize_def split: if_splits)
    moreover have "0x80 \<le> (of_char c :: nat)" using c(1) lo le_trans by blast
    ultimately show ?thesis using c(2,3,4) k by (auto simp: b r list_all_iff)
  qed
  then show "runeLen b \<le> length b" and "runeLen b = 1 \<and> (of_char (hd b) :: nat) < 128 \<or>
    1 < runeLen b \<and> (\<forall>c \<in> set (take (runeLen b) b). 128 \<le> (of_char c :: nat))"
    by (auto simp: b)
qed

lemma char_of_bytes: "of_char c = n \<Longrightarrow> char_of (n :: nat) = c"
  by auto

lemma separators:
  "hex4 ''2028'' = Some 0x2028" "hex4 ''2029'' = Some 0x2029"
  "encodeRune 0x2028 = [CHR 0xE2, CHR 0x80, CHR 0xA8]" "encodeRune 0x2029 = [CHR 0xE2, CHR 0x80, CHR 0xA9]"
  by (simp_all add: hex4_def hexValue_def encodeRune_def) (simp_all add: char_of_bytes)

lemma readText_rune:
  assumes "0 < runeLen b"
  shows "readText (escapeRune (take (runeLen b) b) @ s) = consText (take (runeLen b) b) (readText s)"
proof (cases "runeLen b = 1")
  case True
  with runeLen_shape [OF assms] obtain a r where b: "b = a # r" "(of_char a :: nat) < 128" by (cases b) auto
  then show ?thesis using readText_byte True by (simp add: escapeRune_def)
next
  case False
  then have h: "\<forall>c \<in> set (take (runeLen b) b). 128 \<le> (of_char c :: nat)" "length (take (runeLen b) b) \<noteq> 1"
    using runeLen_shape [OF assms] by auto
  consider "take (runeLen b) b = [CHR 0xE2, CHR 0x80, CHR 0xA8]" | "take (runeLen b) b = [CHR 0xE2, CHR 0x80, CHR 0xA9]"
    | "escapeRune (take (runeLen b) b) = take (runeLen b) b"
    using h(2) unfolding escapeRune_def by metis
  then show ?thesis
  proof cases
    case 3
    then show ?thesis using readText_high [OF h(1)] by simp
  qed (simp_all add: escapeRune_def readText_u separators)
qed

lemma readText_utf8: "utf8 s \<Longrightarrow> readText (escape s @ CHR 0x22 # r) = Some (s, r)"
proof (induction s rule: utf8.induct)
  case (1 b)
  show ?case
  proof (cases "b = []")
    case True
    then show ?thesis by (simp add: escape.simps readText.simps)
  next
    case False
    with 1(2) have u: "runeLen b \<noteq> 0" "utf8 (drop (runeLen b) b)" by (auto simp: utf8.simps [of b] split: if_splits)
    with 1(1) False have "readText (escape (drop (runeLen b) b) @ CHR 0x22 # r) = Some (drop (runeLen b) b, r)" by simp
    then show ?thesis using readText_rune [of b] u(1) False by (simp add: escape.simps [of b])
  qed
qed

lemma readString_json: "utf8 s \<Longrightarrow> readString (jsonString s @ r) = Some (s, r)"
  using readText_utf8 [of s r] by (simp add: readString_def jsonString_def)

section \<open>Reading back a map\<close>

definition readsBack :: "('v \<Rightarrow> string) \<Rightarrow> (bytes \<Rightarrow> ('v \<times> bytes) option) \<Rightarrow> 'v \<Rightarrow> bool" where
  "readsBack enc rd v \<longleftrightarrow> (\<forall>r. stops r \<longrightarrow> rd (enc v @ r) = Some (v, r))"

lemma readMembers_json:
  assumes "\<forall>(k, v) \<in> set m. utf8 k \<and> readsBack enc rd v" and "m \<noteq> []" and "length m \<le> n"
  shows "readMembers rd n acc (jsonMembers enc m @ CHR ''}'' # r) = Some (fold (\<lambda>(k, v). mput k v) m acc, r)"
  using assms
proof (induction enc m arbitrary: n acc rule: jsonMembers.induct)
  case (2 enc k v)
  then show ?case by (cases n) (auto simp: readString_json readsBack_def stops_def isDigit_def)
next
  case (3 enc k v p ps)
  then obtain n' where "n = Suc n'" by (cases n) auto
  with 3 show ?case by (auto simp: readString_json readsBack_def stops_def isDigit_def)
qed simp

lemma set_sortKeys [simp]: "set (sortKeys m) = set m" "length (sortKeys m) = length m" "sortKeys m = [] \<longleftrightarrow> m = []"
  by (simp_all add: sortKeys_def) (metis length_0_conv length_sort)

lemma sortKeys_map:
  assumes "mwf m"
  shows "mwf (sortKeys m)" "mget (sortKeys m) = mget m"
proof -
  have "mset (sortKeys m) = mset m" by (simp add: sortKeys_def)
  then have "mset (map fst (sortKeys m)) = mset (map fst m)" by (metis mset_map)
  then show w: "mwf (sortKeys m)" using assms unfolding mwf_def by (metis distinct_count_atmost_1 set_mset_mset)
  show "mget (sortKeys m) = mget m"
    using mwf_members [OF w] mwf_members [OF assms] by (intro ext) (metis option.exhaust set_sortKeys(1))
qed

lemma jsonMembers_length: "length m \<le> length (jsonMembers enc m)"
  by (induction enc m rule: jsonMembers.induct) (auto simp: jsonString_def)

lemma jsonMembers_start: "m \<noteq> [] \<Longrightarrow> \<exists>r. jsonMembers enc m = CHR 0x22 # r"
  by (cases "(enc, m)" rule: jsonMembers.cases) (auto simp: jsonString_def)

lemma readMap_json:
  assumes "mwf m" and "\<forall>(k, v) \<in> set m. utf8 k \<and> readsBack enc rd v"
  shows "readMap rd (jsonMap enc m @ r) = Some (sortKeys m, r)"
proof (cases "m = []")
  case True
  then show ?thesis by (simp add: readMap_def jsonMap_def sortKeys_def)
next
  case False
  let ?m = "sortKeys m"
  have ne: "?m \<noteq> []" using False by simp
  have "readMembers rd (length (jsonMembers enc ?m @ CHR ''}'' # r)) [] (jsonMembers enc ?m @ CHR ''}'' # r) =
      Some (fold (\<lambda>(k, v). mput k v) ?m [], r)"
    using assms(2) ne jsonMembers_length [of ?m enc] by (intro readMembers_json) auto
  moreover have "fold (\<lambda>(k, v). mput k v) ?m [] = ?m"
    using sortKeys_map(1) [OF assms(1)] fold_mput_append [of "[]" ?m] by (simp add: mwf_def)
  ultimately show ?thesis using jsonMembers_start [OF ne, of enc] by (auto simp: readMap_def jsonMap_def simp del: readMembers.simps)
qed

section \<open>Building texts\<close>

lemma runeLen_append: "0 < runeLen a \<Longrightarrow> runeLen (a @ b) = runeLen a"
  by (cases a; cases "tl a") (auto simp: runeLen_def Let_def split: if_splits)

lemma runeLen_take: "0 < runeLen a \<Longrightarrow> runeLen (take (runeLen a) a) = runeLen a"
  by (cases a; cases "tl a") (auto simp: runeLen_def Let_def min_def take_Cons' split: if_splits)

lemma utf8_Nil [simp]: "utf8 []"
  by (simp add: utf8.simps)

lemma utf8_append: "utf8 a \<Longrightarrow> utf8 b \<Longrightarrow> utf8 (a @ b)"
proof (induction a rule: utf8.induct)
  case (1 a)
  show ?case
  proof (cases "a = []")
    case False
    with 1(2) have u: "0 < runeLen a" "utf8 (drop (runeLen a) a)" by (auto simp: utf8.simps [of a] split: if_splits)
    with 1 False have "utf8 (drop (runeLen a) a @ b)" by simp
    then show ?thesis using u(1) runeLen_append [OF u(1), of b] runeLen_shape(1) [OF u(1)] False
      by (simp add: utf8.simps [of "a @ b"])
  qed (use 1 in simp)
qed

lemma runeLen_ascii: "(of_char c :: nat) < 128 \<Longrightarrow> runeLen (c # s) = 1"
  by (simp add: runeLen_def runeSize_def Let_def)

lemma utf8_ascii: "\<forall>c \<in> set s. (of_char c :: nat) < 128 \<Longrightarrow> utf8 s"
  by (induction s) (simp_all add: utf8.simps [of "_ # _"] runeLen_ascii)

text \<open>A text whose ASCII bytes are rewritten to ASCII stays a text.\<close>

lemma utf8_concat_map:
  assumes "utf8 s" and "\<forall>c. (of_char c :: nat) < 128 \<longrightarrow> (\<forall>x \<in> set (f c). (of_char x :: nat) < 128)"
    and "\<forall>c. 128 \<le> (of_char c :: nat) \<longrightarrow> f c = [c]"
  shows "utf8 (concat (map f s))"
  using assms(1)
proof (induction s rule: utf8.induct)
  case (1 b)
  show ?case
  proof (cases "b = []")
    case False
    let ?k = "runeLen b"
    from 1(2) False have u: "0 < ?k" "utf8 (drop ?k b)" by (auto simp: utf8.simps [of b] split: if_splits)
    have split: "concat (map f b) = concat (map f (take ?k b)) @ concat (map f (drop ?k b))"
      by (metis append_take_drop_id concat_append map_append)
    have "utf8 (concat (map f (take ?k b)))"
      using runeLen_shape(2) [OF u(1)]
    proof
      assume h: "1 < ?k \<and> (\<forall>c \<in> set (take ?k b). 128 \<le> (of_char c :: nat))"
      then have "map f (take ?k b) = map (\<lambda>c. [c]) (take ?k b)" using assms(3) by (simp only: map_eq_conv) blast
      then have "concat (map f (take ?k b)) = take ?k b" by (simp only: concat_map_singleton list.map_ident)
      moreover have "utf8 (take ?k b)"
        using u(1) runeLen_take [OF u(1)] False by (simp add: utf8.simps [of "take ?k b"])
      ultimately show ?thesis by simp
    next
      assume "?k = 1 \<and> (of_char (hd b) :: nat) < 128"
      then show ?thesis using assms(2) False by (cases b) (auto intro!: utf8_ascii)
    qed
    then show ?thesis unfolding split using 1(1) False u by (intro utf8_append) auto
  qed simp
qed

end
