(* ===== verification/Json_Documents.thy ===== *)
theory Json_Documents
  imports Json_Text Snapshot_Store
begin

text \<open>
  The JSON documents above the log: a \<^verbatim>\<open>Command\<close> in an entry, the state machine's snapshot with
  its client sessions, and the snapshot file around it.  Field names and \<^verbatim>\<open>omitempty\<close> are those
  of the struct tags; the readers accept the text the encoders write.
\<close>

section \<open>Definitions\<close>

text \<open>A field that may be left out, and an unsigned 64-bit number.\<close>

definition readOpt :: "string \<Rightarrow> (bytes \<Rightarrow> ('a \<times> bytes) option) \<Rightarrow> 'a \<Rightarrow> bytes \<Rightarrow> ('a \<times> bytes) option" where
  "readOpt tag rd z b = (case expect tag b of Some r \<Rightarrow> rd r | None \<Rightarrow> Some (z, b))"

definition readWord :: "bytes \<Rightarrow> (64 word \<times> bytes) option" where
  "readWord b = Option.bind (readNat b) (\<lambda>(n, r). if n < 2 ^ 64 then Some (word_of_nat n, r) else None)"

definition EncodeCommand :: "Command \<Rightarrow> bytes" where
  "EncodeCommand c =
     ''{\"op\":'' @ jsonString (Op c) @ '',\"key\":'' @ jsonString (Key c)
     @ (if Value c = [] then [] else '',\"value\":'' @ jsonString (Value c))
     @ (if ClientID c = [] then [] else '',\"client_id\":'' @ jsonString (ClientID c))
     @ (if Seq c = 0 then [] else '',\"seq\":'' @ nat_dec (unat (Seq c)))
     @ (if Timestamp c = 0 then [] else '',\"ts\":'' @ int_dec (Timestamp c)) @ ''}''"

definition DecodeCommand :: "bytes \<Rightarrow> Command option" where
  "DecodeCommand b =
     Option.bind (expect ''{\"op\":'' b) (\<lambda>b. Option.bind (readString b) (\<lambda>(op, b).
     Option.bind (expect '',\"key\":'' b) (\<lambda>b. Option.bind (readString b) (\<lambda>(k, b).
     Option.bind (readOpt '',\"value\":'' readString [] b) (\<lambda>(v, b).
     Option.bind (readOpt '',\"client_id\":'' readString [] b) (\<lambda>(c, b).
     Option.bind (readOpt '',\"seq\":'' readWord 0 b) (\<lambda>(q, b).
     Option.bind (readOpt '',\"ts\":'' readInt 0 b) (\<lambda>(t, b).
     if b = ''}'' then Some \<lparr>Op = op, Key = k, Value = v, ClientID = c, Seq = q, Timestamp = t\<rparr> else None))))))))"

definition encodeSession :: "session \<Rightarrow> string" where
  "encodeSession s =
     ''{\"last_seq\":'' @ nat_dec (unat (LastSeq s)) @ (if Err s = [] then [] else '',\"err\":'' @ jsonString (Err s))
     @ '',\"last_used\":'' @ int_dec (LastUsed s) @ ''}''"

definition readSession :: "bytes \<Rightarrow> (session \<times> bytes) option" where
  "readSession b =
     Option.bind (expect ''{\"last_seq\":'' b) (\<lambda>b. Option.bind (readWord b) (\<lambda>(q, b).
     Option.bind (readOpt '',\"err\":'' readString [] b) (\<lambda>(e, b).
     Option.bind (expect '',\"last_used\":'' b) (\<lambda>b. Option.bind (readInt b) (\<lambda>(u, b).
     Option.bind (expect ''}'' b) (\<lambda>b. Some (\<lparr>LastSeq = q, Err = e, LastUsed = u\<rparr>, b)))))))"

definition encodeMachine :: machine_enc where
  "encodeMachine st =
     ''{\"data\":'' @ jsonMap jsonString (Data st) @ '',\"sessions\":'' @ jsonMap encodeSession (Sessions st)
     @ '',\"now\":'' @ int_dec (Now st) @ '',\"applies_since_sweep\":'' @ int_dec (AppliesSinceSweep st) @ ''}''"

definition decodeMachine :: machine_dec where
  "decodeMachine b =
     Option.bind (expect ''{\"data\":'' b) (\<lambda>b. Option.bind (readMap readString b) (\<lambda>(d, b).
     Option.bind (expect '',\"sessions\":'' b) (\<lambda>b. Option.bind (readMap readSession b) (\<lambda>(s, b).
     Option.bind (expect '',\"now\":'' b) (\<lambda>b. Option.bind (readInt b) (\<lambda>(n, b).
     Option.bind (expect '',\"applies_since_sweep\":'' b) (\<lambda>b. Option.bind (readInt b) (\<lambda>(a, b).
     if b = ''}'' then Some \<lparr>Data = d, Sessions = s, Now = n, AppliesSinceSweep = a\<rparr> else None))))))))"

text \<open>The state is raw JSON and stands last: it is everything up to the closing brace.\<close>

definition encodeSnapshotFile :: "SnapshotFile \<Rightarrow> bytes" where
  "encodeSnapshotFile sf =
     ''{\"meta\":{\"last_included_index\":'' @ int_dec (LastIncludedIndex (Meta sf))
     @ '',\"last_included_term\":'' @ int_dec (LastIncludedTerm (Meta sf)) @ ''},\"state\":'' @ State sf @ ''}''"

definition decodeSnapshotFile :: "bytes \<Rightarrow> SnapshotFile option" where
  "decodeSnapshotFile b =
     Option.bind (expect ''{\"meta\":{\"last_included_index\":'' b) (\<lambda>b. Option.bind (readInt b) (\<lambda>(i, b).
     Option.bind (expect '',\"last_included_term\":'' b) (\<lambda>b. Option.bind (readInt b) (\<lambda>(t, b).
     Option.bind (expect ''},\"state\":'' b) (\<lambda>b.
     if b \<noteq> [] \<and> last b = CHR ''}''
     then Some \<lparr>Meta = \<lparr>LastIncludedIndex = i, LastIncludedTerm = t\<rparr>, State = butlast b\<rparr> else None)))))"

text \<open>The codecs of the program.\<close>

definition jsonCodecs :: Codecs where
  "jsonCodecs = \<lparr>encEntry = encodeEntry, encCommand = (\<lambda>c. Some (EncodeCommand c)), decCommand = DecodeCommand,
     encMachine = encodeMachine, decMachine = decodeMachine, encSnapshot = encodeSnapshotFile,
     decSnapshot = decodeSnapshotFile\<rparr>"

section \<open>Round trips\<close>

definition utf8Command :: "Command \<Rightarrow> bool" where
  "utf8Command c \<longleftrightarrow> utf8 (Op c) \<and> utf8 (Key c) \<and> utf8 (Value c) \<and> utf8 (ClientID c)"

definition utf8Machine :: "machineState \<Rightarrow> bool" where
  "utf8Machine st \<longleftrightarrow> (\<forall>(k, v) \<in> set (Data st). utf8 k \<and> utf8 v) \<and> (\<forall>(k, s) \<in> set (Sessions st). utf8 k \<and> utf8 (Err s))"

lemma stops_comma [simp]: "stops (CHR '','' # r)" "stops (CHR ''}'' # r)"
  by (simp_all add: stops_def isDigit_def)

lemma readWord_dec: "stops r \<Longrightarrow> readWord (nat_dec (unat (w :: 64 word)) @ r) = Some (w, r)"
  using unsigned_less [of w, where 'a = nat] by (simp add: readWord_def readNat_dec)

lemma decode_command: "utf8Command c \<Longrightarrow> DecodeCommand (EncodeCommand c) = Some c"
  by (simp add: EncodeCommand_def DecodeCommand_def utf8Command_def readOpt_def readString_json readWord_dec readInt_dec)

lemma session_reads: "utf8 (Err s) \<Longrightarrow> readsBack encodeSession readSession s"
  by (simp add: readsBack_def encodeSession_def readSession_def readOpt_def readString_json readWord_dec readInt_dec)

lemma string_reads: "utf8 s \<Longrightarrow> readsBack jsonString readString s"
  by (simp add: readsBack_def readString_json)

lemma decode_machine:
  assumes "mwf (Data st)" and "mwf (Sessions st)" and "utf8Machine st"
  shows "decodeMachine (encodeMachine st) = Some (st\<lparr>Data := sortKeys (Data st), Sessions := sortKeys (Sessions st)\<rparr>)"
proof -
  have "readMap readString (jsonMap jsonString (Data st) @ r) = Some (sortKeys (Data st), r)" for r
    using assms by (intro readMap_json) (auto simp: utf8Machine_def string_reads)
  moreover have "readMap readSession (jsonMap encodeSession (Sessions st) @ r) = Some (sortKeys (Sessions st), r)" for r
    using assms by (intro readMap_json) (auto simp: utf8Machine_def session_reads)
  ultimately show ?thesis by (simp add: encodeMachine_def decodeMachine_def readInt_dec)
qed

lemma decode_snapshot_file: "decodeSnapshotFile (encodeSnapshotFile sf) = Some sf"
  by (simp add: encodeSnapshotFile_def decodeSnapshotFile_def readInt_dec)

lemma machine_codec:
  assumes "sm_wf m" and "utf8Machine (machineStateOf m)"
  shows "codecFor encodeMachine decodeMachine (machineStateOf m)"
proof -
  have w: "mwf (Data (machineStateOf m))" "mwf (Sessions (machineStateOf m))" using assms(1) by (simp_all add: sm_wf_def machineStateOf_def)
  from decode_machine [OF w assms(2)] sortKeys_map [OF w(1)] sortKeys_map [OF w(2)] show ?thesis by (simp add: codecFor_def)
qed

section \<open>The machine's texts\<close>

text \<open>
  The commands reach the log through a JSON decoder, so their strings are UTF-8; then so is
  every string of the machine, the recorded error texts included.
\<close>

lemma applyLog_ttl: "sm_sessionTTL (snd (applyLog cs m)) = sm_sessionTTL m"
  by (induction cs arbitrary: m) (auto simp: split_beta Apply_clock)

definition utf8State :: "MemoryStateMachine \<Rightarrow> bool" where
  "utf8State m \<longleftrightarrow> (\<forall>k v. mget (sm_data m) k = Some v \<longrightarrow> utf8 k \<and> utf8 v) \<and>
     (\<forall>k s. mget (sm_sessions m) k = Some s \<longrightarrow> utf8 k \<and> utf8 (Err s))"

lemma int_dec_utf8: "utf8 (int_dec i)"
proof (rule utf8_ascii, rule ballI)
  fix c assume "c \<in> set (int_dec i)"
  then have "isDigit c \<or> c = CHR 0x2D" using nat_dec_digits by (auto simp: int_dec_def split: if_splits)
  then show "(of_char c :: nat) < 128" by (auto simp: isDigit_def)
qed

lemma hexDigit_ascii: "(of_char (hexDigit n) :: nat) < 128"
proof -
  have "list_all (\<lambda>k. (of_char (''0123456789abcdef'' ! k) :: nat) < 128) [0..<16]" by code_simp
  moreover have "n mod 16 \<in> set [0..<16]" by simp
  ultimately show ?thesis unfolding hexDigit_def list_all_iff by blast
qed

lemma goQuote_utf8: "utf8 s \<Longrightarrow> utf8 (goQuote s)"
  unfolding goQuote_def
  by (intro utf8_append utf8_concat_map) (auto simp: quoteChar_def hexDigit_ascii intro!: utf8_ascii)

lemma execute_utf8:
  assumes "sm_wf m" and "utf8State m" and "utf8Command c" and "execute i c m = (r, m')"
  shows "utf8State m' \<and> (\<forall>e. r = Some e \<longrightarrow> utf8 e)"
proof -
  have t: "utf8 ''set: empty key at index ''" "utf8 ''delete: empty key at index ''" "utf8 ''unknown op ''" "utf8 '' at index ''"
    by (rule utf8_ascii, simp)+
  have "utf8 (Op c)" using assms(3) by (simp add: utf8Command_def)
  then have u: "utf8 (''unknown op '' @ goQuote (Op c) @ '' at index '' @ int_dec i)"
    by (intro utf8_append t goQuote_utf8 int_dec_utf8)
  have k: "utf8 (''set: empty key at index '' @ int_dec i)" "utf8 (''delete: empty key at index '' @ int_dec i)"
    by (intro utf8_append t int_dec_utf8)+
  have "mwf (sm_data m)" using assms(1) by (simp add: sm_wf_def)
  then show ?thesis using assms u k
    by (auto simp: execute_def utf8State_def utf8Command_def gm.lookup_put gm.lookup_del simp del: append.simps split: if_splits)
qed

lemma expire_utf8: "sm_wf m \<Longrightarrow> utf8State m \<Longrightarrow> utf8State (expireSessions m)"
  by (auto simp: utf8State_def expireSessions_def Let_def sm_wf_def gm.lookup_del_all restrict_map_def split: if_splits)

lemma sm_wf_clock: "sm_wf m \<Longrightarrow> sm_wf (expireSessions (advanceClock c m))"
  by (simp add: sm_wf_def expireSessions_def advanceClock_def Let_def gm.wf_del_all)

lemma apply_utf8:
  assumes "sm_wf m" and "utf8State m" and "utf8Command c"
  shows "utf8State (snd (Apply i c m))"
proof -
  let ?m = "expireSessions (advanceClock c m)"
  have w: "sm_wf (advanceClock c m)" "utf8State (advanceClock c m)"
    using assms(1,2) by (auto simp: sm_wf_def utf8State_def advanceClock_def)
  note m = sm_wf_clock [OF assms(1), of c] expire_utf8 [OF w]
  obtain r m' where e: "execute i c ?m = (r, m')" by force
  from execute_utf8 [OF m assms(3) e] assms(3) have "utf8State (recordOutcome c r m')"
    by (auto simp: utf8State_def recordOutcome_def utf8Command_def gm.lookup_put split: option.splits)
  then show ?thesis using m(2) by (simp add: Apply_def Let_def e split: option.split)
qed

lemma applyLog_utf8:
  "sm_wf m \<Longrightarrow> utf8State m \<Longrightarrow> \<forall>(i, c) \<in> set cs. utf8Command c \<Longrightarrow> utf8State (snd (applyLog cs m))"
  by (induction cs arbitrary: m) (auto simp: split_beta intro: apply_utf8 sm_wf_Apply)

lemma utf8State_machine: "sm_wf m \<Longrightarrow> utf8State m \<Longrightarrow> utf8Machine (machineStateOf m)"
  by (auto simp: utf8State_def utf8Machine_def machineStateOf_def sm_wf_def mwf_members)

lemma utf8State_eq: "sm_eq a b \<Longrightarrow> utf8State a \<Longrightarrow> utf8State b"
  by (auto simp: sm_eq_def utf8State_def)

section \<open>Properties\<close>



end
