(* ===== verification/Node_Startup.thy ===== *)
theory Node_Startup
  imports Node_Config Engine_Apply Json_Documents
begin

text \<open>
  The composition root, \<^verbatim>\<open>main\<close> of \<^verbatim>\<open>cmd/crystal/main.go\<close>: from the command line and the files
  of the data directory to a running engine.  The theorem of this theory is about a node's
  whole life on disk: applying, compacting, crashing at any point of it, and starting again.
\<close>

section \<open>Definitions\<close>

text \<open>The files a start finds, by path: the bytes of the log, the term and vote record, the snapshot.\<close>

record Disk =
  d_wal :: "string \<Rightarrow> bytes"
  d_meta :: "string \<Rightarrow> StateStore"
  d_snapshot :: "string \<Rightarrow> AtomicFile"

datatype main_error =
    InvalidConfiguration flag_error
  | DataDirFailed
  | WALFailed open_error
  | NodeFailed node_error
  | RestoreFailed startup_error

text \<open>
  \<^verbatim>\<open>main\<close> up to the point where it serves; every error is a call of \<^verbatim>\<open>log.Fatalf\<close>.  The script
  \<open>os\<close> holds the outcomes of creating the directory and of the calls on the log's file, \<open>rnd\<close>
  is the engine's first random draw.
\<close>

definition startNode ::
  "Codecs \<Rightarrow> unmarshal \<Rightarrow> nanos \<Rightarrow> int \<Rightarrow> outcome list \<Rightarrow> Flags \<Rightarrow> Disk \<Rightarrow> main_error + Config \<times> Engine" where
  "startNode cd um now rnd os flags disk =
     (case ParseFlags flags of
        Inl err \<Rightarrow> Inl (InvalidConfiguration err)
      | Inr cfg \<Rightarrow>
          (if next_outcome os \<noteq> IoOk then Inl DataDirFailed
           else case NewRaftLog um (d_wal disk (WALPath cfg)) (tl os) of
                  Inl err \<Rightarrow> Inl (WALFailed err)
                | Inr raftLog \<Rightarrow>
                    (let raftLog = SetCompactionThreshold (cfg_CompactionThreshold cfg) raftLog;
                         stateMachine = SetSessionTTL (cfg_SessionTTL cfg) NewMemoryStateMachine;
                         snapshots = d_snapshot disk (SnapshotPath cfg);
                         voters = bootstrapVoters cfg
                     in case NewRaftNode now (cfg_NodeID cfg) (NewConfiguration voters)
                               (d_meta disk (MetadataPath cfg)) Follower of
                          Inl err \<Rightarrow> Inl (NodeFailed err)
                        | Inr rn \<Rightarrow>
                            (case restoreFromSnapshot cd snapshots stateMachine raftLog rn of
                               Inl err \<Rightarrow> Inl (RestoreFailed err)
                             | Inr (stateMachine, raftLog, rn) \<Rightarrow>
                                 Inr (cfg, NewWithTransport rnd rn raftLog stateMachine snapshots)))))"

section \<open>The recorded history\<close>

definition numbered :: "Command list \<Rightarrow> (int \<times> Command) list" where
  "numbered h = zip (map int [1..<Suc (length h)]) h"

text \<open>The state machine of a node of this configuration after the commands \<open>h\<close>.\<close>

definition machineAfter :: "Config \<Rightarrow> Command list \<Rightarrow> MemoryStateMachine" where
  "machineAfter cfg h = snd (applyLog (numbered h) (SetSessionTTL (cfg_SessionTTL cfg) NewMemoryStateMachine))"

text \<open>What a snapshot file may hold: nothing, or the machine after the first \<open>s\<close> commands.\<close>

definition standsFor :: "Codecs \<Rightarrow> Config \<Rightarrow> Command list \<Rightarrow> bytes option \<Rightarrow> int \<Rightarrow> int \<Rightarrow> bool" where
  "standsFor cd cfg h b s t \<longleftrightarrow>
     (case b of
        None \<Rightarrow> s = 0 \<and> t = 0
      | Some data \<Rightarrow>
          (\<exists>raw. decSnapshot cd data = Some \<lparr>Meta = \<lparr>LastIncludedIndex = s, LastIncludedTerm = t\<rparr>, State = raw\<rparr> \<and> raw \<noteq> [] \<and>
             (\<forall>m0. sm_sessionTTL m0 = sm_sessionTTL (machineAfter cfg []) \<longrightarrow>
                (\<exists>m. Restore (decMachine cd) raw m0 = (True, m) \<and> sm_eq (machineAfter cfg (take (nat s) h)) m))))"

text \<open>
  The invariant of a node that has applied the commands \<open>h\<close>: its machine is the one after \<open>h\<close>,
  its log is whole and holds the commands of \<open>h\<close> above its boundary, and every snapshot a
  crash may reveal stands for a part of \<open>h\<close> the log continues.
\<close>

definition recorded :: "Codecs \<Rightarrow> unmarshal \<Rightarrow> Config \<Rightarrow> Command list \<Rightarrow> Engine \<Rightarrow> bool" where
  "recorded cd um cfg h e \<longleftrightarrow>
     log_wf (e_log e) \<and> wal_ok (encEntry cd) (e_log e) \<and> codec_ok (encEntry cd) um (cache (e_log e)) \<and>
     LastApplied (e_node e) = int (length h) \<and> int (length h) \<le> LatestIndex (e_log e) \<and>
     lastIncludedIndex (e_log e) \<le> int (length h) \<and>
     (\<forall>i. lastIncludedIndex (e_log e) < i \<and> i \<le> int (length h) \<longrightarrow> readCommand cd (e_log e) i = Some (h ! nat (i - 1))) \<and>
     sm_eq (machineAfter cfg h) (e_machine e) \<and>
     (\<forall>b \<in> set (survivors (e_snapshots e)).
        \<exists>s t. standsFor cd cfg h b s t \<and> lastIncludedIndex (e_log e) \<le> s \<and> s \<le> int (length h))"

text \<open>What a crash of the engine leaves on disk.\<close>

definition crashDisk :: "Config \<Rightarrow> Engine \<Rightarrow> PersistentState \<Rightarrow> Disk \<Rightarrow> bool" where
  "crashDisk cfg e p d \<longleftrightarrow>
     crash_image (wal (e_log e)) (d_wal d (WALPath cfg)) \<and>
     Load (d_meta d (MetadataPath cfg)) = Inr (Some p) \<and>
     (\<exists>b \<in> set (survivors (e_snapshots e)). d_snapshot d (SnapshotPath cfg) = \<lparr>visible = b, survivors = [b], calls = []\<rparr>)"

section \<open>Starting\<close>

lemma machineAfter_ttl: "sm_sessionTTL (machineAfter cfg h) = sm_sessionTTL (machineAfter cfg [])"
  by (simp add: machineAfter_def applyLog_ttl)

lemma sm_wf_machineAfter: "sm_wf (machineAfter cfg h)"
  unfolding machineAfter_def by (rule sm_wf_run) (simp add: SetSessionTTL_def NewMemoryStateMachine_def sm_wf_def mwf_def)

lemma numbered_take: "numbered (take k h) = take k (numbered h)"
  by (simp add: numbered_def take_zip take_map min_def)

lemma machineAfter_catch_up:
  assumes "sm_eq (machineAfter cfg (take k h)) m"
  shows "sm_eq (machineAfter cfg h) (snd (applyLog (drop k (numbered h)) m))"
  using rep.catch_up [OF assms [unfolded machineAfter_def], of "drop k (numbered h)"]
  by (simp add: machineAfter_def numbered_take)

lemma threshold_log [simp]:
  "log_wf (rl\<lparr>compactionThreshold := n\<rparr>) = log_wf rl" "wal_ok m (rl\<lparr>compactionThreshold := n\<rparr>) = wal_ok m rl"
  "restored m rl0 s t (rl\<lparr>compactionThreshold := n\<rparr>) = restored m rl0 s t rl"
  by (simp_all add: log_wf_def positional_def wal_ok_def wal_matches_def restored_def LatestIndex_def lastIndexLocked_def
      TermAt_def GetEntry_def getEntryLocked_def Let_def)

lemma rewrite_threshold:
  "rewriteWALLocked m (rl\<lparr>compactionThreshold := n\<rparr>) =
     (case rewriteWALLocked m rl of (b, rl') \<Rightarrow> (b, rl'\<lparr>compactionThreshold := n\<rparr>))"
  by (auto simp: rewriteWALLocked_def split: prod.splits bool.splits)

lemma RestoreOffset_threshold:
  "RestoreOffset m s t (rl\<lparr>compactionThreshold := n\<rparr>) =
     (case RestoreOffset m s t rl of (b, rl') \<Rightarrow> (b, rl'\<lparr>compactionThreshold := n\<rparr>))"
  using rewrite_threshold [of m n "rl\<lparr>lastIncludedIndex := s, lastIncludedTerm := t, firstIndex := s + 1,
    cache := contiguousRun (s + 1) (cache rl), nextIndex := s + 1 + int (length (contiguousRun (s + 1) (cache rl)))\<rparr>"]
  by (cases rl) (auto simp: RestoreOffset_def Let_def split: prod.splits)

lemma opened_whole:
  assumes "contig 1 es"
  shows "log_wf (opened m es)" "lastIncludedIndex (opened m es) = 0" "lastIncludedTerm (opened m es) = 0"
  using assms contig_last [OF assms] contig_nth [OF assms, of 0]
  by (cases "es = []"; simp add: opened_def recover_entries freshLog_def log_wf_def positional_def hd_conv_nth)+

lemma NewRaftNode_loaded:
  assumes "Validate cfg = None" and "Load st = Inr (Some p)"
  shows "\<exists>rn. NewRaftNode now i cfg st Follower = Inr rn \<and> persistent rn = p \<and> Role rn = Follower \<and> CommitIndex rn = 0 \<and>
    LastApplied rn = 0 \<and> nodeID rn = i \<and> config rn = Clone cfg"
  using assms by (simp add: NewRaftNode_def loadPersistentState_def Let_def)

lemma SetCompactionThreshold_eq: "\<exists>n. SetCompactionThreshold c rl = rl\<lparr>compactionThreshold := n\<rparr>"
  by (auto simp: SetCompactionThreshold_def intro: exI [of _ "compactionThreshold rl"])

text \<open>Restoring over the log just opened, with or without a snapshot file.\<close>

lemma restore_over_opened:
  assumes "contig k es" and "1 \<le> k" "k \<le> s + 1" and "0 \<le> s"
    and "standsFor cd cfg h b s t" and "f = \<lparr>visible = b, survivors = [b], calls = []\<rparr>"
    and "sm_sessionTTL m0 = sm_sessionTTL (machineAfter cfg [])" and "b = None \<longrightarrow> m0 = machineAfter cfg []"
    and "CommitIndex rn = 0" "LastApplied rn = 0"
  shows "\<exists>sm rl rn'. restoreFromSnapshot cd f m0 ((opened (encEntry cd) es)\<lparr>compactionThreshold := n\<rparr>) rn = Inr (sm, rl, rn') \<and>
    log_wf rl \<and> wal_ok (encEntry cd) rl \<and> cache rl = drop (nat (s + 1 - k)) es \<and> lastIncludedIndex rl = s \<and>
    lastIncludedTerm rl = t \<and> sm_eq (machineAfter cfg (take (nat s) h)) sm \<and> rn' = rn\<lparr>CommitIndex := s, LastApplied := s\<rparr>"
proof (cases b)
  case None
  with assms(5) have s: "s = 0" "t = 0" by (simp_all add: standsFor_def)
  with assms(2,3) have k: "k = 1" by simp
  note opened_whole [OF assms(1) [unfolded k], of "encEntry cd"] opened_fields [of "encEntry cd" es]
  moreover have "sm_eq (machineAfter cfg []) (machineAfter cfg [])"
    using sm_wf_machineAfter by (simp add: sm_eq_def)
  moreover have "rn\<lparr>CommitIndex := 0, LastApplied := 0\<rparr> = rn" using assms(9,10) by (cases rn) simp
  ultimately show ?thesis using None assms(8)
    by (simp add: restoreFromSnapshot_def snapshotRead_def assms(6) s k)
next
  case (Some data)
  then obtain raw sm where r: "decSnapshot cd data = Some \<lparr>Meta = \<lparr>LastIncludedIndex = s, LastIncludedTerm = t\<rparr>, State = raw\<rparr>"
      "raw \<noteq> []" "Restore (decMachine cd) raw m0 = (True, sm)" "sm_eq (machineAfter cfg (take (nat s) h)) sm"
    using assms(5,7) by (auto simp: standsFor_def)
  obtain rl where l: "RestoreOffset (encEntry cd) s t (opened (encEntry cd) es) = (True, rl)" "log_wf rl"
      "wal_ok (encEntry cd) rl" "cache rl = drop (nat (s + 1 - k)) es" "lastIncludedIndex rl = s" "lastIncludedTerm rl = t"
    using restore_no_faults [OF assms(1,3,4)] by blast
  have "SeedFromSnapshot s rn = rn\<lparr>CommitIndex := s, LastApplied := s\<rparr>"
    using assms(4,9,10) by (auto simp: SeedFromSnapshot_def seedFromSnapshotLocked_def)
  then show ?thesis using r l Some
    by (simp add: restoreFromSnapshot_def snapshotRead_def assms(6) nextCall_def EncodeState_def RestoreOffset_threshold)
qed

text \<open>
  A start on the tail of a whole log with a snapshot file that stands for \<open>s\<close> commands of the
  history: the node is a follower in its recorded term, has the entries above \<open>s\<close> back, and
  is again in the invariant.
\<close>

lemma start_recorded:
  assumes fl: "ParseFlags fl = Inr cfg" "Validate (NewConfiguration (bootstrapVoters cfg)) = None"
    and rl: "log_wf rl" "codec_ok (encEntry cd) um (cache rl)" "lastIncludedIndex rl \<le> s"
    and d: "d_wal d (WALPath cfg) = frames (encEntry cd) (drop j (cache rl))" "j \<le> nat (s + 1 - firstIndex rl)"
      "Load (d_meta d (MetadataPath cfg)) = Inr (Some p)"
      "d_snapshot d (SnapshotPath cfg) = \<lparr>visible = b, survivors = [b], calls = []\<rparr>"
    and b: "standsFor cd cfg h b s t" "s \<le> int (length h)"
  shows "\<exists>e. startNode cd um now rnd [] fl d = Inr (cfg, e) \<and> restored (encEntry cd) rl s t (e_log e) \<and>
    recorded cd um cfg (take (nat s) h) e \<and> Role (e_node e) = Follower \<and> persistent (e_node e) = p \<and>
    CommitIndex (e_node e) = s \<and> LastApplied (e_node e) = s"
proof -
  let ?m = "encEntry cd" and ?es = "drop j (cache rl)" and ?sm = "SetSessionTTL (cfg_SessionTTL cfg) NewMemoryStateMachine"
  note wf = log_wfD [OF rl(1)]
  have s0: "0 \<le> s" using wf rl(3) by simp
  have c: "contig (firstIndex rl + int j) ?es"
    using contig_drop [OF wf(1), of j] by (cases "j \<le> length (cache rl)") auto
  have k: "1 \<le> firstIndex rl + int j" "firstIndex rl + int j \<le> s + 1" using wf rl(3) d(2) by auto
  have ok: "codec_ok ?m um ?es" using rl(2) by (auto simp: codec_ok_def dest: in_set_dropD)
  have w: "NewRaftLog um (d_wal d (WALPath cfg)) [] = Inr (opened ?m ?es)"
    using open_image [OF ok, of "frames ?m ?es"] by (simp add: d(1) wholeFrames_all)
  obtain n where n: "SetCompactionThreshold (cfg_CompactionThreshold cfg) (opened ?m ?es) = (opened ?m ?es)\<lparr>compactionThreshold := n\<rparr>"
    using SetCompactionThreshold_eq by blast
  obtain rn where rn: "NewRaftNode now (cfg_NodeID cfg) (NewConfiguration (bootstrapVoters cfg)) (d_meta d (MetadataPath cfg)) Follower = Inr rn"
      "persistent rn = p" "Role rn = Follower" "CommitIndex rn = 0" "LastApplied rn = 0"
    using NewRaftNode_loaded [OF fl(2) d(3)] by blast
  have sm: "?sm = machineAfter cfg []" by (simp add: machineAfter_def numbered_def)
  obtain m rl' where r: "restoreFromSnapshot cd (d_snapshot d (SnapshotPath cfg)) ?sm ((opened ?m ?es)\<lparr>compactionThreshold := n\<rparr>) rn =
        Inr (m, rl', rn\<lparr>CommitIndex := s, LastApplied := s\<rparr>)"
      "log_wf rl'" "wal_ok ?m rl'" "cache rl' = drop (nat (s + 1 - (firstIndex rl + int j))) ?es" "lastIncludedIndex rl' = s"
      "lastIncludedTerm rl' = t" "sm_eq (machineAfter cfg (take (nat s) h)) m"
    using restore_over_opened [OF c k s0 b(1) d(4), of ?sm rn n] rn(4,5) by (auto simp: sm)
  let ?e = "NewWithTransport rnd (rn\<lparr>CommitIndex := s, LastApplied := s\<rparr>) rl' m (d_snapshot d (SnapshotPath cfg))"
  have e: "startNode cd um now rnd [] fl d = Inr (cfg, ?e)"
    using fl(1) w n rn(1) r(1) by (simp add: startNode_def Let_def)
  have f: "e_log ?e = rl'" "e_machine ?e = m" "e_snapshots ?e = d_snapshot d (SnapshotPath cfg)" "LastApplied (e_node ?e) = s"
      "CommitIndex (e_node ?e) = s" "Role (e_node ?e) = Follower" "persistent (e_node ?e) = p"
    using rn(2,3) by (simp_all add: NewWithTransport_def resetElectionTimeout_def SetMinElectionTimeout_def)
  have len: "int (length (take (nat s) h)) = s" using b(2) s0 by simp
  have "nat (s + 1 - (firstIndex rl + int j)) + j = nat (s + 1 - firstIndex rl)" using k(2) by arith
  then have "drop (nat (s + 1 - (firstIndex rl + int j))) ?es = drop (nat (s + 1 - firstIndex rl)) (cache rl)" by simp
  then have res: "restored ?m rl s t rl'" using restored_drop [OF rl(1,3) r(2,3) _ r(5,6)] r(4) by simp
  have "codec_ok ?m um (cache rl')" using rl(2) unfolding r(4) drop_drop by (auto simp: codec_ok_def dest: in_set_dropD)
  moreover have "standsFor cd cfg (take (nat s) h) b s t" using b(1) by (cases b) (auto simp: standsFor_def)
  moreover have "s \<le> LatestIndex rl'" using res by (simp add: restored_def)
  ultimately have "recorded cd um cfg (take (nat s) h) ?e"
    using r(2,3,5,7) len unfolding recorded_def f by (auto simp: d(4))
  then show ?thesis using e f res by metis
qed

section \<open>Compacting\<close>

text \<open>What is relied on of the JSON encoding of the machine's snapshot and of the file around it.\<close>

definition snapshotCodecs :: "Codecs \<Rightarrow> MemoryStateMachine \<Rightarrow> bool" where
  "snapshotCodecs cd m \<longleftrightarrow>
     codecFor (encMachine cd) (decMachine cd) (machineStateOf m) \<and> Snapshot (encMachine cd) m \<noteq> [] \<and>
     (\<forall>sf. State sf = Snapshot (encMachine cd) m \<longrightarrow> decSnapshot cd (encSnapshot cd sf) = Some sf)"

lemma snapshot_stands:
  assumes "recorded cd um cfg h e" and "snapshotCodecs cd (e_machine e)"
  shows "standsFor cd cfg h (Some (encSnapshot cd \<lparr>Meta = \<lparr>LastIncludedIndex = int (length h), LastIncludedTerm = t\<rparr>,
    State = Snapshot (encMachine cd) (e_machine e)\<rparr>)) (int (length h)) t"
proof -
  have m: "sm_eq (machineAfter cfg h) (e_machine e)" using assms(1) by (simp add: recorded_def)
  then have "sm_sessionTTL (e_machine e) = sm_sessionTTL (machineAfter cfg [])"
    using machineAfter_ttl [of cfg h] by (simp add: sm_eq_def)
  moreover have "\<exists>m'. Restore (decMachine cd) (Snapshot (encMachine cd) (e_machine e)) m0 = (True, m') \<and> sm_eq (machineAfter cfg h) m'"
    if "sm_sessionTTL m0 = sm_sessionTTL (e_machine e)" for m0
    using restore_eq [of "e_machine e" "encMachine cd" "decMachine cd" m0] m assms(2) that
    by (auto simp: sm_eq_def snapshotCodecs_def)
  ultimately show ?thesis using assms(2) by (auto simp: standsFor_def snapshotCodecs_def)
qed

text \<open>
  The files a compaction may leave: the log's holds its entries from some point at or below
  the snapshot's on, and the snapshot's stands for the history up to there.
\<close>

lemma compact_images:
  assumes e: "recorded cd um cfg h e" "snapshotCodecs cd (e_machine e)"
    and img: "crash_image (wal (e_log (maybeCompact cd e))) c" "b \<in> set (survivors (e_snapshots (maybeCompact cd e)))"
  shows "\<exists>s t j. standsFor cd cfg h b s t \<and> lastIncludedIndex (e_log e) \<le> s \<and> s \<le> int (length h) \<and>
    c = frames (encEntry cd) (drop j (cache (e_log e))) \<and> j \<le> nat (s + 1 - firstIndex (e_log e))"
proof -
  let ?rl = "e_log e" and ?m = "encEntry cd" and ?n = "int (length h)"
  let ?t = "TermAt ?rl ?n"
  let ?data = "encSnapshot cd \<lparr>Meta = \<lparr>LastIncludedIndex = ?n, LastIncludedTerm = ?t\<rparr>, State = Snapshot (encMachine cd) (e_machine e)\<rparr>"
  have r: "log_wf ?rl" "wal_ok ?m ?rl" "LastApplied (e_node e) = ?n" "lastIncludedIndex ?rl \<le> ?n"
    using e(1) by (simp_all add: recorded_def)
  have old: "\<exists>s t. standsFor cd cfg h b s t \<and> lastIncludedIndex ?rl \<le> s \<and> s \<le> ?n" if "b \<in> set (survivors (e_snapshots e))"
    using e(1) that by (simp add: recorded_def)
  have new: "standsFor cd cfg h (Some ?data) ?n ?t" by (rule snapshot_stands [OF e])
  have same: "c = frames ?m (cache ?rl)" if "crash_image (wal ?rl) c"
    using r(2) that crash_image_synced by (auto simp: wal_ok_def wal_matches_def)
  obtain fin f where w: "WriteFileAtomic ?data (e_snapshots e) = (fin, f)" by force
  obtain tr rl where t: "TruncateBeforeIndex ?m ?n ?t ?rl = (tr, rl)" by force
  consider (Idle) "maybeCompact cd e = e"
    | (Failed) "\<not> fin" "maybeCompact cd e = e\<lparr>e_snapshots := f\<rparr>"
    | (Cut) "fin" "maybeCompact cd e = e\<lparr>e_snapshots := f, e_log := rl\<rparr>"
  proof (cases "NeedsCompaction ?rl ?n \<and> ?t \<noteq> 0")
    case False
    then show thesis using r(3) by (intro Idle) (auto simp: maybeCompact_def compact_def CommitAndApplyBoundary_def)
  next
    case True
    then have "maybeCompact cd e = (if fin then e\<lparr>e_snapshots := f, e_log := rl\<rparr> else e\<lparr>e_snapshots := f\<rparr>)"
      using w t r(3) by (simp add: maybeCompact_def compact_def snapshotWrite_def CommitAndApplyBoundary_def Let_def)
    then show thesis by (cases fin) (auto intro: Failed Cut)
  qed
  then show ?thesis
  proof cases
    case Idle
    then have "c = frames ?m (drop 0 (cache ?rl))" "b \<in> set (survivors (e_snapshots e))" using img same by simp_all
    with old show ?thesis by (metis le0)
  next
    case Failed
    then have "c = frames ?m (drop 0 (cache ?rl))" using img same by simp
    moreover have "b \<in> set (survivors (e_snapshots e)) \<or> b = Some ?data"
      using w img(2) Failed by (auto elim!: WriteFileAtomic_cases)
    ultimately show ?thesis using old new r(4) by (metis le0 order_refl)
  next
    case Cut
    have b: "b = Some ?data" using w img(2) Cut by (auto elim!: WriteFileAtomic_cases)
    have "\<exists>j. c = frames ?m (drop j (cache ?rl)) \<and> j \<le> nat (?n + 1 - firstIndex ?rl)"
    proof (cases "?n < firstIndex ?rl")
      case True
      then have "rl = ?rl" using t by (simp add: TruncateBeforeIndex_def)
      then show ?thesis using Cut img(1) same by (intro exI [of _ 0]) simp
    next
      case False
      then show ?thesis using truncate_images [OF r(1,2) _ t, of c] Cut img(1)
        by (auto intro: exI [of _ 0])
    qed
    then show ?thesis using b new r(4) by blast
  qed
qed

section \<open>Applying\<close>

lemma holdsAfter_numbered:
  "holdsAfter cd rl (int (length h)) cs \<Longrightarrow> numbered (h @ map snd cs) = numbered h @ cs \<and>
     (\<forall>k < length cs. readCommand cd rl (int (length h + k) + 1) = Some (snd (cs ! k)))"
proof (induction cs arbitrary: h)
  case (Cons c cs)
  obtain i cmd where c: "c = (i, cmd)" by force
  have i: "i = int (length h) + 1" "readCommand cd rl i = Some cmd" "holdsAfter cd rl (int (length (h @ [cmd]))) cs"
    using Cons.prems by (auto simp: c algebra_simps)
  have "map int [1..<Suc (length (h @ [cmd]))] = map int [1..<Suc (length h)] @ [i]" by (simp add: i(1))
  then have "numbered (h @ [cmd]) = numbered h @ [c]" unfolding numbered_def by (simp add: c del: upt_Suc map_append)
  moreover note Cons.IH [OF i(3)]
  moreover have "readCommand cd rl (int (length h + k) + 1) = Some (snd ((c # cs) ! k))" if "k < Suc (length cs)" for k
    using that i(1,2) Cons.IH [OF i(3)] by (cases k) (auto simp: c algebra_simps)
  ultimately show ?case by (simp add: c)
qed simp

lemma standsFor_append: "standsFor cd cfg h b s t \<Longrightarrow> s \<le> int (length h) \<Longrightarrow> standsFor cd cfg (h @ cs) b s t"
  by (cases b) (auto simp: standsFor_def)

text \<open>A pass of the apply loop extends the history by the commands it applied.\<close>

lemma recorded_applyCommitted:
  assumes "recorded cd um cfg h e" and "\<not> e_halted e" and "\<not> e_halted (applyCommitted cd e)"
    and "CommitIndex (e_node e) \<le> LatestIndex (e_log e)"
  shows "\<exists>cs. recorded cd um cfg (h @ cs) (applyCommitted cd e) \<and>
    int (length (h @ cs)) = max (int (length h)) (CommitIndex (e_node e))"
proof -
  let ?e = "applyCommitted cd e" and ?n = "int (length h)"
  have la: "LastApplied (e_node e) = ?n" using assms(1) by (simp add: recorded_def)
  obtain cs m where r: "appliedRun cd (CommitIndex (e_node e)) e ?e cs m"
    using applyLoop_run by (fastforce simp: applyCommitted_def CommitAndApplyBoundary_def)
  then have h: "holdsAfter cd (e_log e) ?n cs" "snd (applyLog cs (e_machine e)) = m" "?n + int (length cs) = max ?n (CommitIndex (e_node e))"
      "?e = e\<lparr>e_node := (e_node e)\<lparr>LastApplied := ?n + int (length cs)\<rparr>, e_machine := m\<rparr>"
    using assms(2,3) unfolding appliedRun_def Let_def la by auto
  note nb = holdsAfter_numbered [OF h(1)]
  have "sm_eq (machineAfter cfg (h @ map snd cs)) m"
    using rep.catch_up [of "numbered h" _ "e_machine e" cs] assms(1) nb h(2) by (simp add: machineAfter_def recorded_def)
  moreover have "readCommand cd (e_log e) i = Some ((h @ map snd cs) ! nat (i - 1))"
    if i: "lastIncludedIndex (e_log e) < i" "i \<le> ?n + int (length cs)" for i
  proof (cases "i \<le> ?n")
    case True
    have "0 < i" using i(1) log_wfD(3) [of "e_log e"] assms(1) by (simp add: recorded_def)
    then have "nat (i - 1) < length h" using True by linarith
    then show ?thesis using assms(1) i(1) True by (simp add: recorded_def nth_append)
  next
    case False
    then obtain k where k: "i = int (length h + k) + 1" "k < length cs"
      using i(2) zle_iff_zadd [of "?n + 1" i] by auto
    then have "nat (i - 1) = length h + k" by simp
    then show ?thesis using nb k by simp
  qed
  ultimately have "recorded cd um cfg (h @ map snd cs) ?e"
    using assms(1,4) h(3) unfolding recorded_def h(4) by (fastforce intro: standsFor_append)
  then show ?thesis using h(3) by (intro exI [of _ "map snd cs"]) simp
qed

section \<open>Restarting\<close>

lemma restart_after_compaction:
  assumes "recorded cd um cfg h e" and "snapshotCodecs cd (e_machine e)"
    and "ParseFlags fl = Inr cfg" and "Validate (NewConfiguration (bootstrapVoters cfg)) = None"
    and "crashDisk cfg (maybeCompact cd e) p d"
  shows "\<exists>e' s. startNode cd um now rnd [] fl d = Inr (cfg, e') \<and> s \<le> int (length h) \<and>
    recorded cd um cfg (take (nat s) h) e' \<and> Role (e_node e') = Follower \<and> persistent (e_node e') = p \<and>
    CommitIndex (e_node e') = s \<and> LastApplied (e_node e') = s \<and>
    LatestIndex (e_log e') = LatestIndex (e_log e) \<and> (\<forall>i > s. GetEntry (e_log e') i = GetEntry (e_log e) i) \<and>
    sm_eq (machineAfter cfg h) (snd (applyLog (drop (nat s) (numbered h)) (e_machine e')))"
proof -
  obtain b where b: "b \<in> set (survivors (e_snapshots (maybeCompact cd e)))"
      "d_snapshot d (SnapshotPath cfg) = \<lparr>visible = b, survivors = [b], calls = []\<rparr>"
    and d: "crash_image (wal (e_log (maybeCompact cd e))) (d_wal d (WALPath cfg))"
      "Load (d_meta d (MetadataPath cfg)) = Inr (Some p)"
    using assms(5) by (auto simp: crashDisk_def)
  have r: "log_wf (e_log e)" "codec_ok (encEntry cd) um (cache (e_log e))" "int (length h) \<le> LatestIndex (e_log e)"
    using assms(1) by (simp_all add: recorded_def)
  obtain s t j where s: "standsFor cd cfg h b s t" "lastIncludedIndex (e_log e) \<le> s" "s \<le> int (length h)"
      "d_wal d (WALPath cfg) = frames (encEntry cd) (drop j (cache (e_log e)))" "j \<le> nat (s + 1 - firstIndex (e_log e))"
    using compact_images [OF assms(1,2) d(1) b(1)] by blast
  obtain e' where e': "startNode cd um now rnd [] fl d = Inr (cfg, e')" "restored (encEntry cd) (e_log e) s t (e_log e')"
      "recorded cd um cfg (take (nat s) h) e'" "Role (e_node e') = Follower" "persistent (e_node e') = p"
      "CommitIndex (e_node e') = s" "LastApplied (e_node e') = s"
    using start_recorded [OF assms(3,4) r(1,2) s(2,4,5) d(2) b(2) s(1,3)] by blast
  have "sm_eq (machineAfter cfg (take (nat s) h)) (e_machine e')" using e'(3) by (simp add: recorded_def)
  from machineAfter_catch_up [OF this] e' s(3) r(3) show ?thesis
    by (intro exI [of _ e'] exI [of _ s]) (auto simp: restored_def)
qed

lemma json_snapshotCodecs:
  assumes "recorded cd um cfg h e" and "\<forall>c \<in> set h. utf8Command c"
  shows "snapshotCodecs jsonCodecs (e_machine e)"
proof -
  let ?m0 = "SetSessionTTL (cfg_SessionTTL cfg) NewMemoryStateMachine"
  have eq: "sm_eq (machineAfter cfg h) (e_machine e)" using assms(1) by (simp add: recorded_def)
  have "sm_wf ?m0" "utf8State ?m0"
    by (simp_all add: sm_wf_def mwf_def utf8State_def mget_def SetSessionTTL_def NewMemoryStateMachine_def)
  moreover have "\<forall>(i, c) \<in> set (numbered h). utf8Command c"
    using assms(2) by (auto simp: numbered_def dest: set_zip_rightD)
  ultimately have "utf8State (machineAfter cfg h)" unfolding machineAfter_def by (rule applyLog_utf8)
  then have "utf8State (e_machine e)" by (rule utf8State_eq [OF eq])
  moreover have w: "sm_wf (e_machine e)" using eq by (simp add: sm_eq_def)
  ultimately have "codecFor encodeMachine decodeMachine (machineStateOf (e_machine e))"
    by (intro machine_codec utf8State_machine)
  moreover have "encodeMachine st \<noteq> []" for st by (simp add: encodeMachine_def)
  ultimately show ?thesis by (simp add: snapshotCodecs_def jsonCodecs_def Snapshot_def decode_snapshot_file)
qed

section \<open>Properties\<close>

text \<open>C0. A node that compacts, crashes at any point of it and starts again loses nothing it
  applied: whatever the faults, whichever bytes of the log's file and whichever snapshot the
  crash leaves, the start succeeds; the node is a follower in its recorded term and vote, its
  machine stands for the first \<open>s\<close> commands of the history, its log holds every entry above \<open>s\<close>
  as before, and applying the rest of the history gives the machine it had.\<close>

theorem compaction_restart:
  assumes "recorded jsonCodecs decodeEntry cfg h e" and "\<forall>c \<in> set h. utf8Command c"
    and "ParseFlags fl = Inr cfg" and "Validate (NewConfiguration (bootstrapVoters cfg)) = None"
    and "crashDisk cfg (maybeCompact jsonCodecs e) p d"
  shows "\<exists>e' s. startNode jsonCodecs decodeEntry now rnd [] fl d = Inr (cfg, e') \<and> s \<le> int (length h) \<and>
    recorded jsonCodecs decodeEntry cfg (take (nat s) h) e' \<and> Role (e_node e') = Follower \<and> persistent (e_node e') = p \<and>
    CommitIndex (e_node e') = s \<and> LastApplied (e_node e') = s \<and>
    LatestIndex (e_log e') = LatestIndex (e_log e) \<and> (\<forall>i > s. GetEntry (e_log e') i = GetEntry (e_log e) i) \<and>
    sm_eq (machineAfter cfg h) (snd (applyLog (drop (nat s) (numbered h)) (e_machine e')))"
  by (rule restart_after_compaction [OF assms(1) json_snapshotCodecs [OF assms(1,2)] assms(3-5)])

definition demoCfg :: Config where
  "demoCfg = \<lparr>cfg_NodeID = 1, cfg_Port = '':8080'', cfg_DataDir = ''data'', cfg_Peers = [],
     cfg_CompactionThreshold = 0, cfg_SessionTTL = 0\<rparr>"

definition demoSet :: Command where
  "demoSet = demoCommand OpSet ''v'' [] 0 5"

definition demoRecord :: LogEntry where
  "demoRecord = \<lparr>Index = 1, Term = 1, Command = EncodeCommand demoSet\<rparr>"

text \<open>A node of one server that has applied one command and compacts from the first entry on.\<close>

definition demoLife :: Engine where
  "demoLife = NewWithTransport 0 ((demoNode 1)\<lparr>CommitIndex := 1, LastApplied := 1\<rparr>)
     ((opened encodeEntry [demoRecord])\<lparr>compactionThreshold := 1\<rparr>) (machineAfter demoCfg [demoSet])
     \<lparr>visible = None, survivors = [None], calls = []\<rparr>"

lemma demoSet_utf8: "utf8Command demoSet"
proof -
  have "utf8 OpSet" "utf8 ''k''" "utf8 ''v''" by (rule utf8_ascii, simp add: OpSet_def)+
  then show ?thesis by (simp add: utf8Command_def demoSet_def demoCommand_def)
qed

lemma encode64_length: "length (encode64 b) \<le> 4 * length b"
  by (induction b rule: encode64.induct) (auto simp: Let_def)

lemma demoRecord_codec: "codec_ok encodeEntry decodeEntry [demoRecord]"
proof -
  have "length (EncodeCommand demoSet) < 100" "length (int_dec 1) = 1" by code_simp+
  then show ?thesis using encode64_length [of "EncodeCommand demoSet"]
    by (simp add: codec_ok_json encodeEntry_def demoRecord_def)
qed

lemma demoLife_log:
  "cache (opened encodeEntry [demoRecord]) = [demoRecord]" "firstIndex (opened encodeEntry [demoRecord]) = 1"
  "lastIncludedIndex (opened encodeEntry [demoRecord]) = 0" "nextIndex (opened encodeEntry [demoRecord]) = 2"
  "isOpen (wal (opened encodeEntry [demoRecord]))" "script (wal (opened encodeEntry [demoRecord])) = []"
  by (simp_all add: opened_def freshLog_def recoverEntry_def demoRecord_def)

lemma demoLife_fields:
  "e_log demoLife = (opened encodeEntry [demoRecord])\<lparr>compactionThreshold := 1\<rparr>"
  "e_machine demoLife = machineAfter demoCfg [demoSet]" "LastApplied (e_node demoLife) = 1"
  "e_snapshots demoLife = \<lparr>visible = None, survivors = [None], calls = []\<rparr>"
  by (simp_all add: demoLife_def NewWithTransport_def resetElectionTimeout_def SetMinElectionTimeout_def)

lemma demoLife_recorded: "recorded jsonCodecs decodeEntry demoCfg [demoSet] demoLife"
proof -
  let ?rl = "(opened encodeEntry [demoRecord])\<lparr>compactionThreshold := 1\<rparr>"
  have c: "contig 1 [demoRecord]" by (simp add: demoRecord_def)
  have "readCommand jsonCodecs ?rl 1 = Some demoSet"
    using demoLife_log decode_command [OF demoSet_utf8]
    by (simp add: readCommand_def GetEntry_def getEntryLocked_def jsonCodecs_def demoRecord_def)
  then have "\<forall>i. 0 < i \<and> i \<le> 1 \<longrightarrow> readCommand jsonCodecs ?rl i = Some ([demoSet] ! nat (i - 1))"
    by (metis One_nat_def cancel_comm_monoid_add_class.diff_cancel int_one_le_iff_zero_less nat_zero_as_int nth_Cons_0 order_antisym)
  moreover have "LatestIndex ?rl = 1" using demoLife_log by (simp add: LatestIndex_def lastIndexLocked_def demoRecord_def)
  moreover have "sm_eq (machineAfter demoCfg [demoSet]) (machineAfter demoCfg [demoSet])"
    using sm_wf_machineAfter by (simp add: sm_eq_def)
  moreover have "encEntry jsonCodecs = encodeEntry" by (simp add: jsonCodecs_def)
  ultimately show ?thesis
    using opened_whole [OF c, of encodeEntry] opened_fields [of encodeEntry "[demoRecord]"] demoRecord_codec
    unfolding recorded_def demoLife_fields by (auto simp: standsFor_def)
qed

theorem compaction_restart_witness:
  "\<exists>e' s. startNode jsonCodecs decodeEntry 0 0 [] defaultFlags
      \<lparr>d_wal = (\<lambda>_. content (wal (e_log (maybeCompact jsonCodecs demoLife)))),
       d_meta = (\<lambda>_. \<lparr>holds = Some \<lparr>CurrentTerm = 1, VotedFor = 1\<rparr>, mayHold = [], saves = [], loadErr = None\<rparr>),
       d_snapshot = (\<lambda>_. \<lparr>visible = hd (survivors (e_snapshots (maybeCompact jsonCodecs demoLife))),
          survivors = [hd (survivors (e_snapshots (maybeCompact jsonCodecs demoLife)))], calls = []\<rparr>)\<rparr> = Inr (demoCfg, e') \<and>
     CurrentTerm (persistent (e_node e')) = 1 \<and> lastIncludedIndex (e_log (maybeCompact jsonCodecs demoLife)) = 1 \<and>
     sm_eq (machineAfter demoCfg [demoSet]) (snd (applyLog (drop (nat s) (numbered [demoSet])) (e_machine e')))"
proof -
  let ?e = "maybeCompact jsonCodecs demoLife"
  let ?p = "\<lparr>CurrentTerm = 1, VotedFor = 1\<rparr>"
  let ?rl = "(opened encodeEntry [demoRecord])\<lparr>compactionThreshold := 1\<rparr>"
  let ?d = "\<lparr>d_wal = (\<lambda>_. content (wal (e_log ?e))),
    d_meta = (\<lambda>_. \<lparr>holds = Some ?p, mayHold = [], saves = [], loadErr = None\<rparr>),
    d_snapshot = (\<lambda>_. \<lparr>visible = hd (survivors (e_snapshots ?e)), survivors = [hd (survivors (e_snapshots ?e))], calls = []\<rparr>)\<rparr>"
  note l = demoLife_log
  have f: "ParseFlags defaultFlags = Inr demoCfg" "Validate (NewConfiguration (bootstrapVoters demoCfg)) = None"
    by code_simp+
  have t: "NeedsCompaction ?rl 1" "TermAt ?rl 1 = 1"
    using l by (simp_all add: NeedsCompaction_def TermAt_def getEntryLocked_def demoRecord_def)
  have e: "e_snapshots ?e = \<lparr>visible = hd (survivors (e_snapshots ?e)), survivors = [hd (survivors (e_snapshots ?e))], calls = []\<rparr> \<and>
      lastIncludedIndex (e_log ?e) = 1 \<and> shadow (wal (e_log ?e)) = None \<and> synced (wal (e_log ?e)) = length (content (wal (e_log ?e)))"
    using t l by (simp add: maybeCompact_def compact_def CommitAndApplyBoundary_def demoLife_fields snapshotWrite_def
        WriteFileAtomic_def SyncDir_def nextCall_def TruncateBeforeIndex_def rewrite_no_faults Let_def)
  then have "crash_image (wal (e_log ?e)) (content (wal (e_log ?e)))" by (simp add: crash_image_def prefix_image_def)
  moreover have "survivors (e_snapshots ?e) = [hd (survivors (e_snapshots ?e))]" using e by (metis AtomicFile.select_convs(2))
  then have "hd (survivors (e_snapshots ?e)) \<in> set (survivors (e_snapshots ?e))" by (metis list.set_intros(1))
  ultimately have "crashDisk demoCfg ?e ?p ?d" unfolding crashDisk_def by (auto simp: Load_def)
  then show ?thesis
    using compaction_restart [OF demoLife_recorded _ f, of ?p ?d 0 0] demoSet_utf8 e by fastforce
qed

end
