(* ===== verification/Test_Cluster.thy ===== *)
theory Test_Cluster
  imports Fake_Net Engine_Cluster Node_Startup
begin

text \<open>
  The test harness, \<^verbatim>\<open>internal/testcluster/cluster.go\<close>: it builds a cluster of engines over the
  fake network, polls it, and fails the test when two servers are seen to lead one term.
  The theorems say that what it builds is a cluster the safety theorems are about, that its
  election monitor never fires on a run of such a cluster, and when its wait for the absence
  of a leader may fail.
\<close>

section \<open>Definitions\<close>

text \<open>
  \<^verbatim>\<open>Node.Engine\<close>, \<^verbatim>\<open>.Raft\<close>, \<^verbatim>\<open>.Log\<close> and \<^verbatim>\<open>.Store\<close> are pointers to the engine of the server and to its
  parts, which live in the \<^typ>\<open>servers\<close>; \<open>nd_done\<close> says whether the channel is closed.
\<close>

record Node =
  nd_ID :: int
  nd_Addr :: string
  nd_DataDir :: string
  nd_done :: bool

record TestCluster =
  tc_Nodes :: "(int, Node) gomap"
  tc_net :: fakeNet
  tc_termLeaders :: "(int, int) gomap"

record Options =
  op_Size :: int
  op_Seed :: int
  op_CompactionThreshold :: int

text \<open>Every failure is a call of \<^verbatim>\<open>t.Fatalf\<close>, but for the use of a node that is not there, which panics.\<close>

datatype test_failure =
    LogNotOpened int open_error
  | NodeNotCreated int node_error
  | ElectionSafetyViolated int int int
  | NoSingleLeader "int list"
  | LeaderWithoutQuorum int
  | NotConverged "int list" string string
  | NilNode int

subsection \<open>Building\<close>

definition nodeAddr :: "int \<Rightarrow> string" where
  "nodeAddr i = ''node-'' @ int_dec i"

definition testVoters :: "int \<Rightarrow> (int, string) gomap" where
  "testVoters sz = fold (\<lambda>other. mput other (nodeAddr other)) [1..sz] []"

definition testPeers :: "int \<Rightarrow> int \<Rightarrow> (int, string) gomap" where
  "testPeers sz i = fold (\<lambda>other m. if other \<noteq> i then mput other (nodeAddr other) m else m) [1..sz] []"

definition testConfig :: "Options \<Rightarrow> (int \<Rightarrow> string) \<Rightarrow> int \<Rightarrow> Config" where
  "testConfig opts tempDir i =
     \<lparr>cfg_NodeID = i, cfg_Port = '''', cfg_DataDir = tempDir i, cfg_Peers = testPeers (op_Size opts) i,
      cfg_CompactionThreshold = op_CompactionThreshold opts, cfg_SessionTTL = 0\<rparr>"

text \<open>
  The body of the loop, for server \<open>i\<close>: \<open>tempDir i\<close> is its new directory, \<open>os i\<close> the outcomes of
  the calls on its log file, \<open>rnd i\<close> the first draw of its engine.
\<close>

definition newNode ::
  "unmarshal \<Rightarrow> nanos \<Rightarrow> (int \<Rightarrow> int) \<Rightarrow> (int \<Rightarrow> outcome list) \<Rightarrow> (int \<Rightarrow> string) \<Rightarrow> Disk \<Rightarrow> Options \<Rightarrow> int \<Rightarrow>
     TestCluster \<times> servers \<Rightarrow> test_failure + TestCluster \<times> servers" where
  "newNode um now rnd os tempDir disk opts i =
     (\<lambda>(c, es).
       let cfg = testConfig opts tempDir i in
       case NewRaftLog um (d_wal disk (WALPath cfg)) (os i) of
         Inl err \<Rightarrow> Inl (LogNotOpened i err)
       | Inr rl \<Rightarrow>
           (let rl = SetCompactionThreshold (op_CompactionThreshold opts) rl in
            case NewRaftNode now i (NewConfiguration (testVoters (op_Size opts))) (d_meta disk (MetadataPath cfg)) Follower of
              Inl err \<Rightarrow> Inl (NodeNotCreated i err)
            | Inr rn \<Rightarrow>
                (let eng = NewWithTransport (rnd i) rn rl NewMemoryStateMachine (d_snapshot disk (SnapshotPath cfg));
                     n = \<lparr>nd_ID = i, nd_Addr = nodeAddr i, nd_DataDir = tempDir i, nd_done = False\<rparr>
                 in Inr (c\<lparr>tc_Nodes := mput i n (tc_Nodes c), tc_net := register (nd_Addr n) i (tc_net c)\<rparr>,
                         es(i := eng)))))"

text \<open>A loop whose body may end the test.\<close>

fun tryEach :: "('a \<Rightarrow> 's \<Rightarrow> 'e + 's) \<Rightarrow> 'a list \<Rightarrow> 's \<Rightarrow> 'e + 's" where
  "tryEach f [] s = Inr s"
| "tryEach f (x # xs) s = (case f x s of Inl err \<Rightarrow> Inl err | Inr s \<Rightarrow> tryEach f xs s)"

text \<open>\<open>source\<close> is the sequence of draws of the generator for a seed; \<open>es\<close> are the engines of earlier tests.\<close>

definition defaultOptions :: "Options \<Rightarrow> Options" where
  "defaultOptions opts =
     (let opts = (if op_Size opts \<le> 0 then opts\<lparr>op_Size := 3\<rparr> else opts) in
      if op_Seed opts = 0 then opts\<lparr>op_Seed := 1\<rparr> else opts)"

definition NewCluster ::
  "(int \<Rightarrow> nat \<Rightarrow> rat) \<Rightarrow> unmarshal \<Rightarrow> nanos \<Rightarrow> (int \<Rightarrow> int) \<Rightarrow> (int \<Rightarrow> outcome list) \<Rightarrow> (int \<Rightarrow> string) \<Rightarrow> Disk \<Rightarrow> Options \<Rightarrow>
     servers \<Rightarrow> test_failure + TestCluster \<times> servers" where
  "NewCluster source um now rnd os tempDir disk opts es =
     (let opts = defaultOptions opts;
          c = \<lparr>tc_Nodes = [], tc_net = newFakeNet (source (op_Seed opts)), tc_termLeaders = []\<rparr>
      in tryEach (newNode um now rnd os tempDir disk opts) [1..op_Size opts] (c, es))"

definition Stop :: "TestCluster \<times> servers \<Rightarrow> TestCluster \<times> servers" where
  "Stop = (\<lambda>(c, es).
     (c\<lparr>tc_Nodes := map (\<lambda>(i, n). (i, n\<lparr>nd_done := True\<rparr>)) (tc_Nodes c)\<rparr>,
      fold (\<lambda>(i, n) es. es(i := (es i)\<lparr>e_log := snd (Close (e_log (es i)))\<rparr>)) (tc_Nodes c) es))"

subsection \<open>The monitor\<close>

text \<open>The body of the loop, for one node; \<open>view\<close> is the engine of each server at the moment it is read.\<close>

definition checkNode :: "servers \<Rightarrow> Node \<Rightarrow> (int, int) gomap \<Rightarrow> test_failure + (int, int) gomap" where
  "checkNode view n termLeaders =
     (let (role, term) = node_State (e_node (view (nd_ID n))) in
      if role \<noteq> Leader then Inr termLeaders
      else case mget termLeaders term of
             Some prev \<Rightarrow>
               (if prev \<noteq> nd_ID n then Inl (ElectionSafetyViolated prev (nd_ID n) term)
                else Inr (mput term (nd_ID n) termLeaders))
           | None \<Rightarrow> Inr (mput term (nd_ID n) termLeaders))"

definition CheckSingleLeaderPerTerm :: "servers \<Rightarrow> TestCluster \<Rightarrow> test_failure + TestCluster" where
  "CheckSingleLeaderPerTerm view c =
     (case tryEach (checkNode view) (map snd (tc_Nodes c)) (tc_termLeaders c) of
        Inl err \<Rightarrow> Inl err
      | Inr termLeaders \<Rightarrow> Inr (c\<lparr>tc_termLeaders := termLeaders\<rparr>))"

subsection \<open>Waiting\<close>

text \<open>
  A wait polls until its deadline.  It takes the list of what its polls see: each is the
  engines as the monitor reads them and as the wait itself does.
\<close>

definition ids :: "TestCluster \<Rightarrow> int list" where
  "ids c = mkeys (tc_Nodes c)"

definition leadersAmong :: "int list \<Rightarrow> servers \<Rightarrow> TestCluster \<Rightarrow> Node list" where
  "leadersAmong xs view c =
     concat (map (\<lambda>i. case mget (tc_Nodes c) i of
                        Some n \<Rightarrow> if IsLeader (e_node (view (nd_ID n))) then [n] else []
                      | None \<Rightarrow> []) xs)"

fun WaitLeaderAmong :: "int list \<Rightarrow> (servers \<times> servers) list \<Rightarrow> TestCluster \<Rightarrow> test_failure + Node \<times> TestCluster" where
  "WaitLeaderAmong xs [] c = Inl (NoSingleLeader xs)"
| "WaitLeaderAmong xs ((view, view') # polls) c =
     (case CheckSingleLeaderPerTerm view c of
        Inl err \<Rightarrow> Inl err
      | Inr c \<Rightarrow>
          (case leadersAmong xs view' c of
             [n] \<Rightarrow> Inr (n, c)
           | _ \<Rightarrow> WaitLeaderAmong xs polls c))"

definition WaitLeader :: "(servers \<times> servers) list \<Rightarrow> TestCluster \<Rightarrow> test_failure + Node \<times> TestCluster" where
  "WaitLeader polls c = WaitLeaderAmong (ids c) polls c"

fun WaitNoLeaderAmong :: "int list \<Rightarrow> (servers \<times> servers) list \<Rightarrow> TestCluster \<Rightarrow> test_failure + TestCluster" where
  "WaitNoLeaderAmong xs [] c = Inr c"
| "WaitNoLeaderAmong xs ((view, view') # polls) c =
     (case CheckSingleLeaderPerTerm view c of
        Inl err \<Rightarrow> Inl err
      | Inr c \<Rightarrow>
          (case leadersAmong xs view' c of
             n # _ \<Rightarrow> Inl (LeaderWithoutQuorum (nd_ID n))
           | [] \<Rightarrow> WaitNoLeaderAmong xs polls c))"

fun allApplied :: "string \<Rightarrow> string \<Rightarrow> servers \<Rightarrow> TestCluster \<Rightarrow> int list \<Rightarrow> test_failure + bool" where
  "allApplied key val view c [] = Inr True"
| "allApplied key val view c (i # is) =
     (case mget (tc_Nodes c) i of
        None \<Rightarrow> Inl (NilNode i)
      | Some n \<Rightarrow>
          (if Get (e_machine (view (nd_ID n))) key \<noteq> Some val then Inr False
           else allApplied key val view c is))"

fun WaitApplied ::
  "int list \<Rightarrow> string \<Rightarrow> string \<Rightarrow> (servers \<times> servers) list \<Rightarrow> TestCluster \<Rightarrow> test_failure + TestCluster" where
  "WaitApplied xs key val [] c = Inl (NotConverged xs key val)"
| "WaitApplied xs key val ((view, view') # polls) c =
     (case CheckSingleLeaderPerTerm view c of
        Inl err \<Rightarrow> Inl err
      | Inr c \<Rightarrow>
          (case allApplied key val view' c xs of
             Inl err \<Rightarrow> Inl err
           | Inr True \<Rightarrow> Inr c
           | Inr False \<Rightarrow> WaitApplied xs key val polls c))"

subsection \<open>Actions\<close>

datatype propose_error =
    QueueFull int
  | ProposalTimedOut int
  | Refused engine_error

text \<open>
  A proposal is put on the engine's queue, where the control loop finds it as the event in
  the result; \<open>admitted\<close> says whether the queue took it in time, \<open>answer\<close> what came back in time.
\<close>

definition tc_propose ::
  "nat \<Rightarrow> bool \<Rightarrow> engine_error option option \<Rightarrow> Node \<Rightarrow> Command \<Rightarrow> event option \<times> propose_error option" where
  "tc_propose ch admitted answer n cmd =
     (if \<not> admitted then (None, Some (QueueFull (nd_ID n)))
      else (Some (EvProposal cmd ch),
            case answer of
              None \<Rightarrow> Some (ProposalTimedOut (nd_ID n))
            | Some None \<Rightarrow> None
            | Some (Some err) \<Rightarrow> Some (Refused err)))"

definition SetVia ::
  "nat \<Rightarrow> bool \<Rightarrow> engine_error option option \<Rightarrow> Node \<Rightarrow> string \<Rightarrow> string \<Rightarrow> event option \<times> propose_error option" where
  "SetVia ch admitted answer n key val =
     tc_propose ch admitted answer n
       \<lparr>Op = OpSet, Key = key, Value = val, ClientID = '''', Seq = 0, Timestamp = 0\<rparr>"

definition tc_Set ::
  "(servers \<times> servers) list \<Rightarrow> nat \<Rightarrow> bool \<Rightarrow> engine_error option option \<Rightarrow> string \<Rightarrow> string \<Rightarrow> TestCluster \<Rightarrow>
     test_failure + (event option \<times> propose_error option) \<times> TestCluster" where
  "tc_Set polls ch admitted answer key val c =
     (case WaitLeader polls c of
        Inl err \<Rightarrow> Inl err
      | Inr (leader, c) \<Rightarrow> Inr (SetVia ch admitted answer leader key val, c))"

definition SetTagged ::
  "nat \<Rightarrow> bool \<Rightarrow> engine_error option option \<Rightarrow> Node \<Rightarrow> string \<Rightarrow> string \<Rightarrow> string \<Rightarrow> 64 word \<Rightarrow> event option \<times> propose_error option" where
  "SetTagged ch admitted answer n key val clientID seq =
     tc_propose ch admitted answer n
       \<lparr>Op = OpSet, Key = key, Value = val, ClientID = clientID, Seq = seq, Timestamp = 0\<rparr>"

definition DeleteTagged ::
  "nat \<Rightarrow> bool \<Rightarrow> engine_error option option \<Rightarrow> Node \<Rightarrow> string \<Rightarrow> string \<Rightarrow> 64 word \<Rightarrow> event option \<times> propose_error option" where
  "DeleteTagged ch admitted answer n key clientID seq =
     tc_propose ch admitted answer n
       \<lparr>Op = OpDelete, Key = key, Value = '''', ClientID = clientID, Seq = seq, Timestamp = 0\<rparr>"

text \<open>The outcome of the engine's call is an argument; the store is read in the engine as it is afterwards.\<close>

definition tc_Read :: "engine_error option \<Rightarrow> servers \<Rightarrow> Node \<Rightarrow> string \<Rightarrow> engine_error + string option" where
  "tc_Read linearizable after n key =
     (case linearizable of
        Some err \<Rightarrow> Inl err
      | None \<Rightarrow> Inr (Get (e_machine (after (nd_ID n))) key))"

definition ReadBounded ::
  "engine_error option \<Rightarrow> (nanos \<Rightarrow> engine_error option) \<Rightarrow> servers \<Rightarrow> Node \<Rightarrow> string \<Rightarrow> nanos \<Rightarrow> engine_error + string option" where
  "ReadBounded linearizable bounded after n key maxStaleness =
     (let opts = \<lparr>ro_Consistency = BoundedStale, ro_MaxStaleness = maxStaleness\<rparr> in
      case engine_Read linearizable bounded opts of
        Some err \<Rightarrow> Inl err
      | None \<Rightarrow> Inr (Get (e_machine (after (nd_ID n))) key))"

text \<open>Here the use of a server that is not in the cluster is \<^const>\<open>None\<close>.\<close>

definition Isolate :: "int \<Rightarrow> TestCluster \<Rightarrow> TestCluster option" where
  "Isolate i c = map_option (\<lambda>n. c\<lparr>tc_net := isolate (nd_Addr n) (tc_net c)\<rparr>) (mget (tc_Nodes c) i)"

definition Heal :: "int \<Rightarrow> TestCluster \<Rightarrow> TestCluster option" where
  "Heal i c = map_option (\<lambda>n. c\<lparr>tc_net := heal (nd_Addr n) (tc_net c)\<rparr>) (mget (tc_Nodes c) i)"

definition HealAll :: "TestCluster \<Rightarrow> TestCluster" where
  "HealAll c = c\<lparr>tc_net := healAll (tc_net c)\<rparr>"

definition Cut :: "int \<Rightarrow> int \<Rightarrow> TestCluster \<Rightarrow> TestCluster option" where
  "Cut i j c =
     (case (mget (tc_Nodes c) i, mget (tc_Nodes c) j) of
        (Some a, Some b) \<Rightarrow> Some (c\<lparr>tc_net := cutLink (nd_Addr a) (nd_Addr b) (tc_net c)\<rparr>)
      | _ \<Rightarrow> None)"

definition SetDropRate :: "rat \<Rightarrow> TestCluster \<Rightarrow> TestCluster" where
  "SetDropRate p c = c\<lparr>tc_net := setDropRate p (tc_net c)\<rparr>"

definition SetDelay :: "nanos \<Rightarrow> TestCluster \<Rightarrow> TestCluster" where
  "SetDelay d c = c\<lparr>tc_net := setDelay d (tc_net c)\<rparr>"

definition SetBlackholeDelay :: "nanos \<Rightarrow> TestCluster \<Rightarrow> TestCluster" where
  "SetBlackholeDelay d c = c\<lparr>tc_net := setBlackholeDelay d (tc_net c)\<rparr>"

text \<open>The lines of \<^verbatim>\<open>dumpState\<close>, one per node there is: role, term, commit index, applied index, last log index.\<close>

definition dumpState :: "servers \<Rightarrow> TestCluster \<Rightarrow> (int \<times> NodeRole \<times> int \<times> int \<times> int \<times> int) list" where
  "dumpState view c =
     concat (map (\<lambda>i. case mget (tc_Nodes c) i of
                        None \<Rightarrow> []
                      | Some n \<Rightarrow>
                          (let e = view (nd_ID n);
                               (role, term) = node_State (e_node e);
                               (commit, applied) = CommitAndApplyBoundary (e_node e)
                           in [(i, role, term, commit, applied, LatestIndex (e_log e))]))
       [1..int (length (tc_Nodes c))])"

definition Others :: "int list \<Rightarrow> TestCluster \<Rightarrow> int list" where
  "Others exclude c = filter (\<lambda>i. i \<notin> set exclude) (mkeys (tc_Nodes c))"

section \<open>The cluster it builds\<close>

definition clusterConfig :: "Options \<Rightarrow> Configuration" where
  "clusterConfig opts = NewConfiguration (testVoters (op_Size (defaultOptions opts)))"

text \<open>The directories are new: there is no file in them.\<close>

definition emptyDirs :: "Options \<Rightarrow> (int \<Rightarrow> string) \<Rightarrow> Disk \<Rightarrow> bool" where
  "emptyDirs opts tempDir disk \<longleftrightarrow>
     (\<forall>i. let cfg = testConfig (defaultOptions opts) tempDir i in
        d_wal disk (WALPath cfg) = [] \<and> holds (d_meta disk (MetadataPath cfg)) = None \<and>
        visible (d_snapshot disk (SnapshotPath cfg)) = None)"

definition freshEngine :: "Configuration \<Rightarrow> int \<Rightarrow> Engine \<Rightarrow> bool" where
  "freshEngine cfg i e \<longleftrightarrow> nodeID (e_node e) = i \<and> config (e_node e) = cfg \<and> Role (e_node e) = Follower \<and>
     durable (e_node e) \<and> persistent (e_node e) = \<lparr>CurrentTerm = 0, VotedFor = -1\<rparr> \<and> cache (e_log e) = [] \<and>
     \<not> e_halted e \<and> \<not> e_done e"

lemma testVoters_get: "mget (testVoters sz) i = (if 1 \<le> i \<and> i \<le> sz then Some (nodeAddr i) else None)" "mwf (testVoters sz)"
proof -
  have "mget (fold (\<lambda>other. mput other (nodeAddr other)) xs m) i = (if i \<in> set xs then Some (nodeAddr i) else mget m i)"
    and "mwf m \<Longrightarrow> mwf (fold (\<lambda>other. mput other (nodeAddr other)) xs m)" for xs m
    by (induction xs arbitrary: m) (auto simp: gm.lookup_put gm.wf_put)
  then show "mget (testVoters sz) i = (if 1 \<le> i \<and> i \<le> sz then Some (nodeAddr i) else None)" "mwf (testVoters sz)"
    by (auto simp: testVoters_def)
qed

lemma size_pos: "1 \<le> op_Size (defaultOptions opts)"
  by (simp add: defaultOptions_def Let_def)

lemma clusterConfig_ok: "cfg_ok (clusterConfig opts)" "Voters (clusterConfig opts) = testVoters (op_Size (defaultOptions opts))"
proof -
  have "testVoters (op_Size (defaultOptions opts)) \<noteq> []"
    using testVoters_get(1) [of "op_Size (defaultOptions opts)" 1] size_pos [of opts] by auto
  then show "cfg_ok (clusterConfig opts)" "Voters (clusterConfig opts) = testVoters (op_Size (defaultOptions opts))"
    using testVoters_get(2) by (simp_all add: clusterConfig_def NewConfiguration_def cfg_ok_def cfg_wf_def copyMembers_id)
qed

lemma emptyLog:
  assumes "NewRaftLog um [] os = Inr rl"
  shows "cache rl = []"
proof -
  have scan: "\<exists>r. scanFrames um [] 0 0 [] os' = (r, tl os') \<and> (r = ScanEOF [] \<or> r = ScanCut [] 0)" for os'
    by (subst scanFrames.simps) (auto split: outcome.split)
  have "content (snd (sysCall w)) = content w" for w by (simp add: sysCall_def step_script_def)
  then show ?thesis using assms scan [of "tl os"]
    by (auto simp: NewRaftLog_def recover_def freshLog_def Let_def sysCall_def step_script_def split: prod.splits bool.splits sum.splits if_splits)
qed

lemma newNode_effect:
  assumes "newNode um now rnd os tempDir disk (defaultOptions opts) i (c, es) = Inr (c', es')" and "emptyDirs opts tempDir disk"
  shows "\<exists>e n. es' = es(i := e) \<and> freshEngine (clusterConfig opts) i e \<and> nd_ID n = i \<and> nd_Addr n = nodeAddr i \<and>
    tc_Nodes c' = mput i n (tc_Nodes c) \<and> tc_net c' = register (nodeAddr i) i (tc_net c) \<and> tc_termLeaders c' = tc_termLeaders c"
proof -
  let ?cfg = "testConfig (defaultOptions opts) tempDir i"
  let ?st = "d_meta disk (MetadataPath ?cfg)"
  have d: "d_wal disk (WALPath ?cfg) = []" "holds ?st = None" using assms(2) by (simp_all add: emptyDirs_def Let_def)
  obtain rl where rl: "NewRaftLog um [] (os i) = Inr rl"
    using assms(1) d(1) by (auto simp: newNode_def Let_def split: sum.splits)
  obtain rn where rn: "NewRaftNode now i (clusterConfig opts) ?st Follower = Inr rn"
    using assms(1) d(1) rl by (auto simp: newNode_def Let_def clusterConfig_def split: sum.splits)
  have k: "nodeID rn = i" "config rn = clusterConfig opts" "Role rn = Follower" "durable rn"
      "persistent rn = \<lparr>CurrentTerm = 0, VotedFor = -1\<rparr>"
    using rn d(2) clusterConfig_ok(1) [of opts]
    by (auto simp: NewRaftNode_def Let_def loadPersistentState_def Load_def Save_def durable_def Clone_def cfg_ok_def cfg_wf_def
        split: option.splits sum.splits prod.splits list.splits save_outcome.splits if_splits)
  let ?e = "NewWithTransport (rnd i) rn (SetCompactionThreshold (op_CompactionThreshold (defaultOptions opts)) rl)
     NewMemoryStateMachine (d_snapshot disk (SnapshotPath ?cfg))"
  let ?n = "\<lparr>nd_ID = i, nd_Addr = nodeAddr i, nd_DataDir = tempDir i, nd_done = False\<rparr>"
  have "freshEngine (clusterConfig opts) i ?e"
    using k emptyLog [OF rl]
    by (auto simp: freshEngine_def NewWithTransport_def resetElectionTimeout_def SetMinElectionTimeout_def SetCompactionThreshold_def durable_def)
  moreover have "c' = c\<lparr>tc_Nodes := mput i ?n (tc_Nodes c), tc_net := register (nodeAddr i) i (tc_net c)\<rparr>" "es' = es(i := ?e)"
    using assms(1) rl rn d(1) by (auto simp: newNode_def Let_def clusterConfig_def)
  ultimately show ?thesis by (intro exI [of _ ?e] exI [of _ ?n]) simp
qed

lemma nodeAddr_inj: "nodeAddr i = nodeAddr j \<longleftrightarrow> i = j"
proof -
  have "readInt (int_dec k) = Some (k, [])" for k using readInt_dec [of "[]" k] by (simp add: stops_def)
  then show ?thesis by (metis nodeAddr_def same_append_eq option.inject prod.inject)
qed

lemma newNodes_effect:
  assumes "tryEach (newNode um now rnd os tempDir disk (defaultOptions opts)) is (c, es) = Inr (c', es')" and "emptyDirs opts tempDir disk"
  shows "(\<forall>i \<in> set is. freshEngine (clusterConfig opts) i (es' i)) \<and> (\<forall>i. i \<notin> set is \<longrightarrow> es' i = es i) \<and>
    tc_termLeaders c' = tc_termLeaders c \<and> set (mkeys (tc_Nodes c')) = set (mkeys (tc_Nodes c)) \<union> set is \<and>
    (\<forall>i n. mget (tc_Nodes c') i = Some n \<longrightarrow> mget (tc_Nodes c) i = Some n \<or> nd_ID n = i \<and> nd_Addr n = nodeAddr i) \<and>
    (\<forall>i. mget (fn_handlers (tc_net c')) (nodeAddr i) = (if i \<in> set is then Some i else mget (fn_handlers (tc_net c)) (nodeAddr i)))"
  using assms(1)
proof (induction "is" arbitrary: c es)
  case (Cons i "is")
  then obtain c1 es1 where s: "newNode um now rnd os tempDir disk (defaultOptions opts) i (c, es) = Inr (c1, es1)"
      "tryEach (newNode um now rnd os tempDir disk (defaultOptions opts)) is (c1, es1) = Inr (c', es')"
    by (auto split: sum.splits)
  obtain e n where e: "es1 = es(i := e)" "freshEngine (clusterConfig opts) i e" "nd_ID n = i" "nd_Addr n = nodeAddr i"
      "tc_Nodes c1 = mput i n (tc_Nodes c)" "tc_net c1 = register (nodeAddr i) i (tc_net c)" "tc_termLeaders c1 = tc_termLeaders c"
    using newNode_effect [OF s(1) assms(2)] by blast
  note ih = Cons.IH [OF s(2)]
  have "freshEngine (clusterConfig opts) i (es' i)" using ih e(1,2) by (cases "i \<in> set is") auto
  moreover have "set (mkeys (tc_Nodes c1)) = insert i (set (mkeys (tc_Nodes c)))"
    by (simp add: e(5) gm.keys_dom gm.lookup_put)
  moreover have "mget (tc_Nodes c') j = Some x \<Longrightarrow> mget (tc_Nodes c) j = Some x \<or> nd_ID x = j \<and> nd_Addr x = nodeAddr j" for j x
    using ih e(3-5) by (fastforce simp: gm.lookup_put split: if_splits)
  moreover have "mget (fn_handlers (tc_net c1)) (nodeAddr j) = (if j = i then Some i else mget (fn_handlers (tc_net c)) (nodeAddr j))" for j
    by (simp add: e(6) register_def gm.lookup_put nodeAddr_inj)
  ultimately show ?case using ih e(1,7) by auto
qed simp

lemma NewCluster_effect:
  assumes "NewCluster source um now rnd os tempDir disk opts es = Inr (c, es')" and "emptyDirs opts tempDir disk"
  shows "set (ids c) = {1..op_Size (defaultOptions opts)}" and "i \<in> set (ids c) \<Longrightarrow> freshEngine (clusterConfig opts) i (es' i)"
    and "tc_termLeaders c = []" and "mget (tc_Nodes c) i = Some n \<Longrightarrow> nd_ID n = i \<and> nd_Addr n = nodeAddr i"
    and "i \<in> set (ids c) \<Longrightarrow> mget (fn_handlers (tc_net c)) (nodeAddr i) = Some i"
  using newNodes_effect [OF _ assms(2)] assms(1) by (force simp: NewCluster_def Let_def ids_def)+

section \<open>Watching a run\<close>

text \<open>
  The engines of the cluster run as the cluster of \<^const>\<open>fleet_step\<close>, and the monitor reads one
  node after the other, with any number of steps in between.
\<close>

definition runsFrom :: "Configuration \<Rightarrow> TestCluster \<Rightarrow> servers \<Rightarrow> Fleet \<Rightarrow> bool" where
  "runsFrom cfg c es s \<longleftrightarrow> fleet_initial cfg s \<and> (\<forall>i \<in> set (ids c). engines s i = es i)"

inductive watched :: "Codecs \<Rightarrow> Configuration \<Rightarrow> TestCluster \<Rightarrow> servers \<Rightarrow> Fleet \<Rightarrow> TestCluster \<Rightarrow> bool" for cd cfg c0 es0 where
  start: "runsFrom cfg c0 es0 s \<Longrightarrow> watched cd cfg c0 es0 s c0"
| step: "watched cd cfg c0 es0 s c \<Longrightarrow> fleet_step cd s s' \<Longrightarrow> watched cd cfg c0 es0 s' c"
| sample: "watched cd cfg c0 es0 s c \<Longrightarrow> n \<in> set (map snd (tc_Nodes c)) \<Longrightarrow>
    checkNode (engines s) n (tc_termLeaders c) = Inr m \<Longrightarrow> watched cd cfg c0 es0 s (c\<lparr>tc_termLeaders := m\<rparr>)"

lemma led_grows: "fleet_step cd s s' \<Longrightarrow> led s \<subseteq> led s'" "fleet_step cd s s' \<Longrightarrow> leading s' \<subseteq> led s'"
  by (auto elim!: fleet_step.cases simp: observe_def leading_def)

text \<open>What the monitor has recorded was so.\<close>

lemma watched_inv:
  assumes "watched cd cfg c0 es0 s c" and "tc_termLeaders c0 = []"
  shows "fleet_reachable cd cfg s \<and> leading s \<subseteq> led s \<and> tc_Nodes c = tc_Nodes c0 \<and>
    (\<forall>t i. mget (tc_termLeaders c) t = Some i \<longrightarrow> (i, t) \<in> led s)"
  using assms
proof (induction rule: watched.induct)
  case (start s)
  then show ?case
    by (auto simp: runsFrom_def fleet_initial_def leading_def IsLeader_def intro: fleet_reachable.start)
next
  case (step s c s')
  then show ?case using led_grows [OF step(2)] by (blast intro: fleet_reachable.step)
next
  case (sample s c n m)
  then show ?case
    by (fastforce simp: checkNode_def node_State_def leading_def IsLeader_def node_CurrentTerm_def gm.lookup_put
        split: if_splits option.splits)
qed

lemma checkNode_silent:
  assumes "watched cd cfg c0 es0 s c" and "tc_termLeaders c0 = []" and "cfg_ok cfg"
  shows "\<exists>m. checkNode (engines s) n (tc_termLeaders c) = Inr m"
proof -
  note w = watched_inv [OF assms(1,2)]
  have "i = nd_ID n" if "mget (tc_termLeaders c) t = Some i" "(nd_ID n, t) \<in> leading s" for i t
    using w that fleet_one_leader [OF assms(3)] by blast
  then show ?thesis
    by (auto simp: checkNode_def node_State_def leading_def IsLeader_def node_CurrentTerm_def split: option.splits)
qed

lemma check_silent:
  assumes "watched cd cfg c0 es0 s c" and "tc_termLeaders c0 = []" and "cfg_ok cfg"
  shows "\<exists>c'. CheckSingleLeaderPerTerm (engines s) c = Inr c' \<and> watched cd cfg c0 es0 s c'"
proof -
  have "\<exists>m. tryEach (checkNode (engines s)) ns (tc_termLeaders c) = Inr m \<and> watched cd cfg c0 es0 s (c\<lparr>tc_termLeaders := m\<rparr>)"
    if "watched cd cfg c0 es0 s c" "set ns \<subseteq> set (map snd (tc_Nodes c))" for ns c
    using that
  proof (induction ns arbitrary: c)
    case (Cons n ns)
    obtain m where m: "checkNode (engines s) n (tc_termLeaders c) = Inr m"
      using checkNode_silent [OF Cons.prems(1) assms(2,3)] by blast
    have "watched cd cfg c0 es0 s (c\<lparr>tc_termLeaders := m\<rparr>)"
      using Cons.prems m by (intro watched.sample [of cd cfg c0 es0 s c n m]) auto
    from Cons.IH [OF this] Cons.prems(2) m show ?case by simp
  qed simp
  from this [OF assms(1) subset_refl] show ?thesis by (auto simp: CheckSingleLeaderPerTerm_def)
qed

text \<open>What the polls of a wait see: the states of the cluster at later and later times.\<close>

fun later :: "Codecs \<Rightarrow> Fleet \<Rightarrow> Fleet list \<Rightarrow> bool" where
  "later cd s [] = True"
| "later cd s (s' # ss) = ((fleet_step cd)\<^sup>*\<^sup>* s s' \<and> later cd s' ss)"

definition pollsOf :: "Fleet list \<Rightarrow> (servers \<times> servers) list" where
  "pollsOf ss = map (\<lambda>s. (engines s, engines s)) ss"

lemma watched_steps:
  assumes "(fleet_step cd)\<^sup>*\<^sup>* s s'" and "watched cd cfg c0 es0 s c"
  shows "watched cd cfg c0 es0 s' c"
  using assms by (induction rule: rtranclp_induct) (auto intro: watched.step)

text \<open>No server of a set without a quorum is seen to lead when its votes came from the set.\<close>

definition votesWithin :: "int set \<Rightarrow> int list \<Rightarrow> Fleet \<Rightarrow> bool" where
  "votesWithin M xs s \<longleftrightarrow>
     (\<forall>i \<in> set xs. \<forall>v. (v, node_CurrentTerm (e_node (engines s i)), i) \<in> granted s \<longrightarrow> v \<in> M)"

lemma none_leads:
  assumes "fleet_reachable cd cfg s" and "cfg_ok cfg" and "\<not> quorum_of cfg M" and "set xs \<subseteq> M" and "votesWithin M xs s"
    and "\<And>i n. mget (tc_Nodes c) i = Some n \<Longrightarrow> nd_ID n = i"
  shows "leadersAmong xs (engines s) c = []"
proof -
  have "\<not> IsLeader (e_node (engines s i))" if i: "i \<in> set xs" for i
  proof
    let ?t = "node_CurrentTerm (e_node (engines s i))"
    assume "IsLeader (e_node (engines s i))"
    then have "quorum_of cfg (insert i {v. (v, ?t, i) \<in> granted s})"
      by (intro leader_voters [OF assms(2,1)]) (simp add: leading_def)
    moreover have "insert i {v. (v, ?t, i) \<in> granted s} \<subseteq> M" using assms(4,5) i by (auto simp: votesWithin_def)
    ultimately show False using assms(3) cq.quorum_mono by blast
  qed
  then show ?thesis using assms(6) by (auto simp: leadersAmong_def split: option.splits)
qed

lemma no_leader_wait:
  assumes "watched cd cfg c0 es0 s c" and "tc_termLeaders c0 = []" and "cfg_ok cfg" and "later cd s ss"
    and "\<And>i n. mget (tc_Nodes c0) i = Some n \<Longrightarrow> nd_ID n = i"
    and "\<not> quorum_of cfg M" and "set xs \<subseteq> M" and "\<forall>s' \<in> set ss. votesWithin M xs s'"
  shows "\<exists>c'. WaitNoLeaderAmong xs (pollsOf ss) c = Inr c'"
  using assms(1,4,8)
proof (induction ss arbitrary: s c)
  case (Cons s' ss)
  have w: "watched cd cfg c0 es0 s' c" using watched_steps Cons.prems by auto
  then obtain c' where c': "CheckSingleLeaderPerTerm (engines s') c = Inr c'" "watched cd cfg c0 es0 s' c'"
    using check_silent [OF _ assms(2,3)] by blast
  note i = watched_inv [OF c'(2) assms(2)]
  have "leadersAmong xs (engines s') c' = []"
    by (rule none_leads [OF _ assms(3,6,7)]) (use i Cons.prems(3) assms(5) in auto)
  with Cons.IH [OF c'(2)] Cons.prems(2,3) c'(1) show ?case by (simp add: pollsOf_def)
qed (simp add: pollsOf_def)

lemma cluster_start:
  assumes "NewCluster source um now rnd os tempDir disk opts es0 = Inr (c, es)" and "emptyDirs opts tempDir disk"
  shows "\<exists>s. runsFrom (clusterConfig opts) c es s"
proof -
  note n = NewCluster_effect [OF assms]
  have f: "1 \<in> set (ids c)" using n(1) size_pos by auto
  let ?e = "\<lambda>i. if i \<in> set (ids c) then es i else (es 1)\<lparr>e_node := (e_node (es 1))\<lparr>nodeID := i\<rparr>\<rparr>"
  have "durable ((e_node (es 1))\<lparr>nodeID := i\<rparr>) = durable (e_node (es 1))" for i by (simp add: durable_def)
  then have "runsFrom (clusterConfig opts) c es \<lparr>engines = ?e, granted = {}, led = {}\<rparr>"
    using n(2) f by (auto simp: runsFrom_def fleet_initial_def freshEngine_def)
  then show ?thesis ..
qed

section \<open>A run\<close>

text \<open>A cluster of one server, built in empty directories; its timeout passes and it leads.\<close>

definition oneOptions :: Options where
  "oneOptions = \<lparr>op_Size = 1, op_Seed = 0, op_CompactionThreshold = 0\<rparr>"

definition emptyDisk :: Disk where
  "emptyDisk = \<lparr>d_wal = (\<lambda>_. []), d_meta = (\<lambda>_. \<lparr>holds = None, mayHold = [None], saves = [], loadErr = None\<rparr>),
     d_snapshot = (\<lambda>_. \<lparr>visible = None, survivors = [None], calls = []\<rparr>)\<rparr>"

definition oneNode :: "int \<Rightarrow> RaftNode" where
  "oneNode i = \<lparr>nodeID = i, config = \<lparr>Voters = [(1, ''node-1'')], OldVoters = [], Learners = []\<rparr>, Role = Follower, LeaderID = 0,
     CommitIndex = 0, LastApplied = 0, lastContact = 0, votesFrom = None, minElectionTimeout = DefaultMinElectionTimeout,
     NextIndex = [], MatchIndex = [], persistent = \<lparr>CurrentTerm = 0, VotedFor = -1\<rparr>,
     store = \<lparr>holds = Some \<lparr>CurrentTerm = 0, VotedFor = -1\<rparr>, mayHold = [Some \<lparr>CurrentTerm = 0, VotedFor = -1\<rparr>], saves = [], loadErr = None\<rparr>\<rparr>"

definition oneEngine :: "int \<Rightarrow> Engine" where
  "oneEngine i = NewWithTransport 0 (oneNode i) (demoWhole []) NewMemoryStateMachine \<lparr>visible = None, survivors = [None], calls = []\<rparr>"

definition oneCluster :: TestCluster where
  "oneCluster = \<lparr>tc_Nodes = [(1, \<lparr>nd_ID = 1, nd_Addr = ''node-1'', nd_DataDir = ''tmp'', nd_done = False\<rparr>)],
     tc_net = register ''node-1'' 1 (newFakeNet (\<lambda>_. 0)), tc_termLeaders = []\<rparr>"

definition oneStart :: "test_failure + TestCluster \<times> servers" where
  "oneStart = NewCluster (\<lambda>_ _. 0) demoUnmarshal 0 (\<lambda>_. 0) (\<lambda>_. []) (\<lambda>_. ''tmp'') emptyDisk oneOptions (\<lambda>i. oneEngine 0)"

lemma one_config: "clusterConfig oneOptions = \<lparr>Voters = [(1, ''node-1'')], OldVoters = [], Learners = []\<rparr>"
  by code_simp

lemma one_log: "NewRaftLog demoUnmarshal [] [] = Inr (demoWhole [])"
  by (simp add: NewRaftLog_def recover_def freshLog_def sysCall_def step_script_def scanFrames.simps fileSync_def
      demoWhole_def defaultCompactionThreshold_def Let_def)

lemma one_start: "oneStart = Inr (oneCluster, (\<lambda>i. oneEngine 0)(1 := oneEngine 1))"
proof -
  have n: "NewRaftNode 0 1 (clusterConfig oneOptions) \<lparr>holds = None, mayHold = [None], saves = [], loadErr = None\<rparr> Follower = Inr (oneNode 1)"
    by (simp add: one_config NewRaftNode_def Validate_def validateVoters.simps Clone_def copyMembers_def mput_def oneNode_def loadPersistentState_def
        Load_def Save_def Peers_def Members_def mdel_def Let_def)
  have "testVoters 1 = [(1, ''node-1'')]" "nodeAddr 1 = ''node-1''" by code_simp+
  then show ?thesis using n one_log
    by (simp add: oneStart_def NewCluster_def defaultOptions_def oneOptions_def newNode_def emptyDisk_def clusterConfig_def testConfig_def
        SetCompactionThreshold_def oneCluster_def oneEngine_def mput_def Let_def)
qed

definition oneFleet :: Fleet where
  "oneFleet = \<lparr>engines = oneEngine, granted = {}, led = {}\<rparr>"

definition oneLed :: Fleet where
  "oneLed = observe (oneFleet\<lparr>engines := oneEngine(1 := engineStep demoCodecs loneTick (oneEngine 1))\<rparr>)"

lemma one_leads:
  "IsLeader (e_node (engineStep demoCodecs loneTick (oneEngine 1)))"
  "node_CurrentTerm (e_node (engineStep demoCodecs loneTick (oneEngine 1))) = 1"
proof -
  note l = demoWhole_append [of "[]" 1 "[]", simplified]
  have n: "LastLogState (demoWhole []) = (0, 0)" "\<not> NeedsCompaction x 0" for x
    by (simp_all add: LastLogState_def lastIndexLocked_def NeedsCompaction_def demoWhole_def Let_def)
  have p: "Peers \<lparr>Voters = [(1, ''node-1'')], OldVoters = [], Learners = []\<rparr> 1 = []"
    by (simp add: Peers_def Members_def mput_def mdel_def)
  note evs = engineStep_def runTurn_def onTick_def loneTick_def oneEngine_def NewWithTransport_def resetElectionTimeout_def
      oneNode_def SetMinElectionTimeout_def electionTimeoutMin_def IsLeader_def node_CurrentTerm_def
      node_State_def reconcileLeadership_def failAllReads_def TimeSinceContact_def startPreVote_def runElection_def
      BecomeCandidate_def commitPersistentLocked_def Save_def engine_becomeLeader_def BecomeLeader_def
      resetLeadershipEvidence_def startReplicators_def currentPeers_def node_Peers_def p
      mput_def l n CommitAndApplyBoundary_def mkeys_def applyCommitted_def applyLoop.simps demoCodecs_def Let_def
      maybeCompact_def fireReadWaiters_def fireApplyWaiters_def checkQuorum_def sweepExpiredWaiters_def sweepExpiredReads_def
      sweepExpiredApplyWaiters_def
  show "IsLeader (e_node (engineStep demoCodecs loneTick (oneEngine 1)))"
    "node_CurrentTerm (e_node (engineStep demoCodecs loneTick (oneEngine 1))) = 1"
    by (simp_all add: evs)
qed

lemma one_watched:
  "emptyDirs oneOptions (\<lambda>_. ''tmp'') emptyDisk"
  "runsFrom (clusterConfig oneOptions) oneCluster ((\<lambda>i. oneEngine 0)(1 := oneEngine 1)) oneFleet"
  "fleet_step demoCodecs oneFleet oneLed"
proof -
  show "emptyDirs oneOptions (\<lambda>_. ''tmp'') emptyDisk" by (simp add: emptyDirs_def emptyDisk_def Let_def)
  show "runsFrom (clusterConfig oneOptions) oneCluster ((\<lambda>i. oneEngine 0)(1 := oneEngine 1)) oneFleet"
    by (simp add: runsFrom_def fleet_initial_def oneFleet_def oneEngine_def NewWithTransport_def resetElectionTimeout_def
        SetMinElectionTimeout_def oneNode_def one_config durable_def ids_def oneCluster_def mkeys_def)
  show "fleet_step demoCodecs oneFleet oneLed"
    using fleet_step.act [of 1 oneFleet loneTick demoCodecs] by (simp add: oneLed_def oneFleet_def sincere_def loneTick_def)
qed

lemma one_led_watched:
  "watched demoCodecs (clusterConfig oneOptions) oneCluster ((\<lambda>i. oneEngine 0)(1 := oneEngine 1)) oneLed oneCluster"
  by (rule watched.step [OF watched.start [OF one_watched(2)] one_watched(3)])

section \<open>Properties\<close>

text \<open>What the harness builds: in empty directories, a cluster that is built has the servers from
  one to its size, each with a fresh engine listening at its address, all with the same valid
  configuration, and it is a start of the runs the safety theorems are about.\<close>

theorem cluster_built:
  assumes "NewCluster source um now rnd os tempDir disk opts es0 = Inr (c, es)" and "emptyDirs opts tempDir disk"
  shows "set (ids c) = {1..op_Size (defaultOptions opts)} \<and> 1 \<le> op_Size (defaultOptions opts) \<and> cfg_ok (clusterConfig opts) \<and>
    (\<forall>i \<in> set (ids c). freshEngine (clusterConfig opts) i (es i) \<and> mget (fn_handlers (tc_net c)) (nodeAddr i) = Some i) \<and>
    (\<exists>s. runsFrom (clusterConfig opts) c es s)"
  using NewCluster_effect [OF assms] cluster_start [OF assms] size_pos clusterConfig_ok(1) by blast

theorem cluster_built_witness:
  "emptyDirs oneOptions (\<lambda>_. ''tmp'') emptyDisk \<and> oneStart = Inr (oneCluster, (\<lambda>i. oneEngine 0)(1 := oneEngine 1)) \<and>
   set (ids oneCluster) = {1} \<and> freshEngine (clusterConfig oneOptions) 1 (oneEngine 1)"
proof -
  have "op_Size (defaultOptions oneOptions) = 1" by (simp add: defaultOptions_def oneOptions_def)
  with cluster_built [OF one_start [unfolded oneStart_def] one_watched(1)] one_start one_watched(1) show ?thesis
    by (metis fun_upd_same singletonI atLeastAtMost_singleton)
qed

text \<open>C0. The election monitor never fires: in every run of a cluster the harness built, whatever the
  interleaving, the faults, and the moments at which the nodes are read, the check of
  \<^verbatim>\<open>CheckSingleLeaderPerTerm\<close> passes.\<close>

theorem monitor_silent:
  assumes "NewCluster source um now rnd os tempDir disk opts es0 = Inr (c0, es)" and "emptyDirs opts tempDir disk"
    and "watched cd (clusterConfig opts) c0 es s c"
  shows "(\<exists>m. checkNode (engines s) n (tc_termLeaders c) = Inr m) \<and>
    (\<exists>c'. CheckSingleLeaderPerTerm (engines s) c = Inr c' \<and> watched cd (clusterConfig opts) c0 es s c')"
  using checkNode_silent [OF assms(3) _ clusterConfig_ok(1)] check_silent [OF assms(3) _ clusterConfig_ok(1)]
    NewCluster_effect(3) [OF assms(1,2)] by blast

theorem monitor_silent_witness:
  "watched demoCodecs (clusterConfig oneOptions) oneCluster ((\<lambda>i. oneEngine 0)(1 := oneEngine 1)) oneLed oneCluster \<and>
   (1, 1) \<in> leading oneLed \<and> (\<exists>c'. CheckSingleLeaderPerTerm (engines oneLed) oneCluster = Inr c')"
  using monitor_silent [OF one_start [unfolded oneStart_def] one_watched(1) one_led_watched] one_led_watched one_leads
  by (auto simp: leading_def oneLed_def observe_def)

text \<open>C23. A minority elects nobody: while the votes of the servers in a set come only from a set of
  servers without a quorum, however long the wait polls them, it finds no leader among them
  and does not fail the test.\<close>

theorem minority_elects_nobody:
  assumes "NewCluster source um now rnd os tempDir disk opts es0 = Inr (c0, es)" and "emptyDirs opts tempDir disk"
    and "watched cd (clusterConfig opts) c0 es s c" and "later cd s ss"
    and "\<not> quorum_of (clusterConfig opts) M" and "set xs \<subseteq> M" and "\<forall>s' \<in> set ss. votesWithin M xs s'"
  shows "\<exists>c'. WaitNoLeaderAmong xs (pollsOf ss) c = Inr c'"
  by (rule no_leader_wait [OF assms(3) NewCluster_effect(3) [OF assms(1,2)] clusterConfig_ok(1) assms(4) _ assms(5-7)])
    (use NewCluster_effect(4) [OF assms(1,2)] in blast)

definition threeOptions :: Options where
  "threeOptions = oneOptions\<lparr>op_Size := 3\<rparr>"

lemma three_start: "\<exists>c es. NewCluster source demoUnmarshal now rnd (\<lambda>_. []) tempDir emptyDisk threeOptions es0 = Inr (c, es)"
proof -
  let ?f = "newNode demoUnmarshal now rnd (\<lambda>_. []) tempDir emptyDisk (defaultOptions threeOptions)"
  have "Validate (NewConfiguration (testVoters 3)) = None" by code_simp
  then have "\<exists>s'. ?f i s = Inr s'" for i s
    using one_log by (auto simp: newNode_def emptyDisk_def NewRaftNode_def loadPersistentState_def Load_def Save_def Let_def
        defaultOptions_def threeOptions_def oneOptions_def split: prod.split)
  then have "\<exists>s'. tryEach ?f is s = Inr s'" for "is" s
    by (induction "is" arbitrary: s) (simp, metis sum.case(2) tryEach.simps(2))
  then show ?thesis by (force simp: NewCluster_def Let_def)
qed

theorem minority_elects_nobody_witness:
  "\<exists>c0 es s s'. NewCluster (\<lambda>_ _. 0) demoUnmarshal 0 (\<lambda>_. 0) (\<lambda>_. []) (\<lambda>_. ''tmp'') emptyDisk threeOptions (\<lambda>_. oneEngine 0) = Inr (c0, es) \<and>
     watched demoCodecs (clusterConfig threeOptions) c0 es s c0 \<and> later demoCodecs s [s', s'] \<and>
     \<not> quorum_of (clusterConfig threeOptions) {1} \<and> (\<exists>c'. WaitNoLeaderAmong [1] (pollsOf [s', s']) c0 = Inr c')"
proof -
  obtain c0 es where b: "NewCluster (\<lambda>_ _. 0) demoUnmarshal 0 (\<lambda>_. 0) (\<lambda>_. []) (\<lambda>_. ''tmp'') emptyDisk threeOptions (\<lambda>_. oneEngine 0) = Inr (c0, es)"
    using three_start by blast
  have d: "emptyDirs threeOptions (\<lambda>_. ''tmp'') emptyDisk" by (simp add: emptyDirs_def emptyDisk_def Let_def)
  obtain s where r: "runsFrom (clusterConfig threeOptions) c0 es s" using cluster_start [OF b d] by blast
  let ?s = "observe (s\<lparr>engines := (engines s)(1 := engineStep demoCodecs loneTick (engines s 1))\<rparr>)"
  have "fleet_step demoCodecs s ?s" by (rule fleet_step.act) (simp_all add: sincere_def loneTick_def)
  then have l: "later demoCodecs s [?s, ?s]" by simp
  have v: "votesWithin {1} [1] ?s" using r by (simp add: runsFrom_def fleet_initial_def votesWithin_def observe_def)
  have "Voters (clusterConfig threeOptions) = [(1, ''node-1''), (2, ''node-2''), (3, ''node-3'')]" by code_simp
  moreover have "card (A \<inter> {1}) \<le> 1" for A :: "int set" using card_mono [of "{1 :: int}" "A \<inter> {1}"] by simp
  ultimately have q: "\<not> quorum_of (clusterConfig threeOptions) {1}"
    by (simp add: quorum_of_def majority_of_def not_less)
  note w = watched.start [OF r]
  have "\<exists>c'. WaitNoLeaderAmong [1] (pollsOf [?s, ?s]) c0 = Inr c'"
    by (rule minority_elects_nobody [OF b d w l q]) (use v in simp_all)
  with b w l q show ?thesis by blast
qed

end
