(* ===== verification/Engine_Network.thy ===== *)
theory Engine_Network
  imports Engine_Timing Cluster_Safety Node_Startup
begin

text \<open>
  A cluster of whole engines that talk only in messages one of them sent, and its refinement of
  the network of nodes and logs: every handler of the control loop, every call and every restart
  of an engine is a run of that network, on the engine's node and log.
\<close>

section \<open>Definitions\<close>

text \<open>
  Control loops, inbound calls and the two halves of a replicator's call interleave in any
  order.  Messages are lost, delayed, duplicated and reordered, but not made up.  \<open>sub ch\<close> is the
  command a client submits on channel \<open>ch\<close>.
\<close>

record Swarm =
  sw_engine :: "int \<Rightarrow> Engine"
  sw_polls :: "RequestVoteRequest set"
  sw_sent :: "AppendEntriesRequest set"
  sw_answers :: "(int \<times> AppendEntriesRequest \<times> AppendEntriesResponse) set"
  sw_granted :: "(int \<times> int \<times> int) set"

definition voteRequests :: "Engine \<Rightarrow> RequestVoteRequest set" where
  "voteRequests e = {req. \<exists>p addr. SendVote p addr req \<in> set (e_outbox e)}"

definition genuine :: "int \<Rightarrow> Swarm \<Rightarrow> event \<Rightarrow> bool" where
  "genuine i s ev \<longleftrightarrow>
     (case ev of EvVote t v resp \<Rightarrow> rvr_VoteGranted resp \<longrightarrow> (v, t, i) \<in> sw_granted s | _ \<Rightarrow> True)"

text \<open>
  The log is one the network allows: its entries fit into frames, and it is below the
  threshold that makes the engine compact it.
\<close>

definition uncompacted :: "Codecs \<Rightarrow> unmarshal \<Rightarrow> Engine \<Rightarrow> bool" where
  "uncompacted cd um e \<longleftrightarrow> codec_ok (encEntry cd) um (cache (e_log e)) \<and> lastIncludedIndex (e_log e) = 0 \<and>
     int (length (cache (e_log e))) < compactionThreshold (e_log e)"

inductive swarm_step :: "Codecs \<Rightarrow> unmarshal \<Rightarrow> Config \<Rightarrow> (nat \<Rightarrow> Command) \<Rightarrow> Swarm \<Rightarrow> Swarm \<Rightarrow> bool" for cd um cfg sub where
  turn: "0 < i \<Longrightarrow> genuine i s ev \<Longrightarrow> carries sub (Turn rnd rnd' now ev) \<Longrightarrow>
    e' = engineStep cd (Turn rnd rnd' now ev) (sw_engine s i) \<Longrightarrow> uncompacted cd um e' \<Longrightarrow>
    swarm_step cd um cfg sub s (s\<lparr>sw_engine := (sw_engine s)(i := e'), sw_polls := sw_polls s \<union> voteRequests e'\<rparr>)"
| send: "\<not> e_halted (sw_engine s i) \<Longrightarrow> IsLeader (e_node (sw_engine s i)) \<Longrightarrow>
    swarm_step cd um cfg sub s (s\<lparr>sw_engine := (sw_engine s)(i := snd (nextRoundSeq (sw_engine s i))),
      sw_sent := insert (appendRequest (e_log (sw_engine s i)) p (e_node (sw_engine s i))) (sw_sent s)\<rparr>)"
| receive: "req \<in> sw_sent s \<Longrightarrow> \<not> e_halted (sw_engine s v) \<Longrightarrow>
    engine_HandleAppendEntries cd now req (sw_engine s v) = (resp, e') \<Longrightarrow>
    swarm_step cd um cfg sub s (s\<lparr>sw_engine := (sw_engine s)(v := e'), sw_answers := insert (v, req, resp) (sw_answers s)\<rparr>)"
| reply: "(p, req, resp) \<in> sw_answers s \<Longrightarrow> ae_LeaderID req = i \<Longrightarrow> \<not> e_halted (sw_engine s i) \<Longrightarrow>
    (IsLeader (e_node (sw_engine s i)) \<longrightarrow> node_CurrentTerm (e_node (sw_engine s i)) = ae_Term req) \<Longrightarrow>
    appendReply (ae_Term req) p resp (e_node (sw_engine s i)) = (t, rn) \<Longrightarrow>
    swarm_step cd um cfg sub s (s\<lparr>sw_engine := (sw_engine s)(i := (sw_engine s i)\<lparr>e_node := rn\<rparr>)\<rparr>)"
| vote: "req \<in> sw_polls s \<Longrightarrow> \<not> e_halted (sw_engine s v) \<Longrightarrow>
    engine_HandleRequestVote now req (sw_engine s v) = (resp, e') \<Longrightarrow>
    swarm_step cd um cfg sub s (s\<lparr>sw_engine := (sw_engine s)(v := e'),
      sw_granted := (if rvr_VoteGranted resp then insert (v, rvr_Term resp, rv_CandidateID req) (sw_granted s) else sw_granted s)\<rparr>)"
| restart: "p \<in> set (mayHold (store (e_node (sw_engine s v)))) \<Longrightarrow> restartNode now p os (e_node (sw_engine s v)) = Inr rn \<Longrightarrow>
    crash_image (wal (e_log (sw_engine s v))) b \<Longrightarrow> NewRaftLog um b [] = Inr rl \<Longrightarrow>
    swarm_step cd um cfg sub s (s\<lparr>sw_engine := (sw_engine s)(v := NewWithTransport rnd rn rl (machineAfter cfg []) f)\<rparr>)"

section \<open>Moves of one server\<close>

text \<open>
  \<open>stands\<close>: in the network \<open>n\<close>, which has granted the votes \<open>G\<close>, server \<open>i\<close> has the node and log of
  engine \<open>e\<close>, and the votes \<open>e\<close> asked for are on their way.  \<open>moved\<close>: the network ran on, and only
  that server changed, to \<open>e'\<close>.
\<close>

definition stands :: "Codecs \<Rightarrow> unmarshal \<Rightarrow> Configuration \<Rightarrow> (int \<times> int \<times> int) set \<Rightarrow> int \<Rightarrow> Network \<Rightarrow> Engine \<Rightarrow> bool" where
  "stands cd um cfg G i n e \<longleftrightarrow> net_reachable (encEntry cd) um cfg n \<and> peer n i = e_node e \<and> rlog n i = e_log e \<and>
     voteRequests e \<subseteq> polls n \<and> G \<subseteq> ledger (members n)"

definition moved :: "Codecs \<Rightarrow> unmarshal \<Rightarrow> int \<Rightarrow> Network \<Rightarrow> Network \<Rightarrow> Engine \<Rightarrow> bool" where
  "moved cd um i n n' e' \<longleftrightarrow> (net_step (encEntry cd) um)\<^sup>*\<^sup>* n n' \<and> node (members n') = (node (members n))(i := e_node e') \<and>
     rlog n' = (rlog n)(i := e_log e') \<and> polls n \<union> voteRequests e' \<subseteq> polls n' \<and> sent n \<subseteq> sent n' \<and> answers n \<subseteq> answers n' \<and>
     ledger (members n) \<subseteq> ledger (members n')"

definition reaches :: "Codecs \<Rightarrow> unmarshal \<Rightarrow> Configuration \<Rightarrow> (int \<times> int \<times> int) set \<Rightarrow> int \<Rightarrow> Engine \<Rightarrow> Engine \<Rightarrow> bool" where
  "reaches cd um cfg G i e e' \<longleftrightarrow> (\<forall>n. stands cd um cfg G i n e \<longrightarrow> (\<exists>n'. moved cd um i n n' e'))"

lemma net_reachable_run: "(net_step m um)\<^sup>*\<^sup>* n n' \<Longrightarrow> net_reachable m um cfg n \<Longrightarrow> net_reachable m um cfg n'"
  by (induction rule: rtranclp_induct) (auto intro: net_reachable.step)

lemma moved_stands: "stands cd um cfg G i n e \<Longrightarrow> moved cd um i n n' e' \<Longrightarrow> stands cd um cfg G i n' e'"
  using net_reachable_run by (auto simp: stands_def moved_def)

lemma moved_trans: "moved cd um i n n1 e1 \<Longrightarrow> moved cd um i n1 n2 e2 \<Longrightarrow> moved cd um i n n2 e2"
  by (auto simp: moved_def intro: rtranclp_trans)

lemma reaches_trans [trans]: "reaches cd um cfg G i e e1 \<Longrightarrow> reaches cd um cfg G i e1 e2 \<Longrightarrow> reaches cd um cfg G i e e2"
  unfolding reaches_def by (metis moved_stands moved_trans)

text \<open>What the network sees of an engine.\<close>

definition sameView :: "Engine \<Rightarrow> Engine \<Rightarrow> bool" where
  "sameView e e' \<longleftrightarrow> e_node e' = e_node e \<and> e_log e' = e_log e \<and> voteRequests e' \<subseteq> voteRequests e"

lemma reaches_same: "sameView e e' \<Longrightarrow> reaches cd um cfg G i e e'"
  unfolding reaches_def
proof (intro allI impI exI)
  fix n assume "sameView e e'" "stands cd um cfg G i n e"
  then show "moved cd um i n n e'" by (auto simp: sameView_def stands_def moved_def fun_eq_iff)
qed

text \<open>A step of the network that only changes the server's node.\<close>

lemma reaches_node:
  assumes "\<And>n. peer n i = e_node e \<Longrightarrow> rlog n i = e_log e \<Longrightarrow> G \<subseteq> ledger (members n) \<Longrightarrow>
      \<exists>n'. net_step (encEntry cd) um n n' \<and> node (members n') = (node (members n))(i := rn) \<and> rlog n' = rlog n \<and> polls n' = polls n \<and>
        sent n' = sent n \<and> answers n' = answers n \<and> ledger (members n) \<subseteq> ledger (members n')"
    and "e_node e' = rn" and "e_log e' = e_log e" and "voteRequests e' \<subseteq> voteRequests e"
  shows "reaches cd um cfg G i e e'"
  unfolding reaches_def
proof (intro allI impI)
  fix n assume s: "stands cd um cfg G i n e"
  then obtain n' where n': "net_step (encEntry cd) um n n'" "node (members n') = (node (members n))(i := rn)" "rlog n' = rlog n"
      "polls n' = polls n" "sent n' = sent n" "answers n' = answers n" "ledger (members n) \<subseteq> ledger (members n')"
    using assms(1) [of n] by (auto simp: stands_def)
  with s assms(2-4) have "moved cd um i n n' e'" by (auto simp: moved_def stands_def fun_eq_iff)
  then show "\<exists>n'. moved cd um i n n' e'" ..
qed

lemma reaches_follow:
  "BecomeFollower t l (e_node e) = (b, rn) \<Longrightarrow> e_node e' = rn \<Longrightarrow> e_log e' = e_log e \<Longrightarrow> voteRequests e' \<subseteq> voteRequests e \<Longrightarrow>
    reaches cd um cfg G i e e'"
  by (rule reaches_node) (auto intro!: exI [of _ "setNode i rn _"] net_step.step_down)

lemma reaches_commit:
  assumes "rn = snd (AdvanceCommitIndex (LatestIndex (e_log e)) (TermAt (e_log e)) (node_CurrentTerm (e_node e)) (e_node e))"
    and "e_node e' = rn" and "e_log e' = e_log e" and "voteRequests e' \<subseteq> voteRequests e"
  shows "reaches cd um cfg G i e e'"
proof (rule reaches_node [OF _ assms(2-4)])
  fix n assume n: "peer n i = e_node e" "rlog n i = e_log e"
  obtain r where "AdvanceCommitIndex (LatestIndex (rlog n i)) (TermAt (rlog n i)) (node_CurrentTerm (peer n i)) (peer n i) = (r, rn)"
    using assms(1) n by (metis prod.collapse)
  from net_step.commit [OF this] show "\<exists>n'. net_step (encEntry cd) um n n' \<and> node (members n') = (node (members n))(i := rn) \<and>
      rlog n' = rlog n \<and> polls n' = polls n \<and> sent n' = sent n \<and> answers n' = answers n \<and> ledger (members n) \<subseteq> ledger (members n')"
    by (intro exI [of _ "setNode i rn n"]) simp
qed

lemma reaches_tally:
  assumes "(p, t, i) \<in> G" and "RecordVoteAndCheckMajority p t (e_node e) = (won, rn)"
    and "e_node e' = rn" and "e_log e' = e_log e" and "voteRequests e' \<subseteq> voteRequests e"
  shows "reaches cd um cfg G i e e'"
proof (rule reaches_node [OF _ assms(3-5)])
  fix n assume n: "peer n i = e_node e" "G \<subseteq> ledger (members n)"
  have "net_step (encEntry cd) um n (n\<lparr>members := (members n)\<lparr>node := (node (members n))(i := rn),
      majorities := (if won then insert (i, t) (majorities (members n)) else majorities (members n))\<rparr>\<rparr>)"
    by (rule net_step.tally [of p]) (use n assms(1,2) in auto)
  then show "\<exists>n'. net_step (encEntry cd) um n n' \<and> node (members n') = (node (members n))(i := rn) \<and>
      rlog n' = rlog n \<and> polls n' = polls n \<and> sent n' = sent n \<and> answers n' = answers n \<and> ledger (members n) \<subseteq> ledger (members n')"
    by (intro exI conjI, assumption) simp_all
qed

text \<open>Application, entry by entry.\<close>

lemma reaches_applied_steps:
  assumes "e_node e' = (e_node e)\<lparr>LastApplied := LastApplied (e_node e) + int k\<rparr>" and "e_log e' = e_log e" and "voteRequests e' \<subseteq> voteRequests e"
  shows "reaches cd um cfg G i e e'"
  using assms
proof (induction k arbitrary: e')
  case 0
  then show ?case by (intro reaches_same) (simp add: sameView_def)
next
  case (Suc k)
  let ?e1 = "e\<lparr>e_node := (e_node e)\<lparr>LastApplied := LastApplied (e_node e) + int k\<rparr>\<rparr>"
  have v: "voteRequests ?e1 = voteRequests e" by (simp add: voteRequests_def)
  have "reaches cd um cfg G i e ?e1" by (rule Suc.IH) (simp_all add: v)
  also have "reaches cd um cfg G i ?e1 e'"
    using Suc.prems by (intro reaches_node [where rn = "e_node e'"])
      (auto simp: v intro!: exI [of _ "setNode i (e_node e') _"] net_step.applied simp: AdvanceLastApplied_def)
  finally show ?case .
qed

text \<open>Proposals, campaigns and promotions.\<close>

lemma reachable_whole:
  assumes "cfg_ok cfg" and "net_reachable m um cfg n"
  shows "whole m um (rlog n i)"
  using net_simulated [OF assms] simD(1) by (metis logs_sim_def)

lemma append_total:
  assumes "whole m um rl"
  shows "\<exists>en rl'. AppendLeader m b t rl = (Some en, rl') \<and> cache rl' = cache rl @ [en]"
proof -
  have "script (wal rl) = []" "isOpen (wal rl)" using assms by (auto simp: whole_def wal_ok_def wal_matches_def)
  then show ?thesis by (simp add: AppendLeader_def writeEntryToDisk_def writeEntryTo_no_faults file_no_faults Let_def)
qed

lemma reaches_propose:
  assumes "cfg_ok cfg" and "IsLeader (e_node e)" and "AppendLeader (encEntry cd) b (node_CurrentTerm (e_node e)) (e_log e) = (r, rl)"
    and "e_node e' = e_node e" and "e_log e' = rl" and "voteRequests e' \<subseteq> voteRequests e" and "codec_ok (encEntry cd) um (cache rl)"
  shows "reaches cd um cfg G i e e'"
  unfolding reaches_def
proof (intro allI impI)
  fix n assume s: "stands cd um cfg G i n e"
  then have w: "whole (encEntry cd) um (e_log e)" using reachable_whole [OF assms(1)] by (metis stands_def)
  then obtain en where en: "r = Some en" "cache rl = cache (e_log e) @ [en]" using append_total [OF w, of b "node_CurrentTerm (e_node e)"] assms(3) by auto
  have "net_step (encEntry cd) um n (n\<lparr>rlog := (rlog n)(i := rl)\<rparr>)"
    by (rule net_step.propose) (use s assms(2,3,7) en in \<open>auto simp: stands_def codec_ok_def\<close>)
  with s assms(4-6) have "moved cd um i n (n\<lparr>rlog := (rlog n)(i := rl)\<rparr>) e'" by (auto simp: moved_def stands_def fun_eq_iff)
  then show "\<exists>n'. moved cd um i n n' e'" ..
qed

lemma voteRequests_frame [simp]:
  "voteRequests (resetElectionTimeout rnd e) = voteRequests e" "voteRequests (notifyReplicators e) = voteRequests e"
proof -
  show "voteRequests (notifyReplicators e) = voteRequests e"
    unfolding notifyReplicators_def by (rule fold_frame) (auto simp: voteRequests_def send_peer_def)
qed (simp_all add: voteRequests_def resetElectionTimeout_def)

lemma voteRequests_clock: "clock e' = clock e \<Longrightarrow> voteRequests e' = voteRequests e"
  by (simp add: clock_def voteRequests_def)

lemmas voteRequests_frames [simp] = clock_waiters [THEN voteRequests_clock] clock_parts [THEN voteRequests_clock]
  clock_update [THEN voteRequests_clock]

lemma lead_net:
  assumes ok: "cfg_ok cfg" and s: "stands cd um cfg G i n e" and maj: "(i, t) \<in> majorities (members n)"
    and e': "e' = engine_becomeLeader cd now t (LatestIndex (e_log e)) e" and codec: "codec_ok (encEntry cd) um (cache (e_log e'))"
  shows "\<exists>n'. moved cd um i n n' e'"
proof -
  obtain b rn where b: "BecomeLeader t (LatestIndex (e_log e)) (e_node e) = (b, rn)" by force
  let ?e1 = "e\<lparr>e_node := rn\<rparr>"
  let ?n1 = "n\<lparr>members := (members n)\<lparr>node := (node (members n))(i := rn),
      leaders := (if b then insert (i, t) (leaders (members n)) else leaders (members n))\<rparr>\<rparr>"
  have "net_step (encEntry cd) um n ?n1" by (rule net_step.promote [OF maj]) (use s b in \<open>simp add: stands_def\<close>)
  then have m: "moved cd um i n ?n1 ?e1" using s by (auto simp: moved_def stands_def fun_eq_iff)
  have "reaches cd um cfg G i ?e1 e'"
  proof (cases b)
    case False
    then show ?thesis using b e' by (intro reaches_same) (simp add: engine_becomeLeader_def sameView_def)
  next
    case True
    have l: "IsLeader rn" "node_CurrentTerm rn = t" using b True
      by (auto simp: BecomeLeader_def IsLeader_def node_CurrentTerm_def Let_def split: if_splits)
    let ?cmd = "\<lparr>Op = OpNoop, Key = [], Value = [], ClientID = [], Seq = 0, Timestamp = now\<rparr>"
    let ?e2 = "(resetLeadershipEvidence now ?e1)\<lparr>e_noopIndex := 0\<rparr>"
    have v: "voteRequests e' = voteRequests e" by (simp add: e')
    have sr: "e_log (startReplicators x) = e_log x" for x using calm_replicators(2) [of x] by (simp add: calm_def)
    have n: "e_node e' = rn" using e' b by (simp add: becomeLeader_node)
    have log: "e_log e' = (case encCommand cd ?cmd of None \<Rightarrow> e_log e | Some x \<Rightarrow> snd (AppendLeader (encEntry cd) x t (e_log e)))"
      using e' b True by (simp add: engine_becomeLeader_def resetLeadershipEvidence_def sr Let_def split: option.split prod.split)
    show ?thesis
    proof (cases "encCommand cd ?cmd")
      case None
      then show ?thesis using v n log by (intro reaches_same) (simp add: sameView_def)
    next
      case (Some x)
      obtain r rl where a: "AppendLeader (encEntry cd) x t (e_log e) = (r, rl)" by force
      show ?thesis
        by (rule reaches_propose [OF ok, of ?e1 cd x r rl]) (use l a n v log Some codec in simp_all)
    qed
  qed
  moreover have "stands cd um cfg G i ?n1 ?e1" by (rule moved_stands [OF s m])
  ultimately show ?thesis using moved_trans [OF m] unfolding reaches_def by blast
qed

text \<open>An election, from the campaign to the promotion of a server without peers.\<close>

lemma fold_sends_fields:
  "e_log (fold (\<lambda>(p, addr). send_peer (g p addr)) ps e) = e_log e"
  "e_node (fold (\<lambda>(p, addr). send_peer (g p addr)) ps e) = e_node e"
  by (induction ps arbitrary: e) (auto simp: send_peer_def)

lemma latest_state: "fst (LastLogState rl) = LatestIndex rl"
  by (simp add: LastLogState_def LatestIndex_def lastIndexLocked_def Let_def)

lemma reaches_election:
  assumes ok: "cfg_ok cfg" "i \<noteq> -1" and e': "e' = runElection cd rnd now e" and codec: "codec_ok (encEntry cd) um (cache (e_log e'))"
  shows "reaches cd um cfg G i e e'"
  unfolding reaches_def
proof (intro allI impI)
  fix n assume s: "stands cd um cfg G i n e"
  obtain r rn where c: "BecomeCandidate now (e_node e) = (r, rn)" by force
  let ?n1 = "n\<lparr>members := (members n)\<lparr>node := (node (members n))(i := rn),
        ledger := (case r of None \<Rightarrow> ledger (members n) | Some t \<Rightarrow> insert (i, t, i) (ledger (members n))),
        majorities := (case r of None \<Rightarrow> majorities (members n)
          | Some t \<Rightarrow> if node_Peers rn = [] then insert (i, t) (majorities (members n)) else majorities (members n))\<rparr>,
      polls := (case r of None \<Rightarrow> polls n | Some t \<Rightarrow> insert (voteRequest t rn (rlog n i)) (polls n))\<rparr>"
  have st: "net_step (encEntry cd) um n ?n1"
    by (rule net_step.campaign [OF _ ok(2)]) (use c s in \<open>simp add: stands_def\<close>)
  let ?e1 = "resetElectionTimeout rnd (e\<lparr>e_node := rn\<rparr>)"
  have f: "e_node ?e1 = rn" "e_log ?e1 = e_log e" "e_outbox ?e1 = e_outbox e" by (simp_all add: resetElectionTimeout_def)
  have m: "moved cd um i n ?n1 ?e1" using st s f(1,2) by (auto simp: moved_def stands_def fun_eq_iff split: option.split)
  obtain li lt where l: "LastLogState (e_log e) = (li, lt)" by force
  have p: "currentPeers ?e1 = node_Peers rn" by (simp add: currentPeers_def f)
  show "\<exists>n'. moved cd um i n n' e'"
  proof (cases "r = None \<or> node_Peers rn \<noteq> []")
    case True
    have "e_node e' = rn" "e_log e' = e_log e" "voteRequests e' \<subseteq> polls ?n1"
      using True e' c l p s f
      by (auto simp: runElection_def fold_sends_fields fold_sends voteRequests_def stands_def voteRequest_def split: option.splits)
    then show ?thesis using m st f by (intro exI [of _ ?n1]) (auto simp: moved_def)
  next
    case False
    then obtain t where t: "r = Some t" "node_Peers rn = []" by auto
    have "e' = engine_becomeLeader cd now t (LatestIndex (e_log ?e1)) ?e1"
      using e' c t l p f latest_state [of "e_log e"] by (simp add: runElection_def)
    then have "\<exists>n'. moved cd um i ?n1 n' e'"
      using t by (intro lead_net [OF ok(1) moved_stands [OF s m] _ _ codec]) simp_all
    then show ?thesis using moved_trans [OF m] by blast
  qed
qed

lemma reaches_poll:
  assumes "cfg_ok cfg" "i \<noteq> -1" and "e' = startPreVote cd rnd rnd' now e" and "codec_ok (encEntry cd) um (cache (e_log e'))"
  shows "reaches cd um cfg G i e e'"
proof (cases "currentPeers (resetElectionTimeout rnd e) = []")
  case True
  then have e': "e' = runElection cd rnd' now (resetElectionTimeout rnd e)" using assms(3) by (simp add: startPreVote_def Let_def split: prod.splits)
  have "sameView e (resetElectionTimeout rnd e)" by (simp add: sameView_def) (simp add: resetElectionTimeout_def)
  from reaches_trans [OF reaches_same [OF this] reaches_election [OF assms(1,2) e' assms(4)]] show ?thesis .
next
  case False
  have "sameView e e'"
    using assms(3) False
    by (auto simp: sameView_def startPreVote_def Let_def fold_sends_fields fold_sends voteRequests_def resetElectionTimeout_def split: prod.splits)
  then show ?thesis by (rule reaches_same)
qed

section \<open>The control loop\<close>

lemma calm_view: "calm e e' \<Longrightarrow> voteRequests e' = voteRequests e \<Longrightarrow> sameView e e'"
  by (simp add: calm_def sameView_def)

lemma stopped_log: "e_log (failAllReads err (failAllWaiters err' (stopReplicators x))) = e_log x"
  using calm_trans [OF calm_trans [OF calm_replicators(1) calm_fail_waiters] calm_other_sweeps(5)] by (simp add: calm_def)

lemma reaches_proposal:
  assumes "cfg_ok cfg" and "e' = handleProposal cd now cmd ch e" and "codec_ok (encEntry cd) um (cache (e_log e'))"
  shows "reaches cd um cfg G i e e'"
proof (cases "IsLeader (e_node e) \<and> encCommand cd (cmd\<lparr>Timestamp := now\<rparr>) \<noteq> None")
  case True
  then obtain b where b: "encCommand cd (cmd\<lparr>Timestamp := now\<rparr>) = Some b" "IsLeader (e_node e)" by auto
  obtain r rl where a: "AppendLeader (encEntry cd) b (node_CurrentTerm (e_node e)) (e_log e) = (r, rl)" by force
  have n: "e_log (notifyReplicators x) = e_log x" "e_node (notifyReplicators x) = e_node x" for x
    using calm_replicators(3) [of x] by (simp_all add: calm_def)
  have "voteRequests e' \<subseteq> voteRequests e" using assms(2) a b by (auto simp: handleProposal_def Let_def split: option.splits)
  moreover have "e_node e' = e_node e" "e_log e' = rl"
    using assms(2) a b by (auto simp: handleProposal_def n Let_def send_reply_def split: option.splits)
  ultimately show ?thesis using reaches_propose [OF assms(1) b(2) a] assms(3) by simp
next
  case False
  then have "sameView e e'"
    using assms(2) by (auto simp: handleProposal_def sameView_def send_reply_def voteRequests_def split: option.splits)
  then show ?thesis by (rule reaches_same)
qed

lemma reaches_step_down: "reaches cd um cfg G i e (handleStepDown t e)"
proof (cases "t \<le> node_CurrentTerm (e_node e)")
  case True
  then show ?thesis by (intro reaches_same) (simp add: handleStepDown_def sameView_def)
next
  case False
  obtain b rn where b: "BecomeFollower t 0 (e_node e) = (b, rn)" by force
  show ?thesis by (rule reaches_follow [OF b]) (use False b in \<open>simp_all add: handleStepDown_def stopped_node stopped_log\<close>)
qed

lemma reaches_pre_vote_result:
  assumes "cfg_ok cfg" "i \<noteq> -1" and "e' = handlePreVoteResult cd rnd now t p resp e" and "codec_ok (encEntry cd) um (cache (e_log e'))"
  shows "reaches cd um cfg G i e e'"
proof -
  let ?e1 = "e\<lparr>e_preVotes := mput p True (e_preVotes e)\<rparr>"
  obtain b rn where b: "BecomeFollower (pvr_Term resp) 0 (e_node e) = (b, rn)" by force
  have v: "voteRequests (x\<lparr>e_preVoteTerm := 0\<rparr>) = voteRequests x" for x by (simp add: voteRequests_def)
  consider "sameView e e'" | "e' = e\<lparr>e_node := rn, e_preVoteTerm := 0\<rparr>"
    | "e' = runElection cd rnd now (?e1\<lparr>e_preVoteTerm := 0\<rparr>)"
    using assms(3) b
    by (auto simp: handlePreVoteResult_def Let_def sameView_def split: if_splits prod.splits)
  then show ?thesis
  proof cases
    case 1
    then show ?thesis by (rule reaches_same)
  next
    case 2
    then show ?thesis by (intro reaches_follow [OF b]) (simp_all add: v)
  next
    case 3
    have "sameView e (?e1\<lparr>e_preVoteTerm := 0\<rparr>)" by (simp add: sameView_def v)
    from reaches_trans [OF reaches_same [OF this] reaches_election [OF assms(1,2) 3 assms(4)]] show ?thesis .
  qed
qed

lemma reaches_vote_result:
  assumes "cfg_ok cfg" and "rvr_VoteGranted resp \<longrightarrow> (p, t, i) \<in> G" and "e' = handleVoteResult cd now t p resp e"
    and "codec_ok (encEntry cd) um (cache (e_log e'))"
  shows "reaches cd um cfg G i e e'"
proof -
  obtain b rn where b: "BecomeFollower (rvr_Term resp) 0 (e_node e) = (b, rn)" by force
  obtain won rn1 where r: "RecordVoteAndCheckMajority p t (e_node e) = (won, rn1)" by force
  consider "e' = e" | "e' = e\<lparr>e_node := rn\<rparr>" | "(p, t, i) \<in> G" "\<not> won" "e' = e\<lparr>e_node := rn1\<rparr>"
    | "(p, t, i) \<in> G" "won" "e' = engine_becomeLeader cd now t (LatestIndex (e_log e)) (e\<lparr>e_node := rn1\<rparr>)"
    using assms(2,3) b r by (auto simp: handleVoteResult_def node_State_def Let_def split: if_splits prod.splits)
  then show ?thesis
  proof cases
    case 1
    then show ?thesis by (intro reaches_same) (simp add: sameView_def)
  next
    case 2
    then show ?thesis by (intro reaches_follow [OF b]) simp_all
  next
    case 3
    then show ?thesis by (intro reaches_tally [OF _ r]) simp_all
  next
    case 4
    show ?thesis unfolding reaches_def
    proof (intro allI impI)
      fix n assume s: "stands cd um cfg G i n e"
      let ?n1 = "n\<lparr>members := (members n)\<lparr>node := (node (members n))(i := rn1), majorities := insert (i, t) (majorities (members n))\<rparr>\<rparr>"
      have "net_step (encEntry cd) um n ?n1"
        using net_step.tally [of p t i n won rn1 "encEntry cd" um] s 4(1,2) r by (auto simp: stands_def)
      then have m: "moved cd um i n ?n1 (e\<lparr>e_node := rn1\<rparr>)" using s by (auto simp: moved_def stands_def fun_eq_iff)
      have "\<exists>n'. moved cd um i ?n1 n' e'"
        by (rule lead_net [OF assms(1) moved_stands [OF s m] _ _ assms(4)]) (use 4(3) in simp_all)
      then show "\<exists>n'. moved cd um i n n' e'" using moved_trans [OF m] by blast
    qed
  qed
qed

lemma reaches_check_quorum: "reaches cd um cfg G i e (checkQuorum now e)"
proof -
  obtain b rn where b: "BecomeFollower (node_CurrentTerm (e_node e)) 0 (e_node e) = (b, rn)" by force
  have "sameView e (checkQuorum now e) \<or> e_node (checkQuorum now e) = rn \<and> e_log (checkQuorum now e) = e_log e"
    using b by (auto simp: checkQuorum_def sameView_def noteQuorumConfirmed_def stopped_node stopped_log Let_def split: bool.splits)
  then show ?thesis using reaches_same reaches_follow [OF b, of "checkQuorum now e"] by auto
qed

lemma reaches_apply: "reaches cd um cfg G i e (applyCommitted cd e)"
proof -
  obtain cs m where r: "appliedRun cd (CommitIndex (e_node e)) e (applyCommitted cd e) cs m"
    using applyLoop_run by (fastforce simp: applyCommitted_def CommitAndApplyBoundary_def)
  show ?thesis
    by (rule reaches_applied_steps [where k = "length cs"]) (use r in \<open>auto simp: appliedRun_def Let_def\<close>)
qed

lemma apply_log: "e_log (applyCommitted cd e) = e_log e"
proof -
  obtain cs m where "appliedRun cd (CommitIndex (e_node e)) e (applyCommitted cd e) cs m"
    using applyLoop_run by (fastforce simp: applyCommitted_def CommitAndApplyBoundary_def)
  then show ?thesis by (auto simp: appliedRun_def Let_def)
qed

lemma check_quorum_log: "e_log (checkQuorum now e) = e_log e"
  by (auto simp: checkQuorum_def noteQuorumConfirmed_def stopped_log Let_def split: prod.split bool.split)

lemma reconcile_view: "sameView e (reconcileLeadership e)"
  by (rule calm_view [OF reconcile_calm]) simp

text \<open>A tick that leaves the log uncompacted did not compact it.\<close>

lemma compact_none:
  assumes "uncompacted cd um (maybeCompact cd e)"
  shows "maybeCompact cd e = e"
proof (rule ccontr)
  assume n: "maybeCompact cd e \<noteq> e"
  let ?k = "LastApplied (e_node e)"
  have c: "NeedsCompaction (e_log e) ?k" "maybeCompact cd e = compact cd ?k e"
    using n by (auto simp: maybeCompact_def CommitAndApplyBoundary_def Let_def split: if_splits)
  have "lastIncludedIndex (e_log (compact cd ?k e)) = ?k \<or> e_log (compact cd ?k e) = e_log e"
    by (auto simp: compact_def TruncateBeforeIndex_def rewriteWALLocked_def Let_def split: prod.splits bool.splits if_splits)
  then show False using assms c by (auto simp: uncompacted_def NeedsCompaction_def)
qed

lemma reaches_front:
  assumes "cfg_ok cfg" "i \<noteq> -1" and "e' = tickFront cd rnd rnd' now e" and "codec_ok (encEntry cd) um (cache (e_log e'))"
  shows "reaches cd um cfg G i e e'"
proof (cases "Role (e_node e) = Leader")
  case True
  let ?rn = "snd (AdvanceCommitIndex (LatestIndex (e_log e)) (TermAt (e_log e)) (node_CurrentTerm (e_node e)) (e_node e))"
  have "e' = fireCommittedWaiters (CommitIndex ?rn) (node_CurrentTerm (e_node e)) (e\<lparr>e_node := ?rn\<rparr>)"
    using True assms(3) by (simp add: tickFront_def node_State_def node_CurrentTerm_def)
  then show ?thesis by (intro reaches_commit [OF refl]) (simp_all add: fire_committed)
next
  case False
  then consider "e' = e" | "e' = startPreVote cd rnd rnd' now e"
    using assms(3) by (auto simp: tickFront_def node_State_def split: if_splits)
  then show ?thesis
  proof cases
    case 1
    then show ?thesis by (intro reaches_same) (simp add: sameView_def)
  next
    case 2
    from reaches_poll [OF assms(1,2) this assms(4)] show ?thesis .
  qed
qed

lemma sweeps_view: "sameView e (sweepExpiredApplyWaiters now (sweepExpiredReads now (sweepExpiredWaiters now e)))"
  by (rule calm_view [OF calm_trans [OF calm_trans [OF calm_sweep_waiters calm_other_sweeps(1)] calm_other_sweeps(2)]]) simp

lemma reaches_tick:
  assumes "cfg_ok cfg" "i \<noteq> -1" and "e' = onTick cd rnd rnd' now e" and "uncompacted cd um e'"
  shows "reaches cd um cfg G i e e'"
proof -
  let ?e1 = "tickFront cd rnd rnd' now (reconcileLeadership e)"
  let ?e2 = "applyCommitted cd ?e1"
  let ?e3 = "fireApplyWaiters (fireReadWaiters (maybeCompact cd ?e2))"
  let ?e4 = "if IsLeader (e_node ?e3) then checkQuorum now ?e3 else ?e3"
  have e': "e' = (if e_halted ?e2 then ?e2 else sweepExpiredApplyWaiters now (sweepExpiredReads now (sweepExpiredWaiters now ?e4)))"
    using assms(3) by (simp add: onTick_eq Let_def)
  have l2: "e_log ?e2 = e_log ?e1" using apply_log by blast
  have v3: "sameView (maybeCompact cd ?e2) ?e3"
    by (rule calm_view [OF calm_trans [OF calm_other_sweeps(4) calm_other_sweeps(3)]]) simp
  have l4: "e_log ?e4 = e_log ?e3" using check_quorum_log by simp
  show ?thesis
  proof (cases "e_halted ?e2")
    case True
    then have "codec_ok (encEntry cd) um (cache (e_log ?e1))" using assms(4) e' l2 by (simp add: uncompacted_def)
    from reaches_front [OF assms(1,2) refl this] have "reaches cd um cfg G i (reconcileLeadership e) ?e1" .
    then show ?thesis using True e' reconcile_view reaches_apply reaches_same reaches_trans by metis
  next
    case False
    then have "e_log e' = e_log (maybeCompact cd ?e2)" using e' sweeps_view v3 l4 by (simp add: sameView_def)
    then have c: "maybeCompact cd ?e2 = ?e2" using compact_none assms(4) by (simp add: uncompacted_def)
    then have "codec_ok (encEntry cd) um (cache (e_log ?e1))" using assms(4) \<open>e_log e' = _\<close> l2 by (simp add: uncompacted_def)
    from reaches_front [OF assms(1,2) refl this] have "reaches cd um cfg G i (reconcileLeadership e) ?e1" .
    then have "reaches cd um cfg G i e ?e2" using reconcile_view reaches_apply reaches_same reaches_trans by metis
    also have "reaches cd um cfg G i ?e2 ?e3" using v3 c reaches_same by simp
    also have "reaches cd um cfg G i ?e3 ?e4" using reaches_check_quorum reaches_same [of ?e3 ?e3] by (simp add: sameView_def)
    also have "reaches cd um cfg G i ?e4 e'" using False e' sweeps_view reaches_same by simp
    finally show ?thesis .
  qed
qed

lemma other_views:
  "sameView e (handleAck now p q e)" "sameView e (handleRead now ch b e)" "sameView e (handleApplyWait w e)"
  "sameView e (stopReplicators ((failAllApplyWaiters err (failAllReads err' (failAllWaiters err'' e)))\<lparr>e_done := True\<rparr>))"
proof -
  have c: "e_log (fireReadWaiters x) = e_log x" "e_log (stopReplicators x) = e_log x" "e_log (notifyReplicators x) = e_log x"
      "e_log (failAllApplyWaiters err x) = e_log x" "e_log (failAllReads err' x) = e_log x"
      "e_log (failAllWaiters err'' x) = e_log x" for x
    using calm_other_sweeps(4-6) calm_replicators(1,3) calm_fail_waiters by (simp_all add: calm_def)
  have "e_log (handleAck now p q e) = e_log e" "e_log (handleRead now ch b e) = e_log e" "e_log (handleApplyWait w e) = e_log e"
    by (simp_all add: handleAck_def handleRead_def handleApplyWait_def c send_reply_def Let_def split: prod.split)
  moreover have "voteRequests (handleRead now ch b e) = voteRequests e"
    by (simp add: handleRead_def Let_def split: prod.split)
  ultimately show "sameView e (handleAck now p q e)" "sameView e (handleRead now ch b e)" "sameView e (handleApplyWait w e)"
    by (simp_all add: sameView_def other_events_node)
  show "sameView e (stopReplicators ((failAllApplyWaiters err (failAllReads err' (failAllWaiters err'' e)))\<lparr>e_done := True\<rparr>))"
    by (simp add: sameView_def other_events_node c)
qed

lemma reaches_turn:
  assumes ok: "cfg_ok cfg" "i \<noteq> -1" and e': "e' = engineStep cd (Turn rnd rnd' now ev) e" and u: "uncompacted cd um e'"
    and v: "\<And>t p resp. ev = EvVote t p resp \<Longrightarrow> rvr_VoteGranted resp \<Longrightarrow> (p, t, i) \<in> G"
  shows "reaches cd um cfg G i e e'"
proof (cases "e_halted e \<or> e_done e")
  case True
  then show ?thesis using e' by (intro reaches_same) (auto simp: engineStep_def runTurn_def sameView_def)
next
  case False
  have codec: "codec_ok (encEntry cd) um (cache (e_log e'))" using u by (simp add: uncompacted_def)
  show ?thesis
  proof (cases ev)
    case (EvProposal cmd ch)
    show ?thesis by (rule reaches_proposal [OF ok(1) _ codec]) (use False e' EvProposal in \<open>simp add: engineStep_def runTurn_def\<close>)
  next
    case (EvStepDown t)
    then show ?thesis using False e' reaches_step_down by (simp add: engineStep_def runTurn_def)
  next
    case (EvPreVote t p resp)
    show ?thesis by (rule reaches_pre_vote_result [OF ok _ codec]) (use False e' EvPreVote in \<open>simp add: engineStep_def runTurn_def\<close>)
  next
    case (EvVote t p resp)
    show ?thesis by (rule reaches_vote_result [OF ok(1) _ _ codec]) (use False e' EvVote v in \<open>simp_all add: engineStep_def runTurn_def\<close>)
  next
    case EvTick
    show ?thesis by (rule reaches_tick [OF ok _ u]) (use False e' EvTick in \<open>simp add: engineStep_def runTurn_def\<close>)
  qed (use False e' other_views reaches_same in \<open>simp_all add: engineStep_def runTurn_def\<close>)
qed

section \<open>The swarm and the network\<close>

definition covers :: "Codecs \<Rightarrow> unmarshal \<Rightarrow> Configuration \<Rightarrow> Swarm \<Rightarrow> Network \<Rightarrow> bool" where
  "covers cd um cfg s n \<longleftrightarrow> net_reachable (encEntry cd) um cfg n \<and>
     node (members n) = (\<lambda>i. e_node (sw_engine s i)) \<and> rlog n = (\<lambda>i. e_log (sw_engine s i)) \<and>
     (\<forall>i. voteRequests (sw_engine s i) \<subseteq> polls n) \<and> sw_polls s \<subseteq> polls n \<and> sw_sent s \<subseteq> sent n \<and>
     sw_answers s \<subseteq> answers n \<and> sw_granted s \<subseteq> ledger (members n)"

lemma covers_stands: "covers cd um cfg s n \<Longrightarrow> stands cd um cfg (sw_granted s) i n (sw_engine s i)"
  by (auto simp: covers_def stands_def)

lemma covers_moved:
  assumes "covers cd um cfg s n" and "moved cd um i n n' e'"
  shows "covers cd um cfg (s\<lparr>sw_engine := (sw_engine s)(i := e'), sw_polls := sw_polls s \<union> voteRequests e'\<rparr>) n'"
  using assms net_reachable_run [of "encEntry cd" um n n' cfg] by (auto simp: covers_def moved_def fun_eq_iff) blast

lemma restart_window: "restartNode now p os rn = Inr rn' \<Longrightarrow> SetMinElectionTimeout electionTimeoutMin rn' = rn'"
  by (cases rn') (auto simp: restartNode_def NewRaftNode_def loadPersistentState_def SetMinElectionTimeout_def electionTimeoutMin_def
      DefaultMinElectionTimeout_def Let_def split: option.splits sum.splits prod.splits if_splits)

lemma fresh_requests: "voteRequests (NewWithTransport rnd rn rl sm f) = {}"
  by (simp add: voteRequests_def NewWithTransport_def resetElectionTimeout_def)

text \<open>A step of the network whose effect on nodes, logs and messages is that of the swarm.\<close>

lemma covers_step:
  assumes "covers cd um cfg s n" and "net_step (encEntry cd) um n n'"
    and "node (members n') = (\<lambda>i. e_node (sw_engine s' i))" and "rlog n' = (\<lambda>i. e_log (sw_engine s' i))"
    and "\<And>i. voteRequests (sw_engine s' i) \<subseteq> voteRequests (sw_engine s i)" and "polls n' = polls n" and "sw_polls s' = sw_polls s"
    and "sw_sent s' \<subseteq> sent n'" and "sw_answers s' \<subseteq> answers n'" and "sw_granted s' \<subseteq> ledger (members n')"
  shows "(net_step (encEntry cd) um)\<^sup>*\<^sup>* n n' \<and> covers cd um cfg s' n'"
  using assms net_reachable.step [of "encEntry cd" um cfg n n'] unfolding covers_def by (auto intro: subset_trans) blast

lemma swarm_net:
  assumes ok: "cfg_ok cfg" and st: "swarm_step cd um c sub s s'" and cov: "covers cd um cfg s n"
  shows "\<exists>n'. (net_step (encEntry cd) um)\<^sup>*\<^sup>* n n' \<and> covers cd um cfg s' n'"
  using st cov
proof (induction rule: swarm_step.induct)
  case (turn i s ev rnd rnd' now e')
  have "reaches cd um cfg (sw_granted s) i (sw_engine s i) e'"
    by (rule reaches_turn [OF ok _ turn(4,5)]) (use turn(1,2) in \<open>auto simp: genuine_def\<close>)
  then obtain n' where "moved cd um i n n' e'" using covers_stands [OF turn(6)] by (auto simp: reaches_def)
  then show ?case using covers_moved [OF turn(6)] by (auto simp: moved_def)
next
  case (send s i p)
  let ?n = "n\<lparr>sent := insert (appendRequest (rlog n i) p (peer n i)) (sent n)\<rparr>"
  have "net_step (encEntry cd) um n ?n" by (rule net_step.send) (use send in \<open>simp add: covers_def\<close>)
  then have "(net_step (encEntry cd) um)\<^sup>*\<^sup>* n ?n \<and> covers cd um cfg (s\<lparr>sw_engine := (sw_engine s)(i := snd (nextRoundSeq (sw_engine s i))),
      sw_sent := insert (appendRequest (e_log (sw_engine s i)) p (e_node (sw_engine s i))) (sw_sent s)\<rparr>) ?n"
    by (rule covers_step [OF send(3)]) (use send(3) in \<open>auto simp: covers_def nextRoundSeq_def fun_eq_iff\<close>)
  then show ?case ..
next
  case (receive req s v now resp e')
  obtain rl rn where h: "HandleAppendEntries (encEntry cd) now req (rlog n v) (peer n v) = (resp, rl, rn)" "e' = (sw_engine s v)\<lparr>e_log := rl, e_node := rn\<rparr>"
    using receive(3,4) by (auto simp: engine_HandleAppendEntries_def covers_def split: prod.splits)
  let ?n = "(setNode v rn n)\<lparr>rlog := (rlog n)(v := rl), answers := insert (v, req, resp) (answers n)\<rparr>"
  have "net_step (encEntry cd) um n ?n" by (rule net_step.receive [OF _ h(1)]) (use receive(1,4) in \<open>auto simp: covers_def\<close>)
  then have "(net_step (encEntry cd) um)\<^sup>*\<^sup>* n ?n \<and> covers cd um cfg (s\<lparr>sw_engine := (sw_engine s)(v := e'),
      sw_answers := insert (v, req, resp) (sw_answers s)\<rparr>) ?n"
    by (rule covers_step [OF receive(4)]) (use receive(4) h(2) in \<open>auto simp: covers_def fun_eq_iff\<close>)
  then show ?case ..
next
  case (reply p req resp s i t rn)
  have "net_step (encEntry cd) um n (setNode i rn n)"
    by (rule net_step.reply [of p req resp _ _ t]) (use reply in \<open>auto simp: covers_def\<close>)
  then have "(net_step (encEntry cd) um)\<^sup>*\<^sup>* n (setNode i rn n) \<and> covers cd um cfg (s\<lparr>sw_engine := (sw_engine s)(i := (sw_engine s i)\<lparr>e_node := rn\<rparr>)\<rparr>) (setNode i rn n)"
    by (rule covers_step [OF reply(6)]) (use reply(6) in \<open>auto simp: covers_def fun_eq_iff\<close>)
  then show ?case ..
next
  case (vote req s v now resp e')
  obtain rn where h: "HandleRequestVote now req (LastLogState (rlog n v)) (peer n v) = (resp, rn)" "e' = (sw_engine s v)\<lparr>e_node := rn\<rparr>"
    using vote(3,4) by (auto simp: engine_HandleRequestVote_def covers_def split: prod.splits)
  let ?n = "n\<lparr>members := (members n)\<lparr>node := (node (members n))(v := rn),
      ledger := (if rvr_VoteGranted resp then insert (v, rvr_Term resp, rv_CandidateID req) (ledger (members n)) else ledger (members n))\<rparr>\<rparr>"
  have "net_step (encEntry cd) um n ?n" by (rule net_step.vote [OF _ h(1)]) (use vote(1,4) in \<open>auto simp: covers_def\<close>)
  then have "(net_step (encEntry cd) um)\<^sup>*\<^sup>* n ?n \<and> covers cd um cfg (s\<lparr>sw_engine := (sw_engine s)(v := e'),
      sw_granted := (if rvr_VoteGranted resp then insert (v, rvr_Term resp, rv_CandidateID req) (sw_granted s) else sw_granted s)\<rparr>) ?n"
    by (rule covers_step [OF vote(4)]) (use vote(4) h(2) in \<open>auto simp: covers_def fun_eq_iff\<close>)
  then show ?case ..
next
  case (restart p s v now os rn b rl rnd f)
  let ?n = "(setNode v rn n)\<lparr>rlog := (rlog n)(v := rl)\<rparr>"
  have w: "e_node (NewWithTransport rnd rn rl m f) = rn" "e_log (NewWithTransport rnd rn rl m f) = rl" for m
    using restart_window [OF restart(2)] by (simp_all add: NewWithTransport_def resetElectionTimeout_def)
  have "net_step (encEntry cd) um n ?n"
    by (rule net_step.restart [of p _ _ now os]) (use restart in \<open>simp_all add: covers_def\<close>)
  then have "(net_step (encEntry cd) um)\<^sup>*\<^sup>* n ?n \<and> covers cd um cfg (s\<lparr>sw_engine := (sw_engine s)(v := NewWithTransport rnd rn rl (machineAfter c []) f)\<rparr>) ?n"
    by (rule covers_step [OF restart(5)]) (use restart(5) w fresh_requests in \<open>auto simp: covers_def fun_eq_iff\<close>)
  then show ?case ..
qed

end
