(* ===== verification/Engine_Replicas.thy ===== *)
theory Engine_Replicas
  imports Engine_Network Engine_Cluster
begin

text \<open>
  The replicated store: in a cluster of engines every state machine is the one its applied
  commands make, and these are committed entries, so the replicas agree on the data and keep
  what a client was told is written.
\<close>

section \<open>The state machine of one engine\<close>

definition applied :: "Engine \<Rightarrow> MemoryStateMachine \<times> int \<times> bool" where
  "applied e = (e_machine e, LastApplied (e_node e), e_halted e)"

lemma node_applied:
  "LastApplied (snd (BecomeFollower t l rn)) = LastApplied rn" "LastApplied (snd (BecomeCandidate now rn)) = LastApplied rn"
  "LastApplied (snd (BecomeLeader t i rn)) = LastApplied rn" "LastApplied (snd (RecordVoteAndCheckMajority p t rn)) = LastApplied rn"
  "LastApplied (snd (AdvanceCommitIndex li ta ct rn)) = LastApplied rn" "LastApplied (snd (appendReply t p resp rn)) = LastApplied rn"
  by (auto simp: BecomeFollower_def becomeFollowerLocked_def BecomeCandidate_def BecomeLeader_def RecordVoteAndCheckMajority_def
      AdvanceCommitIndex_def appendReply_def UpdatePeerProgress_def BacktrackNextIndex_def Let_def dest!: commit_fields
      split: prod.splits bool.splits)

lemma applied_node: "LastApplied rn = LastApplied (e_node e) \<Longrightarrow> applied (e\<lparr>e_node := rn\<rparr>) = applied e"
  by (simp add: applied_def)

lemma applied_update [simp]:
  "applied (e\<lparr>e_log := b\<rparr>) = applied e" "applied (e\<lparr>e_outbox := ob\<rparr>) = applied e" "applied (e\<lparr>e_preVoteTerm := t\<rparr>) = applied e"
  "applied (e\<lparr>e_snapshots := d\<rparr>) = applied e" "applied (e\<lparr>e_waiters := w\<rparr>) = applied e" "applied (e\<lparr>e_reads := r\<rparr>) = applied e"
  "applied (e\<lparr>e_applyWaiters := aw\<rparr>) = applied e" "applied (e\<lparr>e_replicators := rs\<rparr>) = applied e" "applied (e\<lparr>e_replicatorsTerm := t\<rparr>) = applied e"
  "applied (e\<lparr>e_done := h\<rparr>) = applied e" "applied (e\<lparr>e_lastAck := la\<rparr>) = applied e" "applied (e\<lparr>e_electionTimeout := et\<rparr>) = applied e"
  "applied (e\<lparr>e_lastQuorumNanos := q\<rparr>) = applied e" "applied (e\<lparr>e_noopIndex := n\<rparr>) = applied e" "applied (e\<lparr>e_roundSeq := sq\<rparr>) = applied e"
  "applied (e\<lparr>e_preVotes := pv\<rparr>) = applied e" "applied (send_reply x e) = applied e" "applied (send_peer y e) = applied e"
  by (simp_all add: applied_def send_reply_def send_peer_def)

interpretation apl: aside applied
  by unfold_locales (simp_all add: applied_def)

lemmas applied_waiters [simp] = apl.sweeps apl.sends

lemma applied_parts [simp]:
  "applied (stopReplicators e) = applied e" "applied (startReplicators e) = applied e" "applied (reconcileLeadership e) = applied e"
  "applied (handleApplyWait w e) = applied e" "applied (handleAck now p q e) = applied e" "applied (handleRead now ch b e) = applied e"
  "applied (handleProposal cd now cmd ch e) = applied e" "applied (maybeCompact cd e) = applied e"
  by (simp_all add: apl.crews apl.apply_wait apl.read handleAck_def handleProposal_def maybeCompact_def compact_def Let_def split: prod.split option.split bool.split)

lemma applied_lead [simp]: "applied (engine_becomeLeader cd now t i e) = applied e"
  using node_applied(3) [of t i "e_node e"]
  by (auto simp: engine_becomeLeader_def resetLeadershipEvidence_def applied_node Let_def split: prod.split option.split bool.split)

lemma applied_elections [simp]:
  "applied (handleStepDown t e) = applied e" "applied (checkQuorum now e) = applied e" "applied (runElection cd rnd now e) = applied e"
  "applied (handleVoteResult cd now t p vresp e) = applied e"
proof -
  show "applied (handleStepDown t e) = applied e"
    using node_applied(1) [of t 0 "e_node e"] by (auto simp: handleStepDown_def applied_node split: prod.split)
  show "applied (checkQuorum now e) = applied e"
    using node_applied(1) [of "node_CurrentTerm (e_node e)" 0 "e_node e"]
    by (auto simp: checkQuorum_def noteQuorumConfirmed_def applied_node Let_def split: prod.split bool.split)
  show "applied (runElection cd rnd now e) = applied e"
    using node_applied(2) [of now "e_node e"]
    by (auto simp: runElection_def resetElectionTimeout_def applied_node Let_def split: prod.split option.split)
  show "applied (handleVoteResult cd now t p vresp e) = applied e"
    using node_applied(1) [of "rvr_Term vresp" 0 "e_node e"] node_applied(4) [of p t "e_node e"]
    by (auto simp: handleVoteResult_def applied_node Let_def split: prod.split)
qed

lemma applied_polls [simp]:
  "applied (startPreVote cd rnd rnd' now e) = applied e" "applied (handlePreVoteResult cd rnd now t p resp e) = applied e"
  "applied (tickFront cd rnd rnd' now e) = applied e"
proof -
  show p: "applied (startPreVote cd rnd rnd' now e) = applied e"
    by (simp add: startPreVote_def resetElectionTimeout_def Let_def split: prod.split)
  show "applied (handlePreVoteResult cd rnd now t p resp e) = applied e"
    using node_applied(1) [of "pvr_Term resp" 0 "e_node e"]
    by (auto simp: handlePreVoteResult_def applied_node Let_def split: prod.split)
  show "applied (tickFront cd rnd rnd' now e) = applied e"
    by (simp add: tickFront_def p applied_node node_applied(5) Let_def split: prod.split)
qed

text \<open>What a turn makes of the state machine: the next commands of the log, in order.\<close>

definition feeds :: "Codecs \<Rightarrow> Engine \<Rightarrow> Engine \<Rightarrow> bool" where
  "feeds cd e e' \<longleftrightarrow> \<not> e_halted e \<and> (\<exists>cs. holdsAfter cd (e_log e') (LastApplied (e_node e)) cs \<and> e_machine e' = snd (applyLog cs (e_machine e)) \<and>
     LastApplied (e_node e') = LastApplied (e_node e) + int (length cs))"

lemma feeds_same: "applied e' = applied e \<Longrightarrow> \<not> e_halted e' \<Longrightarrow> feeds cd e e'"
  unfolding feeds_def by (intro conjI exI [of _ "[]"]) (simp_all add: applied_def)

lemma tick_log:
  assumes e': "e' = onTick cd rnd rnd' now e" and "uncompacted cd um e'"
  defines "e1 \<equiv> tickFront cd rnd rnd' now (reconcileLeadership e)"
  shows "e_log e' = e_log e1" and "\<not> e_halted e' \<Longrightarrow> applied e' = applied (applyCommitted cd e1)"
proof -
  let ?e2 = "applyCommitted cd e1"
  let ?e3 = "fireApplyWaiters (fireReadWaiters (maybeCompact cd ?e2))"
  let ?e4 = "if IsLeader (e_node ?e3) then checkQuorum now ?e3 else ?e3"
  have e': "e' = (if e_halted ?e2 then ?e2 else sweepExpiredApplyWaiters now (sweepExpiredReads now (sweepExpiredWaiters now ?e4)))"
    using e' by (simp add: onTick_eq e1_def Let_def)
  have v3: "sameView (maybeCompact cd ?e2) ?e3"
    by (rule calm_view [OF calm_trans [OF calm_other_sweeps(4) calm_other_sweeps(3)]]) simp
  have l: "e_log e' = e_log (maybeCompact cd ?e2)" if "\<not> e_halted ?e2"
    using e' that sweeps_view v3 check_quorum_log by (simp add: sameView_def)
  then have "maybeCompact cd ?e2 = ?e2" if "\<not> e_halted ?e2"
    using that compact_none assms(2) by (simp add: uncompacted_def)
  then show "e_log e' = e_log e1" using l e' apply_log by (cases "e_halted ?e2") simp_all
  show "applied e' = applied ?e2" if "\<not> e_halted e'" using that e' by (auto split: if_splits)
qed

lemma feeds_turn:
  assumes "\<not> e_halted e'" and "e' = engineStep cd (Turn rnd rnd' now ev) e" and "uncompacted cd um e'"
  shows "feeds cd e e'"
proof (cases "ev = EvTick \<and> \<not> e_halted e \<and> \<not> e_done e")
  case False
  then have "applied e' = applied e" using assms(2) by (cases ev) (auto simp: engineStep_def runTurn_def)
  then show ?thesis using assms(1) by (rule feeds_same)
next
  case True
  let ?e1 = "tickFront cd rnd rnd' now (reconcileLeadership e)"
  let ?e2 = "applyCommitted cd ?e1"
  have e': "e' = onTick cd rnd rnd' now e" using assms(2) True by (simp add: engineStep_def runTurn_def)
  note t = tick_log(1) [OF e' assms(3)] tick_log(2) [OF e' assms(3,1)]
  have a1: "applied ?e1 = applied e" by simp
  obtain cs m where r: "appliedRun cd (CommitIndex (e_node ?e1)) ?e1 ?e2 cs m"
    using applyLoop_run by (fastforce simp: applyCommitted_def CommitAndApplyBoundary_def)
  have "\<not> e_halted ?e2" using t(2) assms(1) by (simp add: applied_def)
  then have "holdsAfter cd (e_log ?e1) (LastApplied (e_node e)) cs" "snd (applyLog cs (e_machine e)) = m"
      "e_machine ?e2 = m" "LastApplied (e_node ?e2) = LastApplied (e_node e) + int (length cs)"
    using r a1 by (auto simp: appliedRun_def Let_def applied_def)
  then show ?thesis using t True unfolding feeds_def by (intro conjI exI [of _ cs]) (simp_all add: applied_def)
qed

section \<open>Every server\<close>

text \<open>
  The state machine is the one the history \<open>h\<close> of commands makes, and the log has that history as
  its first entries.
\<close>

definition mirrors :: "Codecs \<Rightarrow> Config \<Rightarrow> Engine \<Rightarrow> Command list \<Rightarrow> bool" where
  "mirrors cd c e h \<longleftrightarrow> LastApplied (e_node e) = int (length h) \<and> e_machine e = machineAfter c h \<and>
     (\<forall>j. 1 \<le> j \<and> j \<le> int (length h) \<longrightarrow> readCommand cd (e_log e) j = Some (h ! nat (j - 1)))"

definition healthy :: "Codecs \<Rightarrow> Config \<Rightarrow> (nat \<Rightarrow> Command) \<Rightarrow> Engine \<Rightarrow> bool" where
  "healthy cd c sub e \<longleftrightarrow> applied_ok (e_node e) \<and> ackInv cd sub e \<and> (\<not> e_halted e \<longrightarrow> (\<exists>h. mirrors cd c e h))"

lemma applyLog_append: "snd (applyLog (cs @ ds) m) = snd (applyLog ds (snd (applyLog cs m)))"
  by (induction cs arbitrary: m) (auto simp: split_beta)

lemma mirrors_feeds:
  assumes "mirrors cd c e h" and "feeds cd e e'"
    and "\<forall>j. 1 \<le> j \<and> j \<le> LastApplied (e_node e) \<longrightarrow> GetEntry (e_log e') j = GetEntry (e_log e) j"
  shows "\<exists>h'. mirrors cd c e' h'"
proof -
  obtain cs where cs: "holdsAfter cd (e_log e') (int (length h)) cs" "e_machine e' = snd (applyLog cs (e_machine e))"
      "LastApplied (e_node e') = int (length h) + int (length cs)"
    using assms(1,2) by (auto simp: feeds_def mirrors_def)
  note n = holdsAfter_numbered [OF cs(1)]
  have "e_machine e' = machineAfter c (h @ map snd cs)"
    using cs(2) n assms(1) by (simp add: machineAfter_def mirrors_def applyLog_append)
  moreover have "readCommand cd (e_log e') j = Some ((h @ map snd cs) ! nat (j - 1))"
    if j: "1 \<le> j" "j \<le> int (length h) + int (length cs)" for j
  proof (cases "j \<le> int (length h)")
    case True
    then have "nat (j - 1) < length h" using j(1) by linarith
    then show ?thesis using assms(1,3) j(1) True by (auto simp: mirrors_def readCommand_def nth_append)
  next
    case False
    then obtain k where k: "j = int (length h + k) + 1" "k < length cs"
      using j(2) zle_iff_zadd [of "int (length h) + 1" j] by auto
    then have "nat (j - 1) = length h + k" by simp
    then show ?thesis using n k by simp
  qed
  ultimately have "mirrors cd c e' (h @ map snd cs)" using cs(3) by (simp add: mirrors_def)
  then show ?thesis ..
qed

text \<open>A server goes on from what it applied, or starts again with nothing applied.\<close>

definition goesOn :: "Codecs \<Rightarrow> Config \<Rightarrow> (nat \<Rightarrow> Command) \<Rightarrow> Engine \<Rightarrow> Engine \<Rightarrow> bool" where
  "goesOn cd c sub e e' \<longleftrightarrow>
     (\<not> e_halted e' \<longrightarrow> feeds cd e e') \<and> orderly (e_node e) (e_node e') \<and> (log_wf (e_log e) \<and> ackInv cd sub e \<longrightarrow> ackInv cd sub e') \<or>
     LastApplied (e_node e') = 0 \<and> 0 \<le> CommitIndex (e_node e') \<and> ackInv cd sub e' \<and> e_machine e' = machineAfter c []"

lemma goesOn_refl: "goesOn cd c sub e e"
  by (auto simp: goesOn_def intro: feeds_same)

lemma goesOn_same:
  "applied e' = applied e \<Longrightarrow> orderly (e_node e) (e_node e') \<Longrightarrow> (ackInv cd sub e \<Longrightarrow> ackInv cd sub e') \<Longrightarrow> goesOn cd c sub e e'"
  by (auto simp: goesOn_def intro: feeds_same)

lemma orderly_reply: "orderly rn (snd (appendReply t p resp rn))"
  by (simp add: appendReply_def orderly_progress Let_def split: prod.split)

lemma quiet_reply: "quiet rn (snd (appendReply t p resp rn))"
  by (simp add: appendReply_def quiet_steps(3,4) Let_def split: prod.split)

lemma request_vote_applied: "HandleRequestVote now req lastLog rn = (resp, rn') \<Longrightarrow> LastApplied rn' = LastApplied rn"
  by (cases rule: request_vote_branches) (auto dest: commit_fields_sel)

lemma swarm_goesOn: "swarm_step cd um c sub s s' \<Longrightarrow> goesOn cd c sub (sw_engine s j) (sw_engine s' j)"
proof (induction rule: swarm_step.induct)
  case (turn i s ev rnd rnd' now e')
  let ?a = "Turn rnd rnd' now ev" and ?e = "sw_engine s i"
  have "orderly (e_node ?e) (e_node e')" using ord.step [of ?a ?e cd] turn(4) by (simp add: countable_vote_def split: action.split event.split)
  then have "goesOn cd c sub ?e e'" using feeds_turn [OF _ turn(4,5)] step_ok [of ?e cd sub ?a] turn(3,4) by (auto simp: goesOn_def)
  then show ?case by (simp add: goesOn_refl)
next
  case (send s i p)
  have "goesOn cd c sub (sw_engine s i) (snd (nextRoundSeq (sw_engine s i)))"
    by (rule goesOn_same) (auto simp: nextRoundSeq_def ackInv_def)
  then show ?case by (simp add: goesOn_refl)
next
  case (receive req s v now resp e')
  have "goesOn cd c sub (sw_engine s v) e'"
    using ord.calls(1) [of "sw_engine s v" cd now req] ackInv_calls(1) [of cd sub "sw_engine s v" now req] receive(3)
    by (intro goesOn_same) (auto simp: engine_HandleAppendEntries_def applied_def dest: append_call split: prod.splits)
  then show ?case by (simp add: goesOn_refl)
next
  case (reply p req resp s i t rn)
  let ?e = "sw_engine s i"
  have n: "orderly (e_node ?e) rn" "quiet (e_node ?e) rn" "LastApplied rn = LastApplied (e_node ?e)"
    using orderly_reply [of "e_node ?e" "ae_Term req" p resp] quiet_reply [of "e_node ?e" "ae_Term req" p resp]
      node_applied(6) [of "ae_Term req" p resp "e_node ?e"] reply(5) by simp_all
  have "ackInv cd sub (?e\<lparr>e_node := rn\<rparr>)" if i: "ackInv cd sub ?e"
  proof (rule ackInv_node [OF i n(2)])
    show "LastApplied rn \<le> CommitIndex rn" using i n(1,3) by (auto simp: ackInv_def orderly_def onward_def)
  qed simp_all
  with n have "goesOn cd c sub ?e (?e\<lparr>e_node := rn\<rparr>)" by (intro goesOn_same) (simp_all add: applied_node)
  then show ?case by (simp add: goesOn_refl)
next
  case (vote req s v now resp e')
  have "goesOn cd c sub (sw_engine s v) e'"
    using ord.calls(3) [of "sw_engine s v" now req] ackInv_calls(2) [of cd sub "sw_engine s v" now req] vote(3)
    by (intro goesOn_same) (auto simp: engine_HandleRequestVote_def applied_def request_vote_applied split: prod.splits)
  then show ?case by (simp add: goesOn_refl)
next
  case (restart p s v now os rn b rl rnd f)
  have "LastApplied rn = 0" "CommitIndex rn = 0"
    using restart(2) by (auto simp: restartNode_def NewRaftNode_def loadPersistentState_def Let_def split: option.splits sum.splits prod.splits if_splits)
  then have "goesOn cd c sub (sw_engine s v) (NewWithTransport rnd rn rl (machineAfter c []) f)"
    by (simp add: goesOn_def NewWithTransport_def resetElectionTimeout_def SetMinElectionTimeout_def ackInv_def)
  then show ?case by (simp add: goesOn_refl)
qed

text \<open>An acknowledgement comes out of a tick of a leader, whose entry then is committed.\<close>

lemma acks_turn: "ev \<noteq> EvTick \<Longrightarrow> acks (engineStep cd (Turn rnd rnd' now ev) e) \<subseteq> acks e"
proof -
  assume "ev \<noteq> EvTick"
  moreover have "acks (handleProposal cd now cmd ch e) \<subseteq> acks e" for cmd ch
    using steady_proposal [of cmd "\<lambda>_. cmd" ch cd e now] by (simp add: steady_def)
  moreover have "calm e (stopReplicators
      ((failAllApplyWaiters ErrReadTimeout (failAllReads ErrNotLeader (failAllWaiters ErrNotLeader e)))\<lparr>e_done := True\<rparr>))"
    by (rule calm_trans [OF calm_trans [OF calm_trans [OF calm_trans [OF calm_fail_waiters calm_other_sweeps(5)]
            calm_other_sweeps(6)] calm_update(17)] calm_replicators(1)])
  ultimately show ?thesis using steady_handlers
    by (cases ev) (auto simp: engineStep_def runTurn_def steady_def calm_def)
qed

lemma leader_tick_log:
  assumes "e' = onTick cd rnd rnd' now e" and "uncompacted cd um e'" and "IsLeader (e_node e)"
  shows "e_log e' = e_log e"
  using tick_log(1) [OF assms(1,2)] reconcile_view [of e] assms(3)
  by (simp add: sameView_def tickFront_def node_State_def IsLeader_def fire_committed Let_def split: prod.split)

lemma swarm_acked:
  assumes "swarm_step cd um c sub s s'" and "ackInv cd sub (sw_engine s u)" and "log_wf (e_log (sw_engine s u))"
    and "ch \<in> acks (sw_engine s' u)" and "ch \<notin> acks (sw_engine s u)"
  shows "IsLeader (e_node (sw_engine s u)) \<and> (\<exists>i \<le> CommitIndex (e_node (sw_engine s' u)).
    ownEntry cd sub (e_log (sw_engine s' u)) ch i (node_CurrentTerm (e_node (sw_engine s u))))"
  using assms
proof (induction rule: swarm_step.induct)
  case (turn i s ev rnd rnd' now e')
  have u: "u = i" using turn(8,9) by (auto split: if_splits)
  have ev: "ev = EvTick" using acks_turn [of ev cd rnd rnd' now "sw_engine s i"] turn(4,8,9) u by auto
  have h: "honest cd sub (sw_engine s i) e' ch" using step_ok [OF turn(7) [unfolded u] turn(6) [unfolded u] turn(3)] turn(4,8,9) u by auto
  then have l: "IsLeader (e_node (sw_engine s i))" by (simp add: honest_def)
  have "e' = onTick cd rnd rnd' now (sw_engine s i)"
    using turn(4,8,9) u by (auto simp: engineStep_def runTurn_def ev split: if_splits)
  from leader_tick_log [OF this turn(5) l] h show ?case by (auto simp: u honest_def node_CurrentTerm_def)
next
  case (receive req s v now resp e')
  then show ?case using acks_calls(1) [of cd now req "sw_engine s v"] by (auto split: if_splits)
next
  case (vote req s v now resp e')
  then show ?case using acks_calls(2) [of now req "sw_engine s v"] by (auto split: if_splits)
qed (auto simp: acks_def nextRoundSeq_def NewWithTransport_def resetElectionTimeout_def split: if_splits)

section \<open>The cluster\<close>

definition sound :: "Codecs \<Rightarrow> unmarshal \<Rightarrow> Configuration \<Rightarrow> Config \<Rightarrow> (nat \<Rightarrow> Command) \<Rightarrow> Swarm \<Rightarrow> Network \<Rightarrow> bool" where
  "sound cd um cfg c sub s n \<longleftrightarrow> covers cd um cfg s n \<and> (\<forall>i. healthy cd c sub (sw_engine s i))"

text \<open>What a server committed, it keeps and every other server that committed as far has.\<close>

lemma covered_agree:
  assumes "cfg_ok cfg" and "covers cd um cfg s n" and "covers cd um cfg s' n'" and "(net_step (encEntry cd) um)\<^sup>*\<^sup>* n n'"
    and "1 \<le> j" and "j \<le> CommitIndex (e_node (sw_engine s u))" and "j \<le> CommitIndex (e_node (sw_engine s' v))"
  shows "\<exists>en. GetEntry (e_log (sw_engine s u)) j = Some en \<and> GetEntry (e_log (sw_engine s' v)) j = Some en"
  using committed_entries_agree [OF assms(1) _ assms(4,5), of u v] assms(2,3,6,7) by (simp add: covers_def)

lemma sound_step:
  assumes ok: "cfg_ok cfg" and st: "swarm_step cd um c sub s s'" and sound: "sound cd um cfg c sub s n"
  shows "\<exists>n'. (net_step (encEntry cd) um)\<^sup>*\<^sup>* n n' \<and> sound cd um cfg c sub s' n'"
proof -
  have cov: "covers cd um cfg s n" and h: "healthy cd c sub (sw_engine s i)" for i using sound by (simp_all add: sound_def)
  obtain n' where n': "(net_step (encEntry cd) um)\<^sup>*\<^sup>* n n'" "covers cd um cfg s' n'" using swarm_net [OF ok st cov] by blast
  have "healthy cd c sub (sw_engine s' i)" for i
  proof -
    let ?e = "sw_engine s i" and ?e' = "sw_engine s' i"
    have wf: "log_wf (e_log ?e)" using reachable_whole [OF ok, of "encEntry cd" um n i] cov by (simp add: covers_def whole_def)
    consider (On) "\<not> e_halted ?e' \<longrightarrow> feeds cd ?e ?e'" "orderly (e_node ?e) (e_node ?e')" "ackInv cd sub ?e'"
      | (New) "LastApplied (e_node ?e') = 0" "0 \<le> CommitIndex (e_node ?e')" "ackInv cd sub ?e'" "e_machine ?e' = machineAfter c []"
      using swarm_goesOn [OF st, of i] wf h [of i] by (auto simp: goesOn_def healthy_def)
    then show ?thesis
    proof cases
      case On
      have a: "applied_ok (e_node ?e')" "CommitIndex (e_node ?e) \<le> CommitIndex (e_node ?e')"
        using On(2) h [of i] by (auto simp: orderly_def onward_def healthy_def)
      have "GetEntry (e_log ?e') j = GetEntry (e_log ?e) j" if "1 \<le> j" "j \<le> LastApplied (e_node ?e)" for j
        using covered_agree [OF ok cov n'(2,1), of j i i] that a h [of i] by (auto simp: healthy_def)
      note kept = this
      have "\<exists>h. mirrors cd c ?e' h" if x: "\<not> e_halted ?e'"
      proof -
        have f: "feeds cd ?e ?e'" using On(1) x by simp
        then obtain hs where "mirrors cd c ?e hs" using h [of i] by (auto simp: healthy_def feeds_def)
        from mirrors_feeds [OF this f] show ?thesis using kept by blast
      qed
      then show ?thesis using a(1) On(3) by (simp add: healthy_def)
    next
      case New
      then have "mirrors cd c ?e' []" by (auto simp: mirrors_def)
      then show ?thesis using New by (auto simp: healthy_def)
    qed
  qed
  then show ?thesis using n' by (auto simp: sound_def)
qed

lemma sound_run:
  assumes "cfg_ok cfg" and "(swarm_step cd um c sub)\<^sup>*\<^sup>* s s'" and "sound cd um cfg c sub s n"
  shows "\<exists>n'. (net_step (encEntry cd) um)\<^sup>*\<^sup>* n n' \<and> sound cd um cfg c sub s' n'"
  using assms(2,3)
proof (induction rule: rtranclp_induct)
  case (step y z)
  then show ?case using sound_step [OF assms(1) step.hyps(2)] by (meson rtranclp_trans)
qed blast

text \<open>An acknowledged proposal has its command in an entry the server has committed.\<close>

lemma acked_entry:
  assumes ok: "cfg_ok cfg" and s: "sound cd um cfg c sub s n" "sound cd um cfg c sub s1 n1" and st: "swarm_step cd um c sub s s1"
    and ack: "ProposalDone ch None \<in> set (e_replies (sw_engine s1 u))" "ProposalDone ch None \<notin> set (e_replies (sw_engine s u))"
  obtains i en now where "1 \<le> i" "i \<le> CommitIndex (e_node (sw_engine s1 u))" "GetEntry (e_log (sw_engine s1 u)) i = Some en"
    "encCommand cd ((sub ch)\<lparr>Timestamp := now\<rparr>) = Some (Command en)"
proof -
  have cov: "covers cd um cfg s n" "covers cd um cfg s1 n1" using s by (simp_all add: sound_def)
  then have w: "whole (encEntry cd) um (e_log (sw_engine s u))" "whole (encEntry cd) um (e_log (sw_engine s1 u))"
    using reachable_whole [OF ok] by (force simp: covers_def)+
  have "ackInv cd sub (sw_engine s u)" using s(1) by (simp add: sound_def healthy_def)
  from swarm_acked [OF st this, of ch] w(1) ack
  obtain i en now where i: "i \<le> CommitIndex (e_node (sw_engine s1 u))" "GetEntry (e_log (sw_engine s1 u)) i = Some en"
      "encCommand cd ((sub ch)\<lparr>Timestamp := now\<rparr>) = Some (Command en)"
    by (auto simp: acks_def ownEntry_def whole_def)
  have "1 \<le> i" using i(2) w(2) log_wfD(2) [of "e_log (sw_engine s1 u)"] by (auto simp: GetEntry_def getEntryLocked_iff whole_def)
  then show thesis using i that by blast
qed

text \<open>A committed entry is applied, under its index, by every state machine that gets that far.\<close>

lemma applied_entry:
  assumes ok: "cfg_ok cfg" and s: "sound cd um cfg c sub s1 n1" "sound cd um cfg c sub s' n'" and run: "(net_step (encEntry cd) um)\<^sup>*\<^sup>* n1 n'"
    and i: "1 \<le> i" "i \<le> CommitIndex (e_node (sw_engine s1 u))" "GetEntry (e_log (sw_engine s1 u)) i = Some en"
    and v: "\<not> e_halted (sw_engine s' v)" "i \<le> LastApplied (e_node (sw_engine s' v))"
  shows "\<exists>h. e_machine (sw_engine s' v) = machineAfter c h \<and> int (length h) = LastApplied (e_node (sw_engine s' v)) \<and>
    decCommand cd (Command en) = Some (h ! nat (i - 1))"
proof -
  have cov: "covers cd um cfg s1 n1" "covers cd um cfg s' n'" using s by (simp_all add: sound_def)
  have h: "healthy cd c sub (sw_engine s' v)" using s(2) by (simp add: sound_def)
  then obtain h where m: "mirrors cd c (sw_engine s' v) h" using v(1) by (auto simp: healthy_def)
  have "i \<le> CommitIndex (e_node (sw_engine s' v))" using h v(2) by (auto simp: healthy_def)
  from covered_agree [OF ok cov run i(1,2) this] i(3) have "GetEntry (e_log (sw_engine s' v)) i = Some en" by simp
  with m v(2) i(1) show ?thesis by (intro exI [of _ h]) (auto simp: mirrors_def readCommand_def)
qed

text \<open>A cluster whose servers just started, with nothing in their logs.\<close>

definition swarm_initial :: "Codecs \<Rightarrow> unmarshal \<Rightarrow> Configuration \<Rightarrow> Config \<Rightarrow> Swarm \<Rightarrow> bool" where
  "swarm_initial cd um cfg c s \<longleftrightarrow> sw_polls s = {} \<and> sw_sent s = {} \<and> sw_answers s = {} \<and> sw_granted s = {} \<and>
     (\<forall>i. \<exists>rnd rn rl f. sw_engine s i = NewWithTransport rnd rn rl (machineAfter c []) f \<and>
        nodeID rn = i \<and> config rn = cfg \<and> Role rn = Follower \<and> durable rn \<and> 0 \<le> CurrentTerm (persistent rn) \<and>
        CommitIndex rn = 0 \<and> LastApplied rn = 0 \<and> whole (encEntry cd) um rl \<and> cache rl = [])"

lemma initial_sound:
  assumes "swarm_initial cd um cfg c s"
  shows "\<exists>n. sound cd um cfg c sub s n"
proof -
  let ?n = "\<lparr>members = \<lparr>node = \<lambda>i. e_node (sw_engine s i), ledger = {}, majorities = {}, leaders = {}\<rparr>,
    rlog = \<lambda>i. e_log (sw_engine s i), polls = {}, sent = {}, answers = {}\<rparr>"
  have e: "\<exists>rnd rn rl f. sw_engine s i = NewWithTransport rnd rn rl (machineAfter c []) f \<and>
        nodeID rn = i \<and> config rn = cfg \<and> Role rn = Follower \<and> durable rn \<and> 0 \<le> CurrentTerm (persistent rn) \<and>
        CommitIndex rn = 0 \<and> LastApplied rn = 0 \<and> whole (encEntry cd) um rl \<and> cache rl = []" for i
    using assms by (simp add: swarm_initial_def)
  have f: "nodeID (e_node (sw_engine s i)) = i \<and> config (e_node (sw_engine s i)) = cfg \<and> Role (e_node (sw_engine s i)) = Follower \<and>
      durable (e_node (sw_engine s i)) \<and> 0 \<le> CurrentTerm (persistent (e_node (sw_engine s i))) \<and> CommitIndex (e_node (sw_engine s i)) = 0 \<and>
      whole (encEntry cd) um (e_log (sw_engine s i)) \<and> cache (e_log (sw_engine s i)) = [] \<and> voteRequests (sw_engine s i) = {} \<and>
      healthy cd c sub (sw_engine s i)" for i
    using e [of i]
    by (auto simp: NewWithTransport_def resetElectionTimeout_def SetMinElectionTimeout_def durable_def voteRequests_def healthy_def ackInv_def
        mirrors_def electionTimeoutMin_def intro: exI [of _ "[]"])
  then have "net_initial (encEntry cd) um cfg ?n" by (simp add: net_initial_def initial_def)
  then have "sound cd um cfg c sub s ?n"
    using f assms by (auto simp: sound_def covers_def swarm_initial_def intro: net_reachable.start)
  then show ?thesis ..
qed

lemma sound_reached:
  assumes "cfg_ok cfg" and "swarm_initial cd um cfg c s0" and "(swarm_step cd um c sub)\<^sup>*\<^sup>* s0 s" and "(swarm_step cd um c sub)\<^sup>*\<^sup>* s s'"
  obtains n n' where "sound cd um cfg c sub s n" "sound cd um cfg c sub s' n'" "(net_step (encEntry cd) um)\<^sup>*\<^sup>* n n'"
  using initial_sound [OF assms(2)] sound_run [OF assms(1,3)] sound_run [OF assms(1,4)] by meson

section \<open>A run\<close>

text \<open>A server of its own: it is elected, takes a command, and answers and applies it.\<close>

definition demoSettings :: Config where
  "demoSettings = \<lparr>cfg_NodeID = 1, cfg_Port = '':1'', cfg_DataDir = ''d'', cfg_Peers = [], cfg_CompactionThreshold = 1000, cfg_SessionTTL = 0\<rparr>"

definition loneCommand :: "bytes \<Rightarrow> Command" where
  "loneCommand b = \<lparr>Op = (if b = [] then OpNoop else OpSet), Key = b, Value = ''v'', ClientID = [], Seq = 0, Timestamp = 0\<rparr>"

definition loneMachine :: MemoryStateMachine where
  "loneMachine = NewMemoryStateMachine\<lparr>sm_appliesSinceSweep := 1\<rparr>"

definition loneCodecs :: Codecs where
  "loneCodecs = demoCodecs\<lparr>decCommand := (\<lambda>b. Some (loneCommand b))\<rparr>"

definition loneServer :: "int \<Rightarrow> Engine" where
  "loneServer v = NewWithTransport 0 (loneNode v) (demoWhole []) (machineAfter demoSettings []) \<lparr>visible = None, survivors = [None], calls = []\<rparr>"

definition loneSwarm :: Swarm where
  "loneSwarm = \<lparr>sw_engine = loneServer, sw_polls = {}, sw_sent = {}, sw_answers = {}, sw_granted = {}\<rparr>"

definition loneLeader :: "LogEntry list \<Rightarrow> waiter list \<Rightarrow> Engine" where
  "loneLeader es ws = (loneServer 1)\<lparr>e_node := (loneNode 1)\<lparr>Role := Leader, LeaderID := 1, lastContact := 1000000000, votesFrom := Some [(1, True)],
       minElectionTimeout := electionTimeoutMin, persistent := \<lparr>CurrentTerm = 1, VotedFor = 1\<rparr>,
       store := \<lparr>holds = Some \<lparr>CurrentTerm = 1, VotedFor = 1\<rparr>, mayHold = [Some \<lparr>CurrentTerm = 1, VotedFor = 1\<rparr>], saves = [], loadErr = None\<rparr>\<rparr>,
     e_log := demoWhole es, e_replicatorsTerm := 1, e_noopIndex := 1, e_waiters := ws\<rparr>"

definition loneNoop :: LogEntry where
  "loneNoop = \<lparr>Index = 1, Term = 1, Command = []\<rparr>"

definition loneEntry :: LogEntry where
  "loneEntry = \<lparr>Index = 2, Term = 1, Command = ''k''\<rparr>"

definition loneWaiter :: waiter where
  "loneWaiter = \<lparr>w_index = 2, w_term = 1, w_resultCh = 7, w_deadline = 1000000001 + proposalTimeout\<rparr>"

lemma lone_cfg: "cfg_ok (NewConfiguration [(1, ''a'')])"
  by (simp add: cfg_ok_def cfg_wf_def mwf_def solo_config)

lemma lone_machine: "machineAfter demoSettings [] = NewMemoryStateMachine"
  by (simp add: machineAfter_def numbered_def demoSettings_def SetSessionTTL_def NewMemoryStateMachine_def)

lemma lone_elected: "engineStep loneCodecs loneTick (loneServer 1) = loneLeader [loneNoop] []"
proof -
  note l = demoWhole_append [of "[]" 1 "[]", simplified]
  have n: "LastLogState (demoWhole []) = (0, 0)" "\<not> NeedsCompaction x 0" for x
    by (simp_all add: LastLogState_def lastIndexLocked_def NeedsCompaction_def demoWhole_def Let_def)
  show ?thesis
    by (simp add: engineStep_def runTurn_def onTick_def loneTick_def loneServer_def NewWithTransport_def resetElectionTimeout_def
      loneNode_def demoNode_def SetMinElectionTimeout_def electionTimeoutMin_def IsLeader_def node_CurrentTerm_def
      node_State_def reconcileLeadership_def failAllReads_def TimeSinceContact_def startPreVote_def runElection_def
      BecomeCandidate_def commitPersistentLocked_def Save_def engine_becomeLeader_def BecomeLeader_def
      resetLeadershipEvidence_def startReplicators_def currentPeers_def node_Peers_def solo_config solo_peers
      mput_def l n CommitAndApplyBoundary_def mkeys_def applyCommitted_def applyLoop.simps loneCodecs_def demoCodecs_def Let_def
      maybeCompact_def fireReadWaiters_def fireApplyWaiters_def checkQuorum_def sweepExpiredWaiters_def sweepExpiredReads_def
      sweepExpiredApplyWaiters_def loneLeader_def loneNoop_def)
qed

lemma lone_proposed:
  "engineStep loneCodecs (Turn 0 0 1000000001 (EvProposal soloCommand 7)) (loneLeader [loneNoop] []) = loneLeader [loneNoop, loneEntry] [loneWaiter]"
  by (simp add: engineStep_def runTurn_def handleProposal_def loneLeader_def loneServer_def NewWithTransport_def resetElectionTimeout_def
      loneNode_def demoNode_def SetMinElectionTimeout_def electionTimeoutMin_def IsLeader_def node_CurrentTerm_def
      loneCodecs_def demoCodecs_def soloCommand_def demoWhole_append loneEntry_def loneWaiter_def notifyReplicators_def mkeys_def)

definition loneDone :: Engine where
  "loneDone = engineStep loneCodecs (Turn 0 0 1000000002 EvTick) (loneLeader [loneNoop, loneEntry] [loneWaiter])"

lemma lone_done:
  "e_replies loneDone = [ProposalDone 7 None] \<and> CommitIndex (e_node loneDone) = 2 \<and> LastApplied (e_node loneDone) = 2 \<and>
   e_log loneDone = demoWhole [loneNoop, loneEntry] \<and> \<not> e_halted loneDone \<and> e_outbox loneDone = [] \<and> Role (e_node loneDone) = Leader \<and>
   \<not> e_done loneDone \<and> e_reads loneDone = [] \<and> e_lastAck loneDone = [] \<and> e_noopIndex loneDone = 1 \<and> e_replicators loneDone = [] \<and>
   CurrentTerm (persistent (e_node loneDone)) = 1 \<and> config (e_node loneDone) = NewConfiguration [(1, ''a'')]"
proof -
  let ?rl = "demoWhole [loneNoop, loneEntry]"
  have l: "LatestIndex ?rl = 2" "TermAt ?rl 2 = 1" "GetEntry ?rl 1 = Some loneNoop" "GetEntry ?rl 2 = Some loneEntry" "\<not> NeedsCompaction ?rl 2"
      "LogEntry.Command loneNoop = []" "LogEntry.Command loneEntry = ''k''"
    by (simp_all add: LatestIndex_def lastIndexLocked_def loneEntry_def loneNoop_def TermAt_def getEntryLocked_def GetEntry_def
        NeedsCompaction_def demoWhole_def Let_def)
  have a: "Apply 1 (loneCommand []) NewMemoryStateMachine = (None, loneMachine)"
      "Apply 2 (loneCommand ''k'') loneMachine = (None, loneMachine\<lparr>sm_data := [(''k'', ''v'')], sm_appliesSinceSweep := 2\<rparr>)"
    by (simp_all add: Apply_def loneCommand_def loneMachine_def OpNoop_def OpSet_def OpDelete_def advanceClock_def expireSessions_def
        NewMemoryStateMachine_def replay_def execute_def recordOutcome_def sweepInterval_def mput_def Let_def)
  show ?thesis
    by (simp add: loneDone_def engineStep_def runTurn_def onTick_def loneLeader_def loneServer_def NewWithTransport_def resetElectionTimeout_def
      loneNode_def demoNode_def SetMinElectionTimeout_def electionTimeoutMin_def IsLeader_def node_CurrentTerm_def
      node_State_def reconcileLeadership_def startReplicators_def currentPeers_def node_Peers_def solo_config solo_peers
      AdvanceCommitIndex_def mput_def solo_quorum_index l CommitAndApplyBoundary_def mkeys_def fireCommittedWaiters_eq loneWaiter_def
      applyCommitted_def applyLoop.simps applyOne_def loneCodecs_def demoCodecs_def a Let_def AdvanceLastApplied_def lone_machine
      maybeCompact_def fireReadWaiters_def fireApplyWaiters_def checkQuorum_def sweepExpiredWaiters_def sweepExpiredReads_def
      sweepExpiredApplyWaiters_def)
qed

definition loneRun :: "Engine \<Rightarrow> Swarm" where
  "loneRun e = loneSwarm\<lparr>sw_engine := loneServer(1 := e)\<rparr>"

lemma lone_uncompacted:
  "uncompacted loneCodecs demoUnmarshal (loneLeader [loneNoop] [])" "uncompacted loneCodecs demoUnmarshal (loneLeader [loneNoop, loneEntry] [loneWaiter])"
  "uncompacted loneCodecs demoUnmarshal loneDone"
  using lone_done
  by (simp_all add: uncompacted_def codec_ok_def loneCodecs_def demoCodecs_def loneLeader_def demoMarshal_def loneNoop_def loneEntry_def)
     (simp_all add: demoWhole_def Let_def)

lemma lone_requests: "voteRequests e = {} \<Longrightarrow> (loneRun d)\<lparr>sw_engine := (sw_engine (loneRun d))(1 := e), sw_polls := sw_polls (loneRun d) \<union> voteRequests e\<rparr> = loneRun e"
  by (simp add: loneRun_def loneSwarm_def)

lemma lone_step:
  "e' = engineStep loneCodecs (Turn rnd rnd' now ev) e \<Longrightarrow> genuine 1 (loneRun e) ev \<Longrightarrow> carries (\<lambda>_. soloCommand) (Turn rnd rnd' now ev) \<Longrightarrow>
   uncompacted loneCodecs demoUnmarshal e' \<Longrightarrow> voteRequests e' = {} \<Longrightarrow>
   swarm_step loneCodecs demoUnmarshal demoSettings (\<lambda>_. soloCommand) (loneRun e) (loneRun e')"
  using swarm_step.turn [of 1 "loneRun e" ev "\<lambda>_. soloCommand" rnd rnd' now e' loneCodecs demoUnmarshal demoSettings] lone_requests [of e' e]
  by (simp add: loneRun_def)

lemma lone_run:
  defines "st \<equiv> swarm_step loneCodecs demoUnmarshal demoSettings (\<lambda>_. soloCommand)"
  shows "swarm_initial loneCodecs demoUnmarshal (NewConfiguration [(1, ''a'')]) demoSettings loneSwarm"
    "st\<^sup>*\<^sup>* loneSwarm (loneRun (loneLeader [loneNoop, loneEntry] [loneWaiter]))"
    "st (loneRun (loneLeader [loneNoop, loneEntry] [loneWaiter])) (loneRun loneDone)"
proof -
  let ?e1 = "loneLeader [loneNoop] []" and ?e2 = "loneLeader [loneNoop, loneEntry] [loneWaiter]"
  have w: "whole demoMarshal demoUnmarshal (demoWhole [])" using demoWhole_ok by (simp add: whole_def codec_ok_def)
  show "swarm_initial loneCodecs demoUnmarshal (NewConfiguration [(1, ''a'')]) demoSettings loneSwarm"
    unfolding swarm_initial_def loneSwarm_def loneServer_def
    by (auto simp: loneNode_def demoNode_def durable_def loneCodecs_def demoCodecs_def w intro!: exI)
  have v: "voteRequests (loneLeader es ws) = {}" for es ws
    by (simp add: voteRequests_def loneLeader_def loneServer_def NewWithTransport_def resetElectionTimeout_def)
  have "voteRequests loneDone = {}" using lone_done by (simp add: voteRequests_def)
  then show "st (loneRun ?e2) (loneRun loneDone)"
    unfolding st_def by (intro lone_step [OF loneDone_def]) (simp_all add: genuine_def carries_def lone_uncompacted)
  have "st (loneRun (loneServer 1)) (loneRun ?e1)" unfolding st_def
    by (rule lone_step [OF lone_elected [symmetric, unfolded loneTick_def]]) (simp_all add: genuine_def carries_def lone_uncompacted v)
  moreover have "st (loneRun ?e1) (loneRun ?e2)" unfolding st_def
    by (rule lone_step [OF lone_proposed [symmetric]]) (simp_all add: genuine_def carries_def lone_uncompacted v)
  moreover have "loneRun (loneServer 1) = loneSwarm" by (simp add: loneRun_def loneSwarm_def)
  ultimately show "st\<^sup>*\<^sup>* loneSwarm (loneRun ?e2)" by (metis converse_rtranclp_into_rtranclp r_into_rtranclp)
qed

section \<open>Properties\<close>

text \<open>C10. The control loops implement the network of nodes and logs: to every run of a cluster of
  engines, with their ticks, elections, proposals, calls, replies and restarts, belongs a run
  of the network whose nodes and logs are those of the engines and in which every message of
  the engines was sent and every vote granted.\<close>

theorem engines_refine_network:
  assumes "cfg_ok cfg" and "swarm_initial cd um cfg c s0" and "(swarm_step cd um c sub)\<^sup>*\<^sup>* s0 s" and "(swarm_step cd um c sub)\<^sup>*\<^sup>* s s'"
  shows "\<exists>n n'. net_reachable (encEntry cd) um cfg n \<and> (net_step (encEntry cd) um)\<^sup>*\<^sup>* n n' \<and>
    (\<forall>(x, y) \<in> {(s, n), (s', n')}. (\<forall>i. peer y i = e_node (sw_engine x i) \<and> rlog y i = e_log (sw_engine x i)) \<and>
       sw_polls x \<subseteq> polls y \<and> sw_sent x \<subseteq> sent y \<and> sw_answers x \<subseteq> answers y \<and> sw_granted x \<subseteq> ledger (members y))"
proof -
  obtain n n' where "sound cd um cfg c sub s n" "sound cd um cfg c sub s' n'" "(net_step (encEntry cd) um)\<^sup>*\<^sup>* n n'"
    using sound_reached [OF assms] .
  then show ?thesis by (intro exI [of _ n] exI [of _ n']) (simp add: sound_def covers_def)
qed

theorem engines_refine_network_witness:
  "\<exists>n. net_reachable demoMarshal demoUnmarshal (NewConfiguration [(1, ''a'')]) n \<and> peer n 1 = e_node loneDone \<and>
     rlog n 1 = demoWhole [loneNoop, loneEntry]"
proof -
  have r: "(swarm_step loneCodecs demoUnmarshal demoSettings (\<lambda>_. soloCommand))\<^sup>*\<^sup>* loneSwarm (loneRun loneDone)"
    using lone_run(2,3) by (rule rtranclp.rtrancl_into_rtrancl)
  have e: "sw_engine (loneRun loneDone) 1 = loneDone" "encEntry loneCodecs = demoMarshal"
    by (simp_all add: loneRun_def loneCodecs_def demoCodecs_def)
  obtain n n' where n: "net_reachable demoMarshal demoUnmarshal (NewConfiguration [(1, ''a'')]) n"
      "\<forall>(x, y) \<in> {(loneRun loneDone, n), (loneRun loneDone, n')}. \<forall>i. peer y i = e_node (sw_engine x i) \<and> rlog y i = e_log (sw_engine x i)"
    using engines_refine_network [OF lone_cfg lone_run(1) r rtranclp.rtrancl_refl] unfolding e by auto
  then have "peer n 1 = e_node loneDone" "rlog n 1 = e_log loneDone" by (simp_all add: e)
  then show ?thesis using n(1) lone_done by auto
qed

text \<open>C2. The replicas hold one database: in a cluster of engines that starts empty, whatever is lost,
  delayed, duplicated or reordered on the way and whoever crashes, leads or is cut off, there is
  one sequence of commands of which every running state machine, at that moment or any later
  one, is the outcome of as many as its server applied.  Two replicas that applied equally
  many therefore hold the same data and the same client sessions.\<close>

theorem replicas_one_history:
  assumes "cfg_ok cfg" and "swarm_initial cd um cfg c s0" and "(swarm_step cd um c sub)\<^sup>*\<^sup>* s0 s" and "(swarm_step cd um c sub)\<^sup>*\<^sup>* s s'"
    and "\<not> e_halted (sw_engine s u)" and "\<not> e_halted (sw_engine s' v)"
  shows "\<exists>h. LastApplied (e_node (sw_engine s u)) \<le> int (length h) \<and> LastApplied (e_node (sw_engine s' v)) \<le> int (length h) \<and>
    e_machine (sw_engine s u) = machineAfter c (take (nat (LastApplied (e_node (sw_engine s u)))) h) \<and>
    e_machine (sw_engine s' v) = machineAfter c (take (nat (LastApplied (e_node (sw_engine s' v)))) h)"
proof -
  obtain n n' where n: "sound cd um cfg c sub s n" "sound cd um cfg c sub s' n'" "(net_step (encEntry cd) um)\<^sup>*\<^sup>* n n'"
    using sound_reached [OF assms(1-4)] .
  then have ok: "applied_ok (e_node (sw_engine s u))" "applied_ok (e_node (sw_engine s' v))"
    by (auto simp: sound_def healthy_def)
  obtain h h' where h: "mirrors cd c (sw_engine s u) h" "mirrors cd c (sw_engine s' v) h'"
    using n(1,2) assms(5,6) by (auto simp: sound_def healthy_def) blast
  have "h ! k = h' ! k" if k: "k < length h" "k < length h'" for k
  proof -
    let ?j = "int k + 1"
    have j: "1 \<le> ?j" "?j \<le> LastApplied (e_node (sw_engine s u))" "?j \<le> LastApplied (e_node (sw_engine s' v))"
      using k h by (auto simp: mirrors_def)
    then have "GetEntry (e_log (sw_engine s u)) ?j = GetEntry (e_log (sw_engine s' v)) ?j"
      using covered_agree [OF assms(1) _ _ n(3) j(1), of s s' u v] n(1,2) ok by (auto simp: sound_def)
    moreover have "readCommand cd (e_log (sw_engine s u)) ?j = Some (h ! k)" "readCommand cd (e_log (sw_engine s' v)) ?j = Some (h' ! k)"
      using h k unfolding mirrors_def by (metis (no_types, opaque_lifting) add_diff_cancel_right' j nat_int)+
    ultimately show ?thesis by (simp add: readCommand_def)
  qed
  then have "take (min (length h) (length h')) h = take (min (length h) (length h')) h'" by (auto intro: nth_equalityI)
  then have "take (length h) (if length h \<le> length h' then h' else h) = h" "take (length h') (if length h \<le> length h' then h' else h) = h'"
    by (auto simp: min_def split: if_splits)
  then show ?thesis using h by (intro exI [of _ "if length h \<le> length h' then h' else h"]) (auto simp: mirrors_def)
qed

theorem replicas_one_history_witness:
  "\<exists>h. length h \<ge> 2 \<and> e_machine (loneServer 1) = machineAfter demoSettings (take 0 h) \<and> e_machine loneDone = machineAfter demoSettings (take 2 h)"
proof -
  have r: "(swarm_step loneCodecs demoUnmarshal demoSettings (\<lambda>_. soloCommand))\<^sup>*\<^sup>* loneSwarm (loneRun loneDone)"
    using lone_run(2,3) by (rule rtranclp.rtrancl_into_rtrancl)
  have e: "sw_engine loneSwarm 1 = loneServer 1" "sw_engine (loneRun loneDone) 1 = loneDone" "\<not> e_halted (loneServer 1)"
      "LastApplied (e_node (loneServer 1)) = 0"
    by (simp_all add: loneSwarm_def loneRun_def loneServer_def NewWithTransport_def resetElectionTimeout_def SetMinElectionTimeout_def
        loneNode_def demoNode_def)
  from replicas_one_history [OF lone_cfg lone_run(1) rtranclp.rtrancl_refl r, of 1 1] lone_done show ?thesis unfolding e(1,2) by (force simp: e)
qed



end
