(* ===== verification/Engine_Evidence.thy ===== *)
theory Engine_Evidence
  imports Engine_Replicas
begin

text \<open>
  What an engine has in hand when it answers reads: the rounds its replicators began, the
  rounds its peers acknowledged, and the index of the first entry of its term.
\<close>

section \<open>What leaves the evidence alone\<close>

definition evidence :: "Engine \<Rightarrow> 64 word \<times> (int, peerAck) gomap \<times> int" where
  "evidence e = (e_roundSeq e, e_lastAck e, e_noopIndex e)"

interpretation evd: aside evidence
  by unfold_locales (simp_all add: evidence_def)

lemma evidence_update [simp]:
  "evidence (e\<lparr>e_node := a\<rparr>) = evidence e" "evidence (e\<lparr>e_log := b\<rparr>) = evidence e" "evidence (e\<lparr>e_machine := c\<rparr>) = evidence e"
  "evidence (e\<lparr>e_snapshots := d\<rparr>) = evidence e" "evidence (e\<lparr>e_halted := h\<rparr>) = evidence e" "evidence (e\<lparr>e_electionTimeout := et\<rparr>) = evidence e"
  "evidence (e\<lparr>e_lastQuorumNanos := q\<rparr>) = evidence e" "evidence (e\<lparr>e_preVoteTerm := p\<rparr>) = evidence e" "evidence (e\<lparr>e_preVotes := pv\<rparr>) = evidence e"
  by (simp_all add: evidence_def)

interpretation evda: unapplied evidence
  by unfold_locales simp_all

lemma evidence_parts:
  "evidence (checkQuorum now e) = evidence e" "evidence (handleStepDown t e) = evidence e"
  "evidence (handleProposal cd now cmd ch e) = evidence e"
  by (simp_all add: checkQuorum_def noteQuorumConfirmed_def handleStepDown_def handleProposal_def Let_def
      evd.sweeps evd.crews evd.sends evd.waiters evd.reply split: prod.split bool.split option.split)

section \<open>Leading on\<close>

text \<open>The engine goes on as it was: it does not lead unless it led this term before.\<close>

definition leadsOn :: "RaftNode \<Rightarrow> RaftNode \<Rightarrow> bool" where
  "leadsOn rn rn' \<longleftrightarrow> IsLeader rn' \<longrightarrow> IsLeader rn \<and> CurrentTerm (persistent rn') = CurrentTerm (persistent rn)"

lemma leadsOn_refl [simp]: "leadsOn rn rn"
  by (simp add: leadsOn_def)

lemma leadsOn_trans [trans]: "leadsOn rn rn1 \<Longrightarrow> leadsOn rn1 rn2 \<Longrightarrow> leadsOn rn rn2"
  by (simp add: leadsOn_def)

lemma leadsOn_quiet: "quiet rn rn' \<Longrightarrow> leadsOn rn rn'"
  by (auto simp: quiet_def leadsOn_def IsLeader_def)

lemma leadsOn_follow: "leadsOn rn (snd (BecomeFollower t l rn))"
  by (rule leadsOn_quiet, rule other_step_quiet, rule other_step.become_follower, rule prod.collapse [symmetric])

lemma leadsOn_commit: "leadsOn rn (snd (AdvanceCommitIndex li ta ct rn))"
  by (rule leadsOn_quiet, rule other_step_quiet, rule other_step.advance_commit, rule prod.collapse [symmetric])

lemma leadsOn_tally: "leadsOn rn (snd (RecordVoteAndCheckMajority p t rn))"
  by (simp add: RecordVoteAndCheckMajority_def leadsOn_def IsLeader_def Let_def)

text \<open>A new leader has an entry of its term and knows its index; it starts with no acknowledgements.\<close>

definition ownNoop :: "Engine \<Rightarrow> bool" where
  "ownNoop e \<longleftrightarrow> (\<exists>en. GetEntry (e_log e) (e_noopIndex e) = Some en \<and> Term en = CurrentTerm (persistent (e_node e)))"

definition takesLead :: "Engine \<Rightarrow> Engine \<Rightarrow> bool" where
  "takesLead e e' \<longleftrightarrow> e_roundSeq e' = e_roundSeq e \<and> (IsLeader (e_node e') \<longrightarrow> ownNoop e') \<and>
     (\<exists>now. e_lastAck e' = fold (\<lambda>p. mput p \<lparr>pa_startSeq = 0, pa_at = now\<rparr>) (mkeys (currentPeers e)) [])"

text \<open>The one entry a leader writes by itself, and that it can be written as bytes.\<close>

definition encodesNoop :: "Codecs \<Rightarrow> bool" where
  "encodesNoop cd \<longleftrightarrow>
     (\<forall>now. encCommand cd \<lparr>Op = OpNoop, Key = [], Value = [], ClientID = [], Seq = 0, Timestamp = now\<rparr> \<noteq> None)"

definition onwards :: "Engine \<Rightarrow> Engine \<Rightarrow> bool" where
  "onwards e e' \<longleftrightarrow> evidence e' = evidence e \<and> leadsOn (e_node e) (e_node e') \<or> takesLead e e'"

lemma onwards_lead:
  assumes "encodesNoop cd" and "whole (encEntry cd) um (e_log e)"
  shows "onwards e (engine_becomeLeader cd now t i e)"
proof -
  obtain won rn where b: "BecomeLeader t i (e_node e) = (won, rn)" by force
  show ?thesis
  proof (cases won)
    case False
    then show ?thesis using b leader_steps(5) [OF b] by (simp add: engine_becomeLeader_def onwards_def)
  next
    case True
    note l = leader_steps(4) [OF b True] and p = leader_steps(2) [OF b]
    let ?noop = "\<lparr>Op = OpNoop, Key = [], Value = [], ClientID = [], Seq = 0, Timestamp = now\<rparr>"
    obtain bs where bs: "encCommand cd ?noop = Some bs" using assms(1) by (auto simp: encodesNoop_def)
    obtain en rl where a: "AppendLeader (encEntry cd) bs t (e_log e) = (Some en, rl)" "cache rl = cache (e_log e) @ [en]"
      using append_total [OF assms(2)] by blast
    have g: "GetEntry rl (Index en) = Some en" "Term en = t"
    proof -
      have wf: "log_wf (e_log e)" using assms(2) by (simp add: whole_def)
      from AppendLeader_store [OF wf a(1)] AppendLeader_ok [OF a(1)] log_wfD [OF wf]
      show "GetEntry rl (Index en) = Some en" "Term en = t" by (auto simp: LatestIndex_def log_wf_last [OF wf])
    qed
    let ?e = "((resetLeadershipEvidence now (e\<lparr>e_node := rn\<rparr>))\<lparr>e_noopIndex := 0\<rparr>)\<lparr>e_log := rl, e_noopIndex := Index en\<rparr>"
    have "engine_becomeLeader cd now t i e = startReplicators ?e"
      using b True bs a(1) by (simp add: engine_becomeLeader_def resetLeadershipEvidence_def Let_def)
    moreover have "currentPeers (e\<lparr>e_node := rn\<rparr>) = currentPeers e"
      using leader_steps(1) [OF b] by (simp add: currentPeers_def node_Peers_def keeps_def)
    ultimately show ?thesis
      using evd.crews(2) [of ?e] nod.crews(2) [of ?e] lgv.crews(2) [of ?e] g l p
      by (auto simp: onwards_def takesLead_def ownNoop_def evidence_def resetLeadershipEvidence_def)
  qed
qed

lemma onwards_after:
  assumes "evidence e1 = evidence e" and "leadsOn (e_node e) (e_node e1)" and "currentPeers e1 = currentPeers e" and "onwards e1 e2"
  shows "onwards e e2"
  using assms leadsOn_trans [OF assms(2)] by (auto simp: onwards_def takesLead_def evidence_def)

lemma onwards_before:
  assumes "onwards e e1" and "evidence e2 = evidence e1" and "leadsOn (e_node e1) (e_node e2)" and "e_log e2 = e_log e1"
  shows "onwards e e2"
  using assms leadsOn_trans [OF _ assms(3)] unfolding onwards_def takesLead_def evidence_def ownNoop_def leadsOn_def by auto

lemma onwards_same: "evidence e' = evidence e \<Longrightarrow> leadsOn (e_node e) (e_node e') \<Longrightarrow> onwards e e'"
  by (simp add: onwards_def)

lemma onwards_election:
  assumes "encodesNoop cd" and "whole (encEntry cd) um (e_log e)"
  shows "onwards e (runElection cd rnd now e)"
proof -
  obtain r rn where b: "BecomeCandidate now (e_node e) = (r, rn)" by force
  show ?thesis
  proof (cases r)
    case None
    then show ?thesis using b leadsOn_quiet [OF candidate_steps(2) [OF b]]
      by (intro onwards_same) (simp_all add: runElection_def resetElectionTimeout_def)
  next
    case (Some t)
    let ?e = "resetElectionTimeout rnd (e\<lparr>e_node := rn\<rparr>)"
    have f: "evidence ?e = evidence e" "e_log ?e = e_log e" "e_node ?e = rn" by (simp_all add: resetElectionTimeout_def)
    have l: "leadsOn (e_node e) rn" using candidate_steps(3) [OF b Some] by (simp add: leadsOn_def IsLeader_def)
    have p: "currentPeers ?e = currentPeers e" using candidate_steps(1) [OF b] f(3) by (simp add: currentPeers_def node_Peers_def keeps_def)
    show ?thesis
    proof (cases "length (currentPeers ?e) = 0")
      case True
      then have "runElection cd rnd now e = engine_becomeLeader cd now t (fst (LastLogState (e_log e))) ?e"
        using b Some f(2) by (simp add: runElection_def Let_def split_beta)
      then show ?thesis using onwards_after [OF f(1) _ p onwards_lead [OF assms(1)]] l f assms(2) by simp
    next
      case False
      then show ?thesis using b Some f l
        by (intro onwards_same) (simp_all add: runElection_def Let_def split_beta evd.sends(3) nod.sends(3))
    qed
  qed
qed

lemma onwards_elections:
  assumes "encodesNoop cd" and "whole (encEntry cd) um (e_log e)"
  shows "onwards e (startPreVote cd rnd rnd' now e)" and "onwards e (handlePreVoteResult cd rnd now t p resp e)"
    and "onwards e (handleVoteResult cd now t p vresp e)"
proof -
  have refl: "onwards e e" by (simp add: onwards_same)
  have run: "onwards e (runElection cd rnd'' now x)"
    if "evidence x = evidence e" "e_log x = e_log e" "e_node x = e_node e" for x rnd''
  proof -
    have "onwards x (runElection cd rnd'' now x)" using onwards_election [OF assms(1)] assms(2) that(2) by simp
    then show ?thesis by (rule onwards_after [OF that(1), rotated 2]) (simp_all add: that(3) currentPeers_def)
  qed
  show "onwards e (startPreVote cd rnd rnd' now e)"
  proof (cases "length (currentPeers (resetElectionTimeout rnd e)) = 0")
    case True
    then show ?thesis using run [of "resetElectionTimeout rnd e"] by (simp add: startPreVote_def Let_def split_beta resetElectionTimeout_def)
  next
    case False
    then show ?thesis
      by (intro onwards_same) (simp_all add: startPreVote_def Let_def split_beta evd.sends(3) nod.sends(3),
        simp_all add: resetElectionTimeout_def)
  qed
  have follow: "onwards e (e\<lparr>e_node := snd (BecomeFollower t' 0 (e_node e))\<rparr>)"
      "onwards e (e\<lparr>e_node := snd (BecomeFollower t' 0 (e_node e)), e_preVoteTerm := 0\<rparr>)" for t'
    by (simp_all add: onwards_same leadsOn_follow)
  have votes: "onwards e (e\<lparr>e_preVotes := pv\<rparr>)" for pv by (simp add: onwards_same)
  show "onwards e (handlePreVoteResult cd rnd now t p resp e)"
    using run [of "e\<lparr>e_preVotes := mput p True (e_preVotes e), e_preVoteTerm := 0\<rparr>"] follow(2) votes refl
    by (simp add: handlePreVoteResult_def Let_def split_beta)
  let ?rn = "snd (RecordVoteAndCheckMajority p t (e_node e))" and ?won = "fst (RecordVoteAndCheckMajority p t (e_node e))"
  have tally: "onwards e (e\<lparr>e_node := ?rn\<rparr>)" by (simp add: onwards_same leadsOn_tally)
  have "currentPeers (e\<lparr>e_node := ?rn\<rparr>) = currentPeers e"
    by (simp add: currentPeers_def node_Peers_def RecordVoteAndCheckMajority_def Let_def)
  then have "onwards e (engine_becomeLeader cd now t i (e\<lparr>e_node := ?rn\<rparr>))" for i
    using onwards_after [OF _ _ _ onwards_lead [OF assms(1)], of "e\<lparr>e_node := ?rn\<rparr>" e] assms(2) leadsOn_tally by simp
  then show "onwards e (handleVoteResult cd now t p vresp e)"
    using follow(1) tally refl by (simp add: handleVoteResult_def Let_def split_beta)
qed

lemma onwards_tick:
  assumes "encodesNoop cd" and "whole (encEntry cd) um (e_log e)" and "e' = onTick cd rnd rnd' now e" and "uncompacted cd um e'"
  shows "onwards e e'"
proof -
  let ?e0 = "reconcileLeadership e"
  let ?e1 = "tickFront cd rnd rnd' now ?e0"
  let ?e2 = "applyCommitted cd ?e1"
  let ?e3 = "fireApplyWaiters (fireReadWaiters (maybeCompact cd ?e2))"
  let ?e4 = "if IsLeader (e_node ?e3) then checkQuorum now ?e3 else ?e3"
  have e0: "evidence ?e0 = evidence e" "e_node ?e0 = e_node e" "e_log ?e0 = e_log e"
    by (simp_all add: evd.crews nod.crews lgv.crews)
  have "onwards ?e0 ?e1"
    using onwards_elections(1) [OF assms(1), of um ?e0] assms(2) e0(3) leadsOn_commit
    by (auto simp: tickFront_def Let_def split_beta onwards_same evd.sweeps nod.sweeps)
  then have f: "onwards e ?e1" using e0 by (intro onwards_after [of ?e0 e]) (simp_all add: currentPeers_def)
  have n2: "leadsOn (e_node ?e1) (e_node ?e2)"
  proof -
    obtain cs m where "appliedRun cd (CommitIndex (e_node ?e1)) ?e1 ?e2 cs m"
      using applyLoop_run by (fastforce simp: applyCommitted_def CommitAndApplyBoundary_def)
    then show ?thesis by (auto simp: appliedRun_def Let_def leadsOn_def IsLeader_def)
  qed
  have q: "leadsOn (e_node x) (e_node (checkQuorum now x))" for x
    using leadsOn_follow [of "e_node x" "node_CurrentTerm (e_node x)" 0]
    by (auto simp: checkQuorum_def noteQuorumConfirmed_def nod.sweeps nod.crews Let_def split: prod.split bool.split)
  have e': "e' = (if e_halted ?e2 then ?e2 else sweepExpiredApplyWaiters now (sweepExpiredReads now (sweepExpiredWaiters now ?e4)))"
    using assms(3) by (simp add: onTick_eq Let_def)
  have "evidence e' = evidence ?e1" using e' by (simp add: evd.sweeps evidence_parts evda.applies)
  moreover have "leadsOn (e_node ?e2) (e_node e')"
    using e' q [of ?e3] by (simp add: nod.sweeps compact_node)
  then have "leadsOn (e_node ?e1) (e_node e')" by (rule leadsOn_trans [OF n2])
  moreover have "e_log e' = e_log ?e1" using tick_log(1) [OF assms(3,4)] .
  ultimately show ?thesis by (rule onwards_before [OF f])
qed

text \<open>What a turn of the control loop does to the evidence.\<close>

definition hears :: "int \<Rightarrow> 64 word \<Rightarrow> Engine \<Rightarrow> Engine \<Rightarrow> bool" where
  "hears p q e e' \<longleftrightarrow> e_node e' = e_node e \<and> e_log e' = e_log e \<and> e_roundSeq e' = e_roundSeq e \<and> e_noopIndex e' = e_noopIndex e \<and>
     (\<exists>now. e_lastAck e' = mput p \<lparr>pa_startSeq = max q (pa_startSeq (mget0 \<lparr>pa_startSeq = 0, pa_at = 0\<rparr> (e_lastAck e) p)), pa_at = now\<rparr> (e_lastAck e))"

lemma turn_evidence:
  assumes "encodesNoop cd" and "whole (encEntry cd) um (e_log e)" and "e' = engineStep cd (Turn rnd rnd' now ev) e" and "uncompacted cd um e'"
  shows "onwards e e' \<or> (\<exists>p q. ev = EvAck p q \<and> hears p q e e')"
proof (cases "e_halted e \<or> e_done e")
  case True
  then show ?thesis using assms(3) by (auto simp: engineStep_def runTurn_def onwards_same)
next
  case False
  then have e': "e' = (case ev of EvProposal cmd ch \<Rightarrow> handleProposal cd now cmd ch e | EvStepDown t \<Rightarrow> handleStepDown t e
      | EvPreVote t p resp \<Rightarrow> handlePreVoteResult cd rnd now t p resp e | EvVote t p resp \<Rightarrow> handleVoteResult cd now t p resp e
      | EvAck p q \<Rightarrow> handleAck now p q e | EvRead ch b \<Rightarrow> handleRead now ch b e | EvApply w \<Rightarrow> handleApplyWait w e
      | EvTick \<Rightarrow> onTick cd rnd rnd' now e | EvDone \<Rightarrow> stopReplicators
          ((failAllApplyWaiters ErrReadTimeout (failAllReads ErrNotLeader (failAllWaiters ErrNotLeader e)))\<lparr>e_done := True\<rparr>))"
    using assms(3) by (simp add: engineStep_def runTurn_def)
  have "leadsOn (e_node e) (e_node (handleStepDown t e))" for t
    using leadsOn_follow [of "e_node e" t 0] by (auto simp: handleStepDown_def nod.sweeps nod.crews split: prod.split)
  moreover have "hears p q e (handleAck now p q e)" for p q
  proof -
    let ?a = "mget0 \<lparr>pa_startSeq = 0, pa_at = 0\<rparr> (e_lastAck e) p"
    let ?x = "e\<lparr>e_lastAck := mput p \<lparr>pa_startSeq = max q (pa_startSeq ?a), pa_at = now\<rparr> (e_lastAck e)\<rparr>"
    have "handleAck now p q e = fireReadWaiters ?x" by (cases ?a) (auto simp: handleAck_def Let_def max_def)
    then show ?thesis using evd.sweeps(9) [of ?x] by (auto simp: hears_def evidence_def nod.sweeps lgv.sweeps)
  qed
  ultimately show ?thesis
    using e' onwards_elections(2,3) [OF assms(1,2)] onwards_tick [OF assms(1,2) _ assms(4)]
    by (cases ev) (auto intro!: onwards_same simp: evidence_parts evd.apply_wait nod.apply_wait evd.read nod.read evd.stops nod.stops proposal_node)
qed

end
