(* ===== verification/Cluster_Reads.thy ===== *)
theory Cluster_Reads
  imports Engine_Network
begin

text \<open>
  What a leader may answer reads from: while a majority has not left its term, a leader with an
  entry of its own term in its log knows, by that entry's index, of everything any server of
  the cluster knows to be committed.
\<close>

section \<open>Steps\<close>

lemma leaders_step: "net_step m um n n' \<Longrightarrow> leaders (members n) \<subseteq> leaders (members n')"
  by (cases rule: net_step.cases) auto

lemma leaders_run: "(net_step m um)\<^sup>*\<^sup>* n n' \<Longrightarrow> leaders (members n) \<subseteq> leaders (members n')"
  by (induction rule: rtranclp_induct) (use leaders_step in blast)+

lemma terms_run:
  assumes "cfg_ok cfg" and "net_reachable m um cfg n" and "(net_step m um)\<^sup>*\<^sup>* n n'"
  shows "node_CurrentTerm (peer n v) \<le> node_CurrentTerm (peer n' v)"
proof -
  obtain a where a: "sim m um cfg n a" "protocol_inv (quorum_of cfg) a" using net_simulated [OF assms(1,2)] .
  obtain a' where a': "(protocol_step (quorum_of cfg))\<^sup>*\<^sup>* a a'" "sim m um cfg n' a'" using net_run_sim [OF assms a] by blast
  have "terms a v \<le> terms a' v" using protocol_run_inv [OF a'(1) a(2)] by (simp add: extends_def)
  then show ?thesis using simD(1) [OF a(1)] simD(1) [OF a'(2)] by (simp add: logs_sim_def node_CurrentTerm_def)
qed

lemma node_commit:
  "CommitIndex (snd (BecomeFollower t l rn)) = CommitIndex rn" "CommitIndex (snd (BecomeCandidate now rn)) = CommitIndex rn"
  "CommitIndex (snd (BecomeLeader t i rn)) = CommitIndex rn" "CommitIndex (snd (RecordVoteAndCheckMajority p t rn)) = CommitIndex rn"
  "CommitIndex (snd (AdvanceLastApplied rn)) = CommitIndex rn" "CommitIndex (snd (appendReply t p resp rn)) = CommitIndex rn"
  by (auto simp: BecomeFollower_def becomeFollowerLocked_def BecomeCandidate_def BecomeLeader_def RecordVoteAndCheckMajority_def
      AdvanceLastApplied_def appendReply_def UpdatePeerProgress_def BacktrackNextIndex_def Let_def dest!: commit_fields
      split: prod.splits bool.splits)

lemma request_vote_commit: "HandleRequestVote now req lastLog rn = (resp, rn') \<Longrightarrow> CommitIndex rn' = CommitIndex rn"
  by (cases rule: request_vote_branches) (auto dest: commit_fields_sel)

lemma restart_commit: "restartNode now p os rn = Inr rn' \<Longrightarrow> CommitIndex rn' = 0"
  by (auto simp: restartNode_def NewRaftNode_def loadPersistentState_def Let_def split: option.splits sum.splits prod.splits if_splits)

text \<open>An answer to an append carries at least the term the server had, and what it commits the leader had committed.\<close>

lemma append_answer:
  assumes "HandleAppendEntries m now req rl rn = (resp, rl', rn')"
  shows "CurrentTerm (persistent rn) \<le> aer_Term resp"
    and "CommitIndex rn' = CommitIndex rn \<or> CommitIndex rn' \<le> ae_LeaderCommit req \<and> ae_Term req \<le> CurrentTerm (persistent rn')"
  using assms
  by (auto simp: HandleAppendEntries_def acceptLeader_def becomeFollowerLocked_def setFollowerCommitIndexLocked_def Let_def
      dest!: commit_fields split: prod.splits bool.splits if_splits)

lemma commit_step:
  assumes "net_step m um n n'"
  shows "CommitIndex (peer n' u) \<le> max 0 (CommitIndex (peer n u)) \<or> IsLeader (peer n' u) \<or>
    (\<exists>req \<in> sent n. CommitIndex (peer n' u) \<le> ae_LeaderCommit req \<and> ae_Term req \<le> node_CurrentTerm (peer n' u))"
  using assms
proof (cases rule: net_step.cases)
  case (campaign now c r rn)
  then show ?thesis using node_commit(2) [of now "peer n c"] by auto
next
  case (vote req now v resp rn)
  then show ?thesis using request_vote_commit [OF vote(3)] by auto
next
  case (tally v t c won rn)
  then show ?thesis using node_commit(4) [of v t "peer n c"] by auto
next
  case (promote c t promoted rn)
  then show ?thesis using node_commit(3) [of t "LatestIndex (rlog n c)" "peer n c"] by auto
next
  case (receive req now v resp rl rn)
  then show ?thesis using append_answer(2) [OF receive(3)] by (auto simp: node_CurrentTerm_def)
next
  case (reply p req resp c t rn)
  then show ?thesis using node_commit(6) [of "ae_Term req" p resp "peer n c"] by auto
next
  case (commit c r rn)
  then show ?thesis by (auto simp: AdvanceCommitIndex_def IsLeader_def Let_def split: if_splits)
next
  case (step_down t l v fin rn)
  then show ?thesis using node_commit(1) [of t l "peer n v"] by auto
next
  case (applied v i rn)
  then show ?thesis using node_commit(5) [of "peer n v"] by auto
next
  case (restart p v now os rn b rl)
  then show ?thesis using restart_commit by auto
qed auto

text \<open>A node that leads after a step led before it, in the same term and with no more committed, or was a candidate.\<close>

lemma leader_step:
  assumes "cfg_ok cfg" and "net_reachable m um cfg n" and "net_step m um n n'" and "IsLeader (peer n' c)"
  shows "Role (peer n c) = Candidate \<or> IsLeader (peer n c) \<and> CurrentTerm (persistent (peer n' c)) = CurrentTerm (persistent (peer n c)) \<and>
    CommitIndex (peer n c) \<le> CommitIndex (peer n' c)"
proof -
  have q: "IsLeader rn \<and> CurrentTerm (persistent rn') = CurrentTerm (persistent rn)" if "quiet rn rn'" "IsLeader rn'" for rn rn'
    using that by (auto simp: quiet_def IsLeader_def)
  have l: "CommitIndex rn \<le> CommitIndex rn'" if "orderly rn rn'" for rn rn' using that by (simp add: orderly_def onward_def)
  from assms(3) show ?thesis
  proof (cases rule: net_step.cases)
    case (campaign now c' r rn)
    then show ?thesis using assms(4) q [OF candidate_steps(2) [OF campaign(2)]] candidate_steps(3) [OF campaign(2)]
        node_commit(2) [of now "peer n c'"] by (cases r) (auto simp: IsLeader_def)
  next
    case (vote req now v resp rn)
    then show ?thesis using assms(4) q [OF request_vote_quiet [OF vote(3)]] request_vote_commit [OF vote(3)] by auto
  next
    case (tally v t c' won rn)
    then show ?thesis using assms(4) node_commit(4) [of v t "peer n c'"]
      by (auto simp: RecordVoteAndCheckMajority_def IsLeader_def Let_def split: if_splits)
  next
    case (promote c' t promoted rn)
    then show ?thesis using assms(4) leader_steps(4,5) [OF promote(3)] by (cases promoted) (auto simp: IsLeader_def)
  next
    case (receive req now v resp rl rn)
    then show ?thesis using assms(4) q [OF append_entries_quiet [OF receive(3)]] l [OF orderly_append [OF receive(3)]] by auto
  next
    case (reply p req resp c' t rn)
    have "CurrentTerm (persistent (snd (appendReply (ae_Term req) p resp (peer n c')))) = CurrentTerm (persistent (peer n c'))"
        "Role (snd (appendReply (ae_Term req) p resp (peer n c'))) = Role (peer n c')"
      by (simp_all add: appendReply_def UpdatePeerProgress_def BacktrackNextIndex_def Let_def)
    then show ?thesis using assms(4) reply node_commit(6) [of "ae_Term req" p resp "peer n c'"] by (auto simp: IsLeader_def)
  next
    case (commit c' r rn)
    then show ?thesis using assms(4) l [OF orderly_commit [OF commit(2)]]
      by (auto simp: AdvanceCommitIndex_def IsLeader_def Let_def split: if_splits)
  next
    case (step_down t lid v fin rn)
    then show ?thesis using assms(4) q [OF other_step_quiet [OF other_step.become_follower [OF step_down(2)]]]
        node_commit(1) [of t lid "peer n v"] by auto
  next
    case (applied v i rn)
    then show ?thesis using assms(4) by (auto simp: AdvanceLastApplied_def IsLeader_def)
  next
    case (restart p v now os rn b rl)
    have "durable (peer n v)" "cfg_wf (config (peer n v))"
      using net_elections [OF assms(1,2)] assms(1) by (auto simp: inv_defs cfg_ok_def)
    from restart_steps [OF restart(3,2) this] show ?thesis using assms(4) restart by (auto simp: IsLeader_def)
  qed (use assms(4) in auto)
qed

section \<open>Where commit indices come from\<close>

text \<open>Some server led a term of at most \<open>t\<close> at an earlier moment and had \<open>k\<close> committed then.\<close>

definition sourced :: "marshal \<Rightarrow> unmarshal \<Rightarrow> Configuration \<Rightarrow> Network \<Rightarrow> int \<Rightarrow> int \<Rightarrow> bool" where
  "sourced m um cfg n t k \<longleftrightarrow> k \<le> 0 \<or> (\<exists>n0 c. net_reachable m um cfg n0 \<and> (net_step m um)\<^sup>*\<^sup>* n0 n \<and> IsLeader (peer n0 c) \<and>
     node_CurrentTerm (peer n0 c) \<le> t \<and> k \<le> CommitIndex (peer n0 c))"

lemma sourced_mono:
  assumes "sourced m um cfg n t k" and "(net_step m um)\<^sup>*\<^sup>* n n'" and "t \<le> t'" and "k' \<le> max 0 k"
  shows "sourced m um cfg n' t' k'"
  using assms unfolding sourced_def by (meson le_max_iff_disj order_trans rtranclp_trans)

lemma commits_sourced:
  assumes "cfg_ok cfg" and "net_reachable m um cfg n"
  shows "(\<forall>u. sourced m um cfg n (node_CurrentTerm (peer n u)) (CommitIndex (peer n u))) \<and>
    (\<forall>req \<in> sent n. sourced m um cfg n (ae_Term req) (ae_LeaderCommit req))"
  using assms(2)
proof induction
  case (start s)
  then show ?case by (simp add: net_initial_def sourced_def)
next
  case (step s s')
  have run: "(net_step m um)\<^sup>*\<^sup>* s s'" using step.hyps(2) by blast
  have r': "net_reachable m um cfg s'" using step.hyps by (rule net_reachable.step)
  have "sourced m um cfg s' (node_CurrentTerm (peer s' u)) (CommitIndex (peer s' u))" for u
    using commit_step [OF step.hyps(2), of u]
  proof (elim disjE bexE)
    assume "CommitIndex (peer s' u) \<le> max 0 (CommitIndex (peer s u))"
    then show ?thesis using sourced_mono [OF _ run] step.IH terms_run [OF assms(1) step.hyps(1) run] by blast
  next
    assume "IsLeader (peer s' u)"
    then show ?thesis using r' by (auto simp: sourced_def)
  next
    fix req assume "req \<in> sent s" "CommitIndex (peer s' u) \<le> ae_LeaderCommit req \<and> ae_Term req \<le> node_CurrentTerm (peer s' u)"
    then show ?thesis using step.IH sourced_mono [OF _ run, of cfg "ae_Term req" "ae_LeaderCommit req"] by force
  qed
  moreover have "req \<in> sent s \<or> (\<exists>c. IsLeader (peer s c) \<and> ae_Term req = node_CurrentTerm (peer s c) \<and> ae_LeaderCommit req = CommitIndex (peer s c))"
    if "req \<in> sent s'" for req
    using step.hyps(2) that by (cases rule: net_step.cases) (auto simp: appendRequest_def node_State_def node_CurrentTerm_def Let_def)
  then have "sourced m um cfg s' (ae_Term req) (ae_LeaderCommit req)" if "req \<in> sent s'" for req
    using that step.IH step.hyps(1) run sourced_mono [OF _ run, of cfg "ae_Term req" "ae_LeaderCommit req"]
    by (fastforce simp: sourced_def)
  ultimately show ?case by blast
qed

section \<open>One term of a leader\<close>

lemma leads_recorded:
  assumes "cfg_ok cfg" and "net_reachable m um cfg n" and "IsLeader (peer n c)"
  shows "(c, node_CurrentTerm (peer n c)) \<in> leaders (members n)"
  using net_elections [OF assms(1,2)] assms(3) by (auto simp: election_inv_def leads_ok_def IsLeader_def node_CurrentTerm_def)

text \<open>A node that leads one term at two moments led it all the time in between.\<close>

lemma reign_commits:
  assumes ok: "cfg_ok cfg" and r: "net_reachable m um cfg n" and run: "(net_step m um)\<^sup>*\<^sup>* n n'" and lead: "IsLeader (peer n c)"
    and lead': "IsLeader (peer n' c)" and t: "node_CurrentTerm (peer n' c) = node_CurrentTerm (peer n c)"
  shows "CommitIndex (peer n c) \<le> CommitIndex (peer n' c)"
proof -
  have el: "(c, node_CurrentTerm (peer n c)) \<in> leaders (members n)"
    using leads_recorded [OF ok r lead] .
  have "IsLeader (peer x c) \<Longrightarrow> node_CurrentTerm (peer x c) = node_CurrentTerm (peer n c) \<Longrightarrow> CommitIndex (peer n c) \<le> CommitIndex (peer x c)"
    if "(net_step m um)\<^sup>*\<^sup>* n x" for x
    using that
  proof (induction rule: rtranclp_induct)
    case (step y z)
    have ry: "net_reachable m um cfg y" using net_reachable_run [OF step.hyps(1) r] .
    have "node_CurrentTerm (peer n c) \<le> node_CurrentTerm (peer y c)" "node_CurrentTerm (peer y c) \<le> node_CurrentTerm (peer z c)"
      using terms_run [OF ok r step.hyps(1)] terms_run [OF ok ry r_into_rtranclp [of "net_step m um", OF step.hyps(2)]] by blast+
    then have ty: "node_CurrentTerm (peer y c) = node_CurrentTerm (peer n c)" using step.prems(2) by simp
    obtain a where a: "sim m um cfg y a" using net_simulated [OF ok ry] .
    have "Role (peer y c) \<noteq> Candidate"
    proof
      assume "Role (peer y c) = Candidate"
      then have "(c, terms a c) \<notin> leaders (members y)" using simD(3) [OF a] by (simp add: candidates_sim_def candidate_ok_def)
      then show False using leaders_run [OF step.hyps(1)] el ty simD(1) [OF a] by (auto simp: logs_sim_def node_CurrentTerm_def)
    qed
    then show ?case using leader_step [OF ok ry step.hyps(2) step.prems(1)] step.IH ty by (simp add: order_trans)
  qed simp
  then show ?thesis using run lead' t by blast
qed

lemma reign_log:
  assumes ok: "cfg_ok cfg" and r: "net_reachable m um cfg n" and run: "(net_step m um)\<^sup>*\<^sup>* n n'" and lead: "IsLeader (peer n c)"
    and lead': "IsLeader (peer n' c)" and t: "node_CurrentTerm (peer n' c) = node_CurrentTerm (peer n c)" and e: "GetEntry (rlog n c) j = Some e"
  shows "GetEntry (rlog n' c) j = Some e"
proof -
  obtain a where a: "sim m um cfg n a" "protocol_inv (quorum_of cfg) a" using net_simulated [OF ok r] .
  obtain a' where a': "(protocol_step (quorum_of cfg))\<^sup>*\<^sup>* a a'" "sim m um cfg n' a'" using net_run_sim [OF ok r run a] by blast
  have tm: "terms a' c = terms a c" using simD(1) [OF a(1)] simD(1) [OF a'(2)] t by (simp add: logs_sim_def node_CurrentTerm_def)
  have h: "entries a c = history a (terms a c)" "entries a' c = history a' (terms a c)"
    using simD(2) [OF a(1)] simD(2) [OF a'(2)] lead lead' tm by (simp_all add: leaders_sim_def IsLeader_def)
  have "terms a c \<in> elected a"
  proof -
    have "elected a = snd ` leaders (members n)" "terms a c = node_CurrentTerm (peer n c)"
      using simD(1,2) [OF a(1)] by (simp_all add: leaders_sim_def logs_sim_def node_CurrentTerm_def)
    then show ?thesis using leads_recorded [OF ok r lead] by (metis image_eqI snd_conv)
  qed
  then have p: "prefix (entries a c) (entries a' c)"
    using protocol_run_inv [OF a'(1) a(2)] h by (auto simp: extends_def)
  have j: "1 \<le> j" "j \<le> int (length (entries a c))" "e = entries a c ! nat (j - 1)"
    using e by (simp_all add: sim_entry [OF a(1)] split: if_splits)
  from p have "j \<le> int (length (entries a' c))" "entries a' c ! nat (j - 1) = entries a c ! nat (j - 1)"
    using j(1,2) by (auto simp: prefix_def nth_append)
  then show ?thesis using j by (simp add: sim_entry [OF a'(2)])
qed

section \<open>What a leader knows\<close>

text \<open>Nothing was led in a term that a majority has not reached.\<close>

lemma no_later_term:
  assumes ok: "cfg_ok cfg" and r: "net_reachable m um cfg n" and el: "(c, t0) \<in> leaders (members n)"
    and Q: "quorum_of cfg Q" and q: "\<forall>p \<in> Q. node_CurrentTerm (peer n p) \<le> t"
  shows "t0 \<le> t"
proof -
  have inv: "election_inv cfg (members n)" using net_elections [OF ok r] .
  then have "quorum_of cfg (voters_of (members n) t0 c)" using el by (auto simp: inv_defs)
  then obtain p where p: "p \<in> Q" "(p, t0, c) \<in> ledger (members n)"
    using cq.quorum_meet [OF ok Q] by (auto simp: voters_of_def)
  then have "t0 \<le> node_CurrentTerm (peer n p)"
    using inv ledger_term [of "members n" p t0 c] by (simp add: election_inv_def node_CurrentTerm_def)
  then show ?thesis using q p(1) by force
qed

text \<open>What was committed before the leader's term is below its first own entry.\<close>

lemma earlier_term:
  assumes ok: "cfg_ok cfg" and r: "net_reachable m um cfg n" and run: "(net_step m um)\<^sup>*\<^sup>* n n'"
    and less: "node_CurrentTerm (peer n u) < node_CurrentTerm (peer n' c)" and lead: "IsLeader (peer n' c)"
    and e: "GetEntry (rlog n' c) k = Some e" and own: "Term e = node_CurrentTerm (peer n' c)"
  shows "CommitIndex (peer n u) \<le> k"
proof (rule ccontr)
  assume "\<not> CommitIndex (peer n u) \<le> k"
  obtain a where a: "sim m um cfg n a" "protocol_inv (quorum_of cfg) a" using net_simulated [OF ok r] .
  have r': "net_reachable m um cfg n'" using net_reachable_run [OF run r] .
  obtain a' where a': "sim m um cfg n' a'" using net_simulated [OF ok r'] .
  have k: "1 \<le> k" using e by (auto simp: sim_entry [OF a'] split: if_splits)
  then have "GetEntry (rlog n u) k = Some e"
    using committed_entries_led [OF ok r run k _ lead, of u] less e \<open>\<not> _\<close> by force
  then have "e \<in> set (entries a u)" by (auto simp: sim_entry [OF a(1)] split: if_splits intro!: nth_mem)
  then have "Term e \<le> node_CurrentTerm (peer n u)"
    using protocol_invD(2) [OF a(2)] simD(1) [OF a(1)] by (auto simp: logs_ok_def logs_sim_def node_CurrentTerm_def)
  then show False using own less by simp
qed

text \<open>
  The index a leader may serve reads from.  \<open>n'\<close> is the moment of the read, \<open>k\<close> the index of an entry
  of the leader's own term, \<open>Q\<close> a majority that has not left this term.
\<close>

lemma leader_knows_commits:
  assumes ok: "cfg_ok cfg" and r: "net_reachable m um cfg n" and run: "(net_step m um)\<^sup>*\<^sup>* n n'" and lead: "IsLeader (peer n' c)"
    and e: "GetEntry (rlog n' c) k = Some e" and own: "Term e = node_CurrentTerm (peer n' c)"
    and Q: "quorum_of cfg Q" and q: "\<forall>p \<in> Q. node_CurrentTerm (peer n' p) \<le> node_CurrentTerm (peer n' c)"
  shows "CommitIndex (peer n u) \<le> max (CommitIndex (peer n' c)) k"
proof (cases "CommitIndex (peer n u) \<le> 0")
  case True
  obtain a' where "sim m um cfg n' a'" using net_simulated [OF ok net_reachable_run [OF run r]] .
  then have "1 \<le> k" using e by (auto simp: sim_entry split: if_splits)
  with True show ?thesis by simp
next
  case False
  then obtain n0 d where s: "net_reachable m um cfg n0" "(net_step m um)\<^sup>*\<^sup>* n0 n" "IsLeader (peer n0 d)"
      "CommitIndex (peer n u) \<le> CommitIndex (peer n0 d)"
    using commits_sourced [OF ok r] by (auto simp: sourced_def)
  have r': "net_reachable m um cfg n'" and run0: "(net_step m um)\<^sup>*\<^sup>* n0 n'"
    using net_reachable_run [OF run r] s(2) run by auto
  let ?old = "node_CurrentTerm (peer n0 d)" and ?t = "node_CurrentTerm (peer n' c)"
  have el: "(d, ?old) \<in> leaders (members n')" "(c, ?t) \<in> leaders (members n')"
    using leads_recorded [OF ok s(1,3)] leads_recorded [OF ok r' lead] leaders_run [OF run0] by blast+
  have "?old \<le> ?t" using no_later_term [OF ok r' el(1) Q] q by blast
  then consider "?old < ?t" | "?old = ?t" by linarith
  then have "CommitIndex (peer n0 d) \<le> max (CommitIndex (peer n' c)) k"
  proof cases
    case 1
    from earlier_term [OF ok s(1) run0 this lead e own] show ?thesis by simp
  next
    case 2
    then have "d = c" using one_leader [OF ok net_elections [OF ok r'] el(1)] el(2) by simp
    then show ?thesis using reign_commits [OF ok s(1) run0, of c] s(3) lead 2 by simp
  qed
  with s(4) show ?thesis by simp
qed

end
