(* ===== verification/Engine_Linear.thy ===== *)
theory Engine_Linear
  imports Engine_Evidence Cluster_Reads Engine_Reads
begin

text \<open>
  Linearizable reads in a cluster of engines.  The cluster is that of \<^verbatim>\<open>Engine_Network\<close>, with the
  rounds of the replicators: which round a request belongs to, and which acknowledgements
  wait in a leader's channel.
\<close>

section \<open>Definitions\<close>

text \<open>
  A round is the server that began it, the peer, the number claimed before sending, the term
  its replicator was started for, and the request.  An acknowledgement is the server it goes
  to, the peer and the number of the round.  Both belong to a process and go with it.
\<close>

record Court =
  co_swarm :: Swarm
  co_rounds :: "(int \<times> int \<times> 64 word \<times> int \<times> AppendEntriesRequest) set"
  co_acks :: "(int \<times> int \<times> 64 word) set"

definition seat :: "Court \<Rightarrow> int \<Rightarrow> Engine" where
  "seat s i = sw_engine (co_swarm s) i"

inductive court_step :: "Codecs \<Rightarrow> unmarshal \<Rightarrow> Config \<Rightarrow> (nat \<Rightarrow> Command) \<Rightarrow> Court \<Rightarrow> Court \<Rightarrow> bool" for cd um cfg sub where
  turn: "0 < i \<Longrightarrow> genuine i (co_swarm s) ev \<Longrightarrow> carries sub (Turn rnd rnd' now ev) \<Longrightarrow>
    (\<And>p q. ev = EvAck p q \<Longrightarrow> (i, p, q) \<in> co_acks s) \<Longrightarrow>
    e' = engineStep cd (Turn rnd rnd' now ev) (seat s i) \<Longrightarrow> uncompacted cd um e' \<Longrightarrow>
    court_step cd um cfg sub s (s\<lparr>co_swarm := (co_swarm s)\<lparr>sw_engine := (sw_engine (co_swarm s))(i := e'),
      sw_polls := sw_polls (co_swarm s) \<union> voteRequests e'\<rparr>\<rparr>)"
| round: "\<not> e_halted (seat s i) \<Longrightarrow> IsLeader (e_node (seat s i)) \<Longrightarrow> p \<in> set (mkeys (currentPeers (seat s i))) \<Longrightarrow>
    t \<le> node_CurrentTerm (e_node (seat s i)) \<Longrightarrow> e_roundSeq (seat s i) \<noteq> -1 \<Longrightarrow> nextRoundSeq (seat s i) = (q, e') \<Longrightarrow>
    req = appendRequest (e_log (seat s i)) p (e_node (seat s i)) \<Longrightarrow>
    court_step cd um cfg sub s (s\<lparr>co_swarm := (co_swarm s)\<lparr>sw_engine := (sw_engine (co_swarm s))(i := e'),
      sw_sent := insert req (sw_sent (co_swarm s))\<rparr>, co_rounds := insert (i, p, q, t, req) (co_rounds s)\<rparr>)"
| answer: "(i, p, q, t, req) \<in> co_rounds s \<Longrightarrow> req \<in> sw_sent (co_swarm s) \<Longrightarrow> \<not> e_halted (seat s p) \<Longrightarrow>
    engine_HandleAppendEntries cd now req (seat s p) = (resp, e') \<Longrightarrow>
    court_step cd um cfg sub s (s\<lparr>co_swarm := (co_swarm s)\<lparr>sw_engine := (sw_engine (co_swarm s))(p := e'),
      sw_answers := insert (p, req, resp) (sw_answers (co_swarm s))\<rparr>,
      co_acks := (if aer_Term resp = t then insert (i, p, q) (co_acks s) else co_acks s)\<rparr>)"
| receive: "req \<in> sw_sent (co_swarm s) \<Longrightarrow> \<not> e_halted (seat s v) \<Longrightarrow>
    engine_HandleAppendEntries cd now req (seat s v) = (resp, e') \<Longrightarrow>
    court_step cd um cfg sub s (s\<lparr>co_swarm := (co_swarm s)\<lparr>sw_engine := (sw_engine (co_swarm s))(v := e'),
      sw_answers := insert (v, req, resp) (sw_answers (co_swarm s))\<rparr>\<rparr>)"
| reply: "(p, req, resp) \<in> sw_answers (co_swarm s) \<Longrightarrow> ae_LeaderID req = i \<Longrightarrow> \<not> e_halted (seat s i) \<Longrightarrow>
    (IsLeader (e_node (seat s i)) \<longrightarrow> node_CurrentTerm (e_node (seat s i)) = ae_Term req) \<Longrightarrow>
    appendReply (ae_Term req) p resp (e_node (seat s i)) = (t, rn) \<Longrightarrow>
    court_step cd um cfg sub s (s\<lparr>co_swarm := (co_swarm s)\<lparr>sw_engine := (sw_engine (co_swarm s))(i := (seat s i)\<lparr>e_node := rn\<rparr>)\<rparr>\<rparr>)"
| vote: "req \<in> sw_polls (co_swarm s) \<Longrightarrow> \<not> e_halted (seat s v) \<Longrightarrow> engine_HandleRequestVote now req (seat s v) = (resp, e') \<Longrightarrow>
    court_step cd um cfg sub s (s\<lparr>co_swarm := (co_swarm s)\<lparr>sw_engine := (sw_engine (co_swarm s))(v := e'),
      sw_granted := (if rvr_VoteGranted resp then insert (v, rvr_Term resp, rv_CandidateID req) (sw_granted (co_swarm s))
        else sw_granted (co_swarm s))\<rparr>\<rparr>)"
| restart: "p \<in> set (mayHold (store (e_node (seat s v)))) \<Longrightarrow> restartNode now p os (e_node (seat s v)) = Inr rn \<Longrightarrow>
    crash_image (wal (e_log (seat s v))) b \<Longrightarrow> NewRaftLog um b [] = Inr rl \<Longrightarrow>
    court_step cd um cfg sub s (s\<lparr>co_swarm := (co_swarm s)\<lparr>sw_engine := (sw_engine (co_swarm s))
        (v := NewWithTransport rnd rn rl (machineAfter cfg []) f)\<rparr>,
      co_rounds := {x \<in> co_rounds s. fst x \<noteq> v}, co_acks := {x \<in> co_acks s. fst x \<noteq> v}\<rparr>)"

text \<open>The first \<open>k\<close> steps of a run, state by state.\<close>

definition court_run :: "Codecs \<Rightarrow> unmarshal \<Rightarrow> Configuration \<Rightarrow> Config \<Rightarrow> (nat \<Rightarrow> Command) \<Rightarrow> (nat \<Rightarrow> Court) \<Rightarrow> nat \<Rightarrow> bool" where
  "court_run cd um cfg c sub run k \<longleftrightarrow> swarm_initial cd um cfg c (co_swarm (run 0)) \<and> co_rounds (run 0) = {} \<and> co_acks (run 0) = {} \<and>
     (\<forall>j < k. court_step cd um c sub (run j) (run (Suc j)))"

lemma court_swarm: "court_step cd um c sub s s' \<Longrightarrow> swarm_step cd um c sub (co_swarm s) (co_swarm s')"
proof (induction rule: court_step.induct)
  case (turn i s ev rnd rnd' now e')
  then show ?case using swarm_step.turn [of i "co_swarm s" ev sub rnd rnd' now e' cd um c] by (simp add: seat_def)
next
  case (round s i p t q e' req)
  then show ?case using swarm_step.send [of "co_swarm s" i cd um c sub p] by (simp add: seat_def)
next
  case (answer i p q t req s now resp e')
  then show ?case using swarm_step.receive [of req "co_swarm s" p cd now resp e' um c sub] by (simp add: seat_def)
next
  case (receive req s v now resp e')
  then show ?case using swarm_step.receive [of req "co_swarm s" v cd now resp e' um c sub] by (simp add: seat_def)
next
  case (reply p req resp s i t rn)
  then show ?case using swarm_step.reply [of p req resp "co_swarm s" i t rn cd um c sub] by (simp add: seat_def)
next
  case (vote req s v now resp e')
  then show ?case using swarm_step.vote [of req "co_swarm s" v now resp e' cd um c sub] by (simp add: seat_def)
next
  case (restart p s v now os rn b rl rnd f)
  then show ?case using swarm_step.restart [of p "co_swarm s" v now os rn b um rl cd c sub rnd f] by (simp add: seat_def)
qed

section \<open>What a step does to one engine\<close>

text \<open>An engine goes on, hears of an acknowledgement, begins a round, or starts anew.\<close>

definition resets :: "Engine \<Rightarrow> bool" where
  "resets e \<longleftrightarrow> Role (e_node e) = Follower \<and> evidence e = (0, [], 0) \<and> e_reads e = [] \<and> e_replies e = []"

definition advances :: "Court \<Rightarrow> Court \<Rightarrow> int \<Rightarrow> bool" where
  "advances s s' j \<longleftrightarrow> onwards (seat s j) (seat s' j) \<or>
     (\<exists>p q. (j, p, q) \<in> co_acks s \<and> hears p q (seat s j) (seat s' j)) \<or>
     e_roundSeq (seat s j) \<noteq> -1 \<and> seat s' j = (seat s j)\<lparr>e_roundSeq := e_roundSeq (seat s j) + 1\<rparr> \<or>
     resets (seat s' j) \<and> (\<forall>x \<in> co_rounds s'. fst x \<noteq> j) \<and> (\<forall>x \<in> co_acks s'. fst x \<noteq> j)"

lemma advances_same: "seat s' j = seat s j \<Longrightarrow> advances s s' j"
  by (simp add: advances_def onwards_same)

lemma advances_role: "seat s' j = (seat s j)\<lparr>e_node := rn\<rparr> \<Longrightarrow> leadsOn (e_node (seat s j)) rn \<Longrightarrow> advances s s' j"
  by (simp add: advances_def onwards_same)

lemma advances_node: "seat s' j = (seat s j)\<lparr>e_log := rl, e_node := rn\<rparr> \<Longrightarrow> leadsOn (e_node (seat s j)) rn \<Longrightarrow> advances s s' j"
  by (simp add: advances_def onwards_same)

lemma court_advances:
  assumes "court_step cd um c sub s s'" and "encodesNoop cd" and "\<And>j. whole (encEntry cd) um (e_log (seat s j))"
  shows "advances s s' j"
  using assms(1)
proof (cases rule: court_step.cases)
  case (turn i ev rnd rnd' now e')
  show ?thesis
  proof (cases "j = i")
    case True
    then show ?thesis
      using turn_evidence [OF assms(2,3) turn(6,7)] turn(1,5) by (auto simp: advances_def seat_def)
  qed (use turn(1) in \<open>simp add: advances_same seat_def\<close>)
next
  case (round i p t q e' req)
  then show ?thesis by (cases "j = i") (auto simp: advances_def seat_def nextRoundSeq_def onwards_same)
next
  case (answer i p q t req now resp e')
  then show ?thesis using leadsOn_quiet [OF append_entries_quiet]
    by (cases "j = p") (auto simp: engine_HandleAppendEntries_def seat_def advances_same intro!: advances_node split: prod.splits)
next
  case (receive req v now resp e')
  then show ?thesis using leadsOn_quiet [OF append_entries_quiet]
    by (cases "j = v") (auto simp: engine_HandleAppendEntries_def seat_def advances_same intro!: advances_node split: prod.splits)
next
  case (reply p req resp i t rn)
  then show ?thesis using leadsOn_quiet [OF quiet_reply [of "e_node (seat s i)" "ae_Term req" p resp]]
    by (cases "j = i") (auto simp: seat_def advances_same intro!: advances_role)
next
  case (vote req v now resp e')
  obtain rn where rn: "HandleRequestVote now req (LastLogState (e_log (seat s v))) (e_node (seat s v)) = (resp, rn)" "e' = (seat s v)\<lparr>e_node := rn\<rparr>"
    using vote(4) by (auto simp: engine_HandleRequestVote_def split: prod.splits)
  then show ?thesis using leadsOn_quiet [OF request_vote_quiet [OF rn(1)]] vote(1)
    by (cases "j = v") (auto simp: seat_def advances_same intro!: advances_role)
next
  case (restart p v now os rn b rl rnd f)
  have "Role rn = Follower"
    using restart(3) by (auto simp: restartNode_def NewRaftNode_def loadPersistentState_def Let_def split: option.splits sum.splits prod.splits if_splits)
  then have "resets (NewWithTransport rnd rn rl (machineAfter c []) f)"
    by (simp add: resets_def NewWithTransport_def resetElectionTimeout_def SetMinElectionTimeout_def evidence_def)
  then show ?thesis using restart(1) by (cases "j = v") (auto simp: advances_def onwards_same seat_def)
qed

text \<open>Where rounds and acknowledgements come from.\<close>

lemma court_rounds:
  assumes "court_step cd um c sub s s'"
  shows "(i, p, q, t, req) \<in> co_rounds s' \<Longrightarrow> (i, p, q, t, req) \<in> co_rounds s \<or>
      q = e_roundSeq (seat s' i) \<and> t \<le> node_CurrentTerm (e_node (seat s i)) \<and> p \<in> set (mkeys (currentPeers (seat s i)))"
    and "(i, p, q) \<in> co_acks s' \<Longrightarrow> (i, p, q) \<in> co_acks s \<or>
      (\<exists>t req. (i, p, q, t, req) \<in> co_rounds s \<and> node_CurrentTerm (e_node (seat s p)) \<le> t)"
proof -
  show "(i, p, q, t, req) \<in> co_rounds s' \<Longrightarrow> (i, p, q, t, req) \<in> co_rounds s \<or>
      q = e_roundSeq (seat s' i) \<and> t \<le> node_CurrentTerm (e_node (seat s i)) \<and> p \<in> set (mkeys (currentPeers (seat s i)))"
    using assms by (cases rule: court_step.cases) (auto simp: nextRoundSeq_def seat_def)
  have "node_CurrentTerm (e_node e) \<le> aer_Term resp" if "engine_HandleAppendEntries cd now rq e = (resp, e')" for now rq e resp e'
    using that append_answer(1) by (auto simp: engine_HandleAppendEntries_def node_CurrentTerm_def split: prod.splits)
  note answered = this
  show "(i, p, q) \<in> co_acks s' \<Longrightarrow> (i, p, q) \<in> co_acks s \<or>
      (\<exists>t req. (i, p, q, t, req) \<in> co_rounds s \<and> node_CurrentTerm (e_node (seat s p)) \<le> t)"
    using assms by (cases rule: court_step.cases) (auto dest!: answered split: if_splits)
qed

text \<open>What a step does to the reads of an engine.\<close>

definition takesRead :: "Codecs \<Rightarrow> Court \<Rightarrow> Court \<Rightarrow> int \<Rightarrow> readWaiter \<Rightarrow> bool" where
  "takesRead cd s s' i w \<longleftrightarrow> (\<exists>r r' now ch b. seat s' i = engineStep cd (Turn r r' now (EvRead ch b)) (seat s i) \<and>
     IsLeader (e_node (seat s i)) \<and> w = admittedRead now ch b (seat s i))"

lemma court_reads:
  assumes "court_step cd um c sub s s'"
  shows "w \<in> set (e_reads (seat s' i)) \<Longrightarrow> w \<in> set (e_reads (seat s i)) \<or> takesRead cd s s' i w"
    and "(ch, k) \<in> served (seat s' i) \<Longrightarrow> (ch, k) \<notin> served (seat s i) \<Longrightarrow> \<exists>w. (w \<in> set (e_reads (seat s i)) \<or> takesRead cd s s' i w) \<and>
      r_resultCh w = ch \<and> r_readIndex w = k \<and> released w (seat s' i)"
proof -
  have "(\<exists>a. seat s' i = engineStep cd a (seat s i) \<and> (\<forall>w. taken a (seat s i) w \<longrightarrow> takesRead cd s s' i w)) \<or> hush (seat s i) (seat s' i)"
    using assms
  proof (cases rule: court_step.cases)
    case (turn j ev rnd rnd' now e')
    show ?thesis
    proof (cases "i = j")
      case True
      then have "seat s' i = engineStep cd (Turn rnd rnd' now ev) (seat s i)" using turn(1,6) by (simp add: seat_def)
      moreover then have "takesRead cd s s' i w" if "taken (Turn rnd rnd' now ev) (seat s i) w" for w
        using that unfolding taken_def takesRead_def by blast
      ultimately show ?thesis by blast
    qed (use turn(1) in \<open>simp add: seat_def\<close>)
  next
    case (answer j p q t req now resp e')
    then show ?thesis using hush_calls(1) [of "seat s p" cd now req] by (cases "i = p") (auto simp: seat_def)
  next
    case (receive req v now resp e')
    then show ?thesis using hush_calls(1) [of "seat s v" cd now req] by (cases "i = v") (auto simp: seat_def)
  next
    case (vote req v now resp e')
    then show ?thesis using hush_calls(2) [of "seat s v" now req] by (cases "i = v") (auto simp: seat_def)
  next
    case (restart p v now os rn b rl rnd f)
    then show ?thesis by (cases "i = v") (auto simp: seat_def hush_def served_def NewWithTransport_def resetElectionTimeout_def)
  qed (auto simp: seat_def nextRoundSeq_def hush_same)
  note step = this
  show "w \<in> set (e_reads (seat s' i)) \<Longrightarrow> w \<in> set (e_reads (seat s i)) \<or> takesRead cd s s' i w"
    using step step_reads(1) [of cd _ "seat s i"] by (fastforce simp: hush_def)
  assume served: "(ch, k) \<in> served (seat s' i)" "(ch, k) \<notin> served (seat s i)"
  then obtain a where a: "seat s' i = engineStep cd a (seat s i)" "\<forall>w. taken a (seat s i) w \<longrightarrow> takesRead cd s s' i w"
    using step by (auto simp: hush_def)
  from step_reads(2) [of ch k cd a "seat s i"] served a
  show "\<exists>w. (w \<in> set (e_reads (seat s i)) \<or> takesRead cd s s' i w) \<and> r_resultCh w = ch \<and> r_readIndex w = k \<and> released w (seat s' i)"
    by auto
qed

section \<open>Acknowledgements\<close>

abbreviation seatTerm :: "Court \<Rightarrow> int \<Rightarrow> int" where
  "seatTerm s i \<equiv> node_CurrentTerm (e_node (seat s i))"

text \<open>Of every peer that acknowledged a round it is known that \<open>Pr\<close> holds of it and the round.\<close>

definition vouched :: "int set \<Rightarrow> (int \<Rightarrow> 64 word \<Rightarrow> bool) \<Rightarrow> Engine \<Rightarrow> bool" where
  "vouched S Pr e \<longleftrightarrow> mwf (e_lastAck e) \<and>
     (\<forall>p a. mget (e_lastAck e) p = Some a \<longrightarrow> p \<in> S \<and> (pa_startSeq a = 0 \<or> Pr p (pa_startSeq a)))"

lemma vouched_mono: "vouched S Pr e \<Longrightarrow> (\<And>p q. Pr p q \<Longrightarrow> Pr' p q) \<Longrightarrow> vouched S Pr' e"
  by (auto simp: vouched_def)

lemma vouched_hears:
  assumes "vouched S Pr e" and "hears p q e e'" and "p \<in> S" and "Pr p q"
  shows "vouched S Pr e'"
proof -
  let ?a = "mget0 \<lparr>pa_startSeq = 0, pa_at = 0\<rparr> (e_lastAck e) p"
  obtain now where l: "e_lastAck e' = mput p \<lparr>pa_startSeq = max q (pa_startSeq ?a), pa_at = now\<rparr> (e_lastAck e)"
    using assms(2) by (auto simp: hears_def)
  have "pa_startSeq ?a = 0 \<or> Pr p (pa_startSeq ?a)" using assms(1) by (auto simp: vouched_def mget0_mget split: option.split)
  then have "Pr p (max q (pa_startSeq ?a))" using assms(4) by (auto simp: max_def)
  with assms(1,3) show ?thesis by (auto simp: vouched_def l gm.wf_put gm.lookup_put split: if_splits)
qed

lemma vouched_step:
  assumes "advances s s' j" and "vouched S Pr (seat s j)" and "set (mkeys (currentPeers (seat s j))) \<subseteq> S"
    and "\<And>p q. (j, p, q) \<in> co_acks s \<Longrightarrow> p \<in> S \<and> Pr p q"
  shows "vouched S Pr (seat s' j)"
  using assms(1) unfolding advances_def
proof (elim disjE exE conjE)
  assume "onwards (seat s j) (seat s' j)"
  then consider "e_lastAck (seat s' j) = e_lastAck (seat s j)" | "takesLead (seat s j) (seat s' j)"
    by (auto simp: onwards_def evidence_def)
  then show ?thesis
    using assms(2,3) by cases (auto simp: takesLead_def vouched_def fold_mput_const split: if_splits)
next
  fix p q assume "(j, p, q) \<in> co_acks s" "hears p q (seat s j) (seat s' j)"
  then show ?thesis using vouched_hears [OF assms(2)] assms(4) by blast
qed (use assms(2) in \<open>simp_all add: vouched_def resets_def evidence_def\<close>)

section \<open>The invariant\<close>

definition court_ok :: "Configuration \<Rightarrow> Court \<Rightarrow> bool" where
  "court_ok cfg s \<longleftrightarrow>
     (\<forall>i. vouched (dom (mget (Peers cfg i))) (\<lambda>p q. q \<le> e_roundSeq (seat s i)) (seat s i)) \<and>
     (\<forall>i. IsLeader (e_node (seat s i)) \<longrightarrow> ownNoop (seat s i)) \<and>
     (\<forall>i p q t req. (i, p, q, t, req) \<in> co_rounds s \<longrightarrow> q \<le> e_roundSeq (seat s i) \<and> t \<le> seatTerm s i \<and> p \<in> dom (mget (Peers cfg i))) \<and>
     (\<forall>i p q. (i, p, q) \<in> co_acks s \<longrightarrow> q \<le> e_roundSeq (seat s i) \<and> p \<in> dom (mget (Peers cfg i)))"

lemma court_okD:
  assumes "court_ok cfg s"
  shows "vouched (dom (mget (Peers cfg i))) (\<lambda>p q. q \<le> e_roundSeq (seat s i)) (seat s i)"
    and "IsLeader (e_node (seat s i)) \<Longrightarrow> ownNoop (seat s i)"
    and "(i, p, q, t, req) \<in> co_rounds s \<Longrightarrow> q \<le> e_roundSeq (seat s i) \<and> t \<le> seatTerm s i \<and> p \<in> dom (mget (Peers cfg i))"
    and "(i, p, q) \<in> co_acks s \<Longrightarrow> q \<le> e_roundSeq (seat s i) \<and> p \<in> dom (mget (Peers cfg i))"
  using assms unfolding court_ok_def by blast+

definition court_sound :: "Codecs \<Rightarrow> unmarshal \<Rightarrow> Configuration \<Rightarrow> Config \<Rightarrow> (nat \<Rightarrow> Command) \<Rightarrow> Court \<Rightarrow> Network \<Rightarrow> bool" where
  "court_sound cd um cfg c sub s n \<longleftrightarrow> sound cd um cfg c sub (co_swarm s) n \<and> court_ok cfg s"

lemma word_next: "x \<noteq> -1 \<Longrightarrow> x \<le> x + (1 :: 64 word)"
proof -
  assume "x \<noteq> -1"
  then have "uint x \<noteq> uint (-1 :: 64 word)" by (simp only: word_uint_eq_iff not_False_eq_True)
  moreover have "uint (-1 :: 64 word) = 2 ^ 64 - 1" by (simp add: unsigned_minus_1_eq_mask mask_eq_exp_minus_1)
  ultimately show ?thesis using uint_bounded [of x] by (simp add: no_olen_add)
qed

text \<open>Round numbers grow, unless the engine started anew.\<close>

lemma rounds_grow:
  assumes "advances s s' j"
  obtains "e_roundSeq (seat s j) \<le> e_roundSeq (seat s' j)"
  | "resets (seat s' j)" "\<forall>x \<in> co_rounds s'. fst x \<noteq> j" "\<forall>x \<in> co_acks s'. fst x \<noteq> j"
  using assms word_next by (auto simp: advances_def onwards_def takesLead_def evidence_def hears_def)

lemma sound_node:
  assumes "cfg_ok cfg" and "sound cd um cfg c sub (co_swarm s) n"
  shows "peer n j = e_node (seat s j)" and "rlog n j = e_log (seat s j)" and "whole (encEntry cd) um (e_log (seat s j))"
    and "set (mkeys (currentPeers (seat s j))) = dom (mget (Peers cfg j))" and "net_reachable (encEntry cd) um cfg n"
    and "config (e_node (seat s j)) = cfg"
proof -
  have cov: "covers cd um cfg (co_swarm s) n" using assms(2) by (simp add: sound_def)
  then show n: "peer n j = e_node (seat s j)" "rlog n j = e_log (seat s j)" "net_reachable (encEntry cd) um cfg n"
    by (simp_all add: covers_def seat_def)
  then show "whole (encEntry cd) um (e_log (seat s j))" using reachable_whole [OF assms(1), of _ _ n j] by simp
  have "nodeID (peer n j) = j" "config (peer n j) = cfg" using net_elections [OF assms(1) n(3)] by (auto simp: inv_defs)
  then show "set (mkeys (currentPeers (seat s j))) = dom (mget (Peers cfg j))" "config (e_node (seat s j)) = cfg"
    using n(1) by (simp_all add: currentPeers_def node_Peers_def gm.keys_dom)
qed

lemma noop_step:
  assumes ok: "cfg_ok cfg" and s: "sound cd um cfg c sub (co_swarm s) n" "sound cd um cfg c sub (co_swarm s') n'"
    and run: "(net_step (encEntry cd) um)\<^sup>*\<^sup>* n n'" and adv: "advances s s' j"
    and own: "IsLeader (e_node (seat s j)) \<longrightarrow> ownNoop (seat s j)" and lead: "IsLeader (e_node (seat s' j))"
  shows "ownNoop (seat s' j)"
proof -
  note a = sound_node [OF ok s(1)] and a' = sound_node [OF ok s(2)]
  have kept: "ownNoop (seat s' j)" if "e_noopIndex (seat s' j) = e_noopIndex (seat s j)" "leadsOn (e_node (seat s j)) (e_node (seat s' j))"
    using reign_log [OF ok a(5) run, of j "e_noopIndex (seat s j)"] that lead own a(1,2) [of j] a'(1,2) [of j]
    by (auto simp: leadsOn_def ownNoop_def node_CurrentTerm_def)
  show ?thesis
    using adv lead kept by (auto simp: advances_def onwards_def takesLead_def evidence_def hears_def resets_def IsLeader_def)
qed

lemma court_sound_step:
  assumes ok: "cfg_ok cfg" and enc: "encodesNoop cd" and st: "court_step cd um c sub s s'" and s: "court_sound cd um cfg c sub s n"
  shows "\<exists>n'. (net_step (encEntry cd) um)\<^sup>*\<^sup>* n n' \<and> court_sound cd um cfg c sub s' n'"
proof -
  have snd: "sound cd um cfg c sub (co_swarm s) n" and inv: "court_ok cfg s" using s by (simp_all add: court_sound_def)
  obtain n' where n': "(net_step (encEntry cd) um)\<^sup>*\<^sup>* n n'" "sound cd um cfg c sub (co_swarm s') n'"
    using sound_step [OF ok court_swarm [OF st] snd] by blast
  note a = sound_node [OF ok snd] and a' = sound_node [OF ok n'(2)]
  have adv: "advances s s' j" for j by (rule court_advances [OF st enc a(3)])
  have terms: "seatTerm s j \<le> seatTerm s' j" for j using terms_run [OF ok a(5) n'(1), of j] a(1) a'(1) by simp
  have acks: "q \<le> e_roundSeq (seat s i) \<and> p \<in> dom (mget (Peers cfg i))" if "(i, p, q) \<in> co_acks s" for i p q
    using court_okD(4) [OF inv that] .
  have "vouched (dom (mget (Peers cfg i))) (\<lambda>p q. q \<le> e_roundSeq (seat s' i)) (seat s' i)" for i
    using rounds_grow [OF adv, of i]
  proof cases
    case 1
    have "vouched (dom (mget (Peers cfg i))) (\<lambda>p q. q \<le> e_roundSeq (seat s i)) (seat s i)" using court_okD(1) [OF inv] .
    from vouched_step [OF adv this] have "vouched (dom (mget (Peers cfg i))) (\<lambda>p q. q \<le> e_roundSeq (seat s i)) (seat s' i)"
      using a(4) acks by blast
    then show ?thesis by (rule vouched_mono) (rule order_trans [OF _ 1])
  qed (simp add: vouched_def resets_def evidence_def)
  moreover have "ownNoop (seat s' i)" if "IsLeader (e_node (seat s' i))" for i
    using noop_step [OF ok snd n'(2,1) adv _ that] court_okD(2) [OF inv] by blast
  moreover have "q \<le> e_roundSeq (seat s' i) \<and> t \<le> seatTerm s' i \<and> p \<in> dom (mget (Peers cfg i))"
    if r: "(i, p, q, t, req) \<in> co_rounds s'" for i p q t req
    using rounds_grow [OF adv, of i]
  proof cases
    case 1
    have "q \<le> e_roundSeq (seat s i) \<and> t \<le> seatTerm s i \<and> p \<in> dom (mget (Peers cfg i))" if "(i, p, q, t, req) \<in> co_rounds s"
      using court_okD(3) [OF inv that] .
    then show ?thesis using court_rounds(1) [OF st r, unfolded a(4)] terms [of i] 1 by (meson order_trans order_refl)
  qed (use r in auto)
  moreover have "q \<le> e_roundSeq (seat s' i) \<and> p \<in> dom (mget (Peers cfg i))" if r: "(i, p, q) \<in> co_acks s'" for i p q
    using rounds_grow [OF adv, of i]
  proof cases
    case 1
    have "q \<le> e_roundSeq (seat s i) \<and> p \<in> dom (mget (Peers cfg i))"
      using court_rounds(2) [OF st r] acks court_okD(3) [OF inv] by blast
    then show ?thesis using 1 by (meson order_trans)
  qed (use r in auto)
  ultimately have "court_ok cfg s'" unfolding court_ok_def by blast
  then show ?thesis using n' by (auto simp: court_sound_def)
qed

section \<open>Runs\<close>

text \<open>To every state of a run belongs a state of the network of nodes and logs, in one run of it.\<close>

lemma court_start:
  assumes "swarm_initial cd um cfg c (co_swarm s)"
  shows "e_lastAck (seat s i) = []" "e_reads (seat s i) = []" "\<not> IsLeader (e_node (seat s i))"
proof -
  obtain rnd rn rl f where "seat s i = NewWithTransport rnd rn rl (machineAfter c []) f" "Role rn = Follower"
    using assms by (auto simp: swarm_initial_def seat_def) meson
  then show "e_lastAck (seat s i) = []" "e_reads (seat s i) = []" "\<not> IsLeader (e_node (seat s i))"
    by (simp_all add: NewWithTransport_def resetElectionTimeout_def SetMinElectionTimeout_def IsLeader_def)
qed

lemma court_nets:
  assumes ok: "cfg_ok cfg" and enc: "encodesNoop cd" and run: "court_run cd um cfg c sub run k"
  obtains net where "\<And>j. j \<le> k \<Longrightarrow> court_sound cd um cfg c sub (run j) (net j)"
    "\<And>j l. l \<le> j \<Longrightarrow> j \<le> k \<Longrightarrow> (net_step (encEntry cd) um)\<^sup>*\<^sup>* (net l) (net j)"
proof -
  have "\<exists>net. (\<forall>j \<le> k. court_sound cd um cfg c sub (run j) (net j)) \<and>
      (\<forall>l j. l \<le> j \<longrightarrow> j \<le> k \<longrightarrow> (net_step (encEntry cd) um)\<^sup>*\<^sup>* (net l) (net j))"
    using run
  proof (induction k)
    case 0
    then obtain n where n: "sound cd um cfg c sub (co_swarm (run 0)) n" using initial_sound unfolding court_run_def by blast
    have init: "swarm_initial cd um cfg c (co_swarm (run 0))" using 0 by (simp add: court_run_def)
    have "court_ok cfg (run 0)" using 0 by (simp add: court_run_def court_ok_def vouched_def court_start [OF init])
    then show ?case using n by (intro exI [of _ "\<lambda>_. n"]) (simp add: court_sound_def)
  next
    case (Suc k)
    then have "court_run cd um cfg c sub run k" by (simp add: court_run_def)
    then obtain net where net: "\<forall>j \<le> k. court_sound cd um cfg c sub (run j) (net j)"
        "\<forall>l j. l \<le> j \<longrightarrow> j \<le> k \<longrightarrow> (net_step (encEntry cd) um)\<^sup>*\<^sup>* (net l) (net j)" using Suc.IH by blast
    have "court_step cd um c sub (run k) (run (Suc k))" using Suc.prems by (simp add: court_run_def)
    then obtain n' where n': "(net_step (encEntry cd) um)\<^sup>*\<^sup>* (net k) n'" "court_sound cd um cfg c sub (run (Suc k)) n'"
      using court_sound_step [OF ok enc] net(1) by blast
    have "(net_step (encEntry cd) um)\<^sup>*\<^sup>* (net l) n'" if "l \<le> k" for l using net(2) n'(1) that by (meson order_refl rtranclp_trans)
    with net n'(2) show ?case by (intro exI [of _ "net(Suc k := n')"]) (auto simp: le_Suc_eq)
  qed
  then show thesis using that by blast
qed

text \<open>
  Since a moment at which the servers' terms were \<open>T\<close> and the rounds of server \<open>i\<close> had reached \<open>b\<close>,
  every later round acknowledged to \<open>i\<close> shows that the peer's term then was no later than that of \<open>i\<close> is now.
\<close>

definition since :: "int \<Rightarrow> (int \<Rightarrow> int) \<Rightarrow> 64 word \<Rightarrow> Court \<Rightarrow> bool" where
  "since i T b s \<longleftrightarrow> (\<forall>p. T p \<le> seatTerm s p) \<and> (\<forall>p q. (i, p, q) \<in> co_acks s \<longrightarrow> b < q \<longrightarrow> T p \<le> seatTerm s i) \<and>
     vouched UNIV (\<lambda>p q. b < q \<longrightarrow> T p \<le> seatTerm s i) (seat s i)"

lemma since_now: "court_ok cfg s \<Longrightarrow> since i (seatTerm s) (e_roundSeq (seat s i)) s"
  using court_okD(1,4) [of cfg s i] by (fastforce simp: since_def vouched_def)

lemma since_step:
  assumes ok: "cfg_ok cfg" and enc: "encodesNoop cd" and st: "court_step cd um c sub s s'" and s: "court_sound cd um cfg c sub s n"
    and s': "court_sound cd um cfg c sub s' n'" and run: "(net_step (encEntry cd) um)\<^sup>*\<^sup>* n n'" and since: "since i T b s"
  shows "since i T b s'"
proof -
  have snd: "sound cd um cfg c sub (co_swarm s) n" "sound cd um cfg c sub (co_swarm s') n'" and inv: "court_ok cfg s"
    using s s' by (simp_all add: court_sound_def)
  note a = sound_node [OF ok snd(1)] and a' = sound_node [OF ok snd(2)]
  have adv: "advances s s' i" by (rule court_advances [OF st enc a(3)])
  have terms: "seatTerm s j \<le> seatTerm s' j" for j using terms_run [OF ok a(5) run, of j] a(1) a'(1) by simp
  have "T p \<le> seatTerm s' i" if "(i, p, q) \<in> co_acks s'" "b < q" for p q
    using court_rounds(2) [OF st that(1)]
  proof (elim disjE exE conjE)
    assume "(i, p, q) \<in> co_acks s"
    then show ?thesis using since that(2) terms by (meson order_trans since_def)
  next
    fix t req assume "(i, p, q, t, req) \<in> co_rounds s" "seatTerm s p \<le> t"
    then have "T p \<le> seatTerm s p" "seatTerm s p \<le> t" "t \<le> seatTerm s i"
      using since court_okD(3) [OF inv] by (simp_all add: since_def)
    then show ?thesis using terms [of i] by linarith
  qed
  moreover have "vouched UNIV (\<lambda>p q. b < q \<longrightarrow> T p \<le> seatTerm s i) (seat s' i)"
    using since by (intro vouched_step [OF adv]) (auto simp: since_def)
  then have "vouched UNIV (\<lambda>p q. b < q \<longrightarrow> T p \<le> seatTerm s' i) (seat s' i)"
    by (rule vouched_mono) (use terms [of i] in \<open>auto intro: order_trans\<close>)
  moreover have "T p \<le> seatTerm s' p" for p using since terms [of p] by (meson order_trans since_def)
  ultimately show ?thesis unfolding since_def by blast
qed

text \<open>A read that waits was taken at an earlier step.\<close>

lemma read_waits:
  assumes ok: "cfg_ok cfg" and enc: "encodesNoop cd" and run: "court_run cd um cfg c sub run k"
    and net: "\<And>j. j \<le> k \<Longrightarrow> court_sound cd um cfg c sub (run j) (net j)"
      "\<And>j l. l \<le> j \<Longrightarrow> j \<le> k \<Longrightarrow> (net_step (encEntry cd) um)\<^sup>*\<^sup>* (net l) (net j)"
  shows "j \<le> k \<Longrightarrow> w \<in> set (e_reads (seat (run j) i)) \<Longrightarrow>
    \<exists>a < j. takesRead cd (run a) (run (Suc a)) i w \<and> since i (seatTerm (run a)) (e_roundSeq (seat (run a) i)) (run j)"
proof (induction j)
  case 0
  have "swarm_initial cd um cfg c (co_swarm (run 0))" using run by (simp add: court_run_def)
  then show ?case using 0 court_start(2) [of cd um cfg c "run 0" i] by simp
next
  case (Suc j)
  have st: "court_step cd um c sub (run j) (run (Suc j))" using run Suc.prems(1) by (simp add: court_run_def)
  have next_since: "since i T b (run (Suc j))" if "since i T b (run j)" for T b
    using since_step [OF ok enc st net(1) net(1) net(2) that] Suc.prems(1) by simp
  have "w \<in> set (e_reads (seat (run j) i)) \<or> takesRead cd (run j) (run (Suc j)) i w" using court_reads(1) [OF st Suc.prems(2)] .
  then show ?case
  proof
    assume "w \<in> set (e_reads (seat (run j) i))"
    then show ?thesis using Suc.IH Suc.prems(1) next_since by (meson Suc_leD less_SucI)
  next
    assume "takesRead cd (run j) (run (Suc j)) i w"
    moreover have "court_ok cfg (run j)" using net(1) [of j] Suc.prems(1) by (simp add: court_sound_def)
    ultimately show ?thesis using next_since [OF since_now] by blast
  qed
qed

section \<open>Majorities\<close>

text \<open>In a cluster without learners a voter and as many of its peers as the engine counts are a quorum.\<close>

lemma confirmed_quorum:
  assumes ok: "cfg_ok cfg" and cfg: "OldVoters cfg = []" "Learners cfg = []" and i: "mget (Voters cfg) i \<noteq> None"
    and la: "mwf la" "dom (mget la) \<subseteq> dom (mget (Peers cfg i))"
    and n: "int (length (Voters cfg)) div 2 < 1 + int (length (filter (\<lambda>(_, a). P a) la))"
  shows "quorum_of cfg (insert i {p. \<exists>a. mget la p = Some a \<and> P a})"
proof -
  let ?Q = "{p. \<exists>a. mget la p = Some a \<and> P a}"
  have peers: "p \<in> dom (mget (Voters cfg)) \<and> p \<noteq> i" if "p \<in> ?Q" for p
    using that la(2) dom_Peers [of p cfg i] cfg by (fastforce simp: IsMember_def IsVoter_def split: if_splits)
  have d: "distinct (map fst (filter (\<lambda>(_, a). P a) la))" using la(1) by (simp add: mwf_def distinct_map_filter)
  have "?Q = fst ` set (filter (\<lambda>(_, a). P a) la)"
    using la(1) by (force simp: mget_def mwf_def)
  then have c: "card ?Q = length (filter (\<lambda>(_, a). P a) la)"
    using distinct_card [OF d] by simp
  have fin: "finite ?Q" by (rule finite_subset [of _ "dom (mget la)"]) (auto simp: mget_def finite_dom_map_of)
  have "dom (mget (Voters cfg)) \<inter> insert i ?Q = insert i ?Q" using i peers by auto
  moreover have "i \<notin> ?Q" using peers by blast
  then have "card (insert i ?Q) = 1 + card ?Q" using fin by simp
  moreover have "int (length (Voters cfg) div 2) < 1 + int (card ?Q)" using n c by (simp add: zdiv_int)
  ultimately have "length (Voters cfg) div 2 < card (dom (mget (Voters cfg)) \<inter> insert i ?Q)" by simp
  then show ?thesis using cfg by (simp add: quorum_of_def majority_of_def IsJoint_def)
qed

section \<open>Reads\<close>

lemma read_covers:
  assumes ok: "cfg_ok cfg" and cfg: "OldVoters cfg = []" "Learners cfg = []" and i: "mget (Voters cfg) i \<noteq> None"
    and enc: "encodesNoop cd" and run: "court_run cd um cfg c sub run N" and k: "k < N"
    and answer: "ReadDone ch (Inr idx) \<in> set (e_replies (seat (run (Suc k)) i))" "ReadDone ch (Inr idx) \<notin> set (e_replies (seat (run k) i))"
  shows "\<exists>a \<le> k. \<exists>r r' now b. seat (run (Suc a)) i = engineStep cd (Turn r r' now (EvRead ch b)) (seat (run a) i) \<and>
    IsLeader (e_node (seat (run a) i)) \<and> (\<forall>l \<le> a. \<forall>u. CommitIndex (e_node (seat (run l) u)) \<le> idx) \<and>
    (b \<longrightarrow> idx \<le> LastApplied (e_node (seat (run (Suc k)) i)))"
proof -
  obtain net where net: "\<And>j. j \<le> N \<Longrightarrow> court_sound cd um cfg c sub (run j) (net j)"
      "\<And>j l. l \<le> j \<Longrightarrow> j \<le> N \<Longrightarrow> (net_step (encEntry cd) um)\<^sup>*\<^sup>* (net l) (net j)"
    using court_nets [OF ok enc run] by blast
  have st: "court_step cd um c sub (run k) (run (Suc k))" using run k by (simp add: court_run_def)
  obtain w where w: "w \<in> set (e_reads (seat (run k) i)) \<or> takesRead cd (run k) (run (Suc k)) i w" "r_resultCh w = ch"
      "r_readIndex w = idx" "released w (seat (run (Suc k)) i)"
    using court_reads(2) [OF st, of ch idx i] answer by (auto simp: served_def)
  have inv: "court_ok cfg (run j)" if "j \<le> N" for j using net(1) [OF that] by (simp add: court_sound_def)
  obtain a where a: "a \<le> k" "takesRead cd (run a) (run (Suc a)) i w"
      "since i (seatTerm (run a)) (e_roundSeq (seat (run a) i)) (run k)"
    using w(1) read_waits [OF ok enc run net, of k w i] since_now [OF inv, of k i] k by (meson less_imp_le order_refl)
  have since: "since i (seatTerm (run a)) (e_roundSeq (seat (run a) i)) (run (Suc k))"
    using since_step [OF ok enc st net(1) net(1) net(2) a(3)] k by simp
  obtain r r' now b where t: "seat (run (Suc a)) i = engineStep cd (Turn r r' now (EvRead ch b)) (seat (run a) i)"
      "IsLeader (e_node (seat (run a) i))" "w = admittedRead now ch b (seat (run a) i)"
    using a(2) w(2) by (auto simp: takesRead_def admittedRead_def)
  let ?e = "seat (run a) i" and ?e' = "seat (run (Suc k)) i"
  have rel: "seatTerm (run (Suc k)) i = seatTerm (run a) i" "idx = max (CommitIndex (e_node ?e)) (e_noopIndex ?e)"
      "b \<longrightarrow> idx \<le> LastApplied (e_node ?e')"
      "ClusterSize (e_node ?e') div 2 < 1 + int (length (filter (\<lambda>(_, ack). e_roundSeq ?e < pa_startSeq ack) (e_lastAck ?e')))"
    using w(3,4) t(3) by (auto simp: released_def admittedRead_def node_CurrentTerm_def)
  have snd: "sound cd um cfg c sub (co_swarm (run j)) (net j)" if "j \<le> N" for j using net(1) [OF that] by (simp add: court_sound_def)
  note node = sound_node [OF ok snd]
  let ?Q = "insert i {p. \<exists>ack. mget (e_lastAck ?e') p = Some ack \<and> e_roundSeq ?e < pa_startSeq ack}"
  have "vouched (dom (mget (Peers cfg i))) (\<lambda>p q. q \<le> e_roundSeq ?e') ?e'" using court_okD(1) [OF inv] k by simp
  then have quorum: "quorum_of cfg ?Q"
    using rel(4) node(6) [of "Suc k" i] k by (intro confirmed_quorum [OF ok cfg i]) (auto simp: vouched_def ClusterSize_def)
  have held: "node_CurrentTerm (peer (net a) p) \<le> node_CurrentTerm (peer (net a) i)" if q: "p \<in> ?Q" for p
  proof -
    have "seatTerm (run a) p \<le> seatTerm (run a) i"
    proof (cases "p = i")
      case False
      then obtain ack where "mget (e_lastAck ?e') p = Some ack" "e_roundSeq ?e < pa_startSeq ack" using q by blast
      moreover then have "pa_startSeq ack \<noteq> 0" using word_zero_le [of "e_roundSeq ?e"] by auto
      ultimately have "seatTerm (run a) p \<le> seatTerm (run (Suc k)) i" using since unfolding since_def vouched_def by blast
      then show ?thesis using rel(1) by simp
    qed simp
    then show ?thesis using node(1) a(1) k by simp
  qed
  obtain en where en: "GetEntry (e_log ?e) (e_noopIndex ?e) = Some en" "Term en = seatTerm (run a) i"
    using court_okD(2) [OF inv, of a i] t(2) a(1) k by (auto simp: ownNoop_def node_CurrentTerm_def)
  have "CommitIndex (e_node (seat (run l) u)) \<le> idx" if "l \<le> a" for l u
  proof -
    have j: "l \<le> N" "a \<le> N" using that a(1) k by simp_all
    note n = node(1,2) [OF j(1), of u] node(1,2) [OF j(2), of i]
    have "CommitIndex (peer (net l) u) \<le> max (CommitIndex (peer (net a) i)) (e_noopIndex ?e)"
      by (rule leader_knows_commits [OF ok node(5) [OF j(1)] net(2) [OF that j(2)] _ _ _ quorum]) (use t(2) en held n in simp_all)
    then show ?thesis using n rel(2) by simp
  qed
  then show ?thesis using a(1) t(1,2) rel(3) by blast
qed

text \<open>
  The command submitted on channel \<open>ch\<close> stands at or below index \<open>idx\<close>, and every state machine that
  has applied up to \<open>idx\<close> after step \<open>k\<close> of the run and up to \<open>N\<close> has applied it there.
\<close>

definition writeSeen :: "Codecs \<Rightarrow> Config \<Rightarrow> (nat \<Rightarrow> Command) \<Rightarrow> (nat \<Rightarrow> Court) \<Rightarrow> nat \<Rightarrow> nat \<Rightarrow> int \<Rightarrow> nat \<Rightarrow> bool" where
  "writeSeen cd c sub run k N idx ch \<longleftrightarrow> (\<exists>p (en :: LogEntry) now. 1 \<le> p \<and> p \<le> idx \<and> encCommand cd ((sub ch)\<lparr>Timestamp := now\<rparr>) = Some (Command en) \<and>
     (\<forall>j v. k < j \<and> j \<le> N \<and> \<not> e_halted (seat (run j) v) \<and> idx \<le> LastApplied (e_node (seat (run j) v)) \<longrightarrow>
       (\<exists>h. e_machine (seat (run j) v) = machineAfter c h \<and> int (length h) = LastApplied (e_node (seat (run j) v)) \<and>
         decCommand cd (Command en) = Some (h ! nat (p - 1)))))"

lemma write_covered:
  assumes ok: "cfg_ok cfg" and enc: "encodesNoop cd" and run: "court_run cd um cfg c sub run N" and l: "l < k" "k < N"
    and ack: "ProposalDone ch None \<in> set (e_replies (seat (run (Suc l)) u))" "ProposalDone ch None \<notin> set (e_replies (seat (run l) u))"
    and idx: "CommitIndex (e_node (seat (run (Suc l)) u)) \<le> idx"
  shows "writeSeen cd c sub run k N idx ch"
proof -
  obtain net where net: "\<And>j. j \<le> N \<Longrightarrow> court_sound cd um cfg c sub (run j) (net j)"
      "\<And>j l. l \<le> j \<Longrightarrow> j \<le> N \<Longrightarrow> (net_step (encEntry cd) um)\<^sup>*\<^sup>* (net l) (net j)"
    using court_nets [OF ok enc run] by blast
  have snd: "sound cd um cfg c sub (co_swarm (run j)) (net j)" if "j \<le> N" for j using net(1) [OF that] by (simp add: court_sound_def)
  have st: "swarm_step cd um c sub (co_swarm (run l)) (co_swarm (run (Suc l)))"
    using run l by (intro court_swarm) (simp add: court_run_def)
  obtain p en now where p: "1 \<le> p" "p \<le> CommitIndex (e_node (seat (run (Suc l)) u))" "GetEntry (e_log (seat (run (Suc l)) u)) p = Some en"
      "encCommand cd ((sub ch)\<lparr>Timestamp := now\<rparr>) = Some (Command en)"
    using acked_entry [OF ok snd snd st ack [unfolded seat_def]] l by (auto simp: seat_def)
  have "\<exists>h. e_machine (seat (run j) v) = machineAfter c h \<and> int (length h) = LastApplied (e_node (seat (run j) v)) \<and>
      decCommand cd (Command en) = Some (h ! nat (p - 1))"
    if "k < j" "j \<le> N" "\<not> e_halted (seat (run j) v)" "idx \<le> LastApplied (e_node (seat (run j) v))" for j v
    using applied_entry [OF ok snd snd net(2) p(1), of "Suc l" j u en v] that p(2,3) l idx by (simp add: seat_def)
  moreover have "p \<le> idx" using p(2) idx by simp
  ultimately show ?thesis using p(1,4) unfolding writeSeen_def by (intro exI [of _ p] exI [of _ en] exI [of _ now]) blast
qed

section \<open>A run\<close>

text \<open>The server of its own, which after its first write answers a read.\<close>

definition loneRead :: Engine where
  "loneRead = engineStep loneCodecs (Turn 0 0 1000000003 (EvRead 9 True)) loneDone"

definition loneHistory :: "nat \<Rightarrow> Court" where
  "loneHistory j = \<lparr>co_swarm = loneRun ([loneServer 1, loneLeader [loneNoop] [], loneLeader [loneNoop, loneEntry] [loneWaiter], loneDone, loneRead] ! j),
     co_rounds = {}, co_acks = {}\<rparr>"

lemma lone_read:
  "loneRead = loneDone\<lparr>e_reads := [], e_replies := [ProposalDone 7 None, ReadDone 9 (Inr 2)]\<rparr>"
proof -
  have n: "notifyReplicators (loneDone\<lparr>e_reads := x\<rparr>) = loneDone\<lparr>e_reads := x\<rparr>" for x using lone_done by (simp add: notifyReplicators_def)
  have "\<not> e_halted loneDone" "\<not> e_done loneDone" using lone_done by simp_all
  then have "loneRead = handleRead 1000000003 9 True loneDone" by (simp add: loneRead_def engineStep_def runTurn_def)
  then show ?thesis
    using lone_done by (simp add: handleRead_def node_State_def CommitAndApplyBoundary_def fireReadWaiters_def readSatisfied_def
        ClusterSize_def solo_config send_reply_def n)
qed

lemma lone_history:
  "court_run loneCodecs demoUnmarshal (NewConfiguration [(1, ''a'')]) demoSettings (\<lambda>_. soloCommand) loneHistory 4"
  "encodesNoop loneCodecs"
proof -
  let ?at = "\<lambda>e. \<lparr>co_swarm = loneRun e, co_rounds = {}, co_acks = {}\<rparr>"
  have st: "court_step loneCodecs demoUnmarshal demoSettings (\<lambda>_. soloCommand) (?at e) (?at e')"
    if "e' = engineStep loneCodecs (Turn rnd rnd' now ev) e" "genuine 1 (loneRun e) ev" "carries (\<lambda>_. soloCommand) (Turn rnd rnd' now ev)"
      "\<And>p q. ev \<noteq> EvAck p q" "uncompacted loneCodecs demoUnmarshal e'" "voteRequests e' = {}" for e e' rnd rnd' now ev
    using court_step.turn [of 1 "?at e" ev "\<lambda>_. soloCommand" rnd rnd' now e' loneCodecs demoUnmarshal demoSettings]
      lone_requests [OF that(6), of e] that by (simp add: seat_def loneRun_def)
  have v: "voteRequests (loneLeader es ws) = {}" "voteRequests loneDone = {}" for es ws
    using lone_done by (simp_all add: voteRequests_def loneLeader_def loneServer_def NewWithTransport_def resetElectionTimeout_def)
  have u: "uncompacted loneCodecs demoUnmarshal loneRead" "voteRequests loneRead = {}"
    using lone_uncompacted(3) v(2) by (simp_all add: lone_read uncompacted_def voteRequests_def)
  have "court_step loneCodecs demoUnmarshal demoSettings (\<lambda>_. soloCommand) (loneHistory 0) (loneHistory (Suc 0))"
    unfolding loneHistory_def
    by (simp, rule st [OF lone_elected [symmetric, unfolded loneTick_def]]) (simp_all add: genuine_def carries_def lone_uncompacted v)
  moreover have "court_step loneCodecs demoUnmarshal demoSettings (\<lambda>_. soloCommand) (loneHistory 1) (loneHistory (Suc 1))"
    unfolding loneHistory_def
    by (simp, rule st [OF lone_proposed [symmetric]]) (simp_all add: genuine_def carries_def lone_uncompacted v)
  moreover have "court_step loneCodecs demoUnmarshal demoSettings (\<lambda>_. soloCommand) (loneHistory 2) (loneHistory (Suc 2))"
    unfolding loneHistory_def
    by (simp, rule st [OF loneDone_def]) (simp_all add: genuine_def carries_def lone_uncompacted v)
  moreover have "court_step loneCodecs demoUnmarshal demoSettings (\<lambda>_. soloCommand) (loneHistory 3) (loneHistory (Suc 3))"
    unfolding loneHistory_def
    by (simp add: numeral_eq_Suc, rule st [OF loneRead_def]) (simp_all add: genuine_def carries_def u)
  moreover have "j = 0 \<or> j = 1 \<or> j = 2 \<or> j = 3" if "j < 4" for j :: nat using that by linarith
  ultimately have "\<forall>j < 4. court_step loneCodecs demoUnmarshal demoSettings (\<lambda>_. soloCommand) (loneHistory j) (loneHistory (Suc j))"
    by metis
  moreover have "co_swarm (loneHistory 0) = loneSwarm" by (simp add: loneHistory_def loneRun_def loneSwarm_def)
  ultimately show "court_run loneCodecs demoUnmarshal (NewConfiguration [(1, ''a'')]) demoSettings (\<lambda>_. soloCommand) loneHistory 4"
    using lone_run(1) unfolding court_run_def by (metis Court.select_convs(2,3) loneHistory_def)
  show "encodesNoop loneCodecs" by (simp add: encodesNoop_def loneCodecs_def demoCodecs_def)
qed

lemma lone_seats:
  "seat (loneHistory 0) 1 = loneServer 1" "seat (loneHistory (Suc 0)) 1 = loneLeader [loneNoop] []"
  "seat (loneHistory 2) 1 = loneLeader [loneNoop, loneEntry] [loneWaiter]" "seat (loneHistory 3) 1 = loneDone" "seat (loneHistory 4) 1 = loneRead"
  by (simp_all add: seat_def loneHistory_def loneRun_def)

section \<open>Properties\<close>

text \<open>C4. Reads are linearizable across the cluster: when a voter of a cluster without learners
  answers a read with an index, it took this read as leader at an earlier step of the run, and
  the index is at least everything any server of the cluster knew committed at any
  moment up to that step, whoever led, crashed or was cut off; and when the caller asked to wait,
  the answering server has applied all of it.  An acknowledgement is taken to come from a round
  the peer answered, as the replicators report them.\<close>

theorem cluster_linearizable_read:
  assumes "cfg_ok cfg" and "OldVoters cfg = []" and "Learners cfg = []" and "mget (Voters cfg) i \<noteq> None"
    and "encodesNoop cd" and "court_run cd um cfg c sub run N" and "k < N"
    and "ReadDone ch (Inr idx) \<in> set (e_replies (seat (run (Suc k)) i))" and "ReadDone ch (Inr idx) \<notin> set (e_replies (seat (run k) i))"
  shows "\<exists>a \<le> k. \<exists>r r' now b. seat (run (Suc a)) i = engineStep cd (Turn r r' now (EvRead ch b)) (seat (run a) i) \<and>
    IsLeader (e_node (seat (run a) i)) \<and> (\<forall>l \<le> a. \<forall>u. CommitIndex (e_node (seat (run l) u)) \<le> idx) \<and>
    (b \<longrightarrow> idx \<le> LastApplied (e_node (seat (run (Suc k)) i)))"
  using assms by (rule read_covers)

theorem cluster_linearizable_read_witness:
  "ReadDone 9 (Inr 2) \<in> set (e_replies (seat (loneHistory 4) 1)) \<and>
   (\<exists>a \<le> 3. IsLeader (e_node (seat (loneHistory a) 1)) \<and> (\<forall>l \<le> a. \<forall>u. CommitIndex (e_node (seat (loneHistory l) u)) \<le> 2))"
proof -
  have s: "Suc 3 = 4" by simp
  have "\<exists>a \<le> 3. \<exists>r r' now b. seat (loneHistory (Suc a)) 1 = engineStep loneCodecs (Turn r r' now (EvRead 9 b)) (seat (loneHistory a) 1) \<and>
      IsLeader (e_node (seat (loneHistory a) 1)) \<and> (\<forall>l \<le> a. \<forall>u. CommitIndex (e_node (seat (loneHistory l) u)) \<le> 2) \<and>
      (b \<longrightarrow> 2 \<le> LastApplied (e_node (seat (loneHistory (Suc 3)) 1)))"
    by (rule cluster_linearizable_read [OF lone_cfg _ _ _ lone_history(2,1)])
       (use lone_done in \<open>simp_all add: s lone_seats lone_read solo_config mget_def\<close>)
  then show ?thesis by (auto simp: lone_seats lone_read)
qed



end
