(* ===== verification/Engine_Channels.thy ===== *)
theory Engine_Channels
  imports Engine_Timing
begin

text \<open>
  The goroutines of one engine: the control loop with the channels it selects from, and a
  replicator per peer that waits for a nudge, its ticker or its end.  Nudges are
  coalesced and reports dropped when a channel is full; nothing is lost by it that matters.
\<close>

section \<open>Definitions\<close>

subsection \<open>Channels\<close>

text \<open>A channel with a buffer.  \<open>trySend\<close> is a \<^verbatim>\<open>select\<close> with a \<^verbatim>\<open>default\<close>: a full channel drops the value.\<close>

definition trySend :: "nat \<Rightarrow> 'a \<Rightarrow> 'a list \<Rightarrow> 'a list" where
  "trySend cap x q = (if length q < cap then q @ [x] else q)"

fun receive :: "'a list \<Rightarrow> ('a \<times> 'a list) option" where
  "receive [] = None"
| "receive (x # q) = Some (x, q)"

subsection \<open>State\<close>

text \<open>
  \<open>pr_started\<close>: the first round is over.  \<open>pr_seen\<close> is not in the code: the last index of the log
  when the latest round was built.
\<close>

record peerReplicator =
  pr_term :: int
  pr_notify :: bool
  pr_started :: bool
  pr_seen :: int

record System =
  sy_engine :: Engine
  sy_replicators :: "(int, peerReplicator) gomap"
  sy_proposals :: "(Command \<times> nat) list"
  sy_stepDownCh :: "int list"
  sy_preVoteCh :: "(int \<times> int \<times> PreVoteResponse) list"
  sy_voteCh :: "(int \<times> int \<times> RequestVoteResponse) list"
  sy_ackCh :: "(int \<times> 64 word) list"
  sy_readCh :: "(nat \<times> bool) list"
  sy_applyCh :: "applyWaiter list"

text \<open>\<open>n\<close> is the number of peers of the configuration file.\<close>

definition requestCap :: nat where
  "requestCap = 100"

definition replyCap :: "nat \<Rightarrow> nat" where
  "replyCap n = n + 1"

definition ackCap :: "nat \<Rightarrow> nat" where
  "ackCap n = 4 * (n + 1)"

definition newSystem :: "Engine \<Rightarrow> System" where
  "newSystem e = \<lparr>sy_engine = e, sy_replicators = [], sy_proposals = [], sy_stepDownCh = [], sy_preVoteCh = [], sy_voteCh = [],
     sy_ackCh = [], sy_readCh = [], sy_applyCh = []\<rparr>"

subsection \<open>The control loop\<close>

datatype source = Proposals | StepDownCh | PreVoteCh | VoteCh | AckCh | ReadCh | ApplyCh | Ticker | DoneCh

text \<open>The cases of the \<^verbatim>\<open>select\<close> in \<^verbatim>\<open>Run\<close>: the event taken, and the channels after it.\<close>

definition selectCase :: "source \<Rightarrow> System \<Rightarrow> (event \<times> System) option" where
  "selectCase src s =
     (case src of
        Proposals \<Rightarrow> map_option (\<lambda>((cmd, ch), q). (EvProposal cmd ch, s\<lparr>sy_proposals := q\<rparr>)) (receive (sy_proposals s))
      | StepDownCh \<Rightarrow> map_option (\<lambda>(t, q). (EvStepDown t, s\<lparr>sy_stepDownCh := q\<rparr>)) (receive (sy_stepDownCh s))
      | PreVoteCh \<Rightarrow> map_option (\<lambda>((t, p, resp), q). (EvPreVote t p resp, s\<lparr>sy_preVoteCh := q\<rparr>)) (receive (sy_preVoteCh s))
      | VoteCh \<Rightarrow> map_option (\<lambda>((t, p, resp), q). (EvVote t p resp, s\<lparr>sy_voteCh := q\<rparr>)) (receive (sy_voteCh s))
      | AckCh \<Rightarrow> map_option (\<lambda>((p, sq), q). (EvAck p sq, s\<lparr>sy_ackCh := q\<rparr>)) (receive (sy_ackCh s))
      | ReadCh \<Rightarrow> map_option (\<lambda>((ch, b), q). (EvRead ch b, s\<lparr>sy_readCh := q\<rparr>)) (receive (sy_readCh s))
      | ApplyCh \<Rightarrow> map_option (\<lambda>(w, q). (EvApply w, s\<lparr>sy_applyCh := q\<rparr>)) (receive (sy_applyCh s))
      | Ticker \<Rightarrow> Some (EvTick, s)
      | DoneCh \<Rightarrow> Some (EvDone, s))"

text \<open>
  The replicators after a turn: \<^verbatim>\<open>stopReplicators\<close> waits for the end of the old ones, \<^verbatim>\<open>startReplicators\<close>
  makes new ones, and \<^verbatim>\<open>notifyReplicators\<close> leaves at most one nudge in each channel.
\<close>

definition nudges :: "Engine \<Rightarrow> Engine \<Rightarrow> int set" where
  "nudges e e' = {p. Nudge p \<in> set (drop (length (e_outbox e)) (e_outbox e'))}"

definition freshReplicator :: "int \<Rightarrow> peerReplicator" where
  "freshReplicator t = \<lparr>pr_term = t, pr_notify = False, pr_started = False, pr_seen = 0\<rparr>"

definition settle :: "Engine \<Rightarrow> Engine \<Rightarrow> (int, peerReplicator) gomap \<Rightarrow> (int, peerReplicator) gomap" where
  "settle e e' prs = map (\<lambda>(p, t). (p,
     let pr = (case mget prs p of Some pr \<Rightarrow> if pr_term pr = t then pr else freshReplicator t | None \<Rightarrow> freshReplicator t)
     in pr\<lparr>pr_notify := pr_notify pr \<or> p \<in> nudges e e'\<rparr>)) (e_replicators e')"

definition controlTurn :: "Codecs \<Rightarrow> int \<Rightarrow> int \<Rightarrow> nanos \<Rightarrow> event \<Rightarrow> System \<Rightarrow> System" where
  "controlTurn cd rnd rnd' now ev s =
     (let e = sy_engine s; e' = engineStep cd (Turn rnd rnd' now ev) e
      in s\<lparr>sy_engine := e', sy_replicators := settle e e' (sy_replicators s)\<rparr>)"

subsection \<open>The replicators\<close>

definition reportHigherTerm :: "nat \<Rightarrow> int \<Rightarrow> System \<Rightarrow> System" where
  "reportHigherTerm n t s = s\<lparr>sy_stepDownCh := trySend (replyCap n) t (sy_stepDownCh s)\<rparr>"

definition reportAck :: "nat \<Rightarrow> int \<Rightarrow> 64 word \<Rightarrow> System \<Rightarrow> System" where
  "reportAck n p sq s = s\<lparr>sy_ackCh := trySend (ackCap n) (p, sq) (sy_ackCh s)\<rparr>"

datatype wake = FirstRound | Notified | Heartbeat

text \<open>What makes the loop of \<^verbatim>\<open>run\<close> start a round, and the nudge it takes with it.\<close>

definition wakes :: "wake \<Rightarrow> peerReplicator \<Rightarrow> bool" where
  "wakes w pr \<longleftrightarrow> (case w of FirstRound \<Rightarrow> \<not> pr_started pr | Notified \<Rightarrow> pr_started pr \<and> pr_notify pr | Heartbeat \<Rightarrow> pr_started pr)"

definition replicatorRound ::
  "Codecs \<Rightarrow> nat \<Rightarrow> (AppendEntriesRequest \<Rightarrow> AppendEntriesResponse option) \<Rightarrow>
     (InstallSnapshotRequest \<Rightarrow> InstallSnapshotResponse option) \<Rightarrow> wake \<Rightarrow> int \<Rightarrow> peerReplicator \<Rightarrow> System \<Rightarrow> System" where
  "replicatorRound cd n sendA sendS w p pr s =
     (let e = sy_engine s;
          pr' = pr\<lparr>pr_started := True, pr_notify := (if w = Notified then False else pr_notify pr),
                  pr_seen := (if IsLeader (e_node e) then LatestIndex (e_log e) else pr_seen pr)\<rparr>;
          (report, e') = replicateOnce cd sendA sendS p (pr_term pr) e;
          s' = s\<lparr>sy_engine := e', sy_replicators := mput p pr' (sy_replicators s)\<rparr>
      in case report of HigherTerm t \<Rightarrow> reportHigherTerm n t s' | Ack sq \<Rightarrow> reportAck n p sq s' | NoReport \<Rightarrow> s')"

subsection \<open>Interleaving\<close>

text \<open>
  A client, a reader or the goroutine of a poll or an election sends when there is room; the
  goroutine of a poll has a request of this engine to report on.
\<close>

inductive system_step :: "Codecs \<Rightarrow> nat \<Rightarrow> System \<Rightarrow> System \<Rightarrow> bool" for cd n where
  turn: "selectCase src s = Some (ev, s1) \<Longrightarrow> s' = controlTurn cd rnd rnd' now ev s1 \<Longrightarrow> log_wf (e_log (sy_engine s')) \<Longrightarrow>
    system_step cd n s s'"
| replicate: "\<not> e_halted (sy_engine s) \<Longrightarrow> mget (sy_replicators s) p = Some pr \<Longrightarrow> wakes w pr \<Longrightarrow>
    system_step cd n s (replicatorRound cd n sendA sendS w p pr s)"
| inbound: "a \<in> {CallAppend now areq, CallVote now vreq, CallSnapshot now sreq} \<Longrightarrow> e' = engineStep cd a (sy_engine s) \<Longrightarrow>
    log_wf (e_log e') \<Longrightarrow> system_step cd n s (s\<lparr>sy_engine := e'\<rparr>)"
| propose: "length (sy_proposals s) < requestCap \<Longrightarrow> system_step cd n s (s\<lparr>sy_proposals := sy_proposals s @ [(cmd, ch)]\<rparr>)"
| read: "length (sy_readCh s) < requestCap \<Longrightarrow> system_step cd n s (s\<lparr>sy_readCh := sy_readCh s @ [(ch, b)]\<rparr>)"
| await: "length (sy_applyCh s) < requestCap \<Longrightarrow> system_step cd n s (s\<lparr>sy_applyCh := sy_applyCh s @ [aw]\<rparr>)"
| polled: "SendPreVote p addr preq \<in> set (e_outbox (sy_engine s)) \<Longrightarrow> \<not> e_done (sy_engine s) \<Longrightarrow> length (sy_preVoteCh s) < replyCap n \<Longrightarrow>
    system_step cd n s (s\<lparr>sy_preVoteCh := sy_preVoteCh s @ [(pv_Term preq, p, presp)]\<rparr>)"
| voted: "SendVote p addr req \<in> set (e_outbox (sy_engine s)) \<Longrightarrow> \<not> e_done (sy_engine s) \<Longrightarrow> length (sy_voteCh s) < replyCap n \<Longrightarrow>
    system_step cd n s (s\<lparr>sy_voteCh := sy_voteCh s @ [(rv_Term req, p, resp)]\<rparr>)"

inductive system_reachable :: "Codecs \<Rightarrow> nat \<Rightarrow> System \<Rightarrow> bool" for cd n where
  start: "log_wf rl \<Longrightarrow> Role rn = Follower \<Longrightarrow> system_reachable cd n (newSystem (NewWithTransport rnd rn rl sm f))"
| step: "system_reachable cd n s \<Longrightarrow> system_step cd n s s' \<Longrightarrow> system_reachable cd n s'"

inductive_cases system_stepE: "system_step cd n s s'"

section \<open>The channel interface\<close>

locale channel =
  fixes cap :: nat and put :: "'a \<Rightarrow> 'q \<Rightarrow> 'q" and get :: "'q \<Rightarrow> ('a \<times> 'q) option" and items :: "'q \<Rightarrow> 'a list"
  assumes put_room: "length (items q) < cap \<Longrightarrow> items (put x q) = items q @ [x]"
    and put_full: "\<not> length (items q) < cap \<Longrightarrow> put x q = q"
    and get_none: "get q = None \<longleftrightarrow> items q = []"
    and get_some: "get q = Some (x, q') \<Longrightarrow> items q = x # items q'"
begin

lemma put_bounded: "length (items q) \<le> cap \<Longrightarrow> length (items (put x q)) \<le> cap"
  by (cases "length (items q) < cap") (auto simp: put_room put_full)

lemma put_items: "set (items (put x q)) \<subseteq> insert x (set (items q))"
  by (cases "length (items q) < cap") (auto simp: put_room put_full)

lemma get_bounded: "get q = Some (x, q') \<Longrightarrow> length (items q) \<le> cap \<Longrightarrow> length (items q') \<le> cap \<and> set (items q') \<subseteq> set (items q)"
  using get_some by fastforce

end

interpretation ch: channel cap "trySend cap" receive "\<lambda>q. q"
proof unfold_locales
  show "receive q = None \<longleftrightarrow> q = []" "receive q = Some (x, q') \<Longrightarrow> q = x # q'" for q :: "'a list" and x q'
    by (cases q; simp)+
qed (simp_all add: trySend_def)

section \<open>The replicators of one engine\<close>

definition crew :: "Engine \<Rightarrow> (int, int) gomap \<times> int" where
  "crew e = (e_replicators e, e_replicatorsTerm e)"

lemma crew_update [simp]:
  "crew (e\<lparr>e_node := a\<rparr>) = crew e" "crew (e\<lparr>e_log := b\<rparr>) = crew e" "crew (e\<lparr>e_machine := c\<rparr>) = crew e"
  "crew (e\<lparr>e_snapshots := d\<rparr>) = crew e" "crew (e\<lparr>e_waiters := w\<rparr>) = crew e" "crew (e\<lparr>e_reads := r\<rparr>) = crew e"
  "crew (e\<lparr>e_applyWaiters := aw\<rparr>) = crew e" "crew (e\<lparr>e_outbox := ob\<rparr>) = crew e" "crew (e\<lparr>e_preVoteTerm := t\<rparr>) = crew e"
  "crew (e\<lparr>e_halted := h\<rparr>) = crew e" "crew (e\<lparr>e_done := h\<rparr>) = crew e" "crew (e\<lparr>e_lastAck := la\<rparr>) = crew e"
  "crew (e\<lparr>e_lastQuorumNanos := q\<rparr>) = crew e" "crew (e\<lparr>e_noopIndex := n\<rparr>) = crew e" "crew (e\<lparr>e_roundSeq := sq\<rparr>) = crew e"
  "crew (e\<lparr>e_snapCache := sc\<rparr>) = crew e" "crew (e\<lparr>e_preVotes := pv\<rparr>) = crew e" "crew (send_reply x e) = crew e" "crew (send_peer y e) = crew e"
  "crew (resetElectionTimeout rnd e) = crew e"
  by (simp_all add: crew_def send_reply_def send_peer_def resetElectionTimeout_def)

interpretation crw: unsent crew
  by unfold_locales (simp_all add: crew_def)

interpretation crwa: unapplied crew
  by unfold_locales simp_all

lemmas crew_waiters [simp] = crw.sweeps crw.sends

lemma crew_parts [simp]:
  "crew (applyCommitted cd e) = crew e" "crew (maybeCompact cd e) = crew e" "crew (handleApplyWait w e) = crew e"
  "crew (handleAck now p q e) = crew e" "crew (handleRead now ch b e) = crew e" "crew (handleProposal cd now cmd ch e) = crew e"
  by (simp_all add: crwa.applies crw.apply_wait crw.read handleAck_def handleProposal_def Let_def split: prod.split option.split bool.split)

text \<open>All replicators belong to one term, the term of the node when it leads, an earlier one when it campaigns.\<close>

definition crew_ok :: "Engine \<Rightarrow> bool" where
  "crew_ok e \<longleftrightarrow> mwf (e_replicators e) \<and> (\<forall>(p, t) \<in> set (e_replicators e). t = e_replicatorsTerm e) \<and>
     (e_replicators e \<noteq> [] \<longrightarrow> e_replicatorsTerm e \<le> CurrentTerm (persistent (e_node e)) \<and>
        (Role (e_node e) = Candidate \<longrightarrow> e_replicatorsTerm e < CurrentTerm (persistent (e_node e))) \<and>
        (Role (e_node e) = Leader \<longrightarrow> e_replicatorsTerm e = CurrentTerm (persistent (e_node e))))"

lemma crew_term: "crew_ok e \<Longrightarrow> (p, t) \<in> set (e_replicators e) \<Longrightarrow> t = e_replicatorsTerm e"
  by (auto simp: crew_ok_def)

text \<open>The replicators stay, and a leader has the log it had; or there is a new set of them, or none.\<close>

definition stay :: "Engine \<Rightarrow> Engine \<Rightarrow> bool" where
  "stay e e' \<longleftrightarrow> crew e' = crew e \<and> CurrentTerm (persistent (e_node e)) \<le> CurrentTerm (persistent (e_node e')) \<and>
     (Role (e_node e') = Leader \<longrightarrow> Role (e_node e) = Leader \<and> CurrentTerm (persistent (e_node e')) = CurrentTerm (persistent (e_node e)) \<and>
        LatestIndex (e_log e') = LatestIndex (e_log e)) \<and>
     (Role (e_node e') = Candidate \<longrightarrow> CurrentTerm (persistent (e_node e)) < CurrentTerm (persistent (e_node e')) \<or>
        Role (e_node e) = Candidate \<and> CurrentTerm (persistent (e_node e')) = CurrentTerm (persistent (e_node e)))"

definition restaff :: "Engine \<Rightarrow> Engine \<Rightarrow> bool" where
  "restaff e e' \<longleftrightarrow> crew_ok e' \<and> (e_replicators e' = [] \<or> e_replicators e = [] \<or> e_replicatorsTerm e' \<noteq> e_replicatorsTerm e)"

abbreviation shape :: "Engine \<Rightarrow> Engine \<Rightarrow> bool" where
  "shape e e' \<equiv> stay e e' \<or> restaff e e'"

lemma stay_refl [simp]: "stay e e"
  by (simp add: stay_def)

lemma stay_trans: "stay e e1 \<Longrightarrow> stay e1 e2 \<Longrightarrow> stay e e2"
  by (auto simp: stay_def)

lemma stay_quiet:
  "crew e' = crew e \<Longrightarrow> quiet (e_node e) (e_node e') \<Longrightarrow> (Role (e_node e') = Leader \<Longrightarrow> LatestIndex (e_log e') = LatestIndex (e_log e)) \<Longrightarrow>
    stay e e'"
  using quiet_term [of "e_node e" "e_node e'"] by (auto simp: stay_def)

lemma stay_same: "crew e' = crew e \<Longrightarrow> e_node e' = e_node e \<Longrightarrow> LatestIndex (e_log e') = LatestIndex (e_log e) \<Longrightarrow> stay e e'"
  by (simp add: stay_def)

lemma stay_crew_ok: "stay e e' \<Longrightarrow> crew_ok e \<Longrightarrow> crew_ok e'"
  by (auto simp: stay_def crew_ok_def crew_def)

lemma restaff_none: "e_replicators e' = [] \<Longrightarrow> restaff e e'"
  by (simp add: restaff_def crew_ok_def mwf_def)

lemma restaff_stay: "restaff e e1 \<Longrightarrow> stay e1 e2 \<Longrightarrow> restaff e e2"
  using stay_crew_ok by (auto simp: restaff_def stay_def crew_def)

lemma stay_restaff: "stay e e1 \<Longrightarrow> restaff e1 e2 \<Longrightarrow> restaff e e2"
  by (auto simp: restaff_def stay_def crew_def)

lemma shape_stay: "shape e e1 \<Longrightarrow> stay e1 e2 \<Longrightarrow> shape e e2"
  using stay_trans restaff_stay by blast

lemma stay_shape: "stay e e1 \<Longrightarrow> shape e1 e2 \<Longrightarrow> shape e e2"
  using stay_trans stay_restaff by blast

lemma shape_crew_ok: "shape e e' \<Longrightarrow> crew_ok e \<Longrightarrow> crew_ok e'"
  using stay_crew_ok by (auto simp: restaff_def)

lemma stop_none [simp]: "e_replicators (stopReplicators e) = []"
  by (simp add: stopReplicators_def)

lemma stopped_none: "e_replicators (failAllReads err (failAllWaiters err' (stopReplicators e))) = []"
  using crew_waiters(5) [of err "failAllWaiters err' (stopReplicators e)"] crew_waiters(3) [of err' "stopReplicators e"]
  by (simp add: crew_def)

text \<open>A new set for a leader whose term is not that of the old one.\<close>

lemma started_terms: "(p, t') \<in> set (fold (\<lambda>p. mput p t) ks []) \<Longrightarrow> t' = t" "mwf (fold (\<lambda>p. mput p t) ks ([] :: (int, int) gomap))"
proof -
  show w: "mwf (fold (\<lambda>p. mput p t) ks ([] :: (int, int) gomap))" by (rule fold_mput_const(1)) (simp add: mwf_def)
  assume "(p, t') \<in> set (fold (\<lambda>p. mput p t) ks [])"
  with w have "mget (fold (\<lambda>p. mput p t) ks []) p = Some t'" by (simp add: mget_def mwf_def)
  then show "t' = t" by (simp add: fold_mput_const mget_def [of "[]"] split: if_splits)
qed

lemma start_restaff:
  assumes "Role (e_node e) = Leader" and "e_replicators e = [] \<or> e_replicatorsTerm e \<noteq> CurrentTerm (persistent (e_node e))"
  shows "restaff e (startReplicators e)"
  using assms started_terms
  by (auto simp: restaff_def crew_ok_def startReplicators_def stopReplicators_def node_CurrentTerm_def Let_def)

lemma lead_shape:
  assumes "crew_ok e"
  shows "shape e (engine_becomeLeader cd now t i e)"
proof -
  obtain b rn where b: "BecomeLeader t i (e_node e) = (b, rn)" by force
  show ?thesis
  proof (cases b)
    case False
    then show ?thesis using b by (auto simp: engine_becomeLeader_def BecomeLeader_def Let_def split: if_splits)
  next
    case True
    have c: "Role (e_node e) = Candidate" "Role rn = Leader" "CurrentTerm (persistent rn) = CurrentTerm (persistent (e_node e))"
      using b True by (auto simp: BecomeLeader_def Let_def split: if_splits)
    obtain x where x: "engine_becomeLeader cd now t i e = startReplicators x" "e_node x = rn" "crew x = crew e"
    proof
      let ?x0 = "(resetLeadershipEvidence now (e\<lparr>e_node := rn\<rparr>))\<lparr>e_noopIndex := 0\<rparr>"
      let ?x = "case encCommand cd \<lparr>Op = OpNoop, Key = [], Value = [], ClientID = [], Seq = 0, Timestamp = now\<rparr> of None \<Rightarrow> ?x0
        | Some b \<Rightarrow> (case AppendLeader (encEntry cd) b t (e_log ?x0) of
            (None, rl) \<Rightarrow> ?x0\<lparr>e_log := rl\<rparr> | (Some entry, rl) \<Rightarrow> ?x0\<lparr>e_log := rl, e_noopIndex := Index entry\<rparr>)"
      show "engine_becomeLeader cd now t i e = startReplicators ?x" using b True by (simp add: engine_becomeLeader_def Let_def)
      show "e_node ?x = rn" by (simp add: noop_fields) (simp add: resetLeadershipEvidence_def)
      show "crew ?x = crew e" by (simp add: resetLeadershipEvidence_def split: option.split prod.split)
    qed
    have "restaff x (startReplicators x)" using x(2,3) c assms by (intro start_restaff) (auto simp: crew_ok_def crew_def)
    then show ?thesis using x(1,3) by (simp add: restaff_def crew_def)
  qed
qed

lemma election_shape: "crew_ok e \<Longrightarrow> shape e (runElection cd rnd now e)"
proof -
  assume ok: "crew_ok e"
  obtain r rn where c: "BecomeCandidate now (e_node e) = (r, rn)" by force
  let ?e = "resetElectionTimeout rnd (e\<lparr>e_node := rn\<rparr>)"
  have f: "e_node ?e = rn" "e_log ?e = e_log e" by (simp_all add: resetElectionTimeout_def)
  have s: "stay e ?e"
  proof (cases r)
    case None
    then show ?thesis using candidate_steps(2) [OF c] f by (intro stay_quiet) simp_all
  next
    case (Some t)
    then show ?thesis using c f by (auto simp: stay_def BecomeCandidate_def Let_def dest!: commit_fields split: prod.splits bool.splits)
  qed
  show "shape e (runElection cd rnd now e)"
  proof (cases "r = None \<or> currentPeers ?e \<noteq> []")
    case True
    have "stay ?e (runElection cd rnd now e)" if "r \<noteq> None"
      using that c True by (auto simp: runElection_def fold_send_fields lgv.sends(3) Let_def intro!: stay_same split: prod.split)
    then show ?thesis using s c stay_trans by (cases r) (auto simp: runElection_def)
  next
    case False
    then obtain t where "r = Some t" by (cases r) auto
    then have "\<exists>i. runElection cd rnd now e = engine_becomeLeader cd now t i ?e"
      using c False by (auto simp: runElection_def Let_def split: prod.split)
    then show ?thesis using stay_shape [OF s] lead_shape [OF stay_crew_ok [OF s ok]] by metis
  qed
qed

section \<open>The handlers\<close>

lemma step_down_shape: "shape e (handleStepDown t e)"
  by (auto simp: handleStepDown_def stopped_none intro: restaff_none split: prod.split)

lemma check_quorum_shape: "stay e (checkQuorum now e) \<or> e_replicators (checkQuorum now e) = []"
proof -
  obtain b rn where b: "BecomeFollower (node_CurrentTerm (e_node e)) 0 (e_node e) = (b, rn)" by force
  then have "stay e (e\<lparr>e_node := rn\<rparr>)" using becomeFollower_quiet by (intro stay_quiet) (auto simp: BecomeFollower_def)
  moreover have "stay e (noteQuorumConfirmed now e)" by (rule stay_same) (simp_all add: noteQuorumConfirmed_def)
  ultimately show ?thesis
    using b by (auto simp: checkQuorum_def stopped_none Let_def split: bool.split)
qed

lemma vote_result_shape:
  assumes "crew_ok e"
  shows "shape e (handleVoteResult cd now t p resp e)"
proof -
  obtain b rn where b: "BecomeFollower (rvr_Term resp) 0 (e_node e) = (b, rn)" by force
  obtain won rn1 where r: "RecordVoteAndCheckMajority p t (e_node e) = (won, rn1)" by force
  have "stay e (e\<lparr>e_node := rn\<rparr>)" using becomeFollower_quiet b by (intro stay_quiet) (auto simp: BecomeFollower_def)
  moreover have s: "stay e (e\<lparr>e_node := rn1\<rparr>)"
    using r by (auto simp: stay_def RecordVoteAndCheckMajority_def Let_def split: if_splits)
  moreover have "shape e (engine_becomeLeader cd now t i (e\<lparr>e_node := rn1\<rparr>))" for i
    by (rule stay_shape [OF s lead_shape [OF stay_crew_ok [OF s assms]]])
  ultimately show ?thesis using b r by (auto simp: handleVoteResult_def Let_def split: prod.split)
qed

lemma pre_vote_result_shape:
  assumes "crew_ok e"
  shows "shape e (handlePreVoteResult cd rnd now t p resp e)"
proof -
  obtain b rn where b: "BecomeFollower (pvr_Term resp) 0 (e_node e) = (b, rn)" by force
  let ?e = "e\<lparr>e_preVotes := mput p True (e_preVotes e), e_preVoteTerm := 0\<rparr>"
  have "stay e (e\<lparr>e_node := rn, e_preVoteTerm := 0\<rparr>)" using becomeFollower_quiet b by (intro stay_quiet) (auto simp: BecomeFollower_def)
  moreover have "stay e (e\<lparr>e_preVotes := x\<rparr>)" for x by (rule stay_same) simp_all
  moreover have s: "stay e ?e" by (rule stay_same) simp_all
  moreover have "shape e (runElection cd rnd now ?e)" by (rule stay_shape [OF s election_shape [OF stay_crew_ok [OF s assms]]])
  ultimately show ?thesis using b by (auto simp: handlePreVoteResult_def Let_def split: prod.split)
qed

lemma compact_latest:
  assumes "log_wf (e_log e)"
  shows "LatestIndex (e_log (maybeCompact cd e)) = LatestIndex (e_log e)"
proof -
  have "LatestIndex rl' = LatestIndex (e_log e)"
    if t: "TermAt (e_log e) s \<noteq> 0" "TruncateBeforeIndex m s x (e_log e) = (b, rl')" for m s x b rl'
  proof (cases "s < firstIndex (e_log e)")
    case True
    then show ?thesis using t(2) by (simp add: TruncateBeforeIndex_def)
  next
    case False
    then have "s < nextIndex (e_log e)"
      using t(1) log_wfD(2,4) [OF assms] by (auto simp: TermAt_def getEntryLocked_iff split: if_splits option.splits)
    from truncate_ok(1,6) [OF assms _ this t(2)] False assms show ?thesis by (simp add: LatestIndex_def log_wf_last)
  qed
  then show ?thesis by (auto simp: maybeCompact_def compact_def Let_def split: prod.split bool.split)
qed

lemma apply_stay: "stay e (applyCommitted cd e)" "e_log (applyCommitted cd e) = e_log e"
proof -
  obtain cs m where r: "appliedRun cd (CommitIndex (e_node e)) e (applyCommitted cd e) cs m"
    using applyLoop_run by (fastforce simp: applyCommitted_def CommitAndApplyBoundary_def)
  then show l: "e_log (applyCommitted cd e) = e_log e" by (auto simp: appliedRun_def Let_def)
  have "\<exists>la. e_node (applyCommitted cd e) = (e_node e)\<lparr>LastApplied := la\<rparr>" using r by (auto simp: appliedRun_def Let_def)
  then show "stay e (applyCommitted cd e)" using l by (auto simp: stay_def)
qed

lemma sweeps_stay: "calm e e' \<Longrightarrow> crew e' = crew e \<Longrightarrow> stay e e'"
  by (rule stay_same) (simp_all add: calm_def)

text \<open>A tick of a leader.\<close>

lemma leader_tick_shape:
  assumes "crew_ok e" and "log_wf (e_log e)" and l: "Role (e_node e) = Leader"
  shows "shape e (onTick cd rnd rnd' now e)"
proof -
  let ?e0 = "reconcileLeadership e"
  let ?e1 = "tickFront cd rnd rnd' now ?e0"
  let ?e2 = "applyCommitted cd ?e1"
  let ?e3 = "fireApplyWaiters (fireReadWaiters (maybeCompact cd ?e2))"
  let ?e4 = "if IsLeader (e_node ?e3) then checkQuorum now ?e3 else ?e3"
  let ?e5 = "sweepExpiredApplyWaiters now (sweepExpiredReads now (sweepExpiredWaiters now ?e4))"
  have k: "e_node ?e0 = e_node e" "e_log ?e0 = e_log e" using reconcile_calm [of e] by (simp_all add: calm_def)
  have 0: "shape e ?e0"
    using l start_restaff [of e] by (auto simp: reconcileLeadership_def node_State_def)
  obtain r rn where c: "AdvanceCommitIndex (LatestIndex (e_log e)) (TermAt (e_log e)) (CurrentTerm (persistent (e_node e))) (e_node e) = (r, rn)"
    by (rule prod.exhaust)
  have e1: "?e1 = fireCommittedWaiters (CommitIndex rn) (CurrentTerm (persistent (e_node e))) (?e0\<lparr>e_node := rn\<rparr>)"
    using l c by (simp add: tickFront_def node_State_def k)
  have l1: "e_log ?e1 = e_log e" by (simp add: e1 fire_committed k)
  have 1: "stay ?e0 ?e1"
    using quiet_steps(10) [of "e_node e" "LatestIndex (e_log e)" "TermAt (e_log e)" "CurrentTerm (persistent (e_node e))"] c
    by (intro stay_quiet) (simp_all add: e1 fire_committed k)
  have "calm (maybeCompact cd ?e2) ?e3" by (rule calm_trans [OF calm_other_sweeps(4) calm_other_sweeps(3)])
  then have 3: "stay ?e2 ?e3"
    using compact_latest [of ?e2 cd] assms(2) l1 by (intro stay_same) (simp_all add: calm_def compact_node apply_stay(2))
  have "calm ?e4 ?e5" by (rule calm_trans [OF calm_trans [OF calm_sweep_waiters calm_other_sweeps(1)] calm_other_sweeps(2)])
  then have 5: "stay ?e4 ?e5" by (rule sweeps_stay) simp
  have s2: "shape e ?e2" by (rule shape_stay [OF shape_stay [OF 0 1] apply_stay(1)])
  have s3: "shape e ?e3" by (rule shape_stay [OF s2 3])
  have "shape e (checkQuorum now ?e3)"
    using check_quorum_shape [of ?e3 now] shape_stay [OF s3] restaff_none by blast
  with s3 have "shape e ?e4" by simp
  from shape_stay [OF this 5] s2 show ?thesis unfolding onTick_eq Let_def by simp
qed

text \<open>A tick of another server leaves none, except that a server without peers may start to lead.\<close>

lemma lead_none:
  assumes "e_replicators e = []" and "currentPeers e = []"
  shows "e_replicators (engine_becomeLeader cd now t i e) = []"
proof -
  obtain b rn where b: "BecomeLeader t i (e_node e) = (b, rn)" by force
  have p: "node_Peers rn = []" using b assms(2) by (auto simp: BecomeLeader_def currentPeers_def node_Peers_def Let_def split: if_splits)
  show ?thesis
    using b assms(1) p
    by (cases b) (auto simp: engine_becomeLeader_def startReplicators_def stopReplicators_def resetLeadershipEvidence_def currentPeers_def mkeys_def
        Let_def split: option.split prod.split)
qed

lemma front_none:
  assumes "e_replicators e = []" and "Role (e_node e) \<noteq> Leader"
  shows "e_replicators (tickFront cd rnd rnd' now e) = []"
proof -
  have e: "e_replicators (runElection cd rnd' now x) = []" if x: "e_replicators x = []" for x
  proof -
    obtain r rn where c: "BecomeCandidate now (e_node x) = (r, rn)" by force
    let ?x = "resetElectionTimeout rnd' (x\<lparr>e_node := rn\<rparr>)"
    have n: "e_replicators ?x = []" using x by (simp add: resetElectionTimeout_def)
    have "e_replicators (fold (\<lambda>(p, addr). send_peer (g p addr)) ps ?x) = []" for g ps
      using crw.sends(3) [of g ps ?x] n by (simp add: crew_def)
    then show ?thesis using c n lead_none [OF n] by (cases r) (auto simp: runElection_def Let_def split: prod.split)
  qed
  have "e_replicators (fold (\<lambda>(p, addr). send_peer (SendPreVote p addr req)) ps x) = e_replicators x" for req ps x
    using crw.sends(3) [of "\<lambda>p addr. SendPreVote p addr req" ps x] by (simp add: crew_def)
  then show ?thesis using assms e by (auto simp: tickFront_def node_State_def startPreVote_def resetElectionTimeout_def Let_def split: prod.split)
qed

lemma tick_shape:
  assumes "crew_ok e" and "log_wf (e_log e)"
  shows "shape e (onTick cd rnd rnd' now e)"
proof (cases "Role (e_node e) = Leader")
  case True
  then show ?thesis by (rule leader_tick_shape [OF assms])
next
  case False
  let ?e0 = "reconcileLeadership e"
  have "e_replicators ?e0 = []"
    using False crew_waiters(5) [of ErrNotLeader e] stopped_none
    by (auto simp: reconcileLeadership_def node_State_def crew_def Let_def)
  moreover have "e_node ?e0 = e_node e" using reconcile_calm [of e] by (simp add: calm_def)
  ultimately have 1: "e_replicators (tickFront cd rnd rnd' now ?e0) = []" using False by (intro front_none) simp_all
  let ?e2 = "applyCommitted cd (tickFront cd rnd rnd' now ?e0)"
  let ?e3 = "fireApplyWaiters (fireReadWaiters (maybeCompact cd ?e2))"
  have n: "crew ?e2 = crew (tickFront cd rnd rnd' now ?e0)" "crew ?e3 = crew ?e2" by simp_all
  let ?e4 = "if IsLeader (e_node ?e3) then checkQuorum now ?e3 else ?e3"
  have "e_replicators ?e4 = []" using 1 n check_quorum_shape [of ?e3 now] by (auto simp: crew_def stay_def)
  moreover have "crew (sweepExpiredApplyWaiters now (sweepExpiredReads now (sweepExpiredWaiters now ?e4))) = crew ?e4" by simp
  ultimately show ?thesis using 1 n unfolding onTick_eq Let_def by (auto simp: crew_def intro!: restaff_none)
qed

lemma other_events_stay:
  "stay e (handleAck now p q e)" "stay e (handleRead now ch b e)" "stay e (handleApplyWait w e)"
proof -
  have c: "e_log (fireReadWaiters x) = e_log x" "e_log (notifyReplicators x) = e_log x" for x
    using calm_other_sweeps(4) [of x] calm_replicators(3) [of x] by (simp_all add: calm_def)
  have l: "e_log (handleAck now p q e) = e_log e" "e_log (handleRead now ch b e) = e_log e" "e_log (handleApplyWait w e) = e_log e"
    by (simp_all add: handleAck_def handleRead_def handleApplyWait_def c send_reply_def Let_def split: prod.split)
  show "stay e (handleAck now p q e)" by (rule stay_same) (simp_all add: l other_events_node)
  show "stay e (handleRead now ch b e)" by (rule stay_same) (simp_all add: l other_events_node)
  show "stay e (handleApplyWait w e)" by (rule stay_same) (simp_all add: l other_events_node)
qed

text \<open>A turn with any event but a proposal.\<close>

lemma turn_shape:
  assumes "crew_ok e" and "log_wf (e_log e)" and "\<And>cmd ch. ev \<noteq> EvProposal cmd ch"
  shows "shape e (engineStep cd (Turn rnd rnd' now ev) e)"
proof (cases "e_halted e \<or> e_done e")
  case True
  then show ?thesis by (auto simp: engineStep_def runTurn_def)
next
  case False
  then show ?thesis
    using assms(3) step_down_shape pre_vote_result_shape [OF assms(1)] vote_result_shape [OF assms(1)] tick_shape [OF assms(1,2)] other_events_stay
    by (cases ev) (auto simp: engineStep_def runTurn_def intro!: restaff_none)
qed

lemma build_crew: "crew (snd (buildSnapshotRequest cd e)) = crew e"
  by (simp add: buildSnapshotRequest_def Let_def split: prod.split sum.split option.split)

lemma round_stay: "stay e (snd (replicateOnce cd sendA sendS p t e))"
proof -
  let ?e = "e\<lparr>e_roundSeq := e_roundSeq e + 1\<rparr>"
  have r: "stay x (x\<lparr>e_node := rn\<rparr>)" if "ReplicateTo sendA rl p (e_node x) = (v, rn)" for x rl v rn
    using progress_steps(1) [of "e_node x" sendA rl p] that by (intro stay_quiet) auto
  have i: "stay x (x\<lparr>e_node := rn\<rparr>)" if "InstallSnapshotTo sendS p req (e_node x) = (v, rn)" for x req v rn
    using progress_steps(2) [of "e_node x" sendS p req] that by (intro stay_quiet) auto
  have b: "stay ?e x" if "buildSnapshotRequest cd ?e = (q, x)" for q x
    using build_calm [of ?e cd] build_crew [of cd ?e] that by (intro stay_same) (simp_all add: calm_def)
  have s: "stay e x" if "stay ?e x" for x
    using that by (rule stay_trans [rotated]) (rule stay_same; simp)
  show ?thesis
    using r i s stay_trans [OF b r] stay_trans [OF b i]
    by (auto simp: replicateOnce_def nextRoundSeq_def Let_def split: prod.splits option.splits)
qed

lemma calls_stay:
  "stay e (snd (engine_HandleAppendEntries cd now areq e))" "stay e (snd (engine_HandleRequestVote now vreq e))"
  "stay e (snd (engine_HandleInstallSnapshot cd now sreq e))"
proof -
  show "stay e (snd (engine_HandleAppendEntries cd now areq e))"
    by (rule stay_quiet) (auto simp: engine_HandleAppendEntries_def dest: append_entries_quiet append_call split: prod.splits)
  show "stay e (snd (engine_HandleRequestVote now vreq e))"
    by (rule stay_quiet) (auto simp: engine_HandleRequestVote_def dest: request_vote_quiet split: prod.splits)
  show "stay e (snd (engine_HandleInstallSnapshot cd now sreq e))"
    by (rule stay_quiet) (auto simp: engine_HandleInstallSnapshot_def Let_def dest: install_snapshot_quiet snapshot_call split: prod.splits)
qed

section \<open>The whole engine\<close>

lemma round_log: "e_log (snd (replicateOnce cd sendA sendS p t e)) = e_log e"
proof -
  have "e_log (snd (buildSnapshotRequest cd x)) = e_log x" for x using build_calm [of x cd] by (simp add: calm_def)
  then have "e_log y = e_log x" if "buildSnapshotRequest cd x = (q, y)" for q x y using that by (metis snd_conv)
  then show ?thesis by (fastforce simp: replicateOnce_def nextRoundSeq_def Let_def split: prod.split option.split)
qed

lemma notify_outbox: "e_outbox (notifyReplicators e) = e_outbox e @ map Nudge (mkeys (e_replicators e))"
proof -
  have "e_outbox (fold (\<lambda>p. send_peer (Nudge p)) ks x) = e_outbox x @ map Nudge ks" for ks x
    by (induction ks arbitrary: x) (simp_all add: send_peer_def)
  then show ?thesis by (simp add: notifyReplicators_def)
qed

text \<open>A proposal that makes the log longer nudges every replicator.\<close>

lemma proposal_nudges:
  assumes e'_def: "e' = engineStep cd (Turn rnd rnd' now (EvProposal cmd ch)) e"
  shows "crew e' = crew e" and "e_node e' = e_node e"
    and "LatestIndex (e_log e') = LatestIndex (e_log e) \<or> set (mkeys (e_replicators e)) \<subseteq> nudges e e'"
proof -
  show "crew e' = crew e" "e_node e' = e_node e" by (simp_all add: e'_def engineStep_def runTurn_def proposal_node)
  have l: "e_log (notifyReplicators x) = e_log x" for x using calm_replicators(3) [of x] by (simp add: calm_def)
  have a: "LatestIndex rl = LatestIndex (e_log e)" if "AppendLeader m b t (e_log e) = (None, rl)" for m b t rl
    using that by (auto simp: AppendLeader_def writeEntryToDisk_def LatestIndex_def lastIndexLocked_def Let_def split: prod.splits bool.splits)
  show "LatestIndex (e_log e') = LatestIndex (e_log e) \<or> set (mkeys (e_replicators e)) \<subseteq> nudges e e'"
    by (auto simp: e'_def engineStep_def runTurn_def handleProposal_def send_reply_def l a nudges_def notify_outbox Let_def
        split: option.splits prod.splits)
qed

text \<open>
  The goroutines are those the control loop knows of, and one that waits without a nudge had
  all of a leader's log before it in its latest round.
\<close>

definition staff :: "(int, peerReplicator) gomap \<Rightarrow> (int, int) gomap" where
  "staff prs = map (\<lambda>(p, pr). (p, pr_term pr)) prs"

definition awake :: "Engine \<Rightarrow> (int, peerReplicator) gomap \<Rightarrow> bool" where
  "awake e prs \<longleftrightarrow> (\<forall>(p, pr) \<in> set prs. IsLeader (e_node e) \<and> pr_started pr \<and> \<not> pr_notify pr \<longrightarrow> LatestIndex (e_log e) \<le> pr_seen pr)"

definition system_ok :: "System \<Rightarrow> bool" where
  "system_ok s \<longleftrightarrow> (let e = sy_engine s in log_wf (e_log e) \<and> crew_ok e \<and> staff (sy_replicators s) = e_replicators e \<and>
     awake e (sy_replicators s))"

lemma settle_staff: "staff (settle e e' prs) = e_replicators e'"
proof -
  have "pr_term (let pr = case mget prs p of Some pr \<Rightarrow> if pr_term pr = t then pr else freshReplicator t | None \<Rightarrow> freshReplicator t
      in pr\<lparr>pr_notify := pr_notify pr \<or> b\<rparr>) = t" for p t b
    by (simp add: freshReplicator_def Let_def split: option.split)
  then show ?thesis by (auto simp: staff_def settle_def comp_def intro!: map_idI)
qed

lemma staff_get: "mwf (staff prs) \<Longrightarrow> (p, t) \<in> set (staff prs) \<Longrightarrow> \<exists>pr. mget prs p = Some pr \<and> pr_term pr = t \<and> (p, pr) \<in> set prs"
proof -
  assume a: "mwf (staff prs)" "(p, t) \<in> set (staff prs)"
  then obtain pr where pr: "(p, pr) \<in> set prs" "t = pr_term pr" by (auto simp: staff_def)
  have "distinct (map fst prs)" using a(1) by (simp add: staff_def mwf_def comp_def split_beta)
  then have "mget prs p = Some pr" using pr(1) by (simp add: mget_def)
  then show "\<exists>pr. mget prs p = Some pr \<and> pr_term pr = t \<and> (p, pr) \<in> set prs" using pr by blast
qed

lemma settled:
  assumes "(p, pr') \<in> set (settle e e' prs)" and "mwf (e_replicators e)" and "staff prs = e_replicators e" and "crew e' = crew e"
  shows "\<exists>pr. (p, pr) \<in> set prs \<and> pr' = pr\<lparr>pr_notify := pr_notify pr \<or> p \<in> nudges e e'\<rparr> \<and> p \<in> set (mkeys (e_replicators e))"
proof -
  obtain t where t: "(p, t) \<in> set (e_replicators e)" "pr' = (let pr = (case mget prs p of Some pr \<Rightarrow> if pr_term pr = t then pr else freshReplicator t
      | None \<Rightarrow> freshReplicator t) in pr\<lparr>pr_notify := pr_notify pr \<or> p \<in> nudges e e'\<rparr>)"
    using assms(1,4) by (auto simp: settle_def crew_def)
  then show ?thesis using staff_get [of prs p t] assms(2,3) by (force simp: mkeys_def)
qed

lemma awake_turn:
  assumes "crew_ok e" and "log_wf (e_log e)" and "staff prs = e_replicators e" and "awake e prs"
    and e': "e' = engineStep cd (Turn rnd rnd' now ev) e"
  shows "crew_ok e' \<and> awake e' (settle e e' prs)"
proof (cases "\<exists>cmd ch. ev = EvProposal cmd ch")
  case True
  then obtain cmd ch where ev: "ev = EvProposal cmd ch" by blast
  note n = proposal_nudges [OF e' [unfolded ev]]
  have "crew_ok e'" using assms(1) n(1,2) by (simp add: crew_ok_def crew_def)
  moreover have "mwf (e_replicators e)" using assms(1) by (simp add: crew_ok_def)
  then have "awake e' (settle e e' prs)"
    using settled [OF _ _ assms(3) n(1)] n(2,3) assms(4) unfolding awake_def by fastforce
  ultimately show ?thesis ..
next
  case False
  then have "shape e e'" using turn_shape [OF assms(1,2)] e' by blast
  then show ?thesis
  proof
    assume s: "stay e e'"
    have "mwf (e_replicators e)" "crew e' = crew e" using assms(1) s by (auto simp: crew_ok_def stay_def)
    then have "awake e' (settle e e' prs)"
      using settled [OF _ _ assms(3)] s assms(4) unfolding awake_def by (fastforce simp: stay_def IsLeader_def)
    then show ?thesis using stay_crew_ok [OF s assms(1)] by simp
  next
    assume r: "restaff e e'"
    have "\<not> pr_started pr'" if pr': "(p, pr') \<in> set (settle e e' prs)" for p pr'
    proof -
      obtain t where t: "(p, t) \<in> set (e_replicators e')" "pr' = (let pr = (case mget prs p of Some pr \<Rightarrow> if pr_term pr = t then pr else freshReplicator t
          | None \<Rightarrow> freshReplicator t) in pr\<lparr>pr_notify := pr_notify pr \<or> p \<in> nudges e e'\<rparr>)"
        using pr' by (auto simp: settle_def)
      have "pr_term pr \<noteq> t" if "mget prs p = Some pr" for pr
      proof -
        have "(p, pr_term pr) \<in> set (e_replicators e)"
          unfolding assms(3) [symmetric] using map_of_SomeD [OF that [unfolded mget_def]] by (force simp: staff_def)
        then have "pr_term pr = e_replicatorsTerm e" "e_replicators e \<noteq> []" using crew_term [OF assms(1)] by auto
        moreover have "t = e_replicatorsTerm e'" "e_replicators e' \<noteq> []" using r t(1) crew_term [of e'] by (auto simp: restaff_def)
        ultimately show ?thesis using r by (auto simp: restaff_def)
      qed
      then show ?thesis using t(2) by (auto simp: freshReplicator_def Let_def split: option.splits)
    qed
    then show ?thesis using r unfolding awake_def restaff_def by blast
  qed
qed

lemma staff_put: "mget prs p = Some pr \<Longrightarrow> pr_term pr' = pr_term pr \<Longrightarrow> staff (mput p pr' prs) = staff prs"
  by (induction prs) (auto simp: staff_def mput_def mget_def split: if_splits)

lemma put_elem: "(q, x) \<in> set (mput p v m) \<Longrightarrow> (q, x) \<in> set m \<or> q = p \<and> x = v"
  by (induction m) (auto simp: mput_def split: if_splits)

lemma selected_engine:
  "selectCase src s = Some (ev, s1) \<Longrightarrow> sy_engine s1 = sy_engine s \<and> sy_replicators s1 = sy_replicators s"
  by (auto simp: selectCase_def split: source.splits)

lemma round_fields:
  "sy_engine (replicatorRound cd n sendA sendS w p pr s) = snd (replicateOnce cd sendA sendS p (pr_term pr) (sy_engine s))"
  "sy_replicators (replicatorRound cd n sendA sendS w p pr s) =
     mput p (pr\<lparr>pr_started := True, pr_notify := (if w = Notified then False else pr_notify pr),
       pr_seen := (if IsLeader (e_node (sy_engine s)) then LatestIndex (e_log (sy_engine s)) else pr_seen pr)\<rparr>) (sy_replicators s)"
  by (simp_all add: replicatorRound_def reportHigherTerm_def reportAck_def Let_def split: prod.split report.split)

lemma awake_stay: "stay e e' \<Longrightarrow> awake e prs \<Longrightarrow> awake e' prs"
  by (fastforce simp: awake_def stay_def IsLeader_def)

lemma system_ok_step:
  assumes "system_step cd n s s'" and "system_ok s"
  shows "system_ok s'"
  using assms
proof (induction rule: system_step.induct)
  case (turn src s ev s1 s' rnd rnd' now)
  note f = selected_engine [OF turn.hyps(1)]
  have "crew_ok (sy_engine s') \<and> awake (sy_engine s') (sy_replicators s')"
    using awake_turn [of "sy_engine s" "sy_replicators s" _ cd rnd rnd' now ev] turn.prems f
    by (auto simp: turn.hyps(2) controlTurn_def system_ok_def Let_def)
  then show ?case using turn.hyps(3) f by (simp add: turn.hyps(2) system_ok_def controlTurn_def settle_staff Let_def)
next
  case (replicate s p pr w sendA sendS)
  let ?s = "replicatorRound cd n sendA sendS w p pr s"
  note f = round_fields [of cd n sendA sendS w p pr s]
  have st: "stay (sy_engine s) (sy_engine ?s)" using round_stay by (simp add: f)
  have ok: "crew_ok (sy_engine s)" "awake (sy_engine s) (sy_replicators s)" "staff (sy_replicators s) = e_replicators (sy_engine s)"
    using replicate.prems by (simp_all add: system_ok_def Let_def)
  have "awake (sy_engine s) (sy_replicators ?s)"
    using ok(2) put_elem unfolding awake_def f by (fastforce)
  then have "awake (sy_engine ?s) (sy_replicators ?s)" by (rule awake_stay [OF st])
  moreover have "staff (sy_replicators ?s) = e_replicators (sy_engine ?s)"
    using st ok(3) staff_put [OF replicate.hyps(2)] by (simp add: f stay_def crew_def)
  ultimately show ?case using stay_crew_ok [OF st ok(1)] replicate.prems by (simp add: system_ok_def Let_def f round_log)
next
  case (inbound a now areq vreq sreq e' s)
  have st: "stay (sy_engine s) e'" using inbound.hyps(1,2) calls_stay by (auto simp: engineStep_def)
  have "e_replicators e' = e_replicators (sy_engine s)" using st by (simp add: stay_def crew_def)
  then show ?case
    using inbound.prems inbound.hyps(3) stay_crew_ok [OF st] awake_stay [OF st] by (simp add: system_ok_def Let_def)
qed (simp_all add: system_ok_def Let_def)

lemma system_ok_reachable: "system_reachable cd n s \<Longrightarrow> system_ok s"
proof (induction rule: system_reachable.induct)
  case (start rl rn rnd sm f)
  then show ?case
    by (simp add: system_ok_def newSystem_def NewWithTransport_def resetElectionTimeout_def crew_ok_def mwf_def staff_def awake_def)
qed (rule system_ok_step)

text \<open>What the goroutines do to the engine are the actions of \<^verbatim>\<open>engineStep\<close>.\<close>

lemma system_action: "system_step cd n s s' \<Longrightarrow> sy_engine s' = sy_engine s \<or> (\<exists>a. sy_engine s' = engineStep cd a (sy_engine s))"
proof (induction rule: system_step.induct)
  case (turn src s ev s1 s' rnd rnd' now)
  then show ?case using selected_engine [OF turn.hyps(1)] by (auto simp: controlTurn_def Let_def)
next
  case (replicate s p pr w sendA sendS)
  then have "sy_engine (replicatorRound cd n sendA sendS w p pr s) = engineStep cd (Round sendA sendS p (pr_term pr)) (sy_engine s)"
    by (simp add: round_fields engineStep_def)
  then show ?case by blast
qed auto

lemma system_actions: "(system_step cd n)\<^sup>*\<^sup>* s s' \<Longrightarrow> \<exists>as. sy_engine s' = fold (engineStep cd) as (sy_engine s)"
proof (induction rule: rtranclp_induct)
  case base
  show ?case by (intro exI [of _ "[]"]) simp
next
  case (step y z)
  then obtain as where as: "sy_engine y = fold (engineStep cd) as (sy_engine s)" by blast
  from system_action [OF step.hyps(2)] show ?case
  proof
    assume "\<exists>a. sy_engine z = engineStep cd a (sy_engine y)"
    then obtain a where "sy_engine z = fold (engineStep cd) (as @ [a]) (sy_engine s)" using as by auto
    then show ?thesis ..
  qed (use as in auto)
qed

text \<open>No channel holds more than its buffer.\<close>

definition queues_ok :: "nat \<Rightarrow> System \<Rightarrow> bool" where
  "queues_ok n s \<longleftrightarrow> length (sy_proposals s) \<le> requestCap \<and> length (sy_readCh s) \<le> requestCap \<and> length (sy_applyCh s) \<le> requestCap \<and>
     length (sy_stepDownCh s) \<le> replyCap n \<and> length (sy_preVoteCh s) \<le> replyCap n \<and> length (sy_voteCh s) \<le> replyCap n \<and>
     length (sy_ackCh s) \<le> ackCap n"

lemma queues_select: "selectCase src s = Some (ev, s1) \<Longrightarrow> queues_ok n s \<Longrightarrow> queues_ok n s1"
  by (auto simp: selectCase_def queues_ok_def split: source.splits dest: ch.get_bounded)

lemma queues_step: "system_step cd n s s' \<Longrightarrow> queues_ok n s \<Longrightarrow> queues_ok n s'"
proof (induction rule: system_step.induct)
  case (turn src s ev s1 s' rnd rnd' now)
  have "queues_ok n s1" by (rule queues_select [OF turn.hyps(1) turn.prems])
  then show ?case by (simp add: turn.hyps(2) queues_ok_def controlTurn_def Let_def)
next
  case (replicate s p pr w sendA sendS)
  then show ?case
    by (simp add: replicatorRound_def reportHigherTerm_def reportAck_def queues_ok_def Let_def ch.put_bounded split: prod.split report.split)
qed (simp_all add: queues_ok_def)

section \<open>A run\<close>

text \<open>The first of two servers polls, campaigns and wins; its replicator makes its first round.\<close>

definition pairConfig :: Configuration where
  "pairConfig = \<lparr>Voters = [(1, ''a''), (2, ''b'')], OldVoters = [], Learners = []\<rparr>"

definition pairEngine :: Engine where
  "pairEngine = NewWithTransport 0 ((demoNode 1)\<lparr>config := pairConfig\<rparr>) (demoWhole []) NewMemoryStateMachine
     \<lparr>visible = None, survivors = [None], calls = []\<rparr>"

definition pairPoll :: PreVoteRequest where
  "pairPoll = \<lparr>pv_Term = 1, pv_CandidateID = 1, pv_LastLogIndex = 0, pv_LastLogTerm = 0\<rparr>"

definition pairRequest :: RequestVoteRequest where
  "pairRequest = \<lparr>rv_Term = 1, rv_CandidateID = 1, rv_LastLogIndex = 0, rv_LastLogTerm = 0\<rparr>"

definition pairPolling :: Engine where
  "pairPolling = pairEngine\<lparr>e_preVoteTerm := 1, e_preVotes := [(1, True)], e_outbox := [SendPreVote 2 ''b'' pairPoll]\<rparr>"

definition pairNode :: RaftNode where
  "pairNode = (e_node pairEngine)\<lparr>Role := Candidate, lastContact := 1000000000, votesFrom := Some [(1, True)],
     persistent := \<lparr>CurrentTerm = 1, VotedFor = 1\<rparr>,
     store := \<lparr>holds = Some \<lparr>CurrentTerm = 1, VotedFor = 1\<rparr>, mayHold = [Some \<lparr>CurrentTerm = 1, VotedFor = 1\<rparr>], saves = [], loadErr = None\<rparr>\<rparr>"

definition pairCampaign :: Engine where
  "pairCampaign = pairPolling\<lparr>e_node := pairNode, e_preVoteTerm := 0, e_preVotes := [(1, True), (2, True)],
     e_outbox := [SendPreVote 2 ''b'' pairPoll, SendVote 2 ''b'' pairRequest]\<rparr>"

definition pairLeader :: Engine where
  "pairLeader = engineStep demoCodecs (Turn 0 0 1000000000 (EvVote 1 2 \<lparr>rvr_Term = 1, rvr_VoteGranted = True\<rparr>)) pairCampaign"

lemma pair_peers: "Peers \<lparr>Voters = [(1, ''a''), (2, ''b'')], OldVoters = [], Learners = []\<rparr> 1 = [(2, ''b'')]"
  by (simp add: Peers_def Members_def mput_def mdel_def)

lemma pair_quorum: "HasQuorum \<lparr>Voters = [(1, ''a''), (2, ''b'')], OldVoters = [], Learners = []\<rparr> [(1, True), (2, True)]"
  by code_simp

lemma pair_last: "LastLogState (demoWhole []) = (0, 0)" "LatestIndex (demoWhole []) = 0"
  by (simp_all add: LastLogState_def LatestIndex_def lastIndexLocked_def demoWhole_def Let_def)

lemmas pair_engine = pairEngine_def pairConfig_def NewWithTransport_def resetElectionTimeout_def demoNode_def SetMinElectionTimeout_def
  electionTimeoutMin_def

lemma pair_polling: "engineStep demoCodecs (Turn 0 0 1000000000 EvTick) pairEngine = pairPolling"
proof -
  have n: "\<not> NeedsCompaction x 0" for x by (simp add: NeedsCompaction_def Let_def)
  show ?thesis
    by (simp add: engineStep_def runTurn_def onTick_def pair_engine pairPolling_def pairPoll_def IsLeader_def node_CurrentTerm_def
      node_State_def reconcileLeadership_def failAllReads_def TimeSinceContact_def startPreVote_def currentPeers_def node_Peers_def pair_peers
      mput_def n pair_last CommitAndApplyBoundary_def mkeys_def applyCommitted_def applyLoop.simps demoCodecs_def Let_def send_peer_def NodeID_def
      maybeCompact_def fireReadWaiters_def fireApplyWaiters_def checkQuorum_def sweepExpiredWaiters_def sweepExpiredReads_def
      sweepExpiredApplyWaiters_def)
qed

lemma pair_campaign:
  "engineStep demoCodecs (Turn 0 0 1000000000 (EvPreVote 1 2 \<lparr>pvr_Term = 0, pvr_VoteGranted = True\<rparr>)) pairPolling = pairCampaign"
  by (simp add: engineStep_def runTurn_def handlePreVoteResult_def pairPolling_def pairCampaign_def pairNode_def pairRequest_def pair_engine
      node_State_def node_HasQuorum_def pair_quorum mput_def runElection_def BecomeCandidate_def commitPersistentLocked_def Save_def pair_last currentPeers_def node_Peers_def
      pair_peers send_peer_def NodeID_def Let_def)

lemma pair_leader:
  "Role (e_node pairLeader) = Leader" "e_replicators pairLeader = [(2, 1)]" "e_log pairLeader = demoWhole [\<lparr>Index = 1, Term = 1, Command = []\<rparr>]"
  "e_halted pairLeader = False" "e_outbox pairLeader = e_outbox pairCampaign"
  "NextIndexFor (e_node pairLeader) 2 = 1"
  using demoWhole_append [of "[]" 1 "[]"]
  by (simp_all add: pairLeader_def engineStep_def runTurn_def handleVoteResult_def pairPolling_def pairCampaign_def pairNode_def pair_engine
      node_State_def node_CurrentTerm_def RecordVoteAndCheckMajority_def mput_def pair_quorum pair_last engine_becomeLeader_def BecomeLeader_def pair_peers
      resetLeadershipEvidence_def startReplicators_def currentPeers_def node_Peers_def mkeys_def demoCodecs_def NextIndexFor_def mget0_def Let_def)

definition pairSystem :: System where
  "pairSystem = (newSystem pairLeader)\<lparr>sy_replicators := [(2, freshReplicator 1)]\<rparr>"

lemma system_turn:
  "system_reachable cd n s \<Longrightarrow> controlTurn cd rnd rnd' now ev s1 = s' \<Longrightarrow> selectCase src s = Some (ev, s1) \<Longrightarrow>
    log_wf (e_log (sy_engine s')) \<Longrightarrow> system_reachable cd n s'"
  using system_reachable.step system_step.turn by blast

lemma pair_reachable: "system_reachable demoCodecs 1 pairSystem"
proof -
  let ?pv = "\<lparr>pvr_Term = 0, pvr_VoteGranted = True\<rparr>" and ?rv = "\<lparr>rvr_Term = 1, rvr_VoteGranted = True\<rparr>"
  have wf: "log_wf (demoWhole [])" "log_wf (demoWhole [\<lparr>Index = 1, Term = 1, Command = []\<rparr>])" by (rule demoWhole_ok(1); simp)+
  have l: "e_log pairEngine = demoWhole []" "e_log pairPolling = demoWhole []" "e_log pairCampaign = demoWhole []"
    by (simp_all add: pairPolling_def pairCampaign_def) (simp_all add: pairEngine_def NewWithTransport_def resetElectionTimeout_def)
  have r: "e_replicators pairPolling = []" "e_replicators pairCampaign = []" "\<not> e_done pairPolling" "\<not> e_done pairCampaign"
    by (simp_all add: pairPolling_def pairCampaign_def) (simp_all add: pairEngine_def NewWithTransport_def resetElectionTimeout_def)
  have "Role ((demoNode 1)\<lparr>config := pairConfig\<rparr>) = Follower" by (simp add: demoNode_def)
  from system_reachable.start [OF wf(1) this] have 0: "system_reachable demoCodecs 1 (newSystem pairEngine)" by (simp add: pairEngine_def)
  have "controlTurn demoCodecs 0 0 1000000000 EvTick (newSystem pairEngine) = newSystem pairPolling"
    by (simp add: controlTurn_def newSystem_def pair_polling settle_def r Let_def)
  from system_turn [OF 0 this, where src = Ticker] have 1: "system_reachable demoCodecs 1 (newSystem pairPolling)"
    using wf(1) l by (simp add: selectCase_def newSystem_def)
  have 2: "system_reachable demoCodecs 1 ((newSystem pairPolling)\<lparr>sy_preVoteCh := [(1, 2, ?pv)]\<rparr>)"
    using system_reachable.step [OF 1 system_step.polled [of 2 "''b''" pairPoll, where presp = ?pv]] r
    by (simp add: newSystem_def replyCap_def pairPoll_def) (simp add: pairPolling_def pairPoll_def)
  have "controlTurn demoCodecs 0 0 1000000000 (EvPreVote 1 2 ?pv) (newSystem pairPolling) = newSystem pairCampaign"
    by (simp add: controlTurn_def newSystem_def pair_campaign settle_def r Let_def)
  from system_turn [OF 2 this, where src = PreVoteCh] have 3: "system_reachable demoCodecs 1 (newSystem pairCampaign)"
    using wf(1) l by (simp add: selectCase_def newSystem_def)
  have 4: "system_reachable demoCodecs 1 ((newSystem pairCampaign)\<lparr>sy_voteCh := [(1, 2, ?rv)]\<rparr>)"
    using system_reachable.step [OF 3 system_step.voted [of 2 "''b''" pairRequest, where resp = ?rv]] r
    by (simp add: newSystem_def replyCap_def pairRequest_def) (simp add: pairCampaign_def pairRequest_def)
  have "controlTurn demoCodecs 0 0 1000000000 (EvVote 1 2 ?rv) (newSystem pairCampaign) = pairSystem"
    using pair_leader
    by (simp add: pairSystem_def controlTurn_def newSystem_def pairLeader_def [symmetric] settle_def nudges_def mget_def freshReplicator_def Let_def)
  from system_turn [OF 4 this, where src = VoteCh] show ?thesis
    using wf(2) pair_leader(3) by (simp add: selectCase_def newSystem_def pairSystem_def)
qed

section \<open>Properties\<close>



end
