(* ===== verification/Engine_Staleness.thy ===== *)
theory Engine_Staleness
  imports Engine_Channels
begin

text \<open>
  Bounded reads: what the bound a client names is measured against.  The stamps that
  \<^verbatim>\<open>staleness\<close> reads are followed through the run of an engine back to the event that set them:
  the last contact of a node that does not lead, and for a leader the tick that last counted a
  majority and the acknowledgements it counted.
\<close>

section \<open>The stamps\<close>

definition seen :: "Engine \<Rightarrow> nanos \<times> PersistentState \<times> int" where
  "seen e = (lastContact (e_node e), persistent (e_node e), nodeID (e_node e))"

definition pulse :: "Engine \<Rightarrow> (int, peerAck) gomap \<times> nanos" where
  "pulse e = (e_lastAck e, e_lastQuorumNanos e)"

interpretation sen: aside seen
  by unfold_locales (simp_all add: seen_def)

interpretation pls: aside pulse
  by unfold_locales (simp_all add: pulse_def)

interpretation plsa: unapplied pulse
  by unfold_locales (simp_all add: pulse_def)

lemma seen_applies: "seen (applyCommitted cd e) = seen e" "seen (maybeCompact cd e) = seen e"
proof -
  obtain cs m where "appliedRun cd (CommitIndex (e_node e)) e (applyCommitted cd e) cs m"
    using applyLoop_run by (fastforce simp: applyCommitted_def CommitAndApplyBoundary_def)
  then show "seen (applyCommitted cd e) = seen e" by (auto simp: appliedRun_def seen_def Let_def)
  show "seen (maybeCompact cd e) = seen e" by (simp add: seen_def compact_node)
qed

lemma seen_commit: "seen (e\<lparr>e_node := snd (AdvanceCommitIndex li ta ct (e_node e))\<rparr>) = seen e"
  by (simp add: seen_def AdvanceCommitIndex_def Let_def split: prod.split)

lemma contact_follow: "BecomeFollower t l rn = (b, rn') \<Longrightarrow> lastContact rn' = lastContact rn"
  by (auto simp: BecomeFollower_def becomeFollowerLocked_def Let_def dest!: commit_fields split: prod.splits bool.splits)

lemma seen_quorum: "seen (checkQuorum now e) = seen e"
proof -
  have "seen (e\<lparr>e_node := snd (BecomeFollower (node_CurrentTerm (e_node e)) 0 (e_node e))\<rparr>) = seen e"
    by (simp add: seen_def BecomeFollower_def becomeFollowerLocked_def node_CurrentTerm_def commitPersistentLocked_def)
  moreover have "seen (noteQuorumConfirmed now e) = seen e" by (simp add: noteQuorumConfirmed_def seen_def)
  ultimately show ?thesis by (auto simp: checkQuorum_def sen.crews sen.sweeps Let_def split: prod.split bool.split)
qed

section \<open>Signs of life\<close>

text \<open>The time at which an action happens; a round of a replicator sets no stamp.\<close>

definition stamp :: "action \<Rightarrow> nanos" where
  "stamp a = (case a of Turn _ _ now _ \<Rightarrow> now | CallAppend now _ \<Rightarrow> now | CallVote now _ \<Rightarrow> now | CallSnapshot now _ \<Rightarrow> now
     | Round _ _ _ _ \<Rightarrow> 0)"

text \<open>
  What sets the last contact: a call of a leader whose term is not stale, the grant of a
  vote, and the node's own candidacy.
\<close>

definition lifeSign :: "Codecs \<Rightarrow> action \<Rightarrow> Engine \<Rightarrow> bool" where
  "lifeSign cd a e \<longleftrightarrow>
     (case a of
        CallAppend _ req \<Rightarrow> node_CurrentTerm (e_node e) \<le> ae_Term req
      | CallSnapshot _ req \<Rightarrow> node_CurrentTerm (e_node e) \<le> is_Term req
      | CallVote now req \<Rightarrow> rvr_VoteGranted (fst (engine_HandleRequestVote now req e))
      | Turn _ _ _ _ \<Rightarrow> persistent (e_node (engineStep cd a e)) =
          \<lparr>CurrentTerm = node_CurrentTerm (e_node e) + 1, VotedFor = nodeID (e_node e)\<rparr>
      | Round _ _ _ _ \<Rightarrow> False)"

definition stood :: "nanos \<Rightarrow> Engine \<Rightarrow> Engine \<Rightarrow> bool" where
  "stood now e e' \<longleftrightarrow> lastContact (e_node e') = lastContact (e_node e) \<or>
     seen e' = (now, \<lparr>CurrentTerm = node_CurrentTerm (e_node e) + 1, VotedFor = nodeID (e_node e)\<rparr>, nodeID (e_node e))"

lemma stood_seen: "stood now e x \<Longrightarrow> seen e' = seen x \<Longrightarrow> stood now e e'"
  by (simp add: stood_def seen_def)

lemma stood_same: "seen e' = seen e \<Longrightarrow> stood now e e'"
  by (simp add: stood_def seen_def)

lemma stood_from: "e_node e1 = e_node e \<Longrightarrow> stood now e1 e' = stood now e e'"
  by (simp add: stood_def)

lemma lead_seen: "seen (engine_becomeLeader cd now t i e) = seen e"
  by (simp add: seen_def becomeLeader_node BecomeLeader_def Let_def)

lemma election_stood: "stood now e (runElection cd rnd now e)"
proof -
  obtain r rn where b: "BecomeCandidate now (e_node e) = (r, rn)" by force
  have c: "stood now e (e\<lparr>e_node := rn\<rparr>)"
    using b by (auto simp: BecomeCandidate_def stood_def seen_def node_CurrentTerm_def commitPersistentLocked_def Let_def
        dest!: commit_fields split: prod.splits bool.splits if_splits)
  have "seen (runElection cd rnd now e) = seen (e\<lparr>e_node := rn\<rparr>)"
    using b by (auto simp: runElection_def lead_seen sen.sends Let_def split: prod.split option.split)
      (simp_all add: seen_def resetElectionTimeout_def)
  with c show ?thesis by (rule stood_seen)
qed

lemma poll_stood: "stood now e (startPreVote cd rnd rnd' now e)"
proof -
  have r: "e_node (resetElectionTimeout rnd e) = e_node e" by (simp add: resetElectionTimeout_def)
  have "stood now e (runElection cd rnd' now (resetElectionTimeout rnd e))"
    using election_stood [of now "resetElectionTimeout rnd e"] by (simp add: stood_from [OF r])
  moreover have "stood now e (startPreVote cd rnd rnd' now e)" if "currentPeers e \<noteq> []"
    using that by (intro stood_same) (simp add: startPreVote_def sen.sends currentPeers_def r Let_def split: prod.split,
      simp add: seen_def r)
  ultimately show ?thesis by (auto simp: startPreVote_def currentPeers_def r Let_def split: prod.split)
qed

lemma tick_stood: "stood now e (onTick cd rnd rnd' now e)"
proof -
  let ?e = "reconcileLeadership e" and ?t = "node_CurrentTerm (e_node (reconcileLeadership e))"
  let ?x = "if IsLeader (e_node ?e)
      then ?e\<lparr>e_node := snd (AdvanceCommitIndex (LatestIndex (e_log ?e)) (TermAt (e_log ?e)) ?t (e_node ?e))\<rparr>
      else if e_electionTimeout ?e \<le> TimeSinceContact now (e_node ?e) then startPreVote cd rnd rnd' now ?e else ?e"
  have "stood now ?e ?x" using poll_stood seen_commit by (auto intro: stood_same)
  then have "stood now e ?x" using stood_from [of ?e e] reconcile_same(1) by simp
  moreover have "seen (onTick cd rnd rnd' now e) = seen ?x"
    by (simp add: onTick_def node_State_def IsLeader_def node_CurrentTerm_def Let_def seen_applies seen_quorum sen.sweeps split: prod.split)
  ultimately show ?thesis by (rule stood_seen)
qed

lemma contact_accept: "acceptLeader t l rn = (b, rn') \<Longrightarrow> lastContact rn' = lastContact rn"
  using contact_follow [of t l rn b rn'] by (auto simp: acceptLeader_def BecomeFollower_def split: if_splits)

lemma contact_append:
  assumes "HandleAppendEntries m now req rl rn = (resp, rl', rn')"
  shows "lastContact rn' = lastContact rn \<or> lastContact rn' = now \<and> CurrentTerm (persistent rn) \<le> ae_Term req"
  using assms by (cases rule: append_entries_branches) (auto simp: setFollowerCommitIndexLocked_def Let_def dest: contact_accept)

lemma contact_install:
  assumes "HandleInstallSnapshot m restore persist now req rl w rn = (resp, rl', w', rn')"
  shows "lastContact rn' = lastContact rn \<or> lastContact rn' = now \<and> CurrentTerm (persistent rn) \<le> is_Term req"
  using assms by (auto simp: HandleInstallSnapshot_def seedFromSnapshotLocked_def Let_def dest!: contact_accept
      split: prod.splits bool.splits if_splits)

lemma contact_vote:
  assumes "HandleRequestVote now req lastLog rn = (resp, rn')"
  shows "lastContact rn' = lastContact rn \<or> lastContact rn' = now \<and> rvr_VoteGranted resp"
  using assms by (auto simp: HandleRequestVote_def Let_def dest!: commit_fields split: prod.splits bool.splits if_splits)

lemma contact_replicate:
  "lastContact (snd (ReplicateTo send rl p rn)) = lastContact rn" "lastContact (snd (InstallSnapshotTo send' p sreq rn)) = lastContact rn"
  by (auto simp: ReplicateTo_def appendReply_def InstallSnapshotTo_def UpdatePeerProgress_def BacktrackNextIndex_def Let_def
      split: option.split prod.split)

lemma contact_round: "lastContact (e_node (snd (replicateOnce cd sendA sendS p t e))) = lastContact (e_node e)"
proof -
  have "e_node (snd (buildSnapshotRequest cd x)) = e_node x" for x
    by (auto simp: buildSnapshotRequest_def Let_def split: prod.split sum.split option.split)
  then show ?thesis
    by (simp add: replicateOnce_def nextRoundSeq_def Let_def split_beta contact_replicate split: option.split)
qed

text \<open>The other events set no contact at all.\<close>

lemma contact_step:
  "lastContact (e_node (engineStep cd a e)) = lastContact (e_node e) \<or>
   lastContact (e_node (engineStep cd a e)) = stamp a \<and> lifeSign cd a e"
proof (cases "e_halted e")
  case True
  then show ?thesis by (simp add: engineStep_def)
next
  case run: False
  show ?thesis
  proof (cases a)
    case (Turn rnd rnd' now ev)
    have f: "lastContact (e_node (handleStepDown t e)) = lastContact (e_node e)"
      "lastContact (e_node (handleVoteResult cd now t p resp e)) = lastContact (e_node e)" for t p resp
      by (auto simp: handleStepDown_def handleVoteResult_def nod.sweeps nod.crews becomeLeader_node BecomeLeader_def
          RecordVoteAndCheckMajority_def Let_def dest!: contact_follow split: prod.split)
    have "stood now e (handlePreVoteResult cd rnd now t p resp e)" for t p resp
      using election_stood [of now "e\<lparr>e_preVotes := mput p True (e_preVotes e), e_preVoteTerm := 0\<rparr>"]
      by (auto simp: handlePreVoteResult_def stood_def node_CurrentTerm_def Let_def dest!: contact_follow split: prod.split)
    then have "stood now e (engineStep cd a e)"
      using run tick_stood f
      by (cases ev) (auto simp: Turn engineStep_def runTurn_def stood_same sen.apply_wait sen.read sen.stops
          proposal_node other_events_node seen_def [abs_def] stood_def)
    then show ?thesis by (auto simp: stood_def seen_def lifeSign_def stamp_def Turn)
  next
    case (CallAppend now req)
    obtain resp rl rn where h: "HandleAppendEntries (encEntry cd) now req (e_log e) (e_node e) = (resp, rl, rn)" using prod_cases3 by blast
    then show ?thesis using run CallAppend contact_append [OF h]
      by (auto simp: engineStep_def engine_HandleAppendEntries_def stamp_def lifeSign_def node_CurrentTerm_def)
  next
    case (CallVote now req)
    obtain resp rn where h: "HandleRequestVote now req (LastLogState (e_log e)) (e_node e) = (resp, rn)" by force
    then show ?thesis using run CallVote contact_vote [OF h]
      by (auto simp: engineStep_def engine_HandleRequestVote_def stamp_def lifeSign_def node_CurrentTerm_def)
  next
    case (CallSnapshot now req)
    then show ?thesis using run
      by (auto simp: engineStep_def engine_HandleInstallSnapshot_def stamp_def lifeSign_def node_CurrentTerm_def Let_def
          split: prod.split dest: contact_install)
  next
    case (Round sendA sendS p t)
    then show ?thesis using run contact_round by (simp add: engineStep_def)
  qed
qed

section \<open>Acknowledgements\<close>

text \<open>What vouches for a peer: an acknowledgement of it, or the promotion, which stamps every peer.\<close>

definition vouches :: "Codecs \<Rightarrow> action \<Rightarrow> Engine \<Rightarrow> int \<Rightarrow> bool" where
  "vouches cd a e p \<longleftrightarrow> (\<exists>rnd rnd' now sq. a = Turn rnd rnd' now (EvAck p sq)) \<or>
     \<not> IsLeader (e_node e) \<and> IsLeader (e_node (engineStep cd a e))"

definition heardMajority :: "nanos \<Rightarrow> Engine \<Rightarrow> bool" where
  "heardMajority now e \<longleftrightarrow>
     ClusterSize (e_node e) div 2 < 1 + int (length (filter (\<lambda>(_, ack). now - quorumGrace < pa_at ack) (e_lastAck e)))"

lemma lead_pulse:
  "pulse (engine_becomeLeader cd now t i e) =
     (if fst (BecomeLeader t i (e_node e))
      then (fold (\<lambda>p. mput p \<lparr>pa_startSeq = 0, pa_at = now\<rparr>) (mkeys (currentPeers e)) [], e_lastQuorumNanos e) else pulse e)"
proof -
  obtain won rn where b: "BecomeLeader t i (e_node e) = (won, rn)" by force
  have "node_Peers rn = node_Peers (e_node e)" using b by (auto simp: BecomeLeader_def node_Peers_def Let_def split: if_splits)
  then show ?thesis using b
    by (auto simp: engine_becomeLeader_def resetLeadershipEvidence_def pls.crews plsa.node currentPeers_def Let_def split: bool.split option.split prod.split)
      (auto simp: pulse_def)
qed

lemma election_pulse:
  "pulse (runElection cd rnd now e) = pulse e \<or> pulse (runElection cd rnd now e) = ([], e_lastQuorumNanos e)"
proof -
  obtain r rn where b: "BecomeCandidate now (e_node e) = (r, rn)" by force
  let ?e = "resetElectionTimeout rnd (e\<lparr>e_node := rn\<rparr>)"
  have p: "pulse ?e = pulse e" "e_lastQuorumNanos ?e = e_lastQuorumNanos e" by (simp_all add: resetElectionTimeout_def pulse_def)
  show ?thesis
  proof (cases "r = None \<or> currentPeers ?e \<noteq> []")
    case True
    with b p show ?thesis by (cases r) (auto simp: runElection_def pls.sends Let_def split: prod.split)
  next
    case False
    then obtain t where "r = Some t" by auto
    with False b p show ?thesis by (auto simp: runElection_def lead_pulse mkeys_def Let_def split: prod.split)
  qed
qed

lemma poll_pulse:
  "pulse (startPreVote cd rnd rnd' now e) = pulse e \<or> pulse (startPreVote cd rnd rnd' now e) = ([], e_lastQuorumNanos e)"
proof -
  have "pulse (resetElectionTimeout rnd e) = pulse e" "e_lastQuorumNanos (resetElectionTimeout rnd e) = e_lastQuorumNanos e"
    by (simp_all add: resetElectionTimeout_def pulse_def)
  moreover have "pulse (x\<lparr>e_preVoteTerm := t, e_preVotes := v\<rparr>) = pulse x" for x t v by (simp add: pulse_def)
  ultimately show ?thesis using election_pulse [of cd rnd' now "resetElectionTimeout rnd e"]
    by (auto simp: startPreVote_def pls.sends Let_def split: prod.split)
qed

lemma quorum_pulse:
  "pulse (checkQuorum now e) = pulse e \<or> pulse (checkQuorum now e) = (e_lastAck e, now) \<and> heardMajority now (checkQuorum now e)"
proof -
  have "pulse (noteQuorumConfirmed now e) = (e_lastAck e, now)" by (simp add: noteQuorumConfirmed_def pulse_def)
  then show ?thesis
    by (auto simp: checkQuorum_def pls.crews pls.sweeps plsa.node heardMajority_def Let_def split: prod.split bool.split)
      (auto simp: noteQuorumConfirmed_def)
qed

interpretation hrd: unwaited "heardMajority now" for now
  by unfold_locales (simp_all add: heardMajority_def)

lemma tick_pulse:
  assumes "e' = onTick cd rnd rnd' now e"
  shows "e_lastAck e' \<in> {e_lastAck e, []}"
    and "e_lastQuorumNanos e' = e_lastQuorumNanos e \<or> e_lastQuorumNanos e' = now \<and> heardMajority now e'"
proof -
  let ?e = "reconcileLeadership e" and ?t = "node_CurrentTerm (e_node (reconcileLeadership e))"
  define x where "x = applyCommitted cd (if IsLeader (e_node ?e)
      then (let rn = snd (AdvanceCommitIndex (LatestIndex (e_log ?e)) (TermAt (e_log ?e)) ?t (e_node ?e))
            in fireCommittedWaiters (CommitIndex rn) ?t (?e\<lparr>e_node := rn\<rparr>))
      else if e_electionTimeout ?e \<le> TimeSinceContact now (e_node ?e) then startPreVote cd rnd rnd' now ?e else ?e)"
  define y where "y = fireApplyWaiters (fireReadWaiters (maybeCompact cd x))"
  define z where "z = (if IsLeader (e_node y) then checkQuorum now y else y)"
  have p: "pulse ?e = pulse e" "e_lastQuorumNanos ?e = e_lastQuorumNanos e" using pls.crews(3) [of e] by (simp_all add: pulse_def)
  have x: "pulse x = pulse e \<or> pulse x = ([], e_lastQuorumNanos e)"
    using poll_pulse [of cd rnd rnd' now ?e] by (auto simp: x_def plsa.applies plsa.node pls.sweeps p Let_def)
  have y: "pulse y = pulse x" by (simp add: y_def pls.sweeps plsa.applies)
  have z: "pulse z = pulse y \<or> pulse z = (e_lastAck y, now) \<and> heardMajority now z"
    using quorum_pulse [of now y] by (auto simp: z_def)
  have e': "e' = (if e_halted x then x else sweepExpiredApplyWaiters now (sweepExpiredReads now (sweepExpiredWaiters now z)))"
    unfolding assms x_def y_def z_def
    by (simp add: onTick_def node_State_def IsLeader_def node_CurrentTerm_def CommitAndApplyBoundary_def Let_def)
  then have "pulse e' = pulse x \<or> pulse e' = pulse z \<and> heardMajority now e' = heardMajority now z"
    by (simp add: pls.sweeps hrd.sweeps)
  with x y z show "e_lastAck e' \<in> {e_lastAck e, []}"
    "e_lastQuorumNanos e' = e_lastQuorumNanos e \<or> e_lastQuorumNanos e' = now \<and> heardMajority now e'"
    by (auto simp: pulse_def)
qed

lemma promoted_pulse:
  assumes "e' = handleVoteResult cd now t p resp e"
  shows "pulse e' = pulse e \<or> (\<exists>ps. pulse e' = (fold (\<lambda>p. mput p \<lparr>pa_startSeq = 0, pa_at = now\<rparr>) ps [], e_lastQuorumNanos e)) \<and>
    \<not> IsLeader (e_node e) \<and> IsLeader (e_node e')"
proof -
  obtain won rn where r: "RecordVoteAndCheckMajority p t (e_node e) = (won, rn)" by force
  show ?thesis
  proof (cases "pulse e' = pulse e")
    case False
    then have w: "Role (e_node e) = Candidate" "e' = engine_becomeLeader cd now t (LatestIndex (e_log e)) (e\<lparr>e_node := rn\<rparr>)"
      using assms r by (auto simp: handleVoteResult_def node_State_def plsa.node Let_def split: prod.splits if_splits)
    then have "fst (BecomeLeader t (LatestIndex (e_log e)) rn)" using False
      by (auto simp: lead_pulse plsa.node split: if_splits)
    with w show ?thesis using lead_pulse [of cd now t "LatestIndex (e_log e)" "e\<lparr>e_node := rn\<rparr>"]
      by (auto simp: IsLeader_def becomeLeader_node BecomeLeader_def Let_def split: if_splits)
  qed simp
qed

lemma pulse_cases:
  obtains (Same) "e_lastAck (engineStep cd a e) \<in> {e_lastAck e, []}" "e_lastQuorumNanos (engineStep cd a e) = e_lastQuorumNanos e"
  | (Tick) rnd rnd' now where "a = Turn rnd rnd' now EvTick" "e_lastAck (engineStep cd a e) \<in> {e_lastAck e, []}"
      "e_lastQuorumNanos (engineStep cd a e) = now" "heardMajority now (engineStep cd a e)"
  | (Ack) rnd rnd' now p sq q where "a = Turn rnd rnd' now (EvAck p sq)"
      "e_lastAck (engineStep cd a e) = mput p \<lparr>pa_startSeq = q, pa_at = now\<rparr> (e_lastAck e)"
      "e_lastQuorumNanos (engineStep cd a e) = e_lastQuorumNanos e"
  | (Lead) ps where "e_lastAck (engineStep cd a e) = fold (\<lambda>p. mput p \<lparr>pa_startSeq = 0, pa_at = stamp a\<rparr>) ps []"
      "e_lastQuorumNanos (engineStep cd a e) = e_lastQuorumNanos e"
      "\<not> IsLeader (e_node e)" "IsLeader (e_node (engineStep cd a e))"
proof (cases "pulse (engineStep cd a e) = pulse e \<or> pulse (engineStep cd a e) = ([], e_lastQuorumNanos e)")
  case True
  then show ?thesis by (intro Same) (auto simp: pulse_def)
next
  case changed: False
  then have run: "\<not> e_halted e" by (auto simp: engineStep_def)
  have "pulse (snd (replicateOnce cd sendA sendS p t e)) = pulse e" for sendA sendS p t
    by (auto simp: pulse_def replicateOnce_def nextRoundSeq_def buildSnapshotRequest_def Let_def split: prod.splits option.splits sum.splits if_splits)
  with changed run obtain rnd rnd' now ev where a: "a = Turn rnd rnd' now ev"
    by (cases a) (auto simp: engineStep_def engine_HandleAppendEntries_def engine_HandleRequestVote_def engine_HandleInstallSnapshot_def
        pulse_def Let_def split: prod.splits)
  with changed run have s: "engineStep cd a e = runTurn cd rnd rnd' now ev e" "\<not> e_done e"
    by (auto simp: engineStep_def runTurn_def)
  have same: "pulse (handleProposal cd now cmd ch e) = pulse e" "pulse (handleStepDown t e) = pulse e"
      "pulse (handlePreVoteResult cd rnd now t p' resp e) = pulse e \<or>
       pulse (handlePreVoteResult cd rnd now t p' resp e) = ([], e_lastQuorumNanos e)" for cmd ch t p' resp
  proof -
    have "pulse (e\<lparr>e_log := rl, e_waiters := ws\<rparr>) = pulse e" "pulse (e\<lparr>e_node := rn, e_preVoteTerm := v\<rparr>) = pulse e" for rl ws rn v
      by (simp_all add: pulse_def)
    moreover have "pulse (e\<lparr>e_preVotes := v, e_preVoteTerm := w\<rparr>) = pulse e" "pulse (e\<lparr>e_preVotes := v\<rparr>) = pulse e"
        "e_lastQuorumNanos (e\<lparr>e_preVotes := v, e_preVoteTerm := w\<rparr>) = e_lastQuorumNanos e" for v w
      by (simp_all add: pulse_def)
    ultimately show "pulse (handleProposal cd now cmd ch e) = pulse e" "pulse (handleStepDown t e) = pulse e"
      "pulse (handlePreVoteResult cd rnd now t p' resp e) = pulse e \<or>
       pulse (handlePreVoteResult cd rnd now t p' resp e) = ([], e_lastQuorumNanos e)"
      using election_pulse [of cd rnd now "e\<lparr>e_preVotes := mput p' True (e_preVotes e), e_preVoteTerm := 0\<rparr>"]
      by (simp_all add: handleProposal_def handleStepDown_def handlePreVoteResult_def pls.reply pls.sends pls.sweeps pls.crews plsa.log
          plsa.node Let_def split: prod.split option.split)
  qed
  from changed same a s run show ?thesis
  proof (cases ev)
    case (EvPreVote t p resp)
    then show ?thesis using changed a s run same(3) [of t p resp] by (simp add: runTurn_def)
  next
    case (EvVote t p resp)
    then show ?thesis using changed a s run promoted_pulse [OF refl, of cd now t p resp e]
      by (auto simp: runTurn_def stamp_def pulse_def intro!: Lead)
  next
    case (EvAck p sq)
    have "pulse (handleAck now p sq e) = (mput p \<lparr>pa_startSeq = max (pa_startSeq (mget0 \<lparr>pa_startSeq = 0, pa_at = 0\<rparr> (e_lastAck e) p)) sq,
        pa_at = now\<rparr> (e_lastAck e), e_lastQuorumNanos e)"
      by (cases "mget0 \<lparr>pa_startSeq = 0, pa_at = 0\<rparr> (e_lastAck e) p") (auto simp: handleAck_def pls.sweeps Let_def max_def, auto simp: pulse_def)
    with EvAck a s run show ?thesis by (intro Ack) (auto simp: runTurn_def pulse_def)
  next
    case EvTick
    then show ?thesis using a s run tick_pulse [OF refl, of cd rnd rnd' now e] Tick Same
      by (simp add: runTurn_def) metis
  qed (auto simp: runTurn_def pls.read pls.apply_wait pls.stops)
qed

lemma pulse_step:
  assumes "e' = engineStep cd a e"
  shows "e_lastQuorumNanos e' = e_lastQuorumNanos e \<or>
      (\<exists>rnd rnd'. a = Turn rnd rnd' (e_lastQuorumNanos e') EvTick) \<and> heardMajority (e_lastQuorumNanos e') e'"
    and "mwf (e_lastAck e) \<Longrightarrow> mwf (e_lastAck e')"
    and "mget (e_lastAck e') p = Some ack \<Longrightarrow> mget (e_lastAck e) p = Some ack \<or> pa_at ack = stamp a \<and> vouches cd a e p"
  unfolding assms
  by (cases rule: pulse_cases [of cd a e];
      auto simp: gm.wf_put gm.lookup_put fold_mput_const vouches_def stamp_def split: if_splits)+

section \<open>Origins\<close>

text \<open>Whatever holds at the end of a run held at its start or came with one of its actions.\<close>

lemma origin:
  assumes "\<And>a e. P (engineStep cd a e) \<Longrightarrow> P e \<or> Q a e" and "P (fold (engineStep cd) as e0)" and "\<not> P e0"
  shows "\<exists>pre a post. as = pre @ a # post \<and> Q a (fold (engineStep cd) pre e0) \<and> P (engineStep cd a (fold (engineStep cd) pre e0))"
  using assms(2)
proof (induction as rule: rev_induct)
  case (snoc a as)
  then show ?case
  proof (cases "P (fold (engineStep cd) as e0)")
    case True
    with snoc.IH obtain pre b post where "as = pre @ b # post" "Q b (fold (engineStep cd) pre e0)"
      "P (engineStep cd b (fold (engineStep cd) pre e0))" by auto
    then show ?thesis by (intro exI [of _ pre] exI [of _ b] exI [of _ "post @ [a]"]) auto
  next
    case False
    with snoc.prems assms(1) have "Q a (fold (engineStep cd) as e0)" by auto
    with snoc.prems show ?thesis by (intro exI [of _ as] exI [of _ a] exI [of _ "[]"]) auto
  qed
qed (use assms(3) in simp)

lemma contact_origin:
  assumes "e0 = NewWithTransport rnd rn rl sm f" and "e = fold (engineStep cd) as e0"
  shows "lastContact (e_node e) = lastContact rn \<or>
    (\<exists>pre a post. as = pre @ a # post \<and> stamp a = lastContact (e_node e) \<and> lifeSign cd a (fold (engineStep cd) pre e0))"
proof (cases "lastContact (e_node e0) = lastContact (e_node e)")
  case True
  then show ?thesis unfolding assms(1)
    by (simp add: NewWithTransport_def resetElectionTimeout_def SetMinElectionTimeout_def split: if_splits)
next
  case False
  have "\<exists>pre a post. as = pre @ a # post \<and> (stamp a = lastContact (e_node e) \<and> lifeSign cd a (fold (engineStep cd) pre e0)) \<and>
      lastContact (e_node (engineStep cd a (fold (engineStep cd) pre e0))) = lastContact (e_node e)"
    by (rule origin [where P = "\<lambda>x. lastContact (e_node x) = lastContact (e_node e)" and
          Q = "\<lambda>a x. stamp a = lastContact (e_node e) \<and> lifeSign cd a x"])
      (use contact_step [of cd] False assms(2) in metis)+
  then show ?thesis by blast
qed

lemma ack_origin:
  assumes "e_lastAck e0 = []" and "mget (e_lastAck (fold (engineStep cd) as e0)) p = Some ack"
  shows "\<exists>pre a post. as = pre @ a # post \<and> stamp a = pa_at ack \<and> vouches cd a (fold (engineStep cd) pre e0) p"
proof -
  have "\<exists>pre a post. as = pre @ a # post \<and> (pa_at ack = stamp a \<and> vouches cd a (fold (engineStep cd) pre e0) p) \<and>
      mget (e_lastAck (engineStep cd a (fold (engineStep cd) pre e0))) p = Some ack"
    by (rule origin [where P = "\<lambda>x. mget (e_lastAck x) p = Some ack" and Q = "\<lambda>a x. pa_at ack = stamp a \<and> vouches cd a x p"])
      (use pulse_step(3) [OF refl] assms in auto)
  then show ?thesis by metis
qed

lemma acks_wf: "mwf (e_lastAck e0) \<Longrightarrow> mwf (e_lastAck (fold (engineStep cd) as e0))"
  by (induction as arbitrary: e0) (auto simp: pulse_step(2))

lemma quorum_origin:
  assumes "e_lastQuorumNanos e0 = 0" and "e_lastAck e0 = []" and "e = fold (engineStep cd) as e0" and "e_lastQuorumNanos e \<noteq> 0"
  shows "\<exists>pre rnd rnd' post ps. as = pre @ Turn rnd rnd' (e_lastQuorumNanos e) EvTick # post \<and>
    distinct ps \<and> ClusterSize (e_node e) div 2 < 1 + int (length ps) \<and>
    (\<forall>p \<in> set ps. \<exists>pre' a' post'. pre @ [Turn rnd rnd' (e_lastQuorumNanos e) EvTick] = pre' @ a' # post' \<and>
       e_lastQuorumNanos e - quorumGrace < stamp a' \<and> vouches cd a' (fold (engineStep cd) pre' e0) p)"
proof -
  let ?t = "e_lastQuorumNanos e"
  have "\<exists>pre a post. as = pre @ a # post \<and>
      ((\<exists>rnd rnd'. a = Turn rnd rnd' ?t EvTick) \<and> heardMajority ?t (engineStep cd a (fold (engineStep cd) pre e0))) \<and>
      e_lastQuorumNanos (engineStep cd a (fold (engineStep cd) pre e0)) = ?t"
    by (rule origin [where P = "\<lambda>x. e_lastQuorumNanos x = ?t" and
          Q = "\<lambda>a x. (\<exists>rnd rnd'. a = Turn rnd rnd' ?t EvTick) \<and> heardMajority ?t (engineStep cd a x)"])
      (use pulse_step(1) [OF refl] assms in \<open>metis+\<close>)
  then obtain pre rnd rnd' post where as: "as = pre @ Turn rnd rnd' ?t EvTick # post"
    and h: "heardMajority ?t (fold (engineStep cd) (pre @ [Turn rnd rnd' ?t EvTick]) e0)" (is "heardMajority _ ?e1") by auto
  let ?fresh = "\<lambda>(p :: int, ack). ?t - quorumGrace < pa_at ack"
  let ?ps = "map fst (filter ?fresh (e_lastAck ?e1))"
  have wf: "mwf (e_lastAck ?e1)" by (rule acks_wf) (simp add: assms(2))
  have "e = fold (engineStep cd) post ?e1" by (rule trans [OF assms(3)]) (subst as, simp)
  moreover have "orderly (e_node ?e1) (e_node (fold (engineStep cd) post ?e1))"
    by (rule ord.run) (simp add: countable_vote_def split: action.split event.split)
  ultimately have "orderly (e_node ?e1) (e_node e)" by simp
  then have "ClusterSize (e_node e) = ClusterSize (e_node ?e1)" by (simp add: orderly_def onward_def ClusterSize_def)
  moreover have "distinct ?ps" using wf by (simp add: mwf_def mkeys_def distinct_map_filter)
  moreover have "\<exists>pre' a' post'. pre @ [Turn rnd rnd' ?t EvTick] = pre' @ a' # post' \<and>
       ?t - quorumGrace < stamp a' \<and> vouches cd a' (fold (engineStep cd) pre' e0) p" if "p \<in> set ?ps" for p
  proof -
    from that obtain ack where k: "(p, ack) \<in> set (e_lastAck ?e1)" "?t - quorumGrace < pa_at ack" by auto
    then have "mget (e_lastAck ?e1) p = Some ack" using mwf_members [OF wf] by blast
    from ack_origin [OF assms(2) this] k(2) show ?thesis by metis
  qed
  ultimately show ?thesis using as h
    by (intro exI [of _ pre] exI [of _ rnd] exI [of _ rnd'] exI [of _ post] exI [of _ ?ps]) (auto simp: heardMajority_def)
qed

section \<open>Properties\<close>


section \<open>A run\<close>

text \<open>A server of two is promoted by the vote of the other, and half a second later there is a tick; no
  round has been acknowledged.\<close>

definition pairRun :: "action list" where
  "pairRun = [Turn 0 0 1000000000 EvTick, Turn 0 0 1000000000 (EvPreVote 1 2 \<lparr>pvr_Term = 0, pvr_VoteGranted = True\<rparr>),
     Turn 0 0 1000000000 (EvVote 1 2 \<lparr>rvr_Term = 1, rvr_VoteGranted = True\<rparr>), Turn 0 0 1500000000 EvTick]"

definition pairLater :: Engine where
  "pairLater = engineStep demoCodecs (Turn 0 0 1500000000 EvTick) pairLeader"

lemma pair_run: "fold (engineStep demoCodecs) pairRun pairEngine = pairLater"
  by (simp add: pairRun_def pairLater_def pairLeader_def pair_polling pair_campaign)

lemma pair_quorum_index: "QuorumIndex \<lparr>Voters = [(1, ''a''), (2, ''b'')], OldVoters = [], Learners = []\<rparr> [(2, 0), (1, 1)] = 0"
  by code_simp

lemma pair_promoted: "pairLeader = pairCampaign\<lparr>e_node := pairNode\<lparr>Role := Leader, LeaderID := 1, votesFrom := Some [(1, True), (2, True)], 
  NextIndex := [(2, 1)], MatchIndex := [(2, 0)]\<rparr>,
  e_lastAck := [(2, \<lparr>pa_startSeq = 0, pa_at = 1000000000\<rparr>)], e_noopIndex := 1, e_log := demoWhole [\<lparr>Index = 1, Term = 1, Command = []\<rparr>],
  e_replicators := [(2, 1)], e_replicatorsTerm := 1\<rparr>"
  using demoWhole_append [of "[]" 1 "[]"]
  by (simp add: pairLeader_def engineStep_def runTurn_def handleVoteResult_def pairPolling_def pairCampaign_def pairNode_def pair_engine
      node_State_def node_CurrentTerm_def RecordVoteAndCheckMajority_def mput_def pair_quorum pair_last engine_becomeLeader_def BecomeLeader_def pair_peers
      resetLeadershipEvidence_def startReplicators_def currentPeers_def node_Peers_def mkeys_def demoCodecs_def NextIndexFor_def mget0_def Let_def)

lemma pair_later:
  "pairLater = pairLeader\<lparr>e_lastQuorumNanos := 1500000000\<rparr>"
proof -
  have n: "\<not> NeedsCompaction x 0" for x by (simp add: NeedsCompaction_def Let_def)
  have l: "LatestIndex (demoWhole [\<lparr>Index = 1, Term = 1, Command = []\<rparr>]) = 1" by (simp add: LatestIndex_def lastIndexLocked_def demoWhole_def)
  show ?thesis
    by (simp add: pairLater_def pair_promoted pairCampaign_def pairPolling_def pairNode_def engineStep_def runTurn_def onTick_def pair_engine IsLeader_def node_CurrentTerm_def
      node_State_def reconcileLeadership_def failAllReads_def AdvanceCommitIndex_def currentPeers_def node_Peers_def pair_peers pair_quorum_index
      mput_def n l CommitAndApplyBoundary_def mkeys_def applyCommitted_def applyLoop.simps demoCodecs_def Let_def send_peer_def NodeID_def
      maybeCompact_def fireReadWaiters_def fireApplyWaiters_def checkQuorum_def noteQuorumConfirmed_def quorumGrace_def electionTimeoutMax_def ClusterSize_def
      sweepExpiredWaiters_def sweepExpiredReads_def fireCommittedWaiters_def sweepExpiredApplyWaiters_def)
qed

lemma pair_later_node:
  "IsLeader (e_node pairLater)" "currentPeers pairLater = [(2, ''b'')]" "CommitIndex (e_node pairLater) = 0" "LastApplied (e_node pairLater) = 0"
  by (simp_all add: pair_later pair_promoted pairCampaign_def pairPolling_def pairNode_def pair_engine IsLeader_def currentPeers_def node_Peers_def pair_peers)

lemma pair_bounded: "boundedRead 1550000000 100000000 TimedOut TimedOut pairLater = None"
  using pair_later_node by (simp add: boundedRead_def staleness_def CommitAndApplyBoundary_def awaitApplied_def pair_later)


section \<open>What the bound does not say\<close>

text \<open>
  The leader of the run is current to within 50 milliseconds by its own account, 550
  milliseconds after its promotion and with no round acknowledged.
\<close>

lemma unconfirmed_leader_current:
  "staleness 1550000000 pairLater = 50000000" "e_lastAck pairLater = [(2, \<lparr>pa_startSeq = 0, pa_at = 1000000000\<rparr>)]"
  "boundedRead 1550000000 100000000 TimedOut TimedOut pairLater = None"
  using pair_later_node(1,2) pair_bounded
  by (simp_all add: staleness_def pair_later) (simp add: pair_promoted)

text \<open>A server that has just started, with peers and no contact to any, is current.\<close>

lemma started_server_current:
  assumes "NewRaftNode now i cfg st Follower = Inr rn" and "e = NewWithTransport rnd rn rl sm f"
  shows "staleness now e = 0" and "0 < m \<Longrightarrow> boundedRead now m TimedOut TimedOut e = None"
proof -
  have "lastContact rn = now" "CommitIndex rn = 0" "LastApplied rn = 0" "Role rn = Follower"
    using assms(1) by (auto simp: NewRaftNode_def loadPersistentState_def Let_def split: option.splits sum.splits prod.splits if_splits)
  then show s: "staleness now e = 0" unfolding assms(2)
    by (simp add: staleness_def TimeSinceContact_def NewWithTransport_def resetElectionTimeout_def SetMinElectionTimeout_def IsLeader_def)
  with \<open>CommitIndex rn = 0\<close> \<open>LastApplied rn = 0\<close> show "0 < m \<Longrightarrow> boundedRead now m TimedOut TimedOut e = None" unfolding assms(2)
    by (simp add: boundedRead_def awaitApplied_def CommitAndApplyBoundary_def NewWithTransport_def resetElectionTimeout_def SetMinElectionTimeout_def)
qed

text \<open>A follower that refuses the entries of its leader, because its log does not reach them, is current.\<close>

lemma refusing_follower_current:
  assumes "engine_HandleAppendEntries cd now req e = (resp, e')" and "aer_Term resp = ae_Term req" and "\<not> aer_Success resp"
    and "node_CurrentTerm (e_node e) \<le> ae_Term req"
  shows "staleness now e' = 0"
proof -
  obtain rl rn where h: "HandleAppendEntries (encEntry cd) now req (e_log e) (e_node e) = (resp, rl, rn)" "e_node e' = rn"
    using assms(1) by (auto simp: engine_HandleAppendEntries_def split: prod.splits)
  have "lastContact rn = now \<and> Role rn = Follower"
    using h(1)
  proof (cases rule: append_entries_branches)
    case Unsaved
    with assms(2) show ?thesis
      by (auto simp: acceptLeader_def becomeFollowerLocked_def commitPersistentLocked_def Let_def split: if_splits)
  next
    case (Refused r rn1)
    then show ?thesis
      by (auto simp: acceptLeader_def becomeFollowerLocked_def Let_def split: if_splits prod.splits bool.splits)
  qed (use assms in \<open>auto simp: node_CurrentTerm_def\<close>)
  with h(2) show ?thesis by (simp add: staleness_def TimeSinceContact_def IsLeader_def)
qed

end
