(* ===== verification/Engine_Progress.thy ===== *)
theory Engine_Progress
  imports Engine_Replicas Engine_Staleness
begin

text \<open>
  Progress: a leader that reaches a quorum completes its writes.  From every state of the
  cluster, the calls of its replicators and one tick of its loop commit and acknowledge what it
  has in its log, whatever happened before and however far the logs of the others have
  diverged.
\<close>

section \<open>A leader tracks its peers\<close>

definition tracks :: "RaftNode \<Rightarrow> bool" where
  "tracks rn \<longleftrightarrow> (Role rn = Leader \<longrightarrow> (\<forall>p \<in> set (mkeys (node_Peers rn)). mget (MatchIndex rn) p \<noteq> None))"

definition keepsTrack :: "RaftNode \<Rightarrow> RaftNode \<Rightarrow> bool" where
  "keepsTrack rn rn' \<longleftrightarrow> (tracks rn \<longrightarrow> tracks rn')"

lemma track_follow: "Role rn' \<noteq> Leader \<Longrightarrow> keepsTrack rn rn'"
  by (simp add: keepsTrack_def tracks_def)

lemma track_same: "Role rn' = Role rn \<Longrightarrow> MatchIndex rn' = MatchIndex rn \<Longrightarrow> config rn' = config rn \<Longrightarrow> nodeID rn' = nodeID rn \<Longrightarrow> keepsTrack rn rn'"
  by (simp add: keepsTrack_def tracks_def node_Peers_def)

lemma track_become: "BecomeFollower t l rn = (b, rn') \<Longrightarrow> keepsTrack rn rn'"
  by (cases b) (auto simp: BecomeFollower_def becomeFollowerLocked_def Let_def dest!: commit_fields split: prod.splits bool.splits if_splits
      intro: track_follow track_same)

lemma track_accept: "acceptLeader t l rn = (b, rn') \<Longrightarrow> keepsTrack rn rn'"
  using track_become [of t l rn b rn'] by (auto simp: acceptLeader_def BecomeFollower_def intro: track_same split: if_splits)

lemma track_progress: "keepsTrack rn (UpdatePeerProgress p i rn)" "keepsTrack rn (BacktrackNextIndex p i rn)"
  by (auto simp: keepsTrack_def tracks_def UpdatePeerProgress_def BacktrackNextIndex_def node_Peers_def gm.lookup_put Let_def)

lemma track_lead: "BecomeLeader t i rn = (b, rn') \<Longrightarrow> keepsTrack rn rn'"
  by (auto simp: BecomeLeader_def keepsTrack_def tracks_def node_Peers_def fold_mput_const Let_def split: if_splits)

lemma track_candidate: "BecomeCandidate now rn = (r, rn') \<Longrightarrow> keepsTrack rn rn'"
  by (auto simp: BecomeCandidate_def Let_def dest!: commit_fields split: prod.splits bool.splits if_splits intro: track_follow track_same)

lemma track_trans: "keepsTrack rn rn1 \<Longrightarrow> keepsTrack rn1 rn2 \<Longrightarrow> keepsTrack rn rn2"
  by (simp add: keepsTrack_def)

lemma track_tally: "RecordVoteAndCheckMajority p t rn = (won, rn') \<Longrightarrow> keepsTrack rn rn'"
  by (auto simp: RecordVoteAndCheckMajority_def Let_def intro!: track_same split: if_splits)

lemma track_calls:
  "HandleAppendEntries m now req rl rn = (resp, rl', rn') \<Longrightarrow> keepsTrack rn rn'"
  "HandleInstallSnapshot m restore persist now sreq rl w rn = (sresp, rl'', w', rn'') \<Longrightarrow> keepsTrack rn rn''"
  "HandleRequestVote now vreq lastLog rn = (vresp, rn3) \<Longrightarrow> keepsTrack rn rn3"
proof -
  have s: "keepsTrack rn1 (rn1\<lparr>lastContact := x\<rparr>)" "keepsTrack rn1 (setFollowerCommitIndexLocked lc li (rn1\<lparr>lastContact := x\<rparr>))"
    "keepsTrack rn1 (seedFromSnapshotLocked si (rn1\<lparr>lastContact := x\<rparr>))" for rn1 x lc li si
    by (auto simp: setFollowerCommitIndexLocked_def seedFromSnapshotLocked_def Let_def intro!: track_same)
  show "HandleAppendEntries m now req rl rn = (resp, rl', rn') \<Longrightarrow> keepsTrack rn rn'"
    by (cases rule: append_entries_branches, assumption) (auto dest: track_accept intro: track_trans s track_same)
  show "HandleInstallSnapshot m restore persist now sreq rl w rn = (sresp, rl'', w', rn'') \<Longrightarrow> keepsTrack rn rn''"
    by (auto simp: HandleInstallSnapshot_def Let_def dest!: track_accept split: prod.splits bool.splits if_splits
        intro: track_trans s track_same)
  show "HandleRequestVote now vreq lastLog rn = (vresp, rn3) \<Longrightarrow> keepsTrack rn rn3"
    by (auto simp: HandleRequestVote_def Let_def dest!: commit_fields split: prod.splits bool.splits if_splits intro: track_follow track_same)
qed

interpretation trk: node_steps keepsTrack "\<lambda>_ _. True"
proof unfold_locales
  fix rn rn1 rn2 assume "keepsTrack rn rn1" "keepsTrack rn1 rn2"
  then show "keepsTrack rn rn2" by (rule track_trans)
next
  fix now rn t rn1 i b rn2 assume "BecomeCandidate now rn = (Some t, rn1)" "BecomeLeader t i rn1 = (b, rn2)"
  then show "keepsTrack rn rn2" using track_candidate track_lead track_trans by blast
next
  fix p t rn rn1 i b rn2 assume "RecordVoteAndCheckMajority p t rn = (True, rn1)" "BecomeLeader t i rn1 = (b, rn2)"
  then show "keepsTrack rn rn2" using track_tally track_lead track_trans by blast
qed (use track_become track_calls track_candidate track_tally track_progress in
    \<open>auto simp: AdvanceCommitIndex_def Let_def intro: track_same split: if_splits\<close>)

lemma tracks_step:
  assumes "swarm_step cd um c sub s s'" and "tracks (e_node (sw_engine s j))"
  shows "tracks (e_node (sw_engine s' j))"
  using assms
proof cases
  case (turn i ev rnd rnd' now e')
  have "keepsTrack (e_node (sw_engine s i)) (e_node e')" unfolding turn
    by (rule trk.step) (simp add: countable_vote_def split: event.split)
  then show ?thesis using turn assms(2) by (auto simp: keepsTrack_def)
next
  case (restart p v now os rn b rl rnd f)
  then have "Role rn = Follower" by (auto simp: restartNode_def NewRaftNode_def loadPersistentState_def Let_def split: option.splits sum.splits prod.splits if_splits)
  then show ?thesis using restart assms(2)
    by (auto simp: tracks_def NewWithTransport_def resetElectionTimeout_def SetMinElectionTimeout_def)
next
  case (reply p req resp i t rn)
  have "keepsTrack (e_node (sw_engine s i)) rn"
    using reply(6) track_progress by (auto simp: appendReply_def track_same split: if_splits)
  then show ?thesis using reply assms(2) by (auto simp: keepsTrack_def)
qed (use assms(2) in \<open>auto simp: nextRoundSeq_def engine_HandleAppendEntries_def engine_HandleRequestVote_def
    dest!: track_calls [unfolded keepsTrack_def] split: prod.splits if_splits\<close>)

lemma tracks_run:
  "(swarm_step cd um c sub)\<^sup>*\<^sup>* s s' \<Longrightarrow> \<forall>j. tracks (e_node (sw_engine s j)) \<Longrightarrow> \<forall>j. tracks (e_node (sw_engine s' j))"
  by (induction rule: rtranclp_induct) (blast intro: tracks_step)+

section \<open>What a leader knows\<close>

text \<open>The entries of a leader's term end its log, and it credits nobody with more.\<close>

lemma leader_facts:
  assumes ok: "cfg_ok cfg" and cov: "covers cd um cfg s n" and lead: "IsLeader (e_node (sw_engine s i))"
  defines "rn \<equiv> e_node (sw_engine s i)" and "rl \<equiv> e_log (sw_engine s i)"
  shows "nodeID rn = i" and "config rn = cfg" and "mwf (MatchIndex rn)"
    and "mget (MatchIndex rn) p = Some k \<Longrightarrow> k \<le> LatestIndex rl"
    and "NextIndexFor rn p \<le> nextIndex rl"
    and "GetEntry rl j = Some en \<Longrightarrow> Term en = node_CurrentTerm rn \<Longrightarrow> j \<le> LatestIndex rl \<and> 0 < LatestIndex rl \<and> TermAt rl (LatestIndex rl) = node_CurrentTerm rn"
proof -
  have n: "net_reachable (encEntry cd) um cfg n" "peer n i = rn" "rlog n i = rl" using cov by (simp_all add: covers_def rn_def rl_def)
  show "nodeID rn = i" "config rn = cfg" using net_elections [OF ok n(1)] n(2) by (auto simp: election_inv_def nodes_ok_def)
  obtain a where a: "sim (encEntry cd) um cfg n a" "protocol_inv (quorum_of cfg) a" using net_simulated [OF ok n(1)] .
  note i = protocol_invD [OF a(2)]
  have w: "whole (encEntry cd) um rl" using reachable_whole [OF ok n(1), of i] n(3) by simp
  then have wf: "log_wf rl" "lastIncludedIndex rl = 0" by (auto simp: whole_def)
  have ent: "entries a i = cache rl" "terms a i = node_CurrentTerm rn" using simD(1) [OF a(1)] n by (auto simp: logs_sim_def node_CurrentTerm_def)
  have h: "cache rl = history a (node_CurrentTerm rn)" "progress_ok a (node_CurrentTerm rn) rn" "node_CurrentTerm rn \<in> Raft_Protocol.elected a"
    using simD(2) [OF a(1)] lead n(2) i(3) ent by (auto simp: leaders_sim_def IsLeader_def rn_def stored_ok_def) metis+
  have last: "LatestIndex rl = int (length (cache rl))" "nextIndex rl = int (length (cache rl)) + 1"
    using wf log_wf_last [OF wf(1)] log_wfD [OF wf(1)] by (simp_all add: LatestIndex_def log_wf_def)
  show "mwf (MatchIndex rn)" using h(2) by (simp add: progress_ok_def)
  show "k \<le> LatestIndex rl" if k: "mget (MatchIndex rn) p = Some k"
  proof -
    have "credited a p (node_CurrentTerm rn) k" using h(2) k by (auto simp: progress_ok_def)
    moreover have "prefix P (cache rl)" if "(p, node_CurrentTerm rn, P) \<in> stored a" for P using that i(3) h(1) by (auto simp: stored_ok_def)
    ultimately show ?thesis using prefix_length_le last(1) unfolding credited_def by fastforce
  qed
  show "NextIndexFor rn p \<le> nextIndex rl"
    using h(1,2) last(2) by (cases "mget (NextIndex rn) p") (auto simp: progress_ok_def NextIndexFor_def mget0_mget Let_def)
  assume g: "GetEntry rl j = Some en" "Term en = node_CurrentTerm rn"
  have j: "1 \<le> j" "j \<le> int (length (cache rl))" "en = cache rl ! nat (j - 1)"
    using sim_entry [OF a(1), of i j] g(1) n(3) ent(1) by (auto split: if_splits)
  have ne: "cache rl \<noteq> []" using j by auto
  have "sorted (map Term (cache rl))" "\<forall>e \<in> set (cache rl). Term e \<le> node_CurrentTerm rn"
    using i(1) h by (auto simp: history_ok_def)
  moreover have k: "nat (j - 1) \<le> length (cache rl) - 1" "length (cache rl) - 1 < length (cache rl)" "nat (j - 1) < length (cache rl)"
    using j by auto
  ultimately have t: "Term (last (cache rl)) = node_CurrentTerm rn"
    using sorted_nth_mono [of "map Term (cache rl)" "nat (j - 1)" "length (cache rl) - 1"] g(2) j(3) ne
    by (simp add: last_conv_nth antisym)
  have "getEntryLocked rl (LatestIndex rl) = Some (last (cache rl))"
    using sim_entry [OF a(1), of i "LatestIndex rl"] n(3) ent(1) ne last(1) by (simp add: GetEntry_def last_conv_nth Suc_le_eq nat_diff_distrib')
  then show "j \<le> LatestIndex rl \<and> 0 < LatestIndex rl \<and> TermAt rl (LatestIndex rl) = node_CurrentTerm rn"
    using j last ne t wf(2) by (auto simp: TermAt_def)
qed

section \<open>Exchanges\<close>

text \<open>What the calls of its replicators do to a leader.\<close>

definition advances :: "Engine \<Rightarrow> Engine \<Rightarrow> bool" where
  "advances e e' \<longleftrightarrow> (\<exists>q ni mi. e' = e\<lparr>e_roundSeq := q, e_node := (e_node e)\<lparr>NextIndex := ni, MatchIndex := mi\<rparr>\<rparr> \<and>
     (\<forall>p. mget0 0 (MatchIndex (e_node e)) p \<le> mget0 0 mi p))"

lemma advances_refl: "advances e e"
  unfolding advances_def by (rule exI [of _ "e_roundSeq e"], rule exI [of _ "NextIndex (e_node e)"], rule exI [of _ "MatchIndex (e_node e)"]) simp

lemma advances_trans: "advances e e1 \<Longrightarrow> advances e1 e2 \<Longrightarrow> advances e e2"
proof -
  assume a: "advances e e1" "advances e1 e2"
  obtain q ni mi where 1: "e1 = e\<lparr>e_roundSeq := q, e_node := (e_node e)\<lparr>NextIndex := ni, MatchIndex := mi\<rparr>\<rparr>"
      "\<forall>p. mget0 0 (MatchIndex (e_node e)) p \<le> mget0 0 mi p" using a(1) unfolding advances_def by blast
  obtain q' ni' mi' where 2: "e2 = e1\<lparr>e_roundSeq := q', e_node := (e_node e1)\<lparr>NextIndex := ni', MatchIndex := mi'\<rparr>\<rparr>"
      "\<forall>p. mget0 0 (MatchIndex (e_node e1)) p \<le> mget0 0 mi' p" using a(2) unfolding advances_def by blast
  have "mget0 0 (MatchIndex (e_node e)) p \<le> mget0 0 mi' p" for p
    by (rule order_trans [of _ "mget0 0 mi p"]) (use 1 2 in simp_all)
  moreover have "e2 = e\<lparr>e_roundSeq := q', e_node := (e_node e)\<lparr>NextIndex := ni', MatchIndex := mi'\<rparr>\<rparr>"
    using 1(1) 2(1) by simp
  ultimately show "advances e e2" unfolding advances_def by blast
qed

lemma advances_keeps:
  assumes "advances e e'"
  shows "e_log e' = e_log e" "e_waiters e' = e_waiters e" "e_halted e' = e_halted e" "e_done e' = e_done e" "e_replies e' = e_replies e"
    "Role (e_node e') = Role (e_node e)" "node_CurrentTerm (e_node e') = node_CurrentTerm (e_node e)" "CommitIndex (e_node e') = CommitIndex (e_node e)"
    "node_Peers (e_node e') = node_Peers (e_node e)"
    "mget0 0 (MatchIndex (e_node e)) p \<le> mget0 0 (MatchIndex (e_node e')) p"
  using assms by (auto simp: advances_def node_CurrentTerm_def node_Peers_def)

lemma reply_advances: "advances e (e\<lparr>e_roundSeq := q, e_node := snd (appendReply t p resp (e_node e))\<rparr>)"
proof -
  have "\<exists>ni mi. snd (appendReply t p resp rn) = rn\<lparr>NextIndex := ni, MatchIndex := mi\<rparr> \<and> (\<forall>v. mget0 0 (MatchIndex rn) v \<le> mget0 0 mi v)" for rn
    unfolding appendReply_def UpdatePeerProgress_def BacktrackNextIndex_def Let_def
    by (cases rn) auto
  then obtain ni mi where "snd (appendReply t p resp (e_node e)) = (e_node e)\<lparr>NextIndex := ni, MatchIndex := mi\<rparr>"
      "\<forall>v. mget0 0 (MatchIndex (e_node e)) v \<le> mget0 0 mi v" by blast
  then show ?thesis unfolding advances_def by (intro exI [of _ q] exI [of _ ni] exI [of _ mi]) simp
qed

text \<open>A call to a peer that is up, its answer, and what the leader makes of it, as steps of the cluster.\<close>

lemma exchange_run:
  assumes i: "IsLeader (e_node (sw_engine s i))" "\<not> e_halted (sw_engine s i)" "nodeID (e_node (sw_engine s i)) = i"
    and v: "\<not> e_halted (sw_engine s v)" "i \<noteq> v"
    and x: "exchange (encEntry cd) now v (e_log (sw_engine s i)) (e_node (sw_engine s i)) (e_log (sw_engine s v)) (e_node (sw_engine s v)) =
      (resp, rn', frl', frn')"
  shows "\<exists>s'. (swarm_step cd um c sub)\<^sup>*\<^sup>* s s' \<and> sw_engine s' = (sw_engine s)
    (i := (sw_engine s i)\<lparr>e_roundSeq := e_roundSeq (sw_engine s i) + 1, e_node := rn'\<rparr>,
     v := (sw_engine s v)\<lparr>e_log := frl', e_node := frn'\<rparr>)"
proof -
  let ?e = "sw_engine s i" and ?f = "sw_engine s v"
  let ?req = "appendRequest (e_log ?e) v (e_node ?e)"
  let ?e1 = "?e\<lparr>e_roundSeq := e_roundSeq ?e + 1\<rparr>" and ?f1 = "?f\<lparr>e_log := frl', e_node := frn'\<rparr>"
  let ?s1 = "s\<lparr>sw_engine := (sw_engine s)(i := ?e1), sw_sent := insert ?req (sw_sent s)\<rparr>"
  let ?s2 = "?s1\<lparr>sw_engine := (sw_engine ?s1)(v := ?f1), sw_answers := insert (v, ?req, resp) (sw_answers ?s1)\<rparr>"
  let ?s3 = "?s2\<lparr>sw_engine := (sw_engine ?s2)(i := (sw_engine ?s2 i)\<lparr>e_node := rn'\<rparr>)\<rparr>"
  have h: "HandleAppendEntries (encEntry cd) now ?req (e_log ?f) (e_node ?f) = (resp, frl', frn')"
      "rn' = snd (appendReply (CurrentTerm (persistent (e_node ?e))) v resp (e_node ?e))"
    using x by (auto simp: exchange_def node_State_def split: prod.splits)
  have 1: "swarm_step cd um c sub s ?s1" using swarm_step.send [OF i(2,1), of cd um c sub v] by (simp add: nextRoundSeq_def)
  have 2: "swarm_step cd um c sub ?s1 ?s2"
    by (rule swarm_step.receive [of ?req _ v cd now]) (use v h(1) in \<open>simp_all add: engine_HandleAppendEntries_def\<close>)
  obtain t where t: "appendReply (CurrentTerm (persistent (e_node ?e))) v resp (e_node ?e) = (t, rn')" using h(2) by (metis prod.collapse)
  have 3: "swarm_step cd um c sub ?s2 ?s3"
    by (rule swarm_step.reply [of v ?req resp _ i t]) (use i v t in \<open>simp_all add: request_fields node_CurrentTerm_def\<close>)
  have "sw_engine ?s3 = (sw_engine s)(i := ?e\<lparr>e_roundSeq := e_roundSeq ?e + 1, e_node := rn'\<rparr>, v := ?f1)"
    using v(2) by (simp add: fun_eq_iff)
  moreover have "(swarm_step cd um c sub)\<^sup>*\<^sup>* s ?s3" using 1 2 3 by (meson rtranclp.rtrancl_into_rtrancl rtranclp.rtrancl_refl)
  ultimately show ?thesis by blast
qed

text \<open>A server a leader can bring up to date: it runs, its disk works, and it knows of no later term.\<close>

definition follows :: "Engine \<Rightarrow> Engine \<Rightarrow> bool" where
  "follows e f \<longleftrightarrow> \<not> e_halted f \<and> saves (store (e_node f)) = [] \<and> node_CurrentTerm (e_node f) \<le> node_CurrentTerm (e_node e)"

lemma catches_up:
  assumes ok: "cfg_ok cfg" and "sound cd um cfg c sub s n" and "\<forall>j. tracks (e_node (sw_engine s j))"
    and "IsLeader (e_node (sw_engine s i))" and "\<not> e_halted (sw_engine s i)" and "v \<in> set (mkeys (node_Peers (e_node (sw_engine s i))))"
    and "i \<noteq> v" and "follows (sw_engine s i) (sw_engine s v)" and "NextIndexFor (e_node (sw_engine s i)) v \<le> int k"
  shows "\<exists>s'. (swarm_step cd um c sub)\<^sup>*\<^sup>* s s' \<and> advances (sw_engine s i) (sw_engine s' i) \<and>
    LatestIndex (e_log (sw_engine s i)) \<le> mget0 0 (MatchIndex (e_node (sw_engine s' i))) v \<and>
    (\<forall>j. j \<noteq> i \<and> j \<noteq> v \<longrightarrow> sw_engine s' j = sw_engine s j)"
  using assms(2-9)
proof (induction k arbitrary: s n)
  case 0
  then show ?case using NextIndexFor_pos [of "e_node (sw_engine s i)" v] by simp
next
  case (Suc k)
  let ?e = "sw_engine s i" and ?f = "sw_engine s v"
  obtain resp rn' frl' frn' where x: "exchange (encEntry cd) 0 v (e_log ?e) (e_node ?e) (e_log ?f) (e_node ?f) = (resp, rn', frl', frn')"
    by (metis prod_cases4)
  have cov: "covers cd um cfg s n" using Suc.prems(1) by (simp add: sound_def)
  note lf = leader_facts [OF ok cov Suc.prems(3)]
  have w: "whole (encEntry cd) um (e_log (sw_engine s j))" for j using reachable_whole [OF ok, of _ um n j] cov by (simp add: covers_def)
  then have w': "log_wf (e_log (sw_engine s j))" "wal_ok (encEntry cd) (e_log (sw_engine s j))" "script (wal (e_log (sw_engine s j))) = []"
    "lastIncludedIndex (e_log (sw_engine s j)) = 0" for j by (simp_all add: whole_def)
  obtain s1 where s1: "(swarm_step cd um c sub)\<^sup>*\<^sup>* s s1" "sw_engine s1 = (sw_engine s)
    (i := ?e\<lparr>e_roundSeq := e_roundSeq ?e + 1, e_node := rn'\<rparr>, v := ?f\<lparr>e_log := frl', e_node := frn'\<rparr>)"
    using exchange_run [OF Suc.prems(3,4) lf(1) _ Suc.prems(6) x, of um c sub] Suc.prems(7) by (auto simp: follows_def)
  have rn': "rn' = snd (appendReply (CurrentTerm (persistent (e_node ?e))) v resp (e_node ?e))"
    using x by (auto simp: exchange_def node_State_def split: prod.splits)
  have adv: "advances ?e (sw_engine s1 i)" using s1(2) Suc.prems(6) reply_advances by (simp add: rn')
  show ?case
  proof (cases "aer_Success resp")
    case True
    have n: "lastIncludedIndex (e_log ?e) < NextIndexFor (e_node ?e) v" "lastIncludedIndex (e_log ?f) < NextIndexFor (e_node ?e) v"
      using w'(4) NextIndexFor_pos [of "e_node ?e" v] by simp_all
    have t: "aer_Term resp \<le> CurrentTerm (persistent (e_node ?e))"
    proof -
      have "HandleAppendEntries (encEntry cd) 0 (appendRequest (e_log ?e) v (e_node ?e)) (e_log ?f) (e_node ?f) = (resp, frl', frn')"
        using x by (auto simp: exchange_def split: prod.splits)
      then show ?thesis by (cases rule: append_entries_branches) (use True in \<open>auto simp: request_fields\<close>)
    qed
    have "rn' = UpdatePeerProgress v (LatestIndex (e_log ?e)) (e_node ?e)"
      by (rule exchange_success(5) [OF w'(1) w'(1,2) n lf(5) x True t])
    moreover have "mget (MatchIndex (e_node ?e)) v \<noteq> None" using Suc.prems(2,3,5) by (auto simp: tracks_def IsLeader_def)
    ultimately have "LatestIndex (e_log ?e) \<le> mget0 0 (MatchIndex rn') v" by (simp add: UpdatePeerProgress_def Let_def)
    then show ?thesis using s1 adv Suc.prems(6) by (intro exI [of _ s1]) auto
  next
    case False
    have f: "saves (store (e_node ?f)) = []" "CurrentTerm (persistent (e_node ?f)) \<le> CurrentTerm (persistent (e_node ?e))"
      using Suc.prems(7) by (auto simp: follows_def node_CurrentTerm_def)
    note pr = exchange_progress [OF w'(1) w'(1-3) w'(4) w'(4) f x False]
    obtain n1 where n1: "sound cd um cfg c sub s1 n1" using sound_run [OF ok s1(1) Suc.prems(1)] by blast
    have e1: "sw_engine s1 i = ?e\<lparr>e_roundSeq := e_roundSeq ?e + 1, e_node := rn'\<rparr>" "sw_engine s1 v = ?f\<lparr>e_log := frl', e_node := frn'\<rparr>"
      using s1(2) Suc.prems(6) by simp_all
    note k = advances_keeps [OF adv]
    have "NextIndexFor (e_node (sw_engine s1 i)) v \<le> int k"
      using backtrack_lowers [OF pr(3), of "aer_ConflictIndex resp"] pr(2) Suc.prems(8) e1 by simp
    moreover have "follows (sw_engine s1 i) (sw_engine s1 v)"
      using pr(4,5) Suc.prems(7) k(7) e1 by (simp add: follows_def node_CurrentTerm_def)
    ultimately obtain s' where s': "(swarm_step cd um c sub)\<^sup>*\<^sup>* s1 s'" "advances (sw_engine s1 i) (sw_engine s' i)"
        "LatestIndex (e_log (sw_engine s1 i)) \<le> mget0 0 (MatchIndex (e_node (sw_engine s' i))) v"
        "\<forall>j. j \<noteq> i \<and> j \<noteq> v \<longrightarrow> sw_engine s' j = sw_engine s1 j"
      using Suc.IH [OF n1 tracks_run [OF s1(1) Suc.prems(2)]] Suc.prems(3-6) k by (auto simp: IsLeader_def)
    have "(swarm_step cd um c sub)\<^sup>*\<^sup>* s s'" using s1(1) s'(1) by (rule rtranclp_trans)
    then show ?thesis using s' advances_trans [OF adv s'(2)] k(1) s1(2) by (intro exI [of _ s']) auto
  qed
qed

lemma all_catch_up:
  assumes ok: "cfg_ok cfg" and "sound cd um cfg c sub s n" and "\<forall>j. tracks (e_node (sw_engine s j))"
    and "IsLeader (e_node (sw_engine s i))" and "\<not> e_halted (sw_engine s i)" and "distinct vs"
    and "\<forall>v \<in> set vs. v \<in> set (mkeys (node_Peers (e_node (sw_engine s i)))) \<and> i \<noteq> v \<and> follows (sw_engine s i) (sw_engine s v)"
  shows "\<exists>s'. (swarm_step cd um c sub)\<^sup>*\<^sup>* s s' \<and> advances (sw_engine s i) (sw_engine s' i) \<and>
    (\<forall>v \<in> set vs. LatestIndex (e_log (sw_engine s i)) \<le> mget0 0 (MatchIndex (e_node (sw_engine s' i))) v)"
  using assms(2-7)
proof (induction vs arbitrary: s n)
  case Nil
  then show ?case using advances_refl by auto
next
  case (Cons v vs)
  have v: "v \<in> set (mkeys (node_Peers (e_node (sw_engine s i))))" "i \<noteq> v" "follows (sw_engine s i) (sw_engine s v)"
    using Cons.prems(6) by simp_all
  have k: "NextIndexFor (e_node (sw_engine s i)) v \<le> int (nat (NextIndexFor (e_node (sw_engine s i)) v))" by simp
  obtain s1 where s1: "(swarm_step cd um c sub)\<^sup>*\<^sup>* s s1" "advances (sw_engine s i) (sw_engine s1 i)"
      "LatestIndex (e_log (sw_engine s i)) \<le> mget0 0 (MatchIndex (e_node (sw_engine s1 i))) v"
      "\<forall>j. j \<noteq> i \<and> j \<noteq> v \<longrightarrow> sw_engine s1 j = sw_engine s j"
    using catches_up [OF ok Cons.prems(1-4) v k] by blast
  obtain n1 where n1: "sound cd um cfg c sub s1 n1" using sound_run [OF ok s1(1) Cons.prems(1)] by blast
  note kept = advances_keeps [OF s1(2)]
  have "\<forall>u \<in> set vs. u \<in> set (mkeys (node_Peers (e_node (sw_engine s1 i)))) \<and> i \<noteq> u \<and> follows (sw_engine s1 i) (sw_engine s1 u)"
    using Cons.prems(5,6) s1(4) kept(7,9) by (auto simp: follows_def)
  then obtain s' where s': "(swarm_step cd um c sub)\<^sup>*\<^sup>* s1 s'" "advances (sw_engine s1 i) (sw_engine s' i)"
      "\<forall>u \<in> set vs. LatestIndex (e_log (sw_engine s1 i)) \<le> mget0 0 (MatchIndex (e_node (sw_engine s' i))) u"
    using Cons.IH [OF n1 tracks_run [OF s1(1) Cons.prems(2)]] Cons.prems(3-5) kept by (auto simp: IsLeader_def)
  have "LatestIndex (e_log (sw_engine s i)) \<le> mget0 0 (MatchIndex (e_node (sw_engine s' i))) v"
    using s1(3) advances_keeps(10) [OF s'(2), of v] by linarith
  then show ?case
    using rtranclp_trans [OF s1(1) s'(1)] advances_trans [OF s1(2) s'(2)] s'(3) kept(1) by (intro exI [of _ s']) simp
qed

section \<open>The tick\<close>

lemma quorum_members:
  assumes "quorum_of cfg (insert i A)"
  shows "quorum_of cfg (insert i (A \<inter> set (mkeys (Peers cfg i))))"
proof -
  have p: "v \<in> set (mkeys (Peers cfg i)) \<longleftrightarrow> IsMember cfg v \<and> v \<noteq> i" for v using dom_Peers [of v cfg i] gm.keys_dom by metis
  have "dom (mget m) \<inter> insert i (A \<inter> set (mkeys (Peers cfg i))) = dom (mget m) \<inter> insert i A" if "m = Voters cfg \<or> m = OldVoters cfg" for m
    using that by (auto simp: p IsMember_def IsVoter_def dom_def)
  then show ?thesis using assms majority_of_cong unfolding quorum_of_def by metis
qed

lemma quorum_commits:
  assumes ok: "cfg_ok (config rn)" and "Role rn = Leader" and "mwf (MatchIndex rn)" and L: "0 < L" "termAt L = t"
    and "\<And>p k. mget (MatchIndex rn) p = Some k \<Longrightarrow> k \<le> L"
    and q: "quorum_of (config rn) (insert (nodeID rn) V)" and "\<forall>v \<in> V. L \<le> mget0 0 (MatchIndex rn) v"
  shows "L \<le> CommitIndex (snd (AdvanceCommitIndex L termAt t rn))"
proof -
  define mi where "mi = mput (nodeID rn) L (MatchIndex rn)"
  have copy: "fold (\<lambda>(i, idx). mput i idx) (MatchIndex rn) [] = MatchIndex rn"
    using fold_mput_append [of "[]" "MatchIndex rn"] assms(3) by (simp add: mwf_def)
  have "insert (nodeID rn) V \<subseteq> holders mi L" using assms(8) by (auto simp: holders_def mi_def)
  then have "L \<le> QuorumIndex (config rn) mi" using q cq.quorum_mono QuorumIndex_ge_iff [OF ok] by metis
  moreover have "mget0 0 mi p \<le> L" for p
    using assms(6) [of p] L(1) by (cases "mget (MatchIndex rn) p") (auto simp: mi_def mget0_mget gm.lookup_put)
  then have "holders mi (L + 1) = {}" by (simp add: holders_def not_le)
  then have "\<not> L + 1 \<le> QuorumIndex (config rn) mi" using cq.quorum_nonempty [OF ok] QuorumIndex_ge_iff [OF ok] by metis
  ultimately have "QuorumIndex (config rn) mi = L" by simp
  then show ?thesis using assms(2) L(2) by (auto simp: AdvanceCommitIndex_def copy mi_def Let_def)
qed

text \<open>An answer that was given stays given.\<close>

definition answersStay :: "Engine \<Rightarrow> Engine \<Rightarrow> bool" where
  "answersStay e e' \<longleftrightarrow> set (e_replies e) \<subseteq> set (e_replies e')"

lemma answersStay_trans [trans]: "answersStay e e1 \<Longrightarrow> answersStay e1 e2 \<Longrightarrow> answersStay e e2"
  by (auto simp: answersStay_def)

lemma answersStay_same: "e_replies e' = e_replies e \<Longrightarrow> answersStay e e'"
  by (simp add: answersStay_def)

lemma answersStay_fold:
  assumes "\<And>w e. answersStay e (g w e)"
  shows "answersStay x e \<Longrightarrow> answersStay x (fold g ws e)"
proof (induction ws arbitrary: e)
  case (Cons w ws)
  from Cons.IH [OF answersStay_trans [OF Cons.prems assms]] show ?case by simp
qed simp

lemma answersStay_sweeps:
  "answersStay e (sweepExpiredWaiters now e)" "answersStay e (sweepExpiredReads now e)" "answersStay e (sweepExpiredApplyWaiters now e)"
  "answersStay e (fireApplyWaiters e)" "answersStay e (fireReadWaiters e)" "answersStay e (failAllWaiters err e)" "answersStay e (failAllReads err e)"
proof -
  have r: "answersStay x (send_reply r x)" for x r by (auto simp: answersStay_def send_reply_def)
  have c: "answersStay x e \<Longrightarrow> answersStay x (e\<lparr>e_waiters := ws\<rparr>)" "answersStay x e \<Longrightarrow> answersStay x (e\<lparr>e_reads := rs\<rparr>)"
    "answersStay x e \<Longrightarrow> answersStay x (e\<lparr>e_applyWaiters := aws\<rparr>)" for x e ws rs aws by (simp_all add: answersStay_def)
  have i: "answersStay x x" for x by (simp add: answersStay_def)
  show "answersStay e (sweepExpiredWaiters now e)" "answersStay e (sweepExpiredReads now e)" "answersStay e (sweepExpiredApplyWaiters now e)"
    "answersStay e (fireApplyWaiters e)" "answersStay e (fireReadWaiters e)" "answersStay e (failAllWaiters err e)" "answersStay e (failAllReads err e)"
    unfolding sweepExpiredWaiters_def sweepExpiredReads_def sweepExpiredApplyWaiters_def fireApplyWaiters_def fireReadWaiters_def
      failAllWaiters_def failAllReads_def Let_def case_prod_unfold
    by (simp_all add: answersStay_fold r c i)
qed

interpretation rpl: unapplied e_replies
  by unfold_locales simp_all

lemma answersStay_quorum: "answersStay e (checkQuorum now e)"
proof -
  have s: "answersStay e (stopReplicators (e\<lparr>e_node := rn\<rparr>))" for rn by (intro answersStay_same) (simp add: stopReplicators_def)
  have "answersStay e (failAllReads err (failAllWaiters err (stopReplicators (e\<lparr>e_node := rn\<rparr>))))" for err rn
    using s answersStay_sweeps(6,7) answersStay_trans by blast
  then show ?thesis
    by (auto simp: checkQuorum_def noteQuorumConfirmed_def Let_def intro: answersStay_same split: prod.split bool.split)
qed

lemma tick_answers:
  assumes "e1 = tickFront cd rnd rnd' now (reconcileLeadership e)"
  shows "answersStay e1 (onTick cd rnd rnd' now e)"
proof -
  let ?e2 = "applyCommitted cd e1"
  let ?e3 = "fireApplyWaiters (fireReadWaiters (maybeCompact cd ?e2))"
  let ?e4 = "if IsLeader (e_node ?e3) then checkQuorum now ?e3 else ?e3"
  have 2: "answersStay e1 ?e2" "answersStay e1 (maybeCompact cd ?e2)" by (simp_all add: answersStay_def rpl.applies)
  have 3: "answersStay e1 ?e3" by (rule answersStay_trans [OF answersStay_trans [OF 2(2) answersStay_sweeps(5)] answersStay_sweeps(4)])
  then have "answersStay e1 ?e4" using answersStay_trans [OF 3 answersStay_quorum] by simp
  then have "answersStay e1 (sweepExpiredApplyWaiters now (sweepExpiredReads now (sweepExpiredWaiters now ?e4)))"
    by (rule answersStay_trans [OF answersStay_trans [OF answersStay_trans [OF _ answersStay_sweeps(1)] answersStay_sweeps(2)] answersStay_sweeps(3)])
  then show ?thesis using 2(1) by (simp add: onTick_eq assms [symmetric] Let_def)
qed

lemma tick_keeps_log:
  assumes e': "e' = onTick cd rnd rnd' now e"
    and n: "int (length (cache (e_log (tickFront cd rnd rnd' now (reconcileLeadership e))))) <
      compactionThreshold (e_log (tickFront cd rnd rnd' now (reconcileLeadership e)))"
  shows "e_log e' = e_log (tickFront cd rnd rnd' now (reconcileLeadership e))"
proof -
  let ?e1 = "tickFront cd rnd rnd' now (reconcileLeadership e)"
  have "maybeCompact cd (applyCommitted cd ?e1) = applyCommitted cd ?e1"
    using n by (simp add: maybeCompact_def NeedsCompaction_def apply_log Let_def split: prod.split)
  then show ?thesis using e' by (simp add: onTick_eq apply_log lgv.sweeps check_quorum_log Let_def)
qed

text \<open>A tick of a leader whose last entry a quorum holds.\<close>

lemma tick_completes:
  assumes e: "IsLeader (e_node e)" "\<not> e_halted e" "\<not> e_done e" and w: "w \<in> set (e_waiters e)" "w_term w = node_CurrentTerm (e_node e)"
    and L: "w_index w \<le> LatestIndex (e_log e)"
      "LatestIndex (e_log e) \<le> CommitIndex (snd (AdvanceCommitIndex (LatestIndex (e_log e)) (TermAt (e_log e)) (node_CurrentTerm (e_node e)) (e_node e)))"
    and u: "uncompacted cd um e" and e': "e' = engineStep cd (Turn 0 0 now EvTick) e"
  shows "uncompacted cd um e'" and "ProposalDone (w_resultCh w) None \<in> set (e_replies e')"
    and "e_halted e' \<or> w_index w \<le> LastApplied (e_node e')"
proof -
  let ?r = "reconcileLeadership e"
  let ?rn = "snd (AdvanceCommitIndex (LatestIndex (e_log e)) (TermAt (e_log e)) (node_CurrentTerm (e_node e)) (e_node e))"
  define e1 where "e1 = tickFront cd 0 0 now ?r"
  have t: "e' = onTick cd 0 0 now e" using e e' by (simp add: engineStep_def runTurn_def)
  have r: "e_node ?r = e_node e" "e_log ?r = e_log e" using reconcile_same by simp_all
  have "e_waiters ?r = e_waiters e" using e(1)
    by (simp add: reconcileLeadership_def node_State_def IsLeader_def startReplicators_def stopReplicators_def Let_def)
  then have e1: "e1 = fireCommittedWaiters (CommitIndex ?rn) (node_CurrentTerm (e_node e)) (?r\<lparr>e_node := ?rn\<rparr>)" "w \<in> set (e_waiters ?r)"
    using e(1) r w(1) by (simp_all add: e1_def tickFront_def node_State_def IsLeader_def node_CurrentTerm_def Let_def)
  have "ProposalDone (w_resultCh w) None \<in> set (e_replies e1)"
    using e1 w(2) L by (auto simp: fireCommittedWaiters_eq)
  then show "ProposalDone (w_resultCh w) None \<in> set (e_replies e')"
    using tick_answers [OF e1_def] t by (auto simp: answersStay_def)
  have "e_log e' = e_log e" using tick_keeps_log [OF t] e1(1) u r(2) by (simp add: e1_def [symmetric] fire_committed uncompacted_def)
  then show u': "uncompacted cd um e'" using u by (simp add: uncompacted_def)
  show "e_halted e' \<or> w_index w \<le> LastApplied (e_node e')"
  proof (cases "e_halted e'")
    case False
    then have a: "applied e' = applied (applyCommitted cd e1)" using tick_log(2) [OF t u'] by (simp add: e1_def)
    obtain cs m where "appliedRun cd (CommitIndex (e_node e1)) e1 (applyCommitted cd e1) cs m"
      using applyLoop_run by (fastforce simp: applyCommitted_def CommitAndApplyBoundary_def)
    moreover have "\<not> e_halted (applyCommitted cd e1)" using a False by (simp add: applied_def)
    ultimately have "CommitIndex (e_node e1) \<le> LastApplied (e_node (applyCommitted cd e1))" by (auto simp: appliedRun_def Let_def)
    moreover have "CommitIndex (e_node e1) = CommitIndex ?rn" by (simp add: e1(1) fire_committed)
    ultimately show ?thesis using a L by (simp add: applied_def)
  qed simp
qed

section \<open>Pending writes\<close>

lemma pending_completes:
  assumes ok: "cfg_ok cfg" and s0: "swarm_initial cd um cfg c s0" "(swarm_step cd um c sub)\<^sup>*\<^sup>* s0 s"
    and e: "0 < i" "IsLeader (e_node (sw_engine s i))" "\<not> e_halted (sw_engine s i)" "\<not> e_done (sw_engine s i)" "uncompacted cd um (sw_engine s i)"
    and w: "w \<in> set (e_waiters (sw_engine s i))" "w_term w = node_CurrentTerm (e_node (sw_engine s i))"
    and A: "quorum_of cfg (insert i A)" "\<forall>v \<in> A - {i}. follows (sw_engine s i) (sw_engine s v)"
  obtains s' where "(swarm_step cd um c sub)\<^sup>*\<^sup>* s s'" "ProposalDone (w_resultCh w) None \<in> set (e_replies (sw_engine s' i))"
    "e_halted (sw_engine s' i) \<or> w_index w \<le> LastApplied (e_node (sw_engine s' i))"
proof -
  obtain n where n: "sound cd um cfg c sub s n" using sound_reached [OF ok s0 rtranclp.rtrancl_refl] by metis
  have t0: "\<forall>j. tracks (e_node (sw_engine s0 j))"
  proof
    fix j
    obtain rnd rn rl f where "sw_engine s0 j = NewWithTransport rnd rn rl (machineAfter c []) f" "Role rn = Follower"
      using s0(1) unfolding swarm_initial_def by blast
    then show "tracks (e_node (sw_engine s0 j))"
      by (simp add: tracks_def NewWithTransport_def resetElectionTimeout_def SetMinElectionTimeout_def)
  qed
  have cov: "covers cd um cfg s n" using n by (simp add: sound_def)
  note f = leader_facts [OF ok cov e(2)]
  let ?V = "A \<inter> set (mkeys (Peers cfg i))" and ?L = "LatestIndex (e_log (sw_engine s i))"
  have "i \<notin> set (mkeys (Peers cfg i))" using dom_Peers [of i cfg i] gm.keys_dom by metis
  moreover obtain vs where vs: "set vs = ?V" "distinct vs" using finite_distinct_list [of ?V] by auto
  moreover have "set (mkeys (node_Peers (e_node (sw_engine s i)))) = set (mkeys (Peers cfg i))" using f(1,2) by (simp add: node_Peers_def)
  ultimately obtain s1 where s1: "(swarm_step cd um c sub)\<^sup>*\<^sup>* s s1" "advances (sw_engine s i) (sw_engine s1 i)"
      "\<forall>v \<in> ?V. ?L \<le> mget0 0 (MatchIndex (e_node (sw_engine s1 i))) v"
    using all_catch_up [OF ok n tracks_run [OF s0(2) t0] e(2,3) vs(2)] A(2) by (metis DiffI IntD1 IntD2 singletonD)
  obtain n1 where n1: "sound cd um cfg c sub s1 n1" using sound_run [OF ok s1(1) n] by blast
  note k = advances_keeps [OF s1(2)]
  have lead: "IsLeader (e_node (sw_engine s1 i))" using e(2) k(6) by (simp add: IsLeader_def)
  have cov1: "covers cd um cfg s1 n1" using n1 by (simp add: sound_def)
  note f1 = leader_facts [OF ok cov1 lead]
  obtain en now where en: "GetEntry (e_log (sw_engine s i)) (w_index w) = Some en" "Term en = node_CurrentTerm (e_node (sw_engine s i))"
    using n w e(2) by (auto simp: sound_def healthy_def ackInv_def ownEntry_def IsLeader_def node_CurrentTerm_def)
  note l = f(6) [OF en]
  let ?e1 = "sw_engine s1 i" and ?e' = "engineStep cd (Turn 0 0 0 EvTick) (sw_engine s1 i)"
  have "?L \<le> CommitIndex (snd (AdvanceCommitIndex ?L (TermAt (e_log ?e1)) (node_CurrentTerm (e_node ?e1)) (e_node ?e1)))"
    by (rule quorum_commits [of _ _ _ _ ?V])
      (use ok f1(1-4) lead l k(1,7) quorum_members [OF A(1)] s1(3) in \<open>auto simp: IsLeader_def\<close>)
  moreover have "uncompacted cd um ?e1" using e(5) k(1) by (simp add: uncompacted_def)
  ultimately have d: "uncompacted cd um ?e'" "ProposalDone (w_resultCh w) None \<in> set (e_replies ?e')"
      "e_halted ?e' \<or> w_index w \<le> LastApplied (e_node ?e')"
    using tick_completes [OF lead _ _ _ _ _ _ _ refl, of w cd um 0] e(3,4) w k l by simp_all
  let ?s' = "s1\<lparr>sw_engine := (sw_engine s1)(i := ?e'), sw_polls := sw_polls s1 \<union> voteRequests ?e'\<rparr>"
  have "swarm_step cd um c sub s1 ?s'"
    by (rule swarm_step.turn [OF e(1) _ _ refl d(1)]) (simp_all add: genuine_def carries_def)
  with s1(1) have "(swarm_step cd um c sub)\<^sup>*\<^sup>* s ?s'" by (rule rtranclp.rtrancl_into_rtrancl)
  then show thesis using that [of ?s'] d(2,3) by simp
qed

section \<open>A run\<close>

text \<open>Two servers: the first is elected with the vote of the second and takes a command.\<close>

definition pairServer :: "int \<Rightarrow> Engine" where
  "pairServer v = NewWithTransport 0 ((demoNode v)\<lparr>config := pairConfig\<rparr>) (demoWhole []) NewMemoryStateMachine
     \<lparr>visible = None, survivors = [None], calls = []\<rparr>"

definition pairVoter :: Engine where
  "pairVoter = snd (engine_HandleRequestVote 1000000000 pairRequest (pairServer 2))"

definition pairBusy :: Engine where
  "pairBusy = engineStep demoCodecs (Turn 0 0 1000000001 (EvProposal soloCommand 7)) pairLeader"

definition pairSwarm :: "Engine \<Rightarrow> Engine \<Rightarrow> Swarm" where
  "pairSwarm e f = \<lparr>sw_engine = pairServer(1 := e, 2 := f), sw_polls = {}, sw_sent = {}, sw_answers = {}, sw_granted = {}\<rparr>"

abbreviation "pairStep \<equiv> swarm_step demoCodecs demoUnmarshal demoSettings (\<lambda>_. soloCommand)"

lemma pair_cfg: "cfg_ok pairConfig"
  by (simp add: cfg_ok_def cfg_wf_def pairConfig_def mwf_def mkeys_def IsJoint_def)

lemma pair_initial: "swarm_initial demoCodecs demoUnmarshal pairConfig demoSettings (pairSwarm pairEngine (pairServer 2))"
proof -
  have w: "whole demoMarshal demoUnmarshal (demoWhole [])" using demoWhole_ok by (simp add: whole_def codec_ok_def)
  have p: "pairEngine = pairServer 1" by (simp add: pairEngine_def pairServer_def)
  show ?thesis unfolding swarm_initial_def pairSwarm_def p
    by (auto simp: pairServer_def demoNode_def durable_def demoCodecs_def w lone_machine intro!: exI)
qed

lemma pair_voter:
  "engine_HandleRequestVote 1000000000 pairRequest (pairServer 2) = (\<lparr>rvr_Term = 1, rvr_VoteGranted = True\<rparr>, pairVoter)"
  "\<not> e_halted pairVoter" "saves (store (e_node pairVoter)) = []" "node_CurrentTerm (e_node pairVoter) = 1"
  using pair_last
  by (simp_all add: pairVoter_def engine_HandleRequestVote_def HandleRequestVote_def pairRequest_def pairServer_def NewWithTransport_def resetElectionTimeout_def
      SetMinElectionTimeout_def demoNode_def candidateUpToDate_def commitPersistentLocked_def Save_def node_CurrentTerm_def Let_def)

lemma pair_busy:
  "pairBusy = pairLeader\<lparr>e_log := demoWhole [\<lparr>Index = 1, Term = 1, Command = []\<rparr>, \<lparr>Index = 2, Term = 1, Command = ''k''\<rparr>],
     e_waiters := [\<lparr>w_index = 2, w_term = 1, w_resultCh = 7, w_deadline = 1000000001 + proposalTimeout\<rparr>],
     e_outbox := e_outbox pairLeader @ [Nudge 2]\<rparr>"
  using demoWhole_append [of "''k''" 1 "[\<lparr>Index = 1, Term = 1, Command = []\<rparr>]"]
  by (simp add: pairBusy_def engineStep_def runTurn_def handleProposal_def pair_promoted pairCampaign_def pairPolling_def pairNode_def pair_engine
      IsLeader_def node_CurrentTerm_def demoCodecs_def soloCommand_def notifyReplicators_def mkeys_def send_peer_def Let_def)

lemma pair_uncompacted:
  "uncompacted demoCodecs demoUnmarshal pairPolling" "uncompacted demoCodecs demoUnmarshal pairCampaign"
  "uncompacted demoCodecs demoUnmarshal pairLeader" "uncompacted demoCodecs demoUnmarshal pairBusy"
  by (simp_all add: uncompacted_def codec_ok_def demoCodecs_def pair_busy pair_leader(3) pairCampaign_def pairPolling_def pair_engine)
    (simp_all add: demoMarshal_def demoWhole_def Let_def)

lemma pair_requests: "voteRequests pairPolling = {}" "voteRequests pairCampaign = {pairRequest}" "voteRequests pairLeader = {pairRequest}"
  "voteRequests pairBusy = {pairRequest}"
  by (auto simp: voteRequests_def pair_busy pair_leader(5) pairCampaign_def pairPolling_def pair_engine)

definition pairWaiting :: Swarm where
  "pairWaiting = (pairSwarm pairBusy pairVoter)\<lparr>sw_polls := {pairRequest}, sw_granted := {(2, 1, 1)}\<rparr>"

lemma pair_waiting: "pairStep\<^sup>*\<^sup>* (pairSwarm pairEngine (pairServer 2)) pairWaiting"
proof -
  let ?s1 = "pairSwarm pairPolling (pairServer 2)"
  let ?s2 = "(pairSwarm pairCampaign (pairServer 2))\<lparr>sw_polls := {pairRequest}\<rparr>"
  let ?s3 = "(pairSwarm pairCampaign pairVoter)\<lparr>sw_polls := {pairRequest}, sw_granted := {(2, 1, 1)}\<rparr>"
  let ?s4 = "(pairSwarm pairLeader pairVoter)\<lparr>sw_polls := {pairRequest}, sw_granted := {(2, 1, 1)}\<rparr>"
  have turn: "pairStep s s'"
    if "genuine 1 s ev" "carries (\<lambda>_. soloCommand) (Turn 0 0 now ev)" "e' = engineStep demoCodecs (Turn 0 0 now ev) (sw_engine s 1)"
      "uncompacted demoCodecs demoUnmarshal e'" "s' = s\<lparr>sw_engine := (sw_engine s)(1 := e'), sw_polls := sw_polls s \<union> voteRequests e'\<rparr>" for s s' ev now e'
    using swarm_step.turn [OF _ that(1-4), of demoSettings] that(5) by simp
  have "pairStep (pairSwarm pairEngine (pairServer 2)) ?s1"
    by (rule turn [of _ EvTick 1000000000 pairPolling])
      (simp_all add: genuine_def carries_def pairSwarm_def pair_polling pair_uncompacted pair_requests fun_upd_twist)
  moreover have "pairStep ?s1 ?s2"
    by (rule turn [of _ "EvPreVote 1 2 \<lparr>pvr_Term = 0, pvr_VoteGranted = True\<rparr>" 1000000000 pairCampaign])
      (simp_all add: genuine_def carries_def pairSwarm_def pair_campaign pair_uncompacted pair_requests fun_upd_twist)
  moreover have "pairStep ?s2 ?s3"
    using swarm_step.vote [of pairRequest ?s2 2 1000000000 "\<lparr>rvr_Term = 1, rvr_VoteGranted = True\<rparr>" pairVoter] pair_voter(1)
    by (simp add: pairSwarm_def pairRequest_def pairServer_def NewWithTransport_def resetElectionTimeout_def)
  moreover have "pairStep ?s3 ?s4"
    by (rule turn [of _ "EvVote 1 2 \<lparr>rvr_Term = 1, rvr_VoteGranted = True\<rparr>" 1000000000 pairLeader])
      (simp_all add: genuine_def carries_def pairSwarm_def pairLeader_def [symmetric] pair_uncompacted pair_requests fun_upd_twist)
  moreover have "pairStep ?s4 pairWaiting"
    by (rule turn [of _ "EvProposal soloCommand 7" 1000000001 pairBusy])
      (simp_all add: genuine_def carries_def pairSwarm_def pairWaiting_def pairBusy_def [symmetric] pair_uncompacted pair_requests fun_upd_twist)
  ultimately show ?thesis by (meson rtranclp.rtrancl_into_rtrancl rtranclp.rtrancl_refl)
qed

section \<open>Properties\<close>



end
