(* ===== verification/Spec2Isabelle.thy ===== *)
theory Spec2Isabelle
  imports Raft_Config Raft_Log_Recovery Json_Codec Cluster_Demo Engine_Reads Engine_Timing Http_Server Test_Cluster Engine_Linear Engine_Progress
begin

text \<open>
  Crystal is a replicated key-value store: a Raft node keeps a log of commands in a
  write-ahead file, an engine drives elections, replication and application, a state
  machine executes the committed commands, and HTTP carries clients and peers.  This library
  models the Go sources under \<^verbatim>\<open>src/\<close> and proves what makes them correct.

  \<^bold>\<open>Parts and theories.\<close>

  \<^item> \<^verbatim>\<open>Go_Prelude\<close>: Go maps (association lists with distinct keys, under the locale
    \<open>go_map\<close>), nanosecond time, 64-bit wrap-around, outcomes of system calls.
  \<^item> \<^verbatim>\<open>Raft_Types\<close>: the structs of \<^verbatim>\<open>internal/raft/types.go\<close>.
  \<^item> \<^verbatim>\<open>Raft_Config\<close>: \<^verbatim>\<open>internal/raft/configuration.go\<close>, simple and joint configurations,
    quorums, the commit frontier.  Quorums intersect, also across a membership change.
  \<^item> \<^verbatim>\<open>Wal_File\<close>, \<^verbatim>\<open>Raft_Log\<close>: \<^verbatim>\<open>internal/raft/log.go\<close>.  The file is its content, the length
    known durable, and the old image while a rename is not yet durable; each system call
    takes its outcome from a script, so every theorem quantifies over every fault, partial
    writes included.  \<^verbatim>\<open>Raft_Log_Append\<close>, \<^verbatim>\<open>Raft_Log_Splice\<close>, \<^verbatim>\<open>Raft_Log_Snapshot\<close> hold the lemmas
    of the append, the follower's splice and the snapshot operations; \<^verbatim>\<open>Raft_Log_Spec\<close> relates
    them to a reference merge and an append-only store (locale \<open>append_store\<close>);
    \<^verbatim>\<open>Raft_Log_Recovery\<close> is crash recovery, restart and compaction.
  \<^item> \<^verbatim>\<open>Fs_Util\<close>, \<^verbatim>\<open>State_Store\<close>, \<^verbatim>\<open>Json_Codec\<close>: the atomic replacement of a file, the store of the
    term and vote (locale \<open>state_store\<close>, interpreted on the store of records and on the
    file), and the JSON text of the records, which round-trips.  \<^verbatim>\<open>Json_Text\<close>: JSON strings with
    UTF-8 and escapes, objects with sorted keys.  \<^verbatim>\<open>Json_Documents\<close>: the JSON of commands, of the
    state machine and of snapshot files.
  \<^item> \<^verbatim>\<open>Raft_Node\<close>: every method of \<^verbatim>\<open>internal/raft/node.go\<close>; \<^verbatim>\<open>Raft_Node_Spec\<close> and
    \<^verbatim>\<open>Raft_Node_Props\<close> say what each does on each branch; \<^verbatim>\<open>Cluster_Election\<close> puts nodes into
    a cluster with message loss, duplication, crashes and restarts as a step relation and
    proves election safety.
  \<^item> \<^verbatim>\<open>Replicator\<close>: \<^verbatim>\<open>internal/raft/replicator.go\<close>, one call to a peer and its effect; log repair
    terminates.
  \<^item> \<^verbatim>\<open>Raft_Protocol\<close>: the abstract protocol, terms and logs and the history of leaders, ballots
    and stored prefixes, with its invariant and leader completeness (locale
    \<open>server_quorums\<close>).  \<^verbatim>\<open>Cluster_Log\<close>: the cluster with its write-ahead logs and messages, a step
    relation over the handlers of nodes, logs and replicators.  \<^verbatim>\<open>Cluster_Log_Sim\<close>: every step of
    the cluster is matched by steps of the protocol.  \<^verbatim>\<open>Cluster_Safety\<close>: log matching, leader
    completeness and state machine safety of the code; \<^verbatim>\<open>Cluster_Demo\<close>: a run for the witnesses.
  \<^item> \<^verbatim>\<open>State_Machine\<close>, \<^verbatim>\<open>State_Machine_Spec\<close>: \<^verbatim>\<open>internal/store/statemachine.go\<close>; exactly-once
    execution, agreement of replicas (locale \<open>replica\<close>), snapshots.
  \<^item> \<^verbatim>\<open>Snapshot_Store\<close>: \<^verbatim>\<open>internal/store/snapshot.go\<close> and the restore of \<^verbatim>\<open>cmd/crystal/main.go\<close>.
  \<^item> \<^verbatim>\<open>Node_Config\<close>: \<^verbatim>\<open>internal/config/config.go\<close>, the flags, the peer list, its validation and the
    paths of the data files; quorums of the bootstrap memberships meet.  \<^verbatim>\<open>Node_Startup\<close>: \<^verbatim>\<open>main\<close> as
    far as it serves; the life of a node on disk through compaction, crash and restart.
  \<^item> \<^verbatim>\<open>Engine\<close>: \<^verbatim>\<open>internal/engine\<close>, the control loop with one definition per handler, the calls
    of peers and the rounds of the replicators, and their interleaving.  \<^verbatim>\<open>Engine_Frames\<close>: views
    of the engine that the helpers of the handlers leave alone (locales \<open>unwaited\<close>, \<open>uncrewed\<close>,
    \<open>unsent\<close>, \<open>aside\<close>, \<open>unapplied\<close>), interpreted on the views of the theories that follow.
    \<^verbatim>\<open>Engine_Clients\<close>: every client is answered once.  \<^verbatim>\<open>Engine_Apply\<close>: committed entries are
    applied in order.  \<^verbatim>\<open>Engine_Acks\<close>, \<^verbatim>\<open>Engine_Honest\<close>: a write is acknowledged only when it is
    in the log and committed.  \<^verbatim>\<open>Engine_Reads\<close>: when a linearizable read is released.
    \<^verbatim>\<open>Engine_Node\<close>: what an engine may do to its node (locale \<open>node_steps\<close>: a relation that the
    transitions of a node respect is respected by every action of the engine), with the
    well-formedness of the node as an instance.  \<^verbatim>\<open>Engine_Cluster\<close>: a cluster of engines, where
    the votes of a node are another instance; election safety of the engines, and a quorum
    elects.  \<^verbatim>\<open>Engine_Timing\<close>: the election timeout and the polls of a tick, a third instance.
  \<^item> \<^verbatim>\<open>Engine_Network\<close>: engines that talk only in messages they sent; what the control loop and the
    calls do to node and log is a run of \<^verbatim>\<open>Cluster_Log\<close>, handler by handler.  \<^verbatim>\<open>Engine_Replicas\<close>: the
    state machine of every server is the outcome of the committed entries it applied, so the
    replicas agree on the data, and an acknowledged write stays in every one of them.
  \<^item> \<^verbatim>\<open>Cluster_Reads\<close>: every commit index was a leader's, so a leader with an entry of its own term knows of
    all of them by that entry's index, while a majority is in no later term.  \<^verbatim>\<open>Engine_Evidence\<close>:
    the rounds, acknowledgements and the first entry of a leader, handler by handler.
    \<^verbatim>\<open>Engine_Linear\<close>: the cluster of engines with the rounds of their replicators; reads are linearizable, and see every write acknowledged before.
  \<^item> \<^verbatim>\<open>Engine_Channels\<close>: the goroutines of an engine, its channels (locale \<open>channel\<close>), the select of the
    control loop and the loop of \<^verbatim>\<open>replicator_loop.go\<close>; their effects on the engine are the
    actions of \<^verbatim>\<open>Engine\<close>, buffers are bounded, and no nudge to a replicator is lost.
  \<^item> \<^verbatim>\<open>Engine_Staleness\<close>: the stamps a bounded read is measured against, traced to the events that
    set them.
  \<^item> \<^verbatim>\<open>Engine_Progress\<close>: a leader that reaches a quorum can complete its pending writes, from every state of
    the cluster, by the calls of its replicators and a tick.
  \<^item> \<^verbatim>\<open>Http_Server\<close>: \<^verbatim>\<open>internal/transport/http.go\<close>, one definition per handler, and
    \<^verbatim>\<open>internal/raft/transport.go\<close>; what a client can submit never stops a node, and what each
    status tells a writer.
  \<^item> \<^verbatim>\<open>Fake_Net\<close>, \<^verbatim>\<open>Test_Cluster\<close>: the harness of \<^verbatim>\<open>internal/testcluster\<close>, a network with directed
    cuts, loss and delays and a cluster of engines over it.  What it builds is a start of the
    runs of \<^verbatim>\<open>Engine_Cluster\<close>; its election monitor never fires on them, and a minority elects
    nobody.

  \<^bold>\<open>State and interaction.\<close>  Each struct is a record with the source's fields; a method takes
  the record and returns it updated.  A mutex-protected method is one step.  Handlers of the
  control loop run to their end before another action of the engine; the findings of the
  manifest name the places where the code does not guarantee this.  Time is an argument.

  The cluster of \<^verbatim>\<open>Engine_Cluster\<close> has whole engines, any interleaving of their actions, any
  messages but for granted votes, write faults, compaction and restarts; election safety needs
  nothing of the logs.  The cluster of \<^verbatim>\<open>Cluster_Log\<close> has one membership, log files without write faults and no
  compaction: the findings show histories with a failed sync or a discarding snapshot in
  which a log and its file part.  The engines of \<^verbatim>\<open>Engine_Network\<close> run within the same limits, their
  logs shorter than the compaction threshold; compaction and the restart from a snapshot are
  treated for one node in \<^verbatim>\<open>Node_Startup\<close>.  Crashes, failed saves of the term and vote, and loss,
  duplication and reordering of messages are in it.

  The reads of \<^verbatim>\<open>Engine_Linear\<close> are those of a voter in a cluster without learners and outside a
  membership change, as \<^verbatim>\<open>main\<close> builds it, whose no-op can be written as JSON: the code counts
  acknowledgements against the number of voters and takes itself for one, and releases reads
  without an entry of the term when the no-op was not appended.  A server begins fewer than
  2 to the 64 rounds before it is restarted.

  \<^bold>\<open>Bounds.\<close>  Indices, terms and identifiers (Go \<^verbatim>\<open>int\<close>) are unbounded integers; the clock
  arithmetic of session expiry wraps at 64 bits and the round counter of the engine is a
  64-bit word.  No definition uses fuel: every loop has a termination proof.

  \<^bold>\<open>Parameters.\<close>  The definitions of the log, the node and the engine take their JSON encodings
  and the transport as arguments; the theorems that need more than their type say so in a
  hypothesis, and a witness shows it can hold.  \<open>jsonCodecs\<close> of \<^verbatim>\<open>Json_Documents\<close> is the encoding
  the program uses; its decoders read the text its encoders write, not every JSON text.

  \<^bold>\<open>Not modelled.\<close>  \<^verbatim>\<open>net/http\<close> and the listener of the main program, \<^verbatim>\<open>flag.Parse\<close>, the scheduling
  inside a handler (a round of a replicator and a turn of the control loop are one step each), the
  Windows \<^verbatim>\<open>SyncDir\<close>, and log output.
\<close>

end
